(* ===== verification/Ngx_Prelude.thy ===== *)
theory Ngx_Prelude
  imports Main "HOL-Library.Word"
begin

unbundle bit_operations_syntax

text \<open>
  Shared vocabulary of the development.

  \<^item> Bytes (\<open>u_char\<close>) are 8-bit words; a C pair (pointer, length) that a function only
    reads is the list of the bytes it spans.
  \<^item> Signed C integers (\<open>ngx_int_t\<close>, \<open>ssize_t\<close>, \<open>off_t\<close>, \<open>time_t\<close>) are \<open>int\<close>: signed
    overflow is undefined in C, so the development proves bounds instead of wrapping.
    Unsigned integers whose wrap-around the code relies on are words.
  \<^item> Return codes are the integers of \<open>src/core/ngx_core.h\<close> and
    \<open>src/http/ngx_http_request.h\<close>.
  \<^item> The platform is LP64 Unix: \<open>NGX_PTR_SIZE\<close> is 8, \<open>NGX_WIN32\<close> is not defined.

  The theory also holds the facts on bytes that the components share and the collections
  \<open>byte_simps\<close> (arithmetic of byte operations) and \<open>parser_step\<close> (the definitions of the
  per-state transition functions of the parsers).
\<close>

named_theorems byte_simps \<open>arithmetic reading of byte operations\<close>
named_theorems parser_step \<open>definitions of the per-state transition functions\<close>

subsection \<open>Types and constants\<close>

type_synonym u_char = "8 word"
type_synonym ngx_str = "u_char list"

abbreviation (input) NGX_OK :: int where "NGX_OK \<equiv> 0"
abbreviation (input) NGX_ERROR :: int where "NGX_ERROR \<equiv> -1"
abbreviation (input) NGX_AGAIN :: int where "NGX_AGAIN \<equiv> -2"
abbreviation (input) NGX_DONE :: int where "NGX_DONE \<equiv> -4"
abbreviation (input) NGX_DECLINED :: int where "NGX_DECLINED \<equiv> -5"

definition NGX_MAX_INT_T_VALUE :: int where
  "NGX_MAX_INT_T_VALUE = 9223372036854775807"

definition NGX_MAX_SIZE_T_VALUE :: int where
  "NGX_MAX_SIZE_T_VALUE = 9223372036854775807"

definition NGX_MAX_OFF_T_VALUE :: int where
  "NGX_MAX_OFF_T_VALUE = 9223372036854775807"

definition NGX_MAX_TIME_T_VALUE :: int where
  "NGX_MAX_TIME_T_VALUE = 9223372036854775807"


lemmas ngx_max_defs =
  NGX_MAX_INT_T_VALUE_def NGX_MAX_SIZE_T_VALUE_def NGX_MAX_OFF_T_VALUE_def NGX_MAX_TIME_T_VALUE_def

lemma ngx_max_nonneg [simp]:
  "0 \<le> NGX_MAX_INT_T_VALUE" "0 \<le> NGX_MAX_SIZE_T_VALUE"
  "0 \<le> NGX_MAX_OFF_T_VALUE" "0 \<le> NGX_MAX_TIME_T_VALUE"
  by (simp_all add: ngx_max_defs)

subsection \<open>Character constants of the C sources\<close>

abbreviation (input) ch_NUL :: u_char where "ch_NUL \<equiv> 0x00"
abbreviation (input) ch_HT :: u_char where "ch_HT \<equiv> 0x09"
abbreviation (input) ch_LF :: u_char where "ch_LF \<equiv> 0x0a"
abbreviation (input) ch_CR :: u_char where "ch_CR \<equiv> 0x0d"
abbreviation (input) ch_space :: u_char where "ch_space \<equiv> 0x20"
abbreviation (input) ch_excl :: u_char where "ch_excl \<equiv> 0x21"
abbreviation (input) ch_dquote :: u_char where "ch_dquote \<equiv> 0x22"
abbreviation (input) ch_hash :: u_char where "ch_hash \<equiv> 0x23"
abbreviation (input) ch_dollar :: u_char where "ch_dollar \<equiv> 0x24"
abbreviation (input) ch_percent :: u_char where "ch_percent \<equiv> 0x25"
abbreviation (input) ch_amp :: u_char where "ch_amp \<equiv> 0x26"
abbreviation (input) ch_quote :: u_char where "ch_quote \<equiv> 0x27"
abbreviation (input) ch_lparen :: u_char where "ch_lparen \<equiv> 0x28"
abbreviation (input) ch_rparen :: u_char where "ch_rparen \<equiv> 0x29"
abbreviation (input) ch_star :: u_char where "ch_star \<equiv> 0x2a"
abbreviation (input) ch_plus :: u_char where "ch_plus \<equiv> 0x2b"
abbreviation (input) ch_comma :: u_char where "ch_comma \<equiv> 0x2c"
abbreviation (input) ch_minus :: u_char where "ch_minus \<equiv> 0x2d"
abbreviation (input) ch_dot :: u_char where "ch_dot \<equiv> 0x2e"
abbreviation (input) ch_slash :: u_char where "ch_slash \<equiv> 0x2f"
abbreviation (input) ch_0 :: u_char where "ch_0 \<equiv> 0x30"
abbreviation (input) ch_1 :: u_char where "ch_1 \<equiv> 0x31"
abbreviation (input) ch_9 :: u_char where "ch_9 \<equiv> 0x39"
abbreviation (input) ch_colon :: u_char where "ch_colon \<equiv> 0x3a"
abbreviation (input) ch_semicolon :: u_char where "ch_semicolon \<equiv> 0x3b"
abbreviation (input) ch_lt :: u_char where "ch_lt \<equiv> 0x3c"
abbreviation (input) ch_eq :: u_char where "ch_eq \<equiv> 0x3d"
abbreviation (input) ch_gt :: u_char where "ch_gt \<equiv> 0x3e"
abbreviation (input) ch_question :: u_char where "ch_question \<equiv> 0x3f"
abbreviation (input) ch_lbracket :: u_char where "ch_lbracket \<equiv> 0x5b"
abbreviation (input) ch_backslash :: u_char where "ch_backslash \<equiv> 0x5c"
abbreviation (input) ch_rbracket :: u_char where "ch_rbracket \<equiv> 0x5d"
abbreviation (input) ch_underscore :: u_char where "ch_underscore \<equiv> 0x5f"
abbreviation (input) ch_tilde :: u_char where "ch_tilde \<equiv> 0x7e"
abbreviation (input) ch_A :: u_char where "ch_A \<equiv> 0x41"
abbreviation (input) ch_H :: u_char where "ch_H \<equiv> 0x48"
abbreviation (input) ch_P :: u_char where "ch_P \<equiv> 0x50"
abbreviation (input) ch_T :: u_char where "ch_T \<equiv> 0x54"
abbreviation (input) ch_Z :: u_char where "ch_Z \<equiv> 0x5a"
abbreviation (input) ch_a :: u_char where "ch_a \<equiv> 0x61"
abbreviation (input) ch_f :: u_char where "ch_f \<equiv> 0x66"
abbreviation (input) ch_z :: u_char where "ch_z \<equiv> 0x7a"

text \<open>The bytes of a C string literal, without the terminating zero.\<close>

definition bytes :: "string \<Rightarrow> u_char list" where
  "bytes s = map of_char s"

subsection \<open>Facts on bytes\<close>

lemma uint_byte_bounds [simp]: "0 \<le> uint (c::u_char)" "uint (c::u_char) < 256"
  using uint_lt2p [of c] by simp_all

lemma unat_byte_less [simp]: "unat (c::u_char) < 256"
  using unsigned_less [of c, where ?'a = nat] by simp

lemma unat_byte_div16 [simp]: "unat (c::u_char) div 16 < 16"
  using unat_byte_less [of c] by (simp add: div_less_iff_less_mult del: unat_byte_less)

lemma uint_byte_le [simp]: "uint (c::u_char) \<le> 255"
  using uint_byte_bounds(2) [of c] by linarith

lemma byte_less_iff: "(a::u_char) < b \<longleftrightarrow> uint a < uint b"
  by (simp add: word_less_def)

lemma byte_le_iff: "(a::u_char) \<le> b \<longleftrightarrow> uint a \<le> uint b"
  by (simp add: word_le_def)

lemma byte_eq_iff: "(a::u_char) = b \<longleftrightarrow> uint a = uint b"
  by (simp add: word_uint_eq_iff)

lemmas byte_cmp = byte_less_iff byte_le_iff byte_eq_iff

lemma unat_digit:
  "\<not> ch < (ch_0::u_char) \<Longrightarrow> \<not> ch_9 < ch \<Longrightarrow> 48 \<le> unat ch \<and> unat ch \<le> 57"
  "\<not> ch < (ch_1::u_char) \<Longrightarrow> \<not> ch_9 < ch \<Longrightarrow> 49 \<le> unat ch \<and> unat ch \<le> 57"
  by (simp_all add: word_less_nat_alt)

lemma uint_or_0x20 [byte_simps]:
  "uint ((c::u_char) OR 0x20) = (if odd (uint c div 32) then uint c else uint c + 32)"
proof -
  have "c OR 0x20 = set_bit 5 c"
    by (simp add: set_bit_eq_or)
  moreover have "uint (set_bit 5 c) = set_bit 5 (uint c)"
    by (simp add: set_bit_eq_or unsigned_or_eq)
  moreover have "bit (uint c) 5 = odd (uint c div 32)"
    by (simp add: bit_iff_odd)
  ultimately show ?thesis
    by (simp add: set_bit_eq)
qed

lemma uint_word_of_int_byte [simp]:
  "0 \<le> i \<Longrightarrow> i < 256 \<Longrightarrow> uint (word_of_int i :: u_char) = i"
  by (simp add: uint_word_of_int take_bit_int_eq_self)

lemma uint_word_of_nat_byte [simp]: "n < 256 \<Longrightarrow> uint (word_of_nat n :: u_char) = int n"
  by (simp add: unsigned_of_nat take_bit_nat_eq_self)

lemma unat_word_of_nat_byte [simp]: "n < 256 \<Longrightarrow> unat (word_of_nat n :: u_char) = n"
  by (simp add: unsigned_of_nat take_bit_nat_eq_self)

lemma unat_drop_bit_div [byte_simps]: "unat (drop_bit k (s::'a::len word)) = unat s div 2 ^ k"
  by (rule trans [OF unat_drop_bit_eq drop_bit_eq_div])

lemma unat_and_mask_mod [byte_simps]: "unat ((s::'a::len word) AND mask k) = unat s mod 2 ^ k"
proof -
  have "unat (take_bit k s) = take_bit k (unat s)"
    by (rule unsigned_take_bit_eq)
  then show ?thesis
    by (simp only: take_bit_eq_mask [symmetric]) (simp only: take_bit_eq_mod)
qed

lemma int_div_mod: "int (n div k) * int k + int (n mod k) = int n"
  by (simp only: of_nat_mult [symmetric] of_nat_add [symmetric] div_mult_mod_eq)

subsection \<open>Reading memory\<close>

text \<open>A read through a pointer: \<open>mem\<close> is the object the pointer points into, \<open>p\<close> the offset;
  \<open>None\<close> stands for a read outside the object.\<close>

definition rd :: "'a list \<Rightarrow> nat \<Rightarrow> 'a option" where
  "rd mem p = (if p < length mem then Some (mem ! p) else None)"

lemma rd_drop: "drop p mem = x # xs \<Longrightarrow> rd mem p = Some x"
  by (metis drop_eq_Nil2 hd_drop_conv_nth linorder_not_less list.distinct(1) list.sel(1) rd_def)

lemma drop_Suc_Cons: "drop p mem = x # xs \<Longrightarrow> drop (Suc p) mem = xs"
  by (metis drop_Suc list.sel(3) tl_drop)

lemma rd_None_iff [simp]: "rd mem p = None \<longleftrightarrow> length mem \<le> p"
  by (simp add: rd_def)

subsection \<open>Bitmaps indexed by a byte\<close>

text \<open>\<open>tab[ch >> 5] & (1U << (ch & 0x1f))\<close>, the membership test of the character tables.\<close>

definition bitmap_test :: "32 word list \<Rightarrow> u_char \<Rightarrow> bool" where
  "bitmap_test tab ch \<longleftrightarrow> tab ! unat (drop_bit 5 ch) AND push_bit (unat (ch AND 0x1f)) 1 \<noteq> 0"

lemma bitmap_test_bit: "bitmap_test tab ch = bit (tab ! (unat ch div 32)) (unat ch mod 32)"
proof -
  have "unat (ch AND 0x1f) = unat ch mod 32"
    using unat_and_mask_mod [of ch 5] by (simp add: mask_eq_exp_minus_1)
  moreover have "unat (drop_bit 5 ch) = unat ch div 32"
    using unat_drop_bit_div [of 5 ch] by simp
  moreover have "(w::32 word) AND push_bit n 1 \<noteq> 0 \<longleftrightarrow> bit w n" for w n
    by (simp add: push_bit_of_1 and_exp_eq_0_iff_not_bit)
  ultimately show ?thesis
    by (simp add: bitmap_test_def)
qed

end
