(* ===== verification/Ngx_Number.thy ===== *)
theory Ngx_Number
  imports Ngx_Prelude
begin

text \<open>
  Numbers in text: the readers \<open>ngx_atoi\<close>, \<open>ngx_atofp\<close>, \<open>ngx_atosz\<close>, \<open>ngx_atoof\<close>,
  \<open>ngx_atotm\<close>, \<open>ngx_hextoi\<close> and the printers \<open>ngx_sprintf_num\<close> and \<open>ngx_hex_dump\<close> of
  \<open>src/core/ngx_string.c\<close>.

  The readers share one contract, the locale \<open>radix_reader\<close>: a loop that accumulates
  digits and refuses exactly the inputs with a byte that is no digit or whose value
  exceeds the type's maximum. Its guard (\<open>cutoff\<close> and \<open>cutlim\<close>) is checked before the
  multiplication, so no signed overflow happens; the interpretations prove that.
\<close>

section \<open>The readers\<close>

text \<open>\<open>for (value = 0; n--; line++)\<close> of the four decimal readers: they differ in the type
  of \<open>value\<close>, that is in \<open>cutoff\<close> and \<open>cutlim\<close>.\<close>

fun ngx_atoi_loop :: "int \<Rightarrow> int \<Rightarrow> int \<Rightarrow> ngx_str \<Rightarrow> int" where
  "ngx_atoi_loop cutoff cutlim val [] = val"
| "ngx_atoi_loop cutoff cutlim val (c # line) =
     (if c < ch_0 \<or> c > ch_9 then NGX_ERROR
      else if val \<ge> cutoff \<and> (val > cutoff \<or> uint c - uint ch_0 > cutlim) then NGX_ERROR
      else ngx_atoi_loop cutoff cutlim (val * 10 + (uint c - uint ch_0)) line)"

definition ngx_atoi :: "ngx_str \<Rightarrow> int" where
  "ngx_atoi line =
     (if line = [] then NGX_ERROR
      else ngx_atoi_loop (NGX_MAX_INT_T_VALUE div 10) (NGX_MAX_INT_T_VALUE mod 10) 0 line)"

definition ngx_atosz :: "ngx_str \<Rightarrow> int" where
  "ngx_atosz line =
     (if line = [] then NGX_ERROR
      else ngx_atoi_loop (NGX_MAX_SIZE_T_VALUE div 10) (NGX_MAX_SIZE_T_VALUE mod 10) 0 line)"

definition ngx_atoof :: "ngx_str \<Rightarrow> int" where
  "ngx_atoof line =
     (if line = [] then NGX_ERROR
      else ngx_atoi_loop (NGX_MAX_OFF_T_VALUE div 10) (NGX_MAX_OFF_T_VALUE mod 10) 0 line)"

definition ngx_atotm :: "ngx_str \<Rightarrow> int" where
  "ngx_atotm line =
     (if line = [] then NGX_ERROR
      else ngx_atoi_loop (NGX_MAX_TIME_T_VALUE div 10) (NGX_MAX_TIME_T_VALUE mod 10) 0 line)"

text \<open>\<open>ngx_atofp\<close>: the loop carries \<open>value\<close>, \<open>dot\<close> and \<open>point\<close>; it returns the error or the
  value with what is left of \<open>point\<close>, which the second loop consumes.\<close>

fun ngx_atofp_scale :: "int \<Rightarrow> int \<Rightarrow> nat \<Rightarrow> int" where
  "ngx_atofp_scale cutoff val 0 = val"
| "ngx_atofp_scale cutoff val (Suc point) =
     (if val > cutoff then NGX_ERROR else ngx_atofp_scale cutoff (val * 10) point)"

fun ngx_atofp_loop :: "int \<Rightarrow> int \<Rightarrow> nat \<Rightarrow> nat \<Rightarrow> int \<Rightarrow> ngx_str \<Rightarrow> int" where
  "ngx_atofp_loop cutoff cutlim point dot val [] = ngx_atofp_scale cutoff val point"
| "ngx_atofp_loop cutoff cutlim point dot val (c # line) =
     (if point = 0 then NGX_ERROR
      else if c = ch_dot then
        (if dot \<noteq> 0 then NGX_ERROR else ngx_atofp_loop cutoff cutlim point 1 val line)
      else if c < ch_0 \<or> c > ch_9 then NGX_ERROR
      else if val \<ge> cutoff \<and> (val > cutoff \<or> uint c - uint ch_0 > cutlim) then NGX_ERROR
      else ngx_atofp_loop cutoff cutlim (point - dot) dot (val * 10 + (uint c - uint ch_0)) line)"

definition ngx_atofp :: "ngx_str \<Rightarrow> nat \<Rightarrow> int" where
  "ngx_atofp line point =
     (if line = [] then NGX_ERROR
      else ngx_atofp_loop (NGX_MAX_INT_T_VALUE div 10) (NGX_MAX_INT_T_VALUE mod 10) point 0 0 line)"

fun ngx_hextoi_loop :: "int \<Rightarrow> int \<Rightarrow> ngx_str \<Rightarrow> int" where
  "ngx_hextoi_loop cutoff val [] = val"
| "ngx_hextoi_loop cutoff val (ch # line) =
     (if val > cutoff then NGX_ERROR
      else if ch \<ge> ch_0 \<and> ch \<le> ch_9
      then ngx_hextoi_loop cutoff (val * 16 + (uint ch - uint ch_0)) line
      else let c = ch OR 0x20 in
        if c \<ge> ch_a \<and> c \<le> ch_f
        then ngx_hextoi_loop cutoff (val * 16 + (uint c - uint ch_a + 10)) line
        else NGX_ERROR)"

definition ngx_hextoi :: "ngx_str \<Rightarrow> int" where
  "ngx_hextoi line =
     (if line = [] then NGX_ERROR else ngx_hextoi_loop (NGX_MAX_INT_T_VALUE div 16) 0 line)"

section \<open>The printers\<close>

definition ngx_hex :: "u_char list" where
  "ngx_hex = bytes ''0123456789abcdef''"

definition ngx_HEX :: "u_char list" where
  "ngx_HEX = bytes ''0123456789ABCDEF''"

fun ngx_hex_dump :: "ngx_str \<Rightarrow> ngx_str" where
  "ngx_hex_dump [] = []"
| "ngx_hex_dump (s # src) =
     ngx_hex ! unat (drop_bit 4 s) # ngx_hex ! unat (s AND 0xf) # ngx_hex_dump src"

text \<open>The digit loops of \<open>ngx_sprintf_num\<close> fill \<open>temp\<close> from its end: \<open>acc\<close> is what follows
  the position \<open>p\<close>.\<close>

function sprintf_dec_loop :: "nat \<Rightarrow> u_char list \<Rightarrow> u_char list" where
  "sprintf_dec_loop ui acc =
     (let acc' = word_of_nat (ui mod 10 + 48) # acc
      in if ui div 10 \<noteq> 0 then sprintf_dec_loop (ui div 10) acc' else acc')"
  by pat_completeness auto
termination
  by (relation "measure fst") auto

function sprintf_hex_loop :: "u_char list \<Rightarrow> nat \<Rightarrow> u_char list \<Rightarrow> u_char list" where
  "sprintf_hex_loop hex ui acc =
     (let acc' = hex ! (ui mod 16) # acc
      in if ui div 16 \<noteq> 0 then sprintf_hex_loop hex (ui div 16) acc' else acc')"
  by pat_completeness auto
termination
  by (relation "measure (\<lambda>(h, ui, acc). ui)") auto

declare sprintf_dec_loop.simps [simp del] sprintf_hex_loop.simps [simp del]

text \<open>\<open>while (len++ < width && buf < last) *buf++ = zero\<close>, with \<open>room = last - buf\<close>.\<close>

function sprintf_pad_loop :: "u_char \<Rightarrow> nat \<Rightarrow> nat \<Rightarrow> nat \<Rightarrow> u_char list" where
  "sprintf_pad_loop zero len width room =
     (if len < width \<and> 0 < room
      then zero # sprintf_pad_loop zero (len + 1) width (room - 1) else [])"
  by pat_completeness auto
termination
  by (relation "measure (\<lambda>(z, len, width, room). room)") auto

declare sprintf_pad_loop.simps [simp del]

definition sprintf_num_digits :: "64 word \<Rightarrow> nat \<Rightarrow> u_char list" where
  "sprintf_num_digits ui64 hexadecimal =
     (if hexadecimal = 0 then
        (if ui64 \<le> 0xffffffff
         then sprintf_dec_loop (unat (ucast ui64 :: 32 word)) []
         else sprintf_dec_loop (unat ui64) [])
      else if hexadecimal = 1 then sprintf_hex_loop ngx_hex (unat ui64) []
      else sprintf_hex_loop ngx_HEX (unat ui64) [])"

definition ngx_sprintf_num :: "nat \<Rightarrow> 64 word \<Rightarrow> u_char \<Rightarrow> nat \<Rightarrow> nat \<Rightarrow> u_char list" where
  "ngx_sprintf_num room ui64 zero hexadecimal width =
     (let p = sprintf_num_digits ui64 hexadecimal;
          pad = sprintf_pad_loop zero (length p) width room
      in pad @ take (room - length pad) p)"

section \<open>The contract of the readers\<close>

definition dec_digit :: "u_char \<Rightarrow> int option" where
  "dec_digit c = (if ch_0 \<le> c \<and> c \<le> ch_9 then Some (uint c - 48) else None)"

definition hex_digit :: "u_char \<Rightarrow> int option" where
  "hex_digit c =
     (if ch_0 \<le> c \<and> c \<le> ch_9 then Some (uint c - 48)
      else if ch_a \<le> c OR 0x20 \<and> c OR 0x20 \<le> ch_f then Some (uint (c OR 0x20) - 87)
      else None)"

text \<open>The mathematical value of a digit string, unbounded.\<close>

fun radix_value :: "(u_char \<Rightarrow> int option) \<Rightarrow> int \<Rightarrow> int \<Rightarrow> ngx_str \<Rightarrow> int option" where
  "radix_value digit radix v [] = Some v"
| "radix_value digit radix v (c # cs) =
     (case digit c of None \<Rightarrow> None | Some d \<Rightarrow> radix_value digit radix (v * radix + d) cs)"

locale radix_reader =
  fixes loop :: "int \<Rightarrow> ngx_str \<Rightarrow> int"
    and digit :: "u_char \<Rightarrow> int option"
    and radix maxv :: int
  assumes loop_Nil: "loop v [] = v"
    and loop_bad: "digit c = None \<Longrightarrow> loop v (c # cs) = NGX_ERROR"
    and loop_digit: "digit c = Some d \<Longrightarrow> 0 \<le> v \<Longrightarrow> v \<le> maxv \<Longrightarrow>
      loop v (c # cs) = (if v * radix + d \<le> maxv then loop (v * radix + d) cs else NGX_ERROR)"
    and digit_range: "digit c = Some d \<Longrightarrow> 0 \<le> d \<and> d < radix"
    and radix_pos: "1 < radix"
begin

lemma value_mono: "0 \<le> v \<Longrightarrow> radix_value digit radix v cs = Some x \<Longrightarrow> v \<le> x"
proof (induction cs arbitrary: v)
  case Nil
  then show ?case by simp
next
  case (Cons c cs)
  then obtain d where d: "digit c = Some d" and x: "radix_value digit radix (v * radix + d) cs = Some x"
    by (auto split: option.splits)
  have "v \<le> v * radix"
    using Cons.prems(1) radix_pos mult_left_mono [of 1 radix v] by simp
  then have "v \<le> v * radix + d" "0 \<le> v * radix + d"
    using digit_range [OF d] Cons.prems(1) by linarith+
  with Cons.IH [OF _ x] show ?case by linarith
qed

lemma loop_value:
  "0 \<le> v \<Longrightarrow> v \<le> maxv \<Longrightarrow>
   loop v cs = (case radix_value digit radix v cs of
                  Some x \<Rightarrow> if x \<le> maxv then x else NGX_ERROR | None \<Rightarrow> NGX_ERROR)"
proof (induction cs arbitrary: v)
  case Nil
  then show ?case by (simp add: loop_Nil)
next
  case (Cons c cs)
  show ?case
  proof (cases "digit c")
    case None
    then show ?thesis by (simp add: loop_bad)
  next
    case (Some d)
    have nonneg: "0 \<le> v * radix + d"
      using Cons.prems(1) digit_range [OF Some] radix_pos by simp
    show ?thesis
    proof (cases "v * radix + d \<le> maxv")
      case True
      with nonneg Cons.IH show ?thesis
        by (simp add: loop_digit [OF Some Cons.prems] Some)
    next
      case False
      with nonneg value_mono [of "v * radix + d" cs] show ?thesis
        by (fastforce simp: loop_digit [OF Some Cons.prems] Some split: option.splits)
    qed
  qed
qed

lemma loop_range: "0 \<le> v \<Longrightarrow> v \<le> maxv \<Longrightarrow> loop v cs = NGX_ERROR \<or> 0 \<le> loop v cs \<and> loop v cs \<le> maxv"
  using value_mono [of v cs] by (auto simp: loop_value split: option.splits)

end

lemma dec_digit_range: "dec_digit c = Some d \<Longrightarrow> 0 \<le> d \<and> d < 10"
  by (auto simp: dec_digit_def byte_cmp split: if_splits)

lemma hex_digit_range: "hex_digit c = Some d \<Longrightarrow> 0 \<le> d \<and> d < 16"
  by (auto simp: hex_digit_def byte_cmp split: if_splits)

text \<open>The interpretations discharge the contract for the loops of the source. The third
  law says that the \<open>cutoff\<close> test is exactly the overflow test.\<close>

lemma cutoff_test:
  assumes "0 \<le> (d::int)" "d < 10" "0 \<le> m"
  shows "(v \<ge> m div 10 \<and> (v > m div 10 \<or> d > m mod 10)) \<longleftrightarrow> m < v * 10 + d"
proof -
  have m: "m = m div 10 * 10 + m mod 10" and "0 \<le> m mod 10" "m mod 10 < 10"
    by simp_all
  then show ?thesis
    using assms(1,2) by linarith
qed

interpretation dec_reader: radix_reader
  "ngx_atoi_loop (NGX_MAX_INT_T_VALUE div 10) (NGX_MAX_INT_T_VALUE mod 10)"
  dec_digit 10 NGX_MAX_INT_T_VALUE
proof unfold_locales
  fix c d cs and v :: int
  assume c: "dec_digit c = Some d" and "0 \<le> v"
  then have "d = uint c - 48" "\<not> (c < ch_0 \<or> c > ch_9)"
    by (auto simp: dec_digit_def not_less split: if_splits)
  moreover have "(v \<ge> NGX_MAX_INT_T_VALUE div 10 \<and>
      (v > NGX_MAX_INT_T_VALUE div 10 \<or> d > NGX_MAX_INT_T_VALUE mod 10)) \<longleftrightarrow>
      NGX_MAX_INT_T_VALUE < v * 10 + d"
    using dec_digit_range [OF c] by (intro cutoff_test) (auto simp: ngx_max_defs)
  ultimately show "ngx_atoi_loop (NGX_MAX_INT_T_VALUE div 10) (NGX_MAX_INT_T_VALUE mod 10) v (c # cs) =
      (if v * 10 + d \<le> NGX_MAX_INT_T_VALUE
       then ngx_atoi_loop (NGX_MAX_INT_T_VALUE div 10) (NGX_MAX_INT_T_VALUE mod 10) (v * 10 + d) cs
       else NGX_ERROR)"
    by simp
qed (auto simp: dec_digit_range dec_digit_def not_less not_le split: if_splits)

interpretation hex_reader: radix_reader
  "ngx_hextoi_loop (NGX_MAX_INT_T_VALUE div 16)" hex_digit 16 NGX_MAX_INT_T_VALUE
proof unfold_locales
  fix c d cs and v :: int
  assume c: "hex_digit c = Some d" and "0 \<le> v"
  have "v > NGX_MAX_INT_T_VALUE div 16 \<longleftrightarrow> NGX_MAX_INT_T_VALUE < v * 16 + d"
    using hex_digit_range [OF c] by (simp add: ngx_max_defs; linarith)
  then show "ngx_hextoi_loop (NGX_MAX_INT_T_VALUE div 16) v (c # cs) =
      (if v * 16 + d \<le> NGX_MAX_INT_T_VALUE
       then ngx_hextoi_loop (NGX_MAX_INT_T_VALUE div 16) (v * 16 + d) cs else NGX_ERROR)"
    using c by (auto simp: hex_digit_def Let_def split: if_splits)
qed (auto simp: hex_digit_range hex_digit_def Let_def split: if_splits)

section \<open>Correctness of the readers\<close>

text \<open>What a reader returns: the value of the digit string when it is a digit string of
  at least one digit and the value fits the type, \<open>NGX_ERROR\<close> otherwise.\<close>

definition read_number :: "(u_char \<Rightarrow> int option) \<Rightarrow> int \<Rightarrow> int \<Rightarrow> ngx_str \<Rightarrow> int" where
  "read_number digit radix maxv line =
     (if line = [] then NGX_ERROR
      else case radix_value digit radix 0 line of
             None \<Rightarrow> NGX_ERROR | Some x \<Rightarrow> if x \<le> maxv then x else NGX_ERROR)"

text \<open>C37. The decimal readers return the value of the digits, and \<open>NGX_ERROR\<close> exactly for
  the empty string, a byte that is no digit, or a value beyond the maximum of the type:
  the \<open>cutoff\<close>/\<open>cutlim\<close> guard neither lets an overflow pass nor refuses a value that fits.\<close>

theorem decimal_readers_spec:
  "ngx_atoi line = read_number dec_digit 10 NGX_MAX_INT_T_VALUE line
   \<and> ngx_atosz line = read_number dec_digit 10 NGX_MAX_SIZE_T_VALUE line
   \<and> ngx_atoof line = read_number dec_digit 10 NGX_MAX_OFF_T_VALUE line
   \<and> ngx_atotm line = read_number dec_digit 10 NGX_MAX_TIME_T_VALUE line"
  using dec_reader.loop_value [of 0 line]
  by (simp add: read_number_def ngx_atoi_def ngx_atosz_def ngx_atoof_def ngx_atotm_def ngx_max_defs
      split: option.splits)

lemma ngx_hextoi_read_number: "ngx_hextoi line = read_number hex_digit 16 NGX_MAX_INT_T_VALUE line"
  using hex_reader.loop_value [of 0 line]
  by (simp add: read_number_def ngx_hextoi_def split: option.splits)

lemma ngx_atoi_read_number: "ngx_atoi line = read_number dec_digit 10 NGX_MAX_INT_T_VALUE line"
  using dec_reader.loop_value [of 0 line]
  by (simp add: read_number_def ngx_atoi_def split: option.splits)

subsection \<open>Fixed point numbers\<close>

lemma scale_step_overflow: "(v::int) > NGX_MAX_INT_T_VALUE div 10 \<longleftrightarrow> NGX_MAX_INT_T_VALUE < v * 10"
  by (simp add: ngx_max_defs; linarith)

lemma mult_power10_gt:
  assumes "(m::int) < x" "0 \<le> m"
  shows "m < x * 10 ^ k"
proof -
  have "x * 1 \<le> x * 10 ^ k"
    using assms by (intro mult_left_mono) simp_all
  with assms(1) show ?thesis by linarith
qed

text \<open>The value \<open>x\<close> scaled by \<open>10 ^ k\<close>, or the error when that does not fit.\<close>

definition scaled :: "int \<Rightarrow> nat \<Rightarrow> int" where
  "scaled x k = (if x * 10 ^ k \<le> NGX_MAX_INT_T_VALUE then x * 10 ^ k else NGX_ERROR)"

lemma scaled_overflow: "NGX_MAX_INT_T_VALUE < x \<Longrightarrow> scaled x k = NGX_ERROR"
  using mult_power10_gt [of NGX_MAX_INT_T_VALUE x k] by (simp add: scaled_def)

lemma ngx_atofp_scale_value:
  "0 \<le> v \<Longrightarrow> v \<le> NGX_MAX_INT_T_VALUE \<Longrightarrow>
   ngx_atofp_scale (NGX_MAX_INT_T_VALUE div 10) v point = scaled v point"
proof (induction point arbitrary: v)
  case 0
  then show ?case by (simp add: scaled_def)
next
  case (Suc point)
  have "scaled v (Suc point) = scaled (v * 10) point"
    by (simp add: scaled_def mult.assoc)
  with Suc show ?case
    using scaled_overflow [of "v * 10" point] scale_step_overflow [of v] by fastforce
qed

text \<open>The loop after the dot, then the loop before it. Every digit string it accepts is
  read like by \<open>ngx_atoi\<close>; each digit after the dot consumes one unit of \<open>point\<close>.\<close>

definition fp_value :: "nat \<Rightarrow> int \<Rightarrow> ngx_str \<Rightarrow> ngx_str \<Rightarrow> int" where
  "fp_value point v i f =
     (case radix_value dec_digit 10 v (i @ f) of
        None \<Rightarrow> NGX_ERROR
      | Some x \<Rightarrow> if length f \<le> point then scaled x (point - length f) else NGX_ERROR)"

lemma fp_digit_step:
  assumes "dec_digit c = Some d" "0 \<le> v"
  shows "ngx_atofp_loop (NGX_MAX_INT_T_VALUE div 10) (NGX_MAX_INT_T_VALUE mod 10) point dot v (c # line) =
    (if point = 0 then NGX_ERROR
     else if v * 10 + d \<le> NGX_MAX_INT_T_VALUE
     then ngx_atofp_loop (NGX_MAX_INT_T_VALUE div 10) (NGX_MAX_INT_T_VALUE mod 10)
            (point - dot) dot (v * 10 + d) line
     else NGX_ERROR)"
proof -
  from assms(1) have "d = uint c - 48" "\<not> (c < ch_0 \<or> c > ch_9)" "c \<noteq> ch_dot"
    by (auto simp: dec_digit_def not_less split: if_splits)
  moreover have "(v \<ge> NGX_MAX_INT_T_VALUE div 10 \<and>
      (v > NGX_MAX_INT_T_VALUE div 10 \<or> d > NGX_MAX_INT_T_VALUE mod 10)) \<longleftrightarrow>
      NGX_MAX_INT_T_VALUE < v * 10 + d"
    using dec_digit_range [OF assms(1)] by (intro cutoff_test) (auto simp: ngx_max_defs)
  ultimately show ?thesis by simp
qed

lemma fp_overflow:
  assumes "NGX_MAX_INT_T_VALUE < v"
  shows "fp_value point v i f = NGX_ERROR"
proof (cases "radix_value dec_digit 10 v (i @ f)")
  case (Some x)
  have "0 \<le> v"
    using assms ngx_max_nonneg(1) by linarith
  with dec_reader.value_mono Some assms have "NGX_MAX_INT_T_VALUE < x"
    by fastforce
  with Some show ?thesis by (simp add: fp_value_def scaled_overflow)
qed (simp add: fp_value_def)

lemma dec_digit_dot: "dec_digit ch_dot = None"
  by (simp add: dec_digit_def)

lemma dec_digit_None: "dec_digit c = None \<longleftrightarrow> c < ch_0 \<or> c > ch_9"
  by (auto simp: dec_digit_def not_less not_le)

lemma fp_loop_fraction:
  "0 \<le> v \<Longrightarrow> v \<le> NGX_MAX_INT_T_VALUE \<Longrightarrow>
   ngx_atofp_loop (NGX_MAX_INT_T_VALUE div 10) (NGX_MAX_INT_T_VALUE mod 10) point 1 v f =
   fp_value point v [] f"
proof (induction f arbitrary: point v)
  case Nil
  then show ?case by (simp add: fp_value_def ngx_atofp_scale_value)
next
  case (Cons c f)
  show ?case
  proof (cases "dec_digit c")
    case None
    then have "c < ch_0 \<or> c > ch_9"
      by (simp add: dec_digit_None)
    with None show ?thesis by (simp add: fp_value_def)
  next
    case (Some d)
    have fp: "0 < point \<Longrightarrow> fp_value point v [] (c # f) = fp_value (point - 1) (v * 10 + d) [] f"
      using Some by (auto simp: fp_value_def split: option.splits)
    have "point = 0 \<Longrightarrow> fp_value point v [] (c # f) = NGX_ERROR"
      by (simp add: fp_value_def split: option.splits)
    with fp fp_overflow [of "v * 10 + d" "point - 1" "[]" f] Cons dec_digit_range [OF Some]
    show ?thesis by (simp add: fp_digit_step [OF Some Cons.prems(1)] not_le del: ngx_atofp_loop.simps(2))
  qed
qed

lemma fp_loop_integer:
  "0 \<le> v \<Longrightarrow> v \<le> NGX_MAX_INT_T_VALUE \<Longrightarrow> 0 < point \<Longrightarrow>
   ngx_atofp_loop (NGX_MAX_INT_T_VALUE div 10) (NGX_MAX_INT_T_VALUE mod 10) point 0 v line =
   fp_value point v (takeWhile (\<lambda>c. c \<noteq> ch_dot) line) (tl (dropWhile (\<lambda>c. c \<noteq> ch_dot) line))"
proof (induction line arbitrary: v)
  case Nil
  then show ?case by (simp add: fp_value_def ngx_atofp_scale_value)
next
  case (Cons c line)
  show ?case
  proof (cases "dec_digit c")
    case None
    then have "c < ch_0 \<or> c > ch_9"
      by (simp add: dec_digit_None)
    with None Cons.prems show ?thesis
      using fp_loop_fraction [of v point line] by (auto simp: fp_value_def split: option.splits)
  next
    case (Some d)
    then have "c \<noteq> ch_dot"
      by (auto simp: dec_digit_dot)
    with Some Cons dec_digit_range [OF Some] fp_overflow [of "v * 10 + d"] show ?thesis
      by (simp add: fp_digit_step [OF Some Cons.prems(1)] not_le fp_value_def
          del: ngx_atofp_loop.simps(2))
  qed
qed

text \<open>\<open>ngx_atofp\<close> reads a fixed point number: the digits before and after the first dot
  form one number, scaled to \<open>point\<close> decimals; more than \<open>point\<close> decimals, a second dot, any
  other byte and a result beyond the maximum are errors.\<close>

theorem ngx_atofp_spec:
  "ngx_atofp line point =
     (if line = [] \<or> point = 0 then NGX_ERROR
      else fp_value point 0 (takeWhile (\<lambda>c. c \<noteq> ch_dot) line)
             (tl (dropWhile (\<lambda>c. c \<noteq> ch_dot) line)))"
proof (cases "point = 0")
  case True
  then show ?thesis by (cases line) (simp_all add: ngx_atofp_def)
next
  case False
  then show ?thesis
    using fp_loop_integer [of 0 point line] by (simp add: ngx_atofp_def)
qed

section \<open>Correctness of the printers\<close>

lemma ngx_hex_digit: "k < 16 \<Longrightarrow> hex_digit (ngx_hex ! k) = Some (int k)"
  and ngx_HEX_digit: "k < 16 \<Longrightarrow> hex_digit (ngx_HEX ! k) = Some (int k)"
proof -
  have "list_all2 (\<lambda>k c. hex_digit c = Some (int k)) [0..<16] ngx_hex"
    and "list_all2 (\<lambda>k c. hex_digit c = Some (int k)) [0..<16] ngx_HEX"
    by code_simp+
  then show "k < 16 \<Longrightarrow> hex_digit (ngx_hex ! k) = Some (int k)"
    and "k < 16 \<Longrightarrow> hex_digit (ngx_HEX ! k) = Some (int k)"
    by (auto dest: list_all2_nthD)
qed

lemma nibbles:
  "unat (drop_bit 4 (s::u_char)) = unat s div 16" "unat ((s::u_char) AND 0xf) = unat s mod 16"
  using unat_drop_bit_div [of 4 s] unat_and_mask_mod [of s 4]
  by (simp_all add: mask_eq_exp_minus_1)

text \<open>The big-endian value of a byte string.\<close>

definition be_value :: "int \<Rightarrow> u_char list \<Rightarrow> int" where
  "be_value = foldl (\<lambda>v b. v * 256 + uint b)"

lemma radix_value_hex_dump: "radix_value hex_digit 16 v (ngx_hex_dump bs) = Some (be_value v bs)"
proof (induction bs arbitrary: v)
  case Nil
  then show ?case by (simp add: be_value_def)
next
  case (Cons b bs)
  have nib: "unat b div 16 < 16"
    using unat_byte_less [of b] by (simp only: less_mult_imp_div_less)
  have eq: "256 * v + int (unat b div 16) * 16 + int (unat b mod 16) = v * 256 + uint b"
    using int_div_mod [of "unat b" 16] by simp
  from nib Cons.IH [of "v * 256 + uint b"] show ?case
    by (simp add: ngx_hex_digit nibbles be_value_def eq)
qed

text \<open>Dumping bytes in hexadecimal and reading the text back gives the number the bytes
  denote in big-endian order, when that number fits \<open>ngx_int_t\<close>, and an error when not.\<close>

theorem hex_dump_roundtrip:
  "ngx_hextoi (ngx_hex_dump bs) =
     (if bs = [] \<or> be_value 0 bs > NGX_MAX_INT_T_VALUE then NGX_ERROR else be_value 0 bs)"
proof -
  have "ngx_hex_dump bs = [] \<longleftrightarrow> bs = []"
    by (cases bs) simp_all
  then show ?thesis
    by (simp add: ngx_hextoi_read_number read_number_def radix_value_hex_dump)
qed

subsection \<open>The digit loops of \<open>ngx_sprintf_num\<close>\<close>

lemma dec_digit_of: "d < 10 \<Longrightarrow> dec_digit (word_of_nat (d + 48)) = Some (int d)"
  by (simp add: dec_digit_def byte_cmp del: of_nat_add)

lemma radix_value_dec_loop:
  "radix_value dec_digit 10 0 (sprintf_dec_loop n acc) = radix_value dec_digit 10 (int n) acc"
proof (induction n acc rule: sprintf_dec_loop.induct)
  case (1 n acc)
  have step: "radix_value dec_digit 10 (int (n div 10)) (word_of_nat (n mod 10 + 48) # acc) =
      radix_value dec_digit 10 (int n) acc"
    using dec_digit_of [of "n mod 10"] int_div_mod [of n 10] by simp
  show ?case
  proof (cases "n div 10 = 0")
    case True
    with step show ?thesis by (simp add: sprintf_dec_loop.simps [of n] Let_def)
  next
    case False
    with "1.IH" [OF refl] step show ?thesis
      by (simp add: sprintf_dec_loop.simps [of n] Let_def)
  qed
qed

lemma radix_value_hex_loop:
  assumes "\<And>k. k < 16 \<Longrightarrow> hex_digit (hex ! k) = Some (int k)"
  shows "radix_value hex_digit 16 0 (sprintf_hex_loop hex n acc) = radix_value hex_digit 16 (int n) acc"
  using assms
proof (induction hex n acc rule: sprintf_hex_loop.induct)
  case (1 hex n acc)
  have step: "radix_value hex_digit 16 (int (n div 16)) (hex ! (n mod 16) # acc) =
      radix_value hex_digit 16 (int n) acc"
    using "1.prems" [of "n mod 16"] int_div_mod [of n 16] by simp
  show ?case
  proof (cases "n div 16 = 0")
    case True
    with step show ?thesis by (simp add: sprintf_hex_loop.simps [of _ n] Let_def)
  next
    case False
    with "1.IH" [OF refl] "1.prems" step show ?thesis
      by (simp add: sprintf_hex_loop.simps [of _ n] Let_def)
  qed
qed

text \<open>The buffer \<open>temp[NGX_INT64_LEN + 1]\<close>, of which \<open>NGX_INT64_LEN = 20\<close> bytes are used,
  holds every digit string.\<close>

lemma dec_loop_length: "n < 10 ^ k \<Longrightarrow> 0 < k \<Longrightarrow> length (sprintf_dec_loop n acc) \<le> k + length acc"
proof (induction n acc arbitrary: k rule: sprintf_dec_loop.induct)
  case (1 n acc)
  show ?case
  proof (cases "n div 10 = 0")
    case True
    with "1.prems" show ?thesis by (simp add: sprintf_dec_loop.simps [of n] Let_def)
  next
    case False
    then have "1 < k"
      using "1.prems" by (cases "k = 1") auto
    then have "n div 10 < 10 ^ (k - 1)"
      using "1.prems" by (simp add: div_less_iff_less_mult flip: power_Suc2)
    with "1.IH" [OF refl False this] \<open>1 < k\<close> False show ?thesis
      by (simp add: sprintf_dec_loop.simps [of n] Let_def)
  qed
qed

lemma hex_loop_length: "n < 16 ^ k \<Longrightarrow> 0 < k \<Longrightarrow> length (sprintf_hex_loop hex n acc) \<le> k + length acc"
proof (induction hex n acc arbitrary: k rule: sprintf_hex_loop.induct)
  case (1 hex n acc)
  show ?case
  proof (cases "n div 16 = 0")
    case True
    with "1.prems" show ?thesis by (simp add: sprintf_hex_loop.simps [of _ n] Let_def)
  next
    case False
    then have "1 < k"
      using "1.prems" by (cases "k = 1") auto
    then have "n div 16 < 16 ^ (k - 1)"
      using "1.prems" by (simp add: div_less_iff_less_mult flip: power_Suc2)
    with "1.IH" [OF refl False this] \<open>1 < k\<close> False show ?thesis
      by (simp add: sprintf_hex_loop.simps [of _ n] Let_def)
  qed
qed

lemma unat_ucast_32:
  assumes "(w::64 word) \<le> 0xffffffff"
  shows "unat (ucast w :: 32 word) = unat w"
proof -
  have "unat w < 2 ^ 32"
    using assms by (simp add: word_le_nat_alt)
  then show ?thesis
    by (simp add: unsigned_ucast_eq take_bit_nat_eq_self)
qed

lemma sprintf_digits_dec: "sprintf_num_digits ui 0 = sprintf_dec_loop (unat ui) []"
  by (simp add: sprintf_num_digits_def unat_ucast_32)

lemma unat_64_less: "unat (w::64 word) < 18446744073709551616"
  using unsigned_less [of w, where ?'a = nat] by simp

lemma sprintf_digits_length: "length (sprintf_num_digits ui hexadecimal) \<le> 20"
proof -
  have "length (sprintf_dec_loop (unat ui) []) \<le> 20"
    using dec_loop_length [of "unat ui" 20 "[]"] unat_64_less [of ui] by simp
  moreover have "length (sprintf_hex_loop hex (unat ui) []) \<le> 20" for hex
    using hex_loop_length [of "unat ui" 20 hex "[]"] unat_64_less [of ui] by simp
  ultimately show ?thesis
    using sprintf_digits_dec [of ui]
    by (cases "hexadecimal = 0") (simp_all add: sprintf_num_digits_def)
qed

lemma pad_loop_replicate:
  "sprintf_pad_loop zero len width room = replicate (min (width - len) room) zero"
proof (induction zero len width room rule: sprintf_pad_loop.induct)
  case (1 zero len width room)
  show ?case
  proof (cases "len < width \<and> 0 < room")
    case True
    then have "min (width - len) room = Suc (min (width - (len + 1)) (room - 1))"
      by auto
    with True "1.IH" show ?thesis
      by (simp add: sprintf_pad_loop.simps [of _ len])
  next
    case False
    then show ?thesis
      by (auto simp: sprintf_pad_loop.simps [of _ len])
  qed
qed

text \<open>\<open>ngx_sprintf_num\<close> never writes past \<open>last\<close>, uses at most \<open>NGX_INT64_LEN\<close> bytes of its
  temporary array, and with enough room writes the digits right-aligned in a field of the
  given width.\<close>

theorem ngx_sprintf_num_bounds:
  "length (ngx_sprintf_num room ui zero hexadecimal width) =
     min room (max width (length (sprintf_num_digits ui hexadecimal)))
   \<and> length (sprintf_num_digits ui hexadecimal) \<le> 20"
  using sprintf_digits_length [of ui hexadecimal]
  by (auto simp: ngx_sprintf_num_def Let_def pad_loop_replicate)

lemma radix_value_zeros:
  "digit z = Some 0 \<Longrightarrow> radix_value digit radix 0 (replicate k z @ xs) = radix_value digit radix 0 xs"
  by (induction k) simp_all

lemma sprintf_num_enough_room:
  assumes "20 \<le> room" "width \<le> room"
  shows "ngx_sprintf_num room ui zero hexadecimal width =
    replicate (width - length (sprintf_num_digits ui hexadecimal)) zero @ sprintf_num_digits ui hexadecimal"
proof -
  have "min (width - length (sprintf_num_digits ui hexadecimal)) room =
      width - length (sprintf_num_digits ui hexadecimal)"
    using assms by simp
  with assms sprintf_digits_length [of ui hexadecimal] show ?thesis
    by (simp add: ngx_sprintf_num_def pad_loop_replicate Let_def)
qed

lemma sprintf_digits_value:
  "radix_value dec_digit 10 0 (sprintf_num_digits ui 0) = Some (uint ui)"
  "0 < h \<Longrightarrow> radix_value hex_digit 16 0 (sprintf_num_digits ui h) = Some (uint ui)"
  by (simp add: sprintf_digits_dec radix_value_dec_loop)
    (simp add: sprintf_num_digits_def radix_value_hex_loop ngx_hex_digit ngx_HEX_digit)

lemma sprintf_digits_nonempty: "sprintf_num_digits ui h \<noteq> []"
proof -
  have "sprintf_dec_loop n acc \<noteq> []" for n acc
    by (induction n acc rule: sprintf_dec_loop.induct) (subst sprintf_dec_loop.simps, simp add: Let_def)
  moreover have "sprintf_hex_loop hex n acc \<noteq> []" for hex n acc
    by (induction hex n acc rule: sprintf_hex_loop.induct) (subst sprintf_hex_loop.simps, simp add: Let_def)
  ultimately show ?thesis
    by (simp add: sprintf_num_digits_def)
qed

text \<open>Printing and reading are inverse: a number printed in decimal is read back by
  \<open>ngx_atoi\<close>, in hexadecimal (either letter case) by \<open>ngx_hextoi\<close>, also with zero padding.\<close>

theorem sprintf_num_roundtrip:
  assumes "20 \<le> room" "width \<le> room" "uint ui \<le> NGX_MAX_INT_T_VALUE"
  shows "ngx_atoi (ngx_sprintf_num room ui ch_0 0 width) = uint ui
    \<and> ngx_hextoi (ngx_sprintf_num room ui ch_0 1 width) = uint ui
    \<and> ngx_hextoi (ngx_sprintf_num room ui ch_0 2 width) = uint ui"
proof -
  have "dec_digit ch_0 = Some 0" "hex_digit ch_0 = Some 0"
    by (simp_all add: dec_digit_def hex_digit_def)
  with assms show ?thesis
    by (simp add: ngx_atoi_read_number ngx_hextoi_read_number read_number_def
        sprintf_num_enough_room radix_value_zeros sprintf_digits_value sprintf_digits_nonempty)
qed

theorem sprintf_num_roundtrip_witness:
  "ngx_atoi (ngx_sprintf_num 24 1234 ch_0 0 6) = 1234
   \<and> ngx_hextoi (ngx_sprintf_num 24 1234 ch_0 1 6) = 1234
   \<and> ngx_hextoi (ngx_sprintf_num 24 1234 ch_0 2 6) = 1234"
  using sprintf_num_roundtrip [of 24 6 1234] by (simp add: ngx_max_defs)

end
