(* ===== verification/Ngx_Sprintf.thy ===== *)
theory Ngx_Sprintf
  imports Ngx_Number
begin

text \<open>
  Formatted printing: \<open>ngx_vslprintf\<close> of \<open>src/core/ngx_string.c\<close>, behind \<open>ngx_sprintf\<close>,
  \<open>ngx_snprintf\<close> and \<open>ngx_slprintf\<close>.

  The format is the list of its bytes without the terminating zero, the \<open>va_list\<close> the list of
  the arguments that are left, \<open>room\<close> is \<open>last - buf\<close>, the result the bytes written. \<open>None\<close> stands
  for undefined behaviour: an argument that is missing or of another kind than the format says,
  a read behind the end of the format or of a string argument. An argument of type \<open>double\<close> is
  not modelled, so the case \<open>'f'\<close> of the source finds no argument.
\<close>

section \<open>The functions\<close>

text \<open>What a variadic call passes on LP64: \<open>int\<close>, \<open>u_int\<close>, \<open>int32_t\<close>, \<open>ngx_pid_t\<close> have 32 bits;
  \<open>long\<close>, \<open>size_t\<close>, \<open>off_t\<close>, \<open>time_t\<close>, \<open>ngx_msec_t\<close>, \<open>rlim_t\<close> and the atomic types 64. A
  \<open>u_char *\<close> is the memory from the pointer on; \<open>ngx_str_t *\<close> and \<open>ngx_variable_value_t *\<close> the
  bytes they span.\<close>

datatype va_arg =
    Va_int "32 word"
  | Va_long "64 word"
  | Va_ptr "64 word"
  | Va_chars "u_char list"
  | Va_str ngx_str
  | Va_vv ngx_str

text \<open>The locals of one conversion that outlive the switch; \<open>slen\<close> is \<open>(size_t) -1\<close> when unset.\<close>

record fmt_spec =
  fs_zero :: u_char
  fs_width :: nat
  fs_sign :: bool
  fs_hex :: nat
  fs_max_width :: bool
  fs_frac_width :: nat
  fs_slen :: "64 word"

definition NGX_INT_T_LEN :: nat where "NGX_INT_T_LEN = length (bytes ''-9223372036854775808'')"

definition NGX_ATOMIC_T_LEN :: nat where "NGX_ATOMIC_T_LEN = length (bytes ''-9223372036854775808'')"

text \<open>\<open>while (*fmt >= '0' && *fmt <= '9') width = width * 10 + *fmt++ - '0'\<close>\<close>

fun fmt_number :: "nat \<Rightarrow> u_char list \<Rightarrow> nat \<times> u_char list" where
  "fmt_number w [] = (w, [])"
| "fmt_number w (c # fmt) =
     (if ch_0 \<le> c \<and> c \<le> ch_9 then fmt_number ((w * 10 + unat c - 48) mod 2 ^ 64) fmt
      else (w, c # fmt))"

text \<open>The loop \<open>for ( ;; )\<close> over the flags.\<close>

fun fmt_flags :: "fmt_spec \<Rightarrow> u_char list \<Rightarrow> va_arg list \<Rightarrow> (fmt_spec \<times> u_char list \<times> va_arg list) option" where
  "fmt_flags s [] args = Some (s, [], args)"
| "fmt_flags s (c # fmt) args =
     (if c = 0x75 then fmt_flags (s\<lparr>fs_sign := False\<rparr>) fmt args
      else if c = 0x6d then fmt_flags (s\<lparr>fs_max_width := True\<rparr>) fmt args
      else if c = 0x58 then fmt_flags (s\<lparr>fs_hex := 2, fs_sign := False\<rparr>) fmt args
      else if c = 0x78 then fmt_flags (s\<lparr>fs_hex := 1, fs_sign := False\<rparr>) fmt args
      else if c = ch_dot then
        (case fmt_number 0 fmt of (w, fmt) \<Rightarrow> Some (s\<lparr>fs_frac_width := w\<rparr>, fmt, args))
      else if c = ch_star then
        (case args of Va_long w # args \<Rightarrow> fmt_flags (s\<lparr>fs_slen := w\<rparr>) fmt args | _ \<Rightarrow> None)
      else Some (s, c # fmt, args))"

text \<open>Between the percent sign and the conversion character: \<open>fmt\<close> starts behind the percent
  sign. The result has the conversion character, \<open>None\<close> being the terminating zero, and the
  format behind it.\<close>

definition fmt_directive ::
  "u_char list \<Rightarrow> va_arg list \<Rightarrow> (fmt_spec \<times> u_char \<times> u_char list \<times> va_arg list) option"
where
  "fmt_directive fmt args =
     (let zero = (if rd fmt 0 = Some ch_0 then ch_0 else ch_space) in
      case fmt_number 0 fmt of (width, fmt) \<Rightarrow>
        (case fmt_flags \<lparr>fs_zero = zero, fs_width = width, fs_sign = True, fs_hex = 0,
             fs_max_width = False, fs_frac_width = 0, fs_slen = -1\<rparr> fmt args of
           Some (s, c # fmt, args) \<Rightarrow> Some (s, c, fmt, args)
         | _ \<Rightarrow> None))"

text \<open>\<open>while (*p && buf < last) *buf++ = *p++\<close>; the memory may end before a zero is found.\<close>

fun copy_chars :: "nat \<Rightarrow> u_char list \<Rightarrow> ngx_str option" where
  "copy_chars room [] = None"
| "copy_chars room (c # p) =
     (if c = ch_NUL then Some []
      else if room = 0 then Some []
      else map_option ((#) c) (copy_chars (room - 1) p))"

text \<open>The conversions that \<open>break\<close> out of the switch go on to \<open>ngx_sprintf_num\<close>, with \<open>i64\<close> if
  \<open>sign\<close> is set and \<open>ui64\<close> otherwise.\<close>

definition print_number :: "nat \<Rightarrow> fmt_spec \<Rightarrow> 64 word \<Rightarrow> ngx_str" where
  "print_number room s w =
     (if fs_sign s \<and> w <s 0
      then ch_minus # ngx_sprintf_num (room - 1) (- w) (fs_zero s) (fs_hex s) (fs_width s)
      else ngx_sprintf_num room w (fs_zero s) (fs_hex s) (fs_width s))"

text \<open>One 64-bit or 32-bit argument, as \<open>i64\<close> or \<open>ui64\<close> according to \<open>sign\<close>.\<close>

definition va_long :: "va_arg list \<Rightarrow> (64 word \<times> va_arg list) option" where
  "va_long args = (case args of Va_long w # args \<Rightarrow> Some (w, args) | _ \<Rightarrow> None)"

definition va_int :: "bool \<Rightarrow> va_arg list \<Rightarrow> (64 word \<times> va_arg list) option" where
  "va_int sign args =
     (case args of Va_int w # args \<Rightarrow> Some (if sign then scast w else ucast w, args) | _ \<Rightarrow> None)"

definition print_arg ::
  "nat \<Rightarrow> fmt_spec \<Rightarrow> (64 word \<times> va_arg list) option \<Rightarrow> (ngx_str \<times> va_arg list) option"
where
  "print_arg room s arg = map_option (\<lambda>(w, args). (print_number room s w, args)) arg"

text \<open>\<open>ngx_cpymem(buf, p, ngx_min(last - buf, len))\<close>\<close>

definition copy_sized :: "nat \<Rightarrow> u_char list \<Rightarrow> nat \<Rightarrow> ngx_str option" where
  "copy_sized room p len = (if min room len \<le> length p then Some (take (min room len) p) else None)"

definition fmt_conversion ::
  "nat \<Rightarrow> fmt_spec \<Rightarrow> u_char \<Rightarrow> va_arg list \<Rightarrow> (ngx_str \<times> va_arg list) option"
where
  "fmt_conversion room s c args =
     (if c = 0x56 then (case args of Va_str v # args \<Rightarrow> Some (take (min room (length v)) v, args) | _ \<Rightarrow> None)
      else if c = 0x76 then (case args of Va_vv v # args \<Rightarrow> Some (take (min room (length v)) v, args) | _ \<Rightarrow> None)
      else if c = 0x73 then
        (case args of
           Va_chars p # args \<Rightarrow>
             map_option (\<lambda>out. (out, args))
               (if fs_slen s = -1 then copy_chars room p else copy_sized room p (unat (fs_slen s)))
         | _ \<Rightarrow> None)
      else if c = 0x4f then print_arg room (s\<lparr>fs_sign := True\<rparr>) (va_long args)
      else if c = 0x50 then print_arg room (s\<lparr>fs_sign := True\<rparr>) (va_int True args)
      else if c = 0x54 then print_arg room (s\<lparr>fs_sign := True\<rparr>) (va_long args)
      else if c = 0x4d then
        (case va_long args of
           Some (ms, args) \<Rightarrow> Some (print_number room (s\<lparr>fs_sign := (ms = -1)\<rparr>) ms, args)
         | None \<Rightarrow> None)
      else if c = 0x7a then print_arg room s (va_long args)
      else if c = 0x69 then
        print_arg room (if fs_max_width s then s\<lparr>fs_width := NGX_INT_T_LEN\<rparr> else s) (va_long args)
      else if c = 0x64 then print_arg room s (va_int (fs_sign s) args)
      else if c = 0x6c then print_arg room s (va_long args)
      else if c = 0x44 then print_arg room s (va_int (fs_sign s) args)
      else if c = 0x4c then print_arg room s (va_long args)
      else if c = 0x41 then
        print_arg room (if fs_max_width s then s\<lparr>fs_width := NGX_ATOMIC_T_LEN\<rparr> else s) (va_long args)
      else if c = 0x66 then None
      else if c = 0x72 then print_arg room (s\<lparr>fs_sign := True\<rparr>) (va_long args)
      else if c = 0x70 then
        (case args of
           Va_ptr w # args \<Rightarrow>
             Some (print_number room
               (s\<lparr>fs_hex := 2, fs_sign := False, fs_zero := ch_0, fs_width := 16\<rparr>) w, args)
         | _ \<Rightarrow> None)
      else if c = 0x63 then (case args of Va_int d # args \<Rightarrow> Some ([ucast (d AND 0xff)], args) | _ \<Rightarrow> None)
      else if c = 0x5a then Some ([ch_NUL], args)
      else if c = 0x4e then Some ([ch_LF], args)
      else if c = ch_percent then Some ([ch_percent], args)
      else Some ([c], args))"

lemma fmt_number_length: "length (snd (fmt_number w fmt)) \<le> length fmt"
  by (induction w fmt rule: fmt_number.induct) auto

lemma fmt_flags_length: "fmt_flags s fmt args = Some (s', fmt', args') \<Longrightarrow> length fmt' \<le> length fmt"
proof (induction s fmt args rule: fmt_flags.induct)
  case (2 s c fmt args)
  then show ?case
    using fmt_number_length [of 0 fmt]
    by (auto split: if_splits list.splits va_arg.splits prod.splits)
qed simp

lemma fmt_directive_length:
  assumes "fmt_directive fmt args = Some (s, c, fmt', args')"
  shows "length fmt' < length fmt"
proof -
  from assms obtain s0 where
    "fmt_flags s0 (snd (fmt_number 0 fmt)) args = Some (s, c # fmt', args')"
    by (auto simp: fmt_directive_def Let_def split: prod.splits option.splits list.splits)
  from fmt_flags_length [OF this] show ?thesis
    using fmt_number_length [of 0 fmt] by simp
qed

function ngx_vslprintf :: "nat \<Rightarrow> u_char list \<Rightarrow> va_arg list \<Rightarrow> ngx_str option" where
  "ngx_vslprintf room [] args = Some []"
| "ngx_vslprintf room (c # fmt) args =
     (if room = 0 then Some []
      else if c = ch_percent then
        (case fmt_directive fmt args of
           None \<Rightarrow> None
         | Some (s, c, fmt', args) \<Rightarrow>
             (case fmt_conversion room s c args of
                None \<Rightarrow> None
              | Some (out, args) \<Rightarrow> map_option ((@) out) (ngx_vslprintf (room - length out) fmt' args)))
      else map_option ((#) c) (ngx_vslprintf (room - 1) fmt args))"
  by pat_completeness auto
termination
  by (relation "measure (\<lambda>(room, fmt, args). length fmt)") (auto dest: fmt_directive_length)

declare ngx_vslprintf.simps(2) [simp del]

text \<open>\<open>last\<close> is \<open>(void *) -1\<close>, \<open>buf + max\<close>, or given; \<open>buf\<close> is the address of the buffer.\<close>

definition ngx_sprintf :: "nat \<Rightarrow> u_char list \<Rightarrow> va_arg list \<Rightarrow> ngx_str option" where
  "ngx_sprintf buf fmt args = ngx_vslprintf (2 ^ 64 - 1 - buf) fmt args"

definition ngx_snprintf :: "nat \<Rightarrow> u_char list \<Rightarrow> va_arg list \<Rightarrow> ngx_str option" where
  "ngx_snprintf room fmt args = ngx_vslprintf room fmt args"

definition ngx_slprintf :: "nat \<Rightarrow> nat \<Rightarrow> u_char list \<Rightarrow> va_arg list \<Rightarrow> ngx_str option" where
  "ngx_slprintf buf last' fmt args = ngx_vslprintf (last' - buf) fmt args"


section \<open>The limit\<close>

text \<open>Three facts of every part that writes, collected for the conversions and then for the whole
  function: at most \<open>room\<close> bytes are written; with less room the same bytes are written up to
  the limit; and what did not reach the limit does not depend on it.\<close>

named_theorems limit_bound
named_theorems limit_cut
named_theorems limit_free

lemma sprintf_num_replicate:
  "ngx_sprintf_num room w zero h width =
     take room (replicate (width - length (sprintf_num_digits w h)) zero @ sprintf_num_digits w h)"
  by (simp add: ngx_sprintf_num_def Let_def pad_loop_replicate take_replicate)
    (metis diff_diff_cancel diff_is_0_eq le_cases min.absorb1 min.absorb2 take0 take_all)

lemma print_number_bound [limit_bound]: "0 < room \<Longrightarrow> length (print_number room s w) \<le> room"
  by (auto simp: print_number_def sprintf_num_replicate)

lemma print_number_cut [limit_cut]:
  "0 < n \<Longrightarrow> n \<le> m \<Longrightarrow> print_number n s w = take n (print_number m s w)"
  by (simp add: print_number_def sprintf_num_replicate take_Cons' min.absorb1 del: take_append)

lemma print_number_free [limit_free]:
  "length (print_number n s w) < n \<Longrightarrow> n \<le> m \<Longrightarrow> print_number m s w = print_number n s w"
  by (auto simp: print_number_def sprintf_num_replicate split: if_splits)

lemma copy_chars_bound [limit_bound]: "copy_chars room p = Some out \<Longrightarrow> length out \<le> room"
proof (induction p arbitrary: room out)
  case (Cons c p)
  then show ?case
    using Cons.IH [of "room - 1"] by (fastforce split: if_splits)
qed simp

lemma copy_chars_cut [limit_cut]: "copy_chars m p = Some out \<Longrightarrow> n \<le> m \<Longrightarrow> copy_chars n p = Some (take n out)"
proof (induction p arbitrary: n m out)
  case (Cons c p)
  show ?case
  proof (cases "c = ch_NUL \<or> n = 0")
    case False
    with Cons.prems obtain out' where "copy_chars (m - 1) p = Some out'" "out = c # out'"
      by (auto split: if_splits)
    with Cons.IH [of "m - 1" out' "n - 1"] Cons.prems False show ?thesis
      by (simp add: take_Cons')
  qed (use Cons.prems in \<open>auto split: if_splits\<close>)
qed simp

lemma copy_chars_free [limit_free]:
  "copy_chars n p = Some out \<Longrightarrow> length out < n \<Longrightarrow> n \<le> m \<Longrightarrow> copy_chars m p = Some out"
proof (induction p arbitrary: n m out)
  case (Cons c p)
  show ?case
  proof (cases "c = ch_NUL")
    case False
    with Cons.prems obtain out' where "copy_chars (n - 1) p = Some out'" "out = c # out'"
      by (auto split: if_splits)
    with Cons.IH [of "n - 1" out' "m - 1"] Cons.prems False show ?thesis
      by simp
  qed (use Cons.prems in simp)
qed simp

lemma copy_sized_bound [limit_bound]: "copy_sized room p len = Some out \<Longrightarrow> length out \<le> room"
  by (auto simp: copy_sized_def split: if_splits)

lemma copy_sized_cut [limit_cut]:
  "copy_sized m p len = Some out \<Longrightarrow> n \<le> m \<Longrightarrow> copy_sized n p len = Some (take n out)"
  by (auto simp: copy_sized_def min_def split: if_splits)

lemma copy_sized_free [limit_free]:
  "copy_sized n p len = Some out \<Longrightarrow> length out < n \<Longrightarrow> n \<le> m \<Longrightarrow> copy_sized m p len = Some out"
  by (auto simp: copy_sized_def min_def split: if_splits)

lemmas conversion_splits = if_splits list.splits va_arg.splits option.splits prod.splits

lemma print_arg_cut [limit_cut]:
  "print_arg m s arg = Some (out, args) \<Longrightarrow> 0 < n \<Longrightarrow> n \<le> m \<Longrightarrow> print_arg n s arg = Some (take n out, args)"
  by (auto simp: print_arg_def print_number_cut)

lemma print_arg_free [limit_free]:
  "print_arg n s arg = Some (out, args) \<Longrightarrow> length out < n \<Longrightarrow> n \<le> m \<Longrightarrow> print_arg m s arg = Some (out, args)"
  by (auto simp: print_arg_def intro: print_number_free)

lemma print_arg_bound [limit_bound]:
  "print_arg room s arg = Some (out, args) \<Longrightarrow> 0 < room \<Longrightarrow> length out \<le> room"
  by (auto simp: print_arg_def print_number_bound)

lemma take_min_length: "take (min n (length v)) v = take n v"
  by (simp add: min_def)

lemma conversion_bound:
  "fmt_conversion room s c args = Some (out, args') \<Longrightarrow> 0 < room \<Longrightarrow> length out \<le> room"
  by (auto simp: fmt_conversion_def print_number_bound intro: limit_bound split: conversion_splits)

lemma conversion_cut:
  assumes "fmt_conversion m s c args = Some (out, args')" "0 < n" "n \<le> m"
  shows "fmt_conversion n s c args = Some (take n out, args')"
proof -
  have "print_number n s w = take n (print_number m s w)" for s w
    using assms(2,3) by (rule print_number_cut)
  then show ?thesis
    using assms
    by (auto simp: fmt_conversion_def take_min_length take_Cons' intro: limit_cut split: conversion_splits)
qed

lemma conversion_free:
  assumes "fmt_conversion n s c args = Some (out, args')" "length out < n" "n \<le> m"
  shows "fmt_conversion m s c args = Some (out, args')"
  using assms
  by (auto simp: fmt_conversion_def take_min_length intro: limit_free split: conversion_splits)


text \<open>The recursion behind a percent sign, as an elimination rule.\<close>

lemma vslprintf_percentE:
  assumes "ngx_vslprintf room (ch_percent # fmt) args = Some out" "0 < room"
  obtains s c fmt' args' o1 args'' out' where
    "fmt_directive fmt args = Some (s, c, fmt', args')" "fmt_conversion room s c args' = Some (o1, args'')"
    "ngx_vslprintf (room - length o1) fmt' args'' = Some out'" "out = o1 @ out'" "length fmt' < length fmt"
  using assms fmt_directive_length
  by (auto simp: ngx_vslprintf.simps(2) split: option.splits prod.splits)

lemma vslprintf_percentI:
  "fmt_directive fmt args = Some (s, c, fmt', args') \<Longrightarrow> fmt_conversion room s c args' = Some (o1, args'') \<Longrightarrow>
   ngx_vslprintf (room - length o1) fmt' args'' = Some out' \<Longrightarrow> 0 < room \<Longrightarrow>
   ngx_vslprintf room (ch_percent # fmt) args = Some (o1 @ out')"
  by (simp add: ngx_vslprintf.simps(2))

lemma vslprintf_plain:
  "c \<noteq> ch_percent \<Longrightarrow> 0 < room \<Longrightarrow>
   ngx_vslprintf room (c # fmt) args = map_option ((#) c) (ngx_vslprintf (room - 1) fmt args)"
  by (simp add: ngx_vslprintf.simps(2))

lemma vslprintf_no_room [simp]: "ngx_vslprintf 0 fmt args = Some []"
  by (cases fmt) (simp_all add: ngx_vslprintf.simps(2))

lemma vslprintf_bound: "ngx_vslprintf room fmt args = Some out \<Longrightarrow> length out \<le> room"
proof (induction fmt arbitrary: room args out rule: length_induct)
  case (1 fmt)
  show ?case
  proof (cases "fmt = [] \<or> room = 0")
    case True
    with "1.prems" show ?thesis by auto
  next
    case False
    then obtain c f where F: "fmt = c # f" "0 < room" by (cases fmt) auto
    show ?thesis
    proof (cases "c = ch_percent")
      case True
      from "1.prems" F True obtain s d fmt' args' o1 args'' out' where
        "fmt_conversion room s d args' = Some (o1, args'')"
        "ngx_vslprintf (room - length o1) fmt' args'' = Some out'" "out = o1 @ out'" "length fmt' < length f"
        by (auto elim: vslprintf_percentE)
      with "1.IH" [rule_format, of fmt'] conversion_bound [of room s d args' o1 args''] F show ?thesis
        by fastforce
    next
      case False
      with "1.prems" F obtain out' where "out = c # out'" "ngx_vslprintf (room - 1) f args = Some out'"
        by (auto simp: vslprintf_plain)
      with "1.IH" [rule_format, of f] F show ?thesis
        by fastforce
    qed
  qed
qed

lemma vslprintf_cut:
  "ngx_vslprintf m fmt args = Some out \<Longrightarrow> n \<le> m \<Longrightarrow> ngx_vslprintf n fmt args = Some (take n out)"
proof (induction fmt arbitrary: n m args out rule: length_induct)
  case (1 fmt)
  show ?case
  proof (cases "fmt = [] \<or> n = 0")
    case True
    with "1.prems" show ?thesis by auto
  next
    case False
    then obtain c f where F: "fmt = c # f" "0 < n" "0 < m" using "1.prems"(2) by (cases fmt) auto
    show ?thesis
    proof (cases "c = ch_percent")
      case True
      from "1.prems" F True obtain s d fmt' args' o1 args'' out' where
        D: "fmt_directive f args = Some (s, d, fmt', args')" "fmt_conversion m s d args' = Some (o1, args'')"
        "ngx_vslprintf (m - length o1) fmt' args'' = Some out'" "out = o1 @ out'" "length fmt' < length f"
        by (auto elim: vslprintf_percentE)
      have "ngx_vslprintf (n - length (take n o1)) fmt' args'' = Some (take (n - length o1) out')"
        using "1.IH" [rule_format, of fmt' "m - length o1" args'' out' "n - length o1"] D F "1.prems"(2)
        by (simp add: min_def)
      from vslprintf_percentI [OF D(1) conversion_cut [OF D(2) F(2) "1.prems"(2)] this F(2)] show ?thesis
        using F True D(4) by simp
    next
      case False
      with "1.prems" F obtain out' where "out = c # out'" "ngx_vslprintf (m - 1) f args = Some out'"
        by (auto simp: vslprintf_plain)
      with "1.IH" [rule_format, of f "m - 1" args out' "n - 1"] F False "1.prems"(2) show ?thesis
        by (simp add: vslprintf_plain take_Cons')
    qed
  qed
qed

lemma vslprintf_free:
  "ngx_vslprintf n fmt args = Some out \<Longrightarrow> length out < n \<Longrightarrow> n \<le> m \<Longrightarrow> ngx_vslprintf m fmt args = Some out"
proof (induction fmt arbitrary: n m args out rule: length_induct)
  case (1 fmt)
  show ?case
  proof (cases fmt)
    case Nil
    with "1.prems" show ?thesis by simp
  next
    case (Cons c f)
    then have F: "fmt = c # f" "0 < n" "0 < m" using "1.prems"(2,3) by auto
    show ?thesis
    proof (cases "c = ch_percent")
      case True
      from "1.prems" F True obtain s d fmt' args' o1 args'' out' where
        D: "fmt_directive f args = Some (s, d, fmt', args')" "fmt_conversion n s d args' = Some (o1, args'')"
        "ngx_vslprintf (n - length o1) fmt' args'' = Some out'" "out = o1 @ out'" "length fmt' < length f"
        by (auto elim: vslprintf_percentE)
      have "ngx_vslprintf (m - length o1) fmt' args'' = Some out'"
        using "1.IH" [rule_format, of fmt' "n - length o1" args'' out' "m - length o1"] D F "1.prems"(2,3) by simp
      from vslprintf_percentI [OF D(1) conversion_free [OF D(2) _ "1.prems"(3)] this F(3)] show ?thesis
        using F True D(4) "1.prems"(2) by simp
    next
      case False
      with "1.prems" F obtain out' where "out = c # out'" "ngx_vslprintf (n - 1) f args = Some out'"
        by (auto simp: vslprintf_plain)
      with "1.IH" [rule_format, of f "n - 1" args out' "m - 1"] F False "1.prems"(2,3) show ?thesis
        by (simp add: vslprintf_plain)
    qed
  qed
qed


lemmas vslprintf_eval =
  ngx_vslprintf.simps(2) fmt_directive_def fmt_conversion_def print_arg_def va_long_def va_int_def
  print_number_def rd_def bytes_def Let_def


section \<open>Directives of literal formats\<close>

text \<open>The decimal digits of small numbers.\<close>

definition dig :: "nat \<Rightarrow> u_char" where "dig n = word_of_nat (n + 48)"

definition dec2 :: "nat \<Rightarrow> ngx_str" where "dec2 n = [dig (n div 10), dig (n mod 10)]"

definition dec4 :: "nat \<Rightarrow> ngx_str" where
  "dec4 n = [dig (n div 1000), dig (n div 100 mod 10), dig (n div 10 mod 10), dig (n mod 10)]"

lemma length_dec [simp]: "length (dec2 n) = 2" "length (dec4 n) = 4"
  by (simp_all add: dec2_def dec4_def)

lemma dec_loop_small: "n < 10 \<Longrightarrow> sprintf_dec_loop n acc = dig n # acc"
  by (simp add: sprintf_dec_loop.simps [of n] dig_def)

lemma dec_loop_more: "10 \<le> n \<Longrightarrow> sprintf_dec_loop n acc = sprintf_dec_loop (n div 10) (dig (n mod 10) # acc)"
  by (subst sprintf_dec_loop.simps) (simp add: dig_def Let_def div_eq_0_iff)

lemma unat_wi64: "0 \<le> i \<Longrightarrow> i < 2 ^ 64 \<Longrightarrow> unat (word_of_int i :: 64 word) = nat i"
  by (simp add: unsigned_of_int take_bit_int_eq_self)

lemma digits_dec2: "0 \<le> i \<Longrightarrow> i < 100 \<Longrightarrow>
  replicate (2 - length (sprintf_num_digits (word_of_int i) 0)) ch_0 @ sprintf_num_digits (word_of_int i) 0 = dec2 (nat i)"
  by (cases "i < 10")
    (simp_all add: sprintf_digits_dec unat_wi64 dec_loop_small dec_loop_more dec2_def dig_def nat_less_iff le_nat_iff
      div_less_iff_less_mult)

lemma digits_dec4: "1000 \<le> i \<Longrightarrow> i < 10000 \<Longrightarrow> sprintf_num_digits (word_of_int i) 0 = dec4 (nat i)"
  by (simp add: sprintf_digits_dec unat_wi64 dec_loop_small dec_loop_more dec4_def nat_less_iff le_nat_iff
      div_less_iff_less_mult less_eq_div_iff_mult_less_eq div_mult2_eq [symmetric])

lemma scast_small: "0 \<le> i \<Longrightarrow> i < 2 ^ 31 \<Longrightarrow> (scast (word_of_int i :: 32 word) :: 64 word) = word_of_int i"
  by (simp add: signed_of_int scast_eq signed_take_bit_int_eq_self)

lemma nonneg_small: "0 \<le> i \<Longrightarrow> i < 2 ^ 31 \<Longrightarrow> \<not> (word_of_int i :: 64 word) <s 0"
  by (simp add: word_sless_alt signed_of_int signed_take_bit_int_eq_self)

lemma copy_chars_all: "ch_NUL \<notin> set v \<Longrightarrow> length v \<le> room \<Longrightarrow> copy_chars room (v @ [ch_NUL]) = Some v"
  by (induction v arbitrary: room) auto

text \<open>\<open>%s\<close>, \<open>%02d\<close>, \<open>%4d\<close> and \<open>%d\<close> where there is room.\<close>

lemma vslprintf_s:
  "ch_NUL \<notin> set v \<Longrightarrow> length v \<le> room \<Longrightarrow> 0 < room \<Longrightarrow>
   ngx_vslprintf room (ch_percent # 0x73 # fmt) (Va_chars (v @ [ch_NUL]) # args) =
     map_option ((@) v) (ngx_vslprintf (room - length v) fmt args)"
  by (simp add: ngx_vslprintf.simps(2) fmt_directive_def fmt_conversion_def rd_def copy_chars_all)

lemma vslprintf_02d:
  "0 \<le> i \<Longrightarrow> i < 100 \<Longrightarrow> 20 \<le> room \<Longrightarrow>
   ngx_vslprintf room (ch_percent # ch_0 # 0x32 # 0x64 # fmt) (Va_int (word_of_int i) # args) =
     map_option ((@) (dec2 (nat i))) (ngx_vslprintf (room - 2) fmt args)"
  by (simp add: ngx_vslprintf.simps(2) fmt_directive_def fmt_conversion_def rd_def print_arg_def va_int_def
      print_number_def scast_small nonneg_small sprintf_num_enough_room digits_dec2)

lemma vslprintf_4d:
  "1000 \<le> i \<Longrightarrow> i < 10000 \<Longrightarrow> 20 \<le> room \<Longrightarrow>
   ngx_vslprintf room (ch_percent # 0x34 # 0x64 # fmt) (Va_int (word_of_int i) # args) =
     map_option ((@) (dec4 (nat i))) (ngx_vslprintf (room - 4) fmt args)"
  by (simp add: ngx_vslprintf.simps(2) fmt_directive_def fmt_conversion_def rd_def print_arg_def va_int_def
      print_number_def scast_small nonneg_small sprintf_num_enough_room digits_dec4)

lemma vslprintf_d:
  "1000 \<le> i \<Longrightarrow> i < 10000 \<Longrightarrow> 20 \<le> room \<Longrightarrow>
   ngx_vslprintf room (ch_percent # 0x64 # fmt) (Va_int (word_of_int i) # args) =
     map_option ((@) (dec4 (nat i))) (ngx_vslprintf (room - 4) fmt args)"
  by (simp add: ngx_vslprintf.simps(2) fmt_directive_def fmt_conversion_def rd_def print_arg_def va_int_def
      print_number_def scast_small nonneg_small sprintf_num_enough_room digits_dec4)

end
