(* ===== verification/Ngx_Times.thy ===== *)
theory Ngx_Times
  imports Ngx_Sprintf "HOL-Library.Monad_Syntax" "HOL-Library.Signed_Division"
begin

text \<open>
  Calendar times: \<open>ngx_gmtime\<close>, \<open>ngx_http_time\<close> and \<open>ngx_http_cookie_time\<close> of
  \<open>src/core/ngx_times.c\<close> and \<open>ngx_parse_http_time\<close> of \<open>src/core/ngx_parse_time.c\<close>.

  Both directions count days with Gauss' formula in 64-bit unsigned arithmetic, on years that
  start in March. The reference is a calendar by sums of the lengths of years and months.
\<close>

section \<open>The functions\<close>

subsection \<open>From seconds to a date\<close>

record ngx_tm =
  ngx_tm_sec :: int
  ngx_tm_min :: int
  ngx_tm_hour :: int
  ngx_tm_mday :: int
  ngx_tm_mon :: int
  ngx_tm_year :: int
  ngx_tm_wday :: int

text \<open>The casts \<open>(ngx_tm_sec_t) sec\<close> etc.; the types are \<open>int\<close>.\<close>

definition to_int :: "64 word \<Rightarrow> int" where
  "to_int w = sint (ucast w :: 32 word)"

definition year_leap :: "64 word \<Rightarrow> 64 word" where
  "year_leap year = (if year mod 4 = 0 \<and> (year mod 100 \<noteq> 0 \<or> year mod 400 = 0) then 1 else 0)"

definition gauss_years :: "64 word \<Rightarrow> 64 word" where
  "gauss_years year = 365 * year + year div 4 - year div 100 + year div 400"

definition ngx_gmtime :: "int \<Rightarrow> ngx_tm" where
  "ngx_gmtime t =
     (let n = word_of_int t :: 64 word;
          days = n div 86400;
          wday = (4 + days) mod 7;
          n = n mod 86400;
          hour = n div 3600;
          n = n mod 3600;
          min = n div 60;
          sec = n mod 60;
          days = days - (31 + 28) + 719527;
          year = (days + 2) * 400 div (365 * 400 + 100 - 4 + 1);
          yday = sint (days - gauss_years year);
          (yday, year) =
            (if yday < 0 then (sint (365 + year_leap year + word_of_int yday), year - 1) else (yday, year));
          mon = word_of_int ((yday + 31) * 10 sdiv 306);
          mday = word_of_int yday - (367 * mon div 12 - 30) + 1;
          (year, mon) = (if yday \<ge> 306 then (year + 1, mon - 10) else (year, mon + 2))
      in \<lparr>ngx_tm_sec = to_int sec, ngx_tm_min = to_int min, ngx_tm_hour = to_int hour,
          ngx_tm_mday = to_int mday, ngx_tm_mon = to_int mon, ngx_tm_year = to_int year,
          ngx_tm_wday = to_int wday\<rparr>)"

subsection \<open>Printing\<close>

definition week :: "ngx_str list" where
  "week = map bytes [''Sun'', ''Mon'', ''Tue'', ''Wed'', ''Thu'', ''Fri'', ''Sat'']"

definition months :: "ngx_str list" where
  "months = map bytes [''Jan'', ''Feb'', ''Mar'', ''Apr'', ''May'', ''Jun'', ''Jul'', ''Aug'', ''Sep'', ''Oct'',
     ''Nov'', ''Dec'']"

text \<open>A string constant of an array, with its terminating zero.\<close>

definition va_name :: "ngx_str list \<Rightarrow> int \<Rightarrow> va_arg option" where
  "va_name names i = (if i < 0 then None else map_option (\<lambda>s. Va_chars (s @ [ch_NUL])) (rd names (nat i)))"

definition va_d :: "int \<Rightarrow> va_arg" where
  "va_d i = Va_int (word_of_int i)"

text \<open>\<open>buf\<close> is the address of the buffer, the result the bytes written to it.\<close>

definition ngx_http_time :: "nat \<Rightarrow> int \<Rightarrow> ngx_str option" where
  "ngx_http_time buf t =
     (let tm = ngx_gmtime t in
      do {
        wday \<leftarrow> va_name week (ngx_tm_wday tm);
        mon \<leftarrow> va_name months (ngx_tm_mon tm - 1);
        ngx_sprintf buf (bytes ''%s, %02d %s %4d %02d:%02d:%02d GMT'')
          [wday, va_d (ngx_tm_mday tm), mon, va_d (ngx_tm_year tm), va_d (ngx_tm_hour tm),
           va_d (ngx_tm_min tm), va_d (ngx_tm_sec tm)]
      })"

definition ngx_http_cookie_time :: "nat \<Rightarrow> int \<Rightarrow> ngx_str option" where
  "ngx_http_cookie_time buf t =
     (let tm = ngx_gmtime t in
      do {
        wday \<leftarrow> va_name week (ngx_tm_wday tm);
        mon \<leftarrow> va_name months (ngx_tm_mon tm - 1);
        ngx_sprintf buf
          (if ngx_tm_year tm > 2037 then bytes ''%s, %02d-%s-%d %02d:%02d:%02d GMT''
           else bytes ''%s, %02d-%s-%02d %02d:%02d:%02d GMT'')
          [wday, va_d (ngx_tm_mday tm), mon,
           va_d (if ngx_tm_year tm > 2037 then ngx_tm_year tm else ngx_tm_year tm smod 100),
           va_d (ngx_tm_hour tm), va_d (ngx_tm_min tm), va_d (ngx_tm_sec tm)]
      })"

subsection \<open>Reading\<close>

datatype time_fmt = fmt_no | rfc822 | rfc850 | isoc

text \<open>The loop up to a comma or a space, and the loop over spaces.\<close>

function pt_prefix :: "ngx_str \<Rightarrow> nat \<Rightarrow> time_fmt \<times> nat" where
  "pt_prefix v p =
     (if p < length v then
        if v ! p = ch_comma then (fmt_no, p)
        else if v ! p = ch_space then (isoc, p)
        else pt_prefix v (p + 1)
      else (fmt_no, p))"
  by auto
termination by (relation "measure (\<lambda>(v, p). length v - p)") auto

function pt_spaces :: "ngx_str \<Rightarrow> nat \<Rightarrow> nat" where
  "pt_spaces v p = (if p < length v \<and> v ! p = ch_space then pt_spaces v (p + 1) else p)"
  by auto
termination by (relation "measure (\<lambda>(v, p). length v - p)") auto

declare pt_prefix.simps [simp del] pt_spaces.simps [simp del]

text \<open>Tests of the bytes at \<open>p\<close>: \<open>None\<close> is a read outside the value, a failing test ends the
  function with \<open>NGX_ERROR\<close>, otherwise the code goes on with \<open>k\<close>.\<close>

definition need :: "ngx_str \<Rightarrow> nat \<Rightarrow> (u_char \<Rightarrow> bool) \<Rightarrow> (u_char \<Rightarrow> int option) \<Rightarrow> int option" where
  "need v p test k = do { c \<leftarrow> rd v p; if test c then k c else Some NGX_ERROR }"

definition dec_byte :: "u_char \<Rightarrow> bool" where
  "dec_byte c \<longleftrightarrow> \<not> (c < ch_0 \<or> c > ch_9)"

definition need2 :: "ngx_str \<Rightarrow> nat \<Rightarrow> (nat \<Rightarrow> int option) \<Rightarrow> int option" where
  "need2 v p k =
     need v p dec_byte (\<lambda>a. need v (p + 1) dec_byte (\<lambda>b. k ((unat a - 48) * 10 + unat b - 48)))"

definition need4 :: "ngx_str \<Rightarrow> nat \<Rightarrow> (nat \<Rightarrow> int option) \<Rightarrow> int option" where
  "need4 v p k =
     need v p dec_byte (\<lambda>a. need v (p + 1) dec_byte (\<lambda>b. need v (p + 2) dec_byte (\<lambda>c. need v (p + 3) dec_byte (\<lambda>d.
       k ((unat a - 48) * 1000 + (unat b - 48) * 100 + (unat c - 48) * 10 + unat d - 48)))))"

text \<open>The switch over the month's first letter.\<close>

definition pt_month :: "ngx_str \<Rightarrow> nat \<Rightarrow> (int \<Rightarrow> int option) \<Rightarrow> int option" where
  "pt_month v p k =
     do {
       c \<leftarrow> rd v p;
       if c = 0x4a then do {
         c1 \<leftarrow> rd v (p + 1);
         if c1 = ch_a then k 0
         else do { c2 \<leftarrow> rd v (p + 2); k (if c2 = 0x6e then 5 else 6) } }
       else if c = 0x46 then k 1
       else if c = 0x4d then do { c2 \<leftarrow> rd v (p + 2); k (if c2 = 0x72 then 2 else 4) }
       else if c = ch_A then do { c1 \<leftarrow> rd v (p + 1); k (if c1 = 0x70 then 3 else 7) }
       else if c = 0x53 then k 8
       else if c = 0x4f then k 9
       else if c = 0x4e then k 10
       else if c = 0x44 then k 11
       else Some NGX_ERROR
     }"

definition pt_mday :: "nat list" where
  "pt_mday = [31, 28, 31, 30, 31, 30, 31, 31, 30, 31, 30, 31]"

text \<open>Gauss' formula; \<open>month\<close> counts from 0.\<close>

definition pt_seconds :: "64 word \<Rightarrow> int \<Rightarrow> 64 word \<Rightarrow> 64 word \<Rightarrow> 64 word \<Rightarrow> 64 word \<Rightarrow> 64 word" where
  "pt_seconds year month day hour mi sec =
     (let month = month - 1;
          (month, year) = (if month \<le> 0 then (month + 12, year - 1) else (month, year))
      in (gauss_years year + word_of_int (367 * month sdiv 12) - 30 + day - 1 - 719527 + 31 + 28) * 86400
         + hour * 3600 + mi * 60 + sec)"

text \<open>The range checks and the result, behind the last byte read.\<close>

definition pt_finish :: "nat \<Rightarrow> int \<Rightarrow> nat \<Rightarrow> nat \<Rightarrow> nat \<Rightarrow> nat \<Rightarrow> int" where
  "pt_finish year month day hour mi sec =
     (if hour > 23 \<or> mi > 59 \<or> sec > 59 then NGX_ERROR
      else if (if day = 29 \<and> month = 1 then year AND 3 \<noteq> 0 \<or> year mod 100 = 0 \<and> year mod 400 \<noteq> 0
               else day > pt_mday ! nat month)
      then NGX_ERROR
      else sint (pt_seconds (of_nat year) month (of_nat day) (of_nat hour) (of_nat mi) (of_nat sec)))"

text \<open>The time of day, and behind it the year of the format \<open>isoc\<close>.\<close>

definition pt_clock :: "ngx_str \<Rightarrow> time_fmt \<Rightarrow> nat \<Rightarrow> int \<Rightarrow> nat \<Rightarrow> nat \<Rightarrow> int option" where
  "pt_clock v fmt day month year p =
     need v p (\<lambda>c. c = ch_space) (\<lambda>_.
     need2 v (p + 1) (\<lambda>hour.
     need v (p + 3) (\<lambda>c. c = ch_colon) (\<lambda>_.
     need2 v (p + 4) (\<lambda>min.
     need v (p + 6) (\<lambda>c. c = ch_colon) (\<lambda>_.
     need2 v (p + 7) (\<lambda>sec.
       if fmt = isoc then
         need v (p + 9) (\<lambda>c. c = ch_space) (\<lambda>_.
         need4 v (p + 10) (\<lambda>year. Some (pt_finish year month day hour min sec)))
       else Some (pt_finish year month day hour min sec)))))))"

text \<open>Behind the month; \<open>p\<close> points behind its three letters.\<close>

definition pt_year :: "ngx_str \<Rightarrow> time_fmt \<Rightarrow> nat \<Rightarrow> int \<Rightarrow> nat \<Rightarrow> int option" where
  "pt_year v fmt day month p =
     (case fmt of
        rfc822 \<Rightarrow>
          need v p (\<lambda>c. c = ch_space) (\<lambda>_. need4 v (p + 1) (\<lambda>year. pt_clock v fmt day month year (p + 5)))
      | rfc850 \<Rightarrow>
          need v p (\<lambda>c. c = ch_minus) (\<lambda>_. need2 v (p + 1) (\<lambda>year.
            pt_clock v fmt day month (year + (if year < 70 then 2000 else 1900)) (p + 3)))
      | fmt_no \<Rightarrow> pt_clock v fmt day month 0 (p + 1)
      | isoc \<Rightarrow>
          do {
            c \<leftarrow> rd v (p + 1);
            let p = (if c = ch_space then p + 2 else p + 1) in
            need v p dec_byte (\<lambda>c.
              let day = unat c - 48; p = p + 1 in
              do {
                c \<leftarrow> rd v p;
                if c \<noteq> ch_space then
                  if \<not> dec_byte c then Some NGX_ERROR
                  else if int (length v) - int (p + 1) < 14 then Some NGX_ERROR
                  else pt_clock v fmt (day * 10 + unat c - 48) month 0 (p + 1)
                else if int (length v) - int p < 14 then Some NGX_ERROR
                else pt_clock v fmt day month 0 p
              })
          })"

definition ngx_parse_http_time :: "ngx_str \<Rightarrow> int option" where
  "ngx_parse_http_time v =
     (case pt_prefix v 0 of (fmt, p) \<Rightarrow>
        let p = pt_spaces v (p + 1) in
        if int (length v) - int p < 18 then Some NGX_ERROR
        else if fmt \<noteq> isoc then
          need2 v p (\<lambda>day.
            do {
              c \<leftarrow> rd v (p + 2);
              if c = ch_space then
                if int (length v) - int (p + 2) < 18 then Some NGX_ERROR
                else pt_month v (p + 3) (\<lambda>month. pt_year v rfc822 day month (p + 6))
              else if c = ch_minus then pt_month v (p + 3) (\<lambda>month. pt_year v rfc850 day month (p + 6))
              else Some NGX_ERROR
            })
        else pt_month v p (\<lambda>month. pt_year v isoc 0 month (p + 3)))"

section \<open>Words and integers\<close>

lemma div_wi:
  "0 \<le> a \<Longrightarrow> a < 2 ^ 64 \<Longrightarrow> 0 < b \<Longrightarrow> b < 2 ^ 64 \<Longrightarrow>
   (word_of_int a :: 64 word) div word_of_int b = word_of_int (a div b)"
  by (simp add: word_div_def uint_word_of_int take_bit_int_eq_self)

lemma mod_wi:
  "0 \<le> a \<Longrightarrow> a < 2 ^ 64 \<Longrightarrow> 0 < b \<Longrightarrow> b < 2 ^ 64 \<Longrightarrow>
   (word_of_int a :: 64 word) mod word_of_int b = word_of_int (a mod b)"
  by (simp add: word_mod_def uint_word_of_int take_bit_int_eq_self)

lemma sint_wi: "- (2 ^ 63) \<le> a \<Longrightarrow> a < 2 ^ 63 \<Longrightarrow> sint (word_of_int a :: 64 word) = a"
  by (simp add: signed_of_int signed_take_bit_int_eq_self)

lemma to_int_wi: "- (2 ^ 31) \<le> a \<Longrightarrow> a < 2 ^ 31 \<Longrightarrow> to_int (word_of_int a) = a"
proof -
  have "ucast (word_of_int a :: 64 word) = (word_of_int a :: 32 word)"
    by transfer (simp add: take_bit_take_bit)
  then show "- (2 ^ 31) \<le> a \<Longrightarrow> a < 2 ^ 31 \<Longrightarrow> to_int (word_of_int a) = a"
    by (simp add: to_int_def signed_of_int signed_take_bit_int_eq_self)
qed

lemma sdiv_nonneg: "0 \<le> (a::int) \<Longrightarrow> 0 < b \<Longrightarrow> a sdiv b = a div b"
  by (cases "a = 0") (simp_all add: signed_divide_int_def)

definition gauss :: "int \<Rightarrow> int" where
  "gauss y = 365 * y + y div 4 - y div 100 + y div 400"

lemma gauss_years_wi: "0 \<le> y \<Longrightarrow> y < 2 ^ 50 \<Longrightarrow> gauss_years (word_of_int y) = word_of_int (gauss y)"
  using div_wi [of y 4] div_wi [of y 100] div_wi [of y 400]
  by (simp add: gauss_years_def gauss_def)

lemma gauss_linear: "146097 * z - 699 \<le> 400 * gauss z" "400 * gauss z \<le> 146097 * z + 396"
proof -
  obtain a b c where D: "a = z div 4" "b = z div 100" "c = z div 400" by simp
  have "4 * a \<le> z" "z < 4 * a + 4" "100 * b \<le> z" "z < 100 * b + 100" "400 * c \<le> z" "z < 400 * c + 400"
    unfolding D by presburger+
  then show "146097 * z - 699 \<le> 400 * gauss z" "400 * gauss z \<le> 146097 * z + 396"
    unfolding gauss_def D [symmetric] by (simp_all add: algebra_simps)
qed

lemma gauss_guess:
  assumes "y = (d + 2) * 400 div 146097"
  shows "gauss (y - 1) \<le> d \<and> d < gauss (y + 1)"
proof -
  obtain r where R: "r = (d + 2) * 400 mod 146097" by simp
  have "146097 * y + r = (d + 2) * 400"
    unfolding assms R by (rule mult_div_mod_eq)
  moreover have "0 \<le> r" "r < 146097"
    unfolding R by simp_all
  ultimately have "146097 * y \<le> 400 * d + 800" "400 * d + 800 < 146097 * y + 146097"
    by simp_all
  then have "400 * gauss (y - 1) \<le> 400 * d" "400 * d < 400 * gauss (y + 1)"
    using gauss_linear(2) [of "y - 1"] gauss_linear(1) [of "y + 1"] by (simp_all add: algebra_simps)
  then show ?thesis by simp
qed

lemma month_of_day:
  fixes yd :: int
  assumes "0 \<le> yd" "yd \<le> 365" "k = (yd + 31) * 10 div 306" "mo = 367 * k div 12 - 30" "d = yd - mo + 1"
  shows "1 \<le> k \<and> k \<le> 12 \<and> 1 \<le> d \<and> d \<le> (if k = 12 then if yd = 365 then 29 else 28
     else if k \<in> {2, 4, 7, 9} then 30 else 31) \<and> (yd \<ge> 306 \<longleftrightarrow> 11 \<le> k)"
proof -
  have K: "306 * k \<le> 10 * yd + 310" "10 * yd + 310 < 306 * k + 306"
    using assms(3) by presburger+
  then have "1 \<le> k" "k \<le> 12" using assms(1,2) by linarith+
  then have "k = 1 \<or> k = 2 \<or> k = 3 \<or> k = 4 \<or> k = 5 \<or> k = 6 \<or> k = 7 \<or> k = 8 \<or> k = 9 \<or>
    k = 10 \<or> k = 11 \<or> k = 12"
    by presburger
  then show ?thesis
    using K assms(1,2,4,5) by (elim disjE) auto
qed


section \<open>The calendar\<close>

definition leap_year :: "nat \<Rightarrow> bool" where
  "leap_year y \<longleftrightarrow> y mod 4 = 0 \<and> (y mod 100 \<noteq> 0 \<or> y mod 400 = 0)"

definition year_days :: "nat \<Rightarrow> nat" where
  "year_days y = (if leap_year y then 366 else 365)"

definition month_days :: "nat \<Rightarrow> nat \<Rightarrow> nat" where
  "month_days y m = (if m = 2 then if leap_year y then 29 else 28 else if m \<in> {4, 6, 9, 11} then 30 else 31)"

text \<open>Days from January 1 of the year 0 to the given day, in the Gregorian calendar.\<close>

definition date_days :: "nat \<Rightarrow> nat \<Rightarrow> nat \<Rightarrow> int" where
  "date_days y m d = int (\<Sum>k<y. year_days k) + int (\<Sum>k\<leftarrow>[1..<m]. month_days y k) + int d - 1"

lemma gauss_step_cases:
  fixes y a b c a' b' c' :: int
  assumes "a' = a + (if P then 1 else 0)" "b' = b + (if Q then 1 else 0)" "c' = c + (if R then 1 else 0)"
    and "R \<Longrightarrow> Q" "Q \<Longrightarrow> P"
  shows "365 * (y + 1) + a' - b' + c' = 365 * y + a - b + c + int (if P \<and> (\<not> Q \<or> R) then 366 else 365)"
proof -
  consider "\<not> P" "\<not> Q" "\<not> R" | "P" "\<not> Q" "\<not> R" | P Q "\<not> R" | P Q R
    using assms(4,5) by blast
  then show ?thesis
    unfolding assms(1-3) by cases simp_all
qed

lemma int_div_step: "(int y + 1) div int b = int y div int b + (if Suc y mod b = 0 then 1 else 0)"
proof -
  have "int (Suc y) div int b = int y div int b + (if Suc y mod b = 0 then 1 else 0)"
    by (simp only: of_nat_div [symmetric] div_Suc) simp
  then show ?thesis by (simp add: add.commute)
qed

lemma mod_century:
  fixes y :: nat
  shows "y mod 400 = 0 \<Longrightarrow> y mod 100 = 0" "y mod 100 = 0 \<Longrightarrow> y mod 4 = 0"
  using dvd_trans [of 100 400 y] dvd_trans [of 4 100 y] by (auto simp: mod_eq_0_iff_dvd)

lemma gauss_step: "gauss (int (Suc y)) = gauss (int y) + int (year_days (Suc y))"
proof -
  have "gauss (int y + 1) = gauss (int y) +
      int (if Suc y mod 4 = 0 \<and> (\<not> Suc y mod 100 = 0 \<or> Suc y mod 400 = 0) then 366 else 365)"
    unfolding gauss_def
    by (subst gauss_step_cases [OF int_div_step [of y 4, unfolded of_nat_numeral]
        int_div_step [of y 100, unfolded of_nat_numeral] int_div_step [of y 400, unfolded of_nat_numeral]])
      (erule mod_century | simp)+
  then show ?thesis
    by (simp only: year_days_def leap_year_def of_nat_Suc add.commute [of 1])
qed

lemma years_gauss: "int (\<Sum>k<Suc y. year_days k) = 366 + gauss (int y)"
proof (induction y)
  case 0
  show ?case by (simp add: gauss_def year_days_def leap_year_def)
next
  case (Suc y)
  then show ?case using gauss_step [of y] by simp
qed

text \<open>Gauss' formula with years from March on: \<open>y'\<close> and \<open>m'\<close> are the shifted year and month.\<close>

lemma date_days_gauss:
  assumes "1 \<le> m" "m \<le> 12" "1 \<le> y \<or> 3 \<le> m"
    and "y' = (if m \<le> 2 then int y - 1 else int y)" "m' = (if m \<le> 2 then int m + 10 else int m - 2)"
  shows "date_days y m d = gauss y' + (367 * m' div 12 - 30) + int d - 1 + 60"
proof -
  show ?thesis
  proof (cases "m \<le> 2")
    case True
    with assms(3) obtain z where Z: "y = Suc z" by (cases y) auto
    from True assms(1) consider "m = 1" | "m = 2" by linarith
    then show ?thesis
      using years_gauss [of z] Z assms(4,5) True by cases (auto simp: date_days_def month_days_def upt_conv_Cons simp del: sum.lessThan_Suc One_nat_def)
  next
    case False
    have "int (\<Sum>k<y. year_days k) + int (year_days y) = 366 + gauss (int y)"
      using years_gauss [of y] by simp
    moreover have "m = 3 \<or> m = 4 \<or> m = 5 \<or> m = 6 \<or> m = 7 \<or> m = 8 \<or> m = 9 \<or> m = 10 \<or> m = 11 \<or> m = 12"
      using False assms(2) by presburger
    ultimately show ?thesis
      using False assms(4,5) by (elim disjE) (auto simp: date_days_def month_days_def year_days_def upt_conv_Cons simp del: One_nat_def split: if_splits)
  qed
qed

lemma date_days_epoch: "date_days 1970 1 1 = 719528"
  using date_days_gauss [of 1 1970 1969 11 1] by (simp add: gauss_def)


section \<open>\<open>ngx_gmtime\<close>\<close>

text \<open>The computation in unbounded integers: \<open>d\<close> counts the days from March 1 of the year 0.\<close>

definition civil_year :: "int \<Rightarrow> int" where
  "civil_year d = (let y = (d + 2) * 400 div 146097 in if d < gauss y then y - 1 else y)"

lemma civil_year_bounds: "gauss (civil_year d) \<le> d \<and> d < gauss (civil_year d + 1)"
  using gauss_guess [OF refl, of d] by (auto simp: civil_year_def Let_def)

lemma gauss_step_int: "0 \<le> y \<Longrightarrow> gauss (y + 1) = gauss y + int (year_days (nat (y + 1)))"
  using gauss_step [of "nat y"] by (simp add: nat_add_distrib add.commute)

lemma mod_wi_zero:
  assumes "0 \<le> y" "y < 2 ^ 64" "0 < b" "b < 2 ^ 64"
  shows "(word_of_int y :: 64 word) mod word_of_int b = 0 \<longleftrightarrow> nat y mod nat b = 0"
proof -
  have B: "0 \<le> y mod b" "y mod b < 2 ^ 64"
    using assms(3) less_trans [OF pos_mod_bound [OF assms(3), of y] assms(4)] by simp_all
  then have "(word_of_int (y mod b) :: 64 word) = 0 \<longleftrightarrow> y mod b = 0"
    by (simp add: word_uint_eq_iff uint_word_of_int take_bit_int_eq_self)
  moreover have "nat y mod nat b = 0 \<longleftrightarrow> y mod b = 0"
    using assms B(1) by (simp only: nat_mod_distrib [symmetric] less_imp_le nat_0_iff) linarith
  ultimately show ?thesis
    using assms by (simp only: mod_wi)
qed

lemma year_leap_wi: "0 \<le> y \<Longrightarrow> y < 2 ^ 64 \<Longrightarrow> year_leap (word_of_int y) = (if leap_year (nat y) then 1 else 0)"
  using mod_wi_zero [of y 4] mod_wi_zero [of y 100] mod_wi_zero [of y 400]
  by (simp add: year_leap_def leap_year_def)

text \<open>The year and the day in it that the code finds, with its wrapping arithmetic.\<close>

lemma gmtime_year:
  assumes D: "719468 \<le> d" "d < 2 ^ 40" and Y: "y = (d + 2) * 400 div 146097"
  shows "sint (word_of_int d - gauss_years (word_of_int y)) = d - gauss y"
    and "d < gauss y \<Longrightarrow>
      sint (365 + year_leap (word_of_int y) + word_of_int (d - gauss y)) = d - gauss (y - 1)"
    and "1969 \<le> y" "y < 2 ^ 33"
proof -
  obtain r where R: "r = (d + 2) * 400 mod 146097" by simp
  have "146097 * y + r = (d + 2) * 400" "0 \<le> r" "r < 146097"
    unfolding Y R by (rule mult_div_mod_eq) simp_all
  with D show B: "1969 \<le> y" "y < 2 ^ 33" by simp_all
  have G: "gauss (y - 1) \<le> d" "d < gauss (y + 1)"
    using gauss_guess [OF Y] by simp_all
  have S: "gauss (y + 1) = gauss y + int (year_days (nat (y + 1)))" "gauss y = gauss (y - 1) + int (year_days (nat y))"
    using gauss_step_int [of y] gauss_step_int [of "y - 1"] B by simp_all
  have Z: "int (year_days z) = 365 \<or> int (year_days z) = 366" for z
    by (simp add: year_days_def)
  have N: "\<bar>d - gauss y\<bar> \<le> 366"
    using G S Z [of "nat (y + 1)"] Z [of "nat y"] by linarith
  show first: "sint (word_of_int d - gauss_years (word_of_int y)) = d - gauss y"
    using B N sint_wi [of "d - gauss y"] by (simp add: gauss_years_wi)
  assume "d < gauss y"
  have "(365 + year_leap (word_of_int y) + word_of_int (d - gauss y) :: 64 word) =
      word_of_int (int (year_days (nat y)) + (d - gauss y))"
    using B by (simp add: year_leap_wi year_days_def)
  moreover have "int (year_days (nat y)) + (d - gauss y) = d - gauss (y - 1)"
    using S(2) by simp
  moreover have "sint (word_of_int (d - gauss (y - 1)) :: 64 word) = d - gauss (y - 1)"
  proof -
    have "\<bar>d - gauss (y - 1)\<bar> \<le> 732"
      using N S(2) Z [of "nat y"] by linarith
    then show ?thesis by (intro sint_wi) (simp_all add: abs_le_iff)
  qed
  ultimately show "sint (365 + year_leap (word_of_int y) + word_of_int (d - gauss y)) = d - gauss (y - 1)"
    by (simp only:)
qed


lemma gmtime_civil:
  assumes T: "0 \<le> t" "t < 2 ^ 55"
    and D: "d = t div 86400 + 719468" "y = civil_year d" "yd = d - gauss y" "k = (yd + 31) * 10 div 306"
  shows "ngx_gmtime t =
    \<lparr>ngx_tm_sec = t mod 60, ngx_tm_min = t mod 3600 div 60, ngx_tm_hour = t mod 86400 div 3600,
     ngx_tm_mday = yd - (367 * k div 12 - 30) + 1, ngx_tm_mon = (if yd \<ge> 306 then k - 10 else k + 2),
     ngx_tm_year = (if yd \<ge> 306 then y + 1 else y), ngx_tm_wday = (4 + t div 86400) mod 7\<rparr>"
proof -
  have B: "719468 \<le> d" "d < 417100000000"
    using T D(1) zdiv_mono1 [of t "2 ^ 55" 86400] by simp_all
  define g where "g = (d + 2) * 400 div 146097"
  have B': "d < 2 ^ 40" using B by simp
  note year = gmtime_year [OF B(1) B' g_def]
  have Y: "y = (if d < gauss g then g - 1 else g)"
    by (simp add: D(2) civil_year_def g_def Let_def)
  have days: "(word_of_int t :: 64 word) div 86400 = word_of_int (t div 86400)"
    using T div_wi [of t 86400] by simp
  have days': "(word_of_int (t div 86400) :: 64 word) - (31 + 28) + 719527 = word_of_int d"
    by (simp add: D(1))
  have guess: "((word_of_int d :: 64 word) + 2) * 400 div (365 * 400 + 100 - 4 + 1) = word_of_int g"
    using B div_wi [of "(d + 2) * 400" 146097] by (simp add: g_def)
  have wday: "(4 + word_of_int (t div 86400) :: 64 word) mod 7 = word_of_int ((4 + t div 86400) mod 7)"
    using T mod_wi [of "4 + t div 86400" 7] by simp
  have day: "(word_of_int t :: 64 word) mod 86400 = word_of_int (t mod 86400)"
    using T mod_wi [of t 86400] by simp
  have hour: "(word_of_int (t mod 86400) :: 64 word) div 3600 = word_of_int (t mod 86400 div 3600)"
    using div_wi [of "t mod 86400" 3600] pos_mod_bound [of 86400 t] by simp
  have rest: "(word_of_int (t mod 86400) :: 64 word) mod 3600 = word_of_int (t mod 3600)"
    using mod_wi [of "t mod 86400" 3600] pos_mod_bound [of 86400 t] by (simp add: mod_mod_cancel)
  have minute: "(word_of_int (t mod 3600) :: 64 word) div 60 = word_of_int (t mod 3600 div 60)"
    using div_wi [of "t mod 3600" 60] pos_mod_bound [of 3600 t] by simp
  have sec: "(word_of_int (t mod 3600) :: 64 word) mod 60 = word_of_int (t mod 60)"
    using mod_wi [of "t mod 3600" 60] pos_mod_bound [of 3600 t] by (simp add: mod_mod_cancel)
  have yday: "(let yday = sint (word_of_int d - gauss_years (word_of_int g))
      in if yday < 0 then (sint (365 + year_leap (word_of_int g) + word_of_int yday), (word_of_int g :: 64 word) - 1)
         else (yday, word_of_int g)) = (yd, word_of_int y)"
    using year(1,2) by (simp add: Let_def D(3) Y)
  have "gauss y \<le> d" "d < gauss (y + 1)" "gauss (y + 1) = gauss y + int (year_days (nat (y + 1)))"
    using civil_year_bounds [of d] gauss_step_int [of y] Y year(3) D(2) by auto
  then have yd: "0 \<le> yd" "yd \<le> 365"
    by (auto simp: D(3) year_days_def split: if_splits)
  note month = month_of_day [OF yd D(4) refl refl]
  have mon: "word_of_int ((yd + 31) * 10 sdiv 306) = (word_of_int k :: 64 word)"
    using yd by (simp add: sdiv_nonneg D(4))
  have mday: "(word_of_int yd - (367 * word_of_int k div 12 - 30) + 1 :: 64 word) =
      word_of_int (yd - (367 * k div 12 - 30) + 1)"
    using month div_wi [of "367 * k" 12] by simp
  have r: "to_int (word_of_int x) = x" if "0 \<le> x" "x < 2000000000" for x
    using that by (intro to_int_wi) simp_all
  have y: "1968 \<le> y" "y < 1200000000"
  proof -
    obtain q where Q: "q = (d + 2) * 400 mod 146097" by simp
    have "146097 * g + q = (d + 2) * 400" "0 \<le> q"
      unfolding g_def Q by (rule mult_div_mod_eq) simp
    with B year(3) show "1968 \<le> y" "y < 1200000000" by (auto simp: Y)
  qed
  have mon': "(word_of_int k :: 64 word) - 10 = word_of_int (k - 10)" "(word_of_int k :: 64 word) + 2 = word_of_int (k + 2)"
    "(word_of_int y :: 64 word) + 1 = word_of_int (y + 1)"
    by simp_all
  have "ngx_gmtime t =
    \<lparr>ngx_tm_sec = to_int (word_of_int (t mod 60)), ngx_tm_min = to_int (word_of_int (t mod 3600 div 60)),
     ngx_tm_hour = to_int (word_of_int (t mod 86400 div 3600)),
     ngx_tm_mday = to_int (word_of_int (yd - (367 * k div 12 - 30) + 1)),
     ngx_tm_mon = to_int (word_of_int (if yd \<ge> 306 then k - 10 else k + 2)),
     ngx_tm_year = to_int (word_of_int (if yd \<ge> 306 then y + 1 else y)),
     ngx_tm_wday = to_int (word_of_int ((4 + t div 86400) mod 7))\<rparr>"
    by (cases "yd \<ge> 306") (simp_all only: ngx_gmtime_def Let_def days days' guess yday [unfolded Let_def] prod.case
      wday day hour rest minute sec mon mday mon' if_True if_False)
  also have "\<dots> = \<lparr>ngx_tm_sec = t mod 60, ngx_tm_min = t mod 3600 div 60, ngx_tm_hour = t mod 86400 div 3600,
     ngx_tm_mday = yd - (367 * k div 12 - 30) + 1, ngx_tm_mon = (if yd \<ge> 306 then k - 10 else k + 2),
     ngx_tm_year = (if yd \<ge> 306 then y + 1 else y), ngx_tm_wday = (4 + t div 86400) mod 7\<rparr>"
  proof -
    have "to_int (word_of_int (t mod 60)) = t mod 60"
      by (rule r) (use pos_mod_bound [of 60 t] in simp_all)
    moreover have "to_int (word_of_int (t mod 3600 div 60)) = t mod 3600 div 60"
      by (rule r) (use pos_mod_bound [of 3600 t] in simp_all)
    moreover have "to_int (word_of_int (t mod 86400 div 3600)) = t mod 86400 div 3600"
      by (rule r) (use pos_mod_bound [of 86400 t] in simp_all)
    moreover have "to_int (word_of_int ((4 + t div 86400) mod 7)) = (4 + t div 86400) mod 7"
      by (rule r) (use pos_mod_bound [of 7 "4 + t div 86400"] in simp_all)
    moreover have "to_int (word_of_int (yd - (367 * k div 12 - 30) + 1)) = yd - (367 * k div 12 - 30) + 1"
      by (rule r) (use month yd in \<open>auto split: if_splits\<close>)
    moreover have "to_int (word_of_int (if yd \<ge> 306 then k - 10 else k + 2)) = (if yd \<ge> 306 then k - 10 else k + 2)"
      by (rule r) (use month in auto)
    moreover have "to_int (word_of_int (if yd \<ge> 306 then y + 1 else y)) = (if yd \<ge> 306 then y + 1 else y)"
      by (rule r) (use y in auto)
    ultimately show ?thesis by (simp only:)
  qed
  finally show ?thesis .
qed


lemma hms_of_seconds:
  fixes t :: int
  shows "t = t div 86400 * 86400 + t mod 86400 div 3600 * 3600 + t mod 3600 div 60 * 60 + t mod 60"
proof -
  have "t mod 86400 mod 3600 = t mod 3600" "t mod 3600 mod 60 = t mod 60"
    by (simp_all add: mod_mod_cancel)
  then show ?thesis
    using div_mult_mod_eq [of t 86400] div_mult_mod_eq [of "t mod 86400" 3600] div_mult_mod_eq [of "t mod 3600" 60]
    by linarith
qed

text \<open>The date found for a day number is a date of the calendar with that number.\<close>

lemma civil_date:
  assumes "719468 \<le> n" and D: "y = civil_year n" "yd = n - gauss y" "k = (yd + 31) * 10 div 306"
  obtains Y m d where "int Y = (if yd \<ge> 306 then y + 1 else y)" "int m = (if yd \<ge> 306 then k - 10 else k + 2)"
    "int d = yd - (367 * k div 12 - 30) + 1" "1970 \<le> Y" "1 \<le> m" "m \<le> 12" "1 \<le> d" "d \<le> month_days Y m"
    "date_days Y m d = n + 60"
proof -
  have G: "gauss y \<le> n" "n < gauss (y + 1)"
    using civil_year_bounds [of n] D(1) by auto
  have "1969 \<le> y"
    using G(2) assms(1) gauss_linear(2) [of "y + 1"] by simp
  then have S: "gauss (y + 1) = gauss y + int (year_days (nat (y + 1)))"
    by (simp add: gauss_step_int)
  then have yd: "0 \<le> yd" "yd \<le> 365" "yd = 365 \<Longrightarrow> leap_year (nat (y + 1))"
    using G D(2) by (auto simp: year_days_def split: if_splits)
  have new_year: "y = 1969 \<Longrightarrow> 306 \<le> yd"
    using assms(1) D(2) by (simp add: gauss_def)
  note month = month_of_day [OF yd(1,2) D(3) refl refl]
  define Y where "Y = nat (if yd \<ge> 306 then y + 1 else y)"
  define m where "m = nat (if yd \<ge> 306 then k - 10 else k + 2)"
  define d where "d = nat (yd - (367 * k div 12 - 30) + 1)"
  have eqs: "int Y = (if yd \<ge> 306 then y + 1 else y)" "int m = (if yd \<ge> 306 then k - 10 else k + 2)"
      "int d = yd - (367 * k div 12 - 30) + 1"
    using month \<open>1969 \<le> y\<close> by (auto simp: Y_def m_def d_def)
  have "1970 \<le> Y"
    using eqs(1) \<open>1969 \<le> y\<close> new_year by (cases "y = 1969") (auto split: if_splits)
  moreover have m: "1 \<le> m" "m \<le> 12" "m \<le> 2 \<longleftrightarrow> 306 \<le> yd"
    using eqs(2) month by (auto split: if_splits)
  moreover have "1 \<le> d"
    using eqs(3) month by simp
  moreover have "d \<le> month_days Y m"
  proof (cases "306 \<le> yd")
    case True
    then have K: "k = 11 \<and> m = 1 \<or> k = 12 \<and> m = 2"
      using month eqs(2) by auto
    with True month yd(3) eqs show ?thesis
      by (auto simp: month_days_def Y_def split: if_splits)
  next
    case False
    then have "int m = k + 2" "k \<le> 10" using eqs(2) month by auto
    with False month eqs(3) show ?thesis
      by (auto simp: month_days_def split: if_splits)
  qed
  moreover have "date_days Y m d = n + 60"
  proof -
    have "date_days Y m d = gauss y + (367 * k div 12 - 30) + int d - 1 + 60"
      using m eqs \<open>1970 \<le> Y\<close> by (intro date_days_gauss) (auto split: if_splits)
    then show ?thesis using eqs(3) D(2) by simp
  qed
  ultimately show ?thesis
    using that eqs by blast
qed

lemma gmtime_date:
  assumes "0 \<le> t" "t < 2 ^ 55"
  shows "\<exists>y m d. ngx_tm_year (ngx_gmtime t) = int y \<and> ngx_tm_mon (ngx_gmtime t) = int m \<and>
    ngx_tm_mday (ngx_gmtime t) = int d \<and> 1970 \<le> y \<and> 1 \<le> m \<and> m \<le> 12 \<and> 1 \<le> d \<and> d \<le> month_days y m \<and>
    t = (date_days y m d - date_days 1970 1 1) * 86400 + ngx_tm_hour (ngx_gmtime t) * 3600 +
      ngx_tm_min (ngx_gmtime t) * 60 + ngx_tm_sec (ngx_gmtime t) \<and>
    ngx_tm_hour (ngx_gmtime t) \<in> {0..23} \<and> ngx_tm_min (ngx_gmtime t) \<in> {0..59} \<and>
    ngx_tm_sec (ngx_gmtime t) \<in> {0..59} \<and>
    ngx_tm_wday (ngx_gmtime t) = (4 + (date_days y m d - date_days 1970 1 1)) mod 7"
proof -
  obtain n y yd k where D: "n = t div 86400 + 719468" "y = civil_year n" "yd = n - gauss y" "k = (yd + 31) * 10 div 306"
    by blast
  note tm = gmtime_civil [OF assms D]
  have "719468 \<le> n" using assms D(1) by simp
  from civil_date [OF this D(2-4)] obtain Y m d where C: "int Y = (if yd \<ge> 306 then y + 1 else y)"
    "int m = (if yd \<ge> 306 then k - 10 else k + 2)" "int d = yd - (367 * k div 12 - 30) + 1" "1970 \<le> Y" "1 \<le> m"
    "m \<le> 12" "1 \<le> d" "d \<le> month_days Y m" "date_days Y m d = n + 60" .
  have days: "date_days Y m d - date_days 1970 1 1 = t div 86400"
    using C(9) D(1) date_days_epoch by simp
  have "t mod 86400 div 3600 \<in> {0..23}" "t mod 3600 div 60 \<in> {0..59}" "t mod 60 \<in> {0..59}"
    using pos_mod_bound [of 86400 t] pos_mod_bound [of 3600 t] pos_mod_bound [of 60 t] by auto
  then show ?thesis
    using C days hms_of_seconds [of t]
    by (intro exI [of _ Y] exI [of _ m] exI [of _ d]) (simp only: tm ngx_tm.simps simp_thms)
qed

text \<open>C34. \<open>ngx_gmtime\<close> is correct for every time from the epoch on up to about the year 1,140,000,000,
  where \<open>tm_year\<close> would overflow: the broken-down time is a date of the Gregorian calendar (by the
  lengths of its years and months) with a time of day, that many seconds after January 1, 1970,
  and the right day of the week. Gauss' formula, the guessed year and its correction, and the
  formula for the month make no error.\<close>

theorem gmtime_correct:
  assumes "0 \<le> t" "t < 2 ^ 55"
  shows "\<exists>y m d. ngx_tm_year (ngx_gmtime t) = int y \<and> ngx_tm_mon (ngx_gmtime t) = int m \<and>
    ngx_tm_mday (ngx_gmtime t) = int d \<and> 1970 \<le> y \<and> 1 \<le> m \<and> m \<le> 12 \<and> 1 \<le> d \<and> d \<le> month_days y m \<and>
    t = (date_days y m d - date_days 1970 1 1) * 86400 + ngx_tm_hour (ngx_gmtime t) * 3600 +
      ngx_tm_min (ngx_gmtime t) * 60 + ngx_tm_sec (ngx_gmtime t) \<and>
    ngx_tm_hour (ngx_gmtime t) \<in> {0..23} \<and> ngx_tm_min (ngx_gmtime t) \<in> {0..59} \<and>
    ngx_tm_sec (ngx_gmtime t) \<in> {0..59} \<and>
    ngx_tm_wday (ngx_gmtime t) = (4 + (date_days y m d - date_days 1970 1 1)) mod 7"
  using assms by (rule gmtime_date)

theorem gmtime_correct_witness:
  "\<exists>y m d. ngx_tm_year (ngx_gmtime 951782400) = int y \<and> 1 \<le> d \<and> d \<le> month_days y m \<and>
     951782400 = (date_days y m d - date_days 1970 1 1) * 86400 + ngx_tm_hour (ngx_gmtime 951782400) * 3600 +
      ngx_tm_min (ngx_gmtime 951782400) * 60 + ngx_tm_sec (ngx_gmtime 951782400)"
  using gmtime_correct [of 951782400] by auto

end
