(* ===== verification/Ngx_Http_Time.thy ===== *)
theory Ngx_Http_Time
  imports Ngx_Times
begin

text \<open>
  The HTTP dates of \<open>src/core/ngx_times.c\<close> and \<open>src/core/ngx_parse_time.c\<close> together: what
  \<open>ngx_http_time\<close> and \<open>ngx_http_cookie_time\<close> print, what \<open>ngx_parse_http_time\<close> accepts and
  returns, and that reading inverts printing.
\<close>

section \<open>What is read\<close>

text \<open>The seconds from the epoch to a date and a time of day.\<close>

definition date_seconds :: "nat \<Rightarrow> nat \<Rightarrow> nat \<Rightarrow> nat \<Rightarrow> nat \<Rightarrow> nat \<Rightarrow> int" where
  "date_seconds y m d h mi s =
     (date_days y m d - date_days 1970 1 1) * 86400 + int h * 3600 + int mi * 60 + int s"

lemma pt_seconds_date:
  assumes "1 \<le> m" "m \<le> 12" "1 \<le> y \<or> 3 \<le> m" "y \<le> 9999" "d < 100" "h < 100" "mi < 100" "s < 100"
  shows "sint (pt_seconds (of_nat y) (int m - 1) (of_nat d) (of_nat h) (of_nat mi) (of_nat s)) =
    date_seconds y m d h mi s"
proof -
  define y' where "y' = (if m \<le> 2 then int y - 1 else int y)"
  define m' where "m' = (if m \<le> 2 then int m + 10 else int m - 2)"
  have Y: "0 \<le> y'" "y' \<le> 9999" and M: "1 \<le> m'" "m' \<le> 12"
    using assms(1-4) by (auto simp: y'_def m'_def)
  have wy: "(of_nat y :: 64 word) - 1 = word_of_int (int y - 1)" "(of_nat y :: 64 word) = word_of_int (int y)"
    by simp_all
  have "pt_seconds (of_nat y) (int m - 1) (of_nat d) (of_nat h) (of_nat mi) (of_nat s) =
      (gauss_years (word_of_int y') + word_of_int (367 * m' sdiv 12) - 30 + of_nat d - 1 - 719527 + 31 + 28) * 86400
        + of_nat h * 3600 + of_nat mi * 60 + of_nat s"
    unfolding pt_seconds_def Let_def y'_def m'_def wy(1) by (cases "m \<le> 2") (simp_all only: wy(2), simp_all add: algebra_simps)
  also have "\<dots> = word_of_int (date_seconds y m d h mi s)"
  proof -
    have "date_days y m d = gauss y' + (367 * m' div 12 - 30) + int d - 1 + 60"
      by (rule date_days_gauss [OF assms(1-3) y'_def m'_def])
    then have "date_seconds y m d h mi s =
        (gauss y' + 367 * m' div 12 - 30 + int d - 1 - 719527 + 31 + 28) * 86400 + int h * 3600 + int mi * 60 + int s"
      by (simp add: date_seconds_def date_days_epoch [unfolded One_nat_def])
    then show ?thesis
      using Y M by (simp add: gauss_years_wi sdiv_nonneg)
  qed
  finally have W: "pt_seconds (of_nat y) (int m - 1) (of_nat d) (of_nat h) (of_nat mi) (of_nat s) =
      word_of_int (date_seconds y m d h mi s)" .
  have G: "0 \<le> gauss y'" "gauss y' \<le> 4000000"
    using gauss_linear [of y'] Y by (simp_all add: gauss_def)
  have "\<bar>date_seconds y m d h mi s\<bar> < 1000000000000"
    using G M assms(5-8) date_days_gauss [OF assms(1-3) y'_def m'_def, of d]
    by (auto simp: date_seconds_def date_days_epoch [unfolded One_nat_def] abs_if)
  then show ?thesis
    unfolding W by (intro sint_wi) auto
qed

text \<open>The outcomes of the parser: an error, or the seconds of a date. A year 0 is left open in
  January and February, where the code computes with the year before it.\<close>

definition date_value :: "int \<Rightarrow> bool" where
  "date_value r \<longleftrightarrow> (\<exists>y m d h mi s. y \<le> 9999 \<and> 1 \<le> m \<and> m \<le> 12 \<and> d \<le> month_days y m \<and> h \<le> 23 \<and> mi \<le> 59 \<and> s \<le> 59 \<and>
     (1 \<le> y \<or> 3 \<le> m \<longrightarrow> r = date_seconds y m d h mi s))"

definition pt_ok :: "int option \<Rightarrow> bool" where
  "pt_ok x \<longleftrightarrow> (\<exists>r. x = Some r \<and> (r = NGX_ERROR \<or> date_value r))"

named_theorems pt_intros

lemma pt_ok_error [pt_intros]: "pt_ok (Some NGX_ERROR)"
  by (simp add: pt_ok_def)

lemma need_ok [pt_intros]: "p < length v \<Longrightarrow> (\<And>c. test c \<Longrightarrow> pt_ok (k c)) \<Longrightarrow> pt_ok (need v p test k)"
  by (simp add: need_def rd_def pt_ok_error)

lemma dec_byte_bounds: "dec_byte c \<Longrightarrow> 48 \<le> unat c \<and> unat c \<le> 57"
  by (simp add: dec_byte_def unat_digit)

lemma need2_ok [pt_intros]: "p + 1 < length v \<Longrightarrow> (\<And>n. n < 100 \<Longrightarrow> pt_ok (k n)) \<Longrightarrow> pt_ok (need2 v p k)"
  unfolding need2_def by (intro need_ok) (auto dest!: dec_byte_bounds)

lemma need4_ok [pt_intros]: "p + 3 < length v \<Longrightarrow> (\<And>n. n \<le> 9999 \<Longrightarrow> pt_ok (k n)) \<Longrightarrow> pt_ok (need4 v p k)"
  unfolding need4_def by (intro need_ok) (auto dest!: dec_byte_bounds)

lemma pt_month_ok [pt_intros]:
  "p + 2 < length v \<Longrightarrow> (\<And>m. 0 \<le> m \<Longrightarrow> m \<le> 11 \<Longrightarrow> pt_ok (k m)) \<Longrightarrow> pt_ok (pt_month v p k)"
  by (simp add: pt_month_def rd_def pt_ok_error)

lemma pt_mday_days: "m < 12 \<Longrightarrow> pt_mday ! m = (if m = 1 then 28 else month_days y (m + 1))"
  by (auto simp: pt_mday_def month_days_def less_Suc_eq numeral_eq_Suc)

lemma pt_day_ok:
  assumes "\<not> (if d = 29 \<and> m = 1 then y AND 3 \<noteq> 0 \<or> y mod 100 = 0 \<and> y mod 400 \<noteq> 0 else d > pt_mday ! m)" "m < 12"
  shows "d \<le> month_days y (m + 1)"
proof -
  have "y AND 3 = y mod 4"
    using take_bit_eq_mask [of 2 y] by (simp add: mask_eq_exp_minus_1 take_bit_eq_mod)
  moreover have "pt_mday ! 1 = 28"
    by (simp add: pt_mday_def)
  ultimately show ?thesis
    using assms pt_mday_days [of m y]
    by (cases "m = 1") (auto simp: month_days_def leap_year_def split: if_splits)
qed

lemma pt_finish_ok [pt_intros]:
  assumes "y \<le> 9999" "0 \<le> month" "month \<le> 11" "d < 100" "h < 100" "mi < 100" "s < 100"
  shows "pt_ok (Some (pt_finish y month d h mi s))"
proof (cases "pt_finish y month d h mi s = NGX_ERROR")
  case False
  define m where "m = nat month"
  have M: "month = int (m + 1) - 1" "m < 12" "1 \<le> m + 1" "m + 1 \<le> 12"
    using assms(2,3) by (auto simp: m_def)
  from False have F: "h \<le> 23" "mi \<le> 59" "s \<le> 59"
      "\<not> (if d = 29 \<and> m = 1 then y AND 3 \<noteq> 0 \<or> y mod 100 = 0 \<and> y mod 400 \<noteq> 0 else d > pt_mday ! m)"
      "pt_finish y month d h mi s = sint (pt_seconds (of_nat y) month (of_nat d) (of_nat h) (of_nat mi) (of_nat s))"
    using assms(2) by (auto simp: pt_finish_def m_def split: if_splits)
  moreover have "d \<le> month_days y (m + 1)"
    using pt_day_ok [OF F(4) M(2)] .
  moreover have "pt_finish y month d h mi s = date_seconds y (m + 1) d h mi s" if "1 \<le> y \<or> 3 \<le> m + 1"
    using pt_seconds_date [OF M(3,4) that assms(1,4-7)] F(5) by (simp only: M(1) [symmetric])
  ultimately show ?thesis
    unfolding pt_ok_def date_value_def using assms(1) M(3,4) by blast
qed (simp add: pt_ok_error)

lemma pt_clock_ok [pt_intros]:
  assumes "p + (if fmt = isoc then 14 else 9) \<le> length v" "d < 100" "0 \<le> month" "month \<le> 11" "y \<le> 9999"
  shows "pt_ok (pt_clock v fmt d month y p)"
  using assms unfolding pt_clock_def by (auto split: if_splits intro!: pt_intros)

lemma pt_year_ok [pt_intros]:
  assumes "0 \<le> month" "month \<le> 11" "fmt \<noteq> fmt_no" "fmt = isoc \<or> d < 100"
    and "p + (if fmt = rfc822 then 14 else if fmt = rfc850 then 12 else 15) \<le> length v"
  shows "pt_ok (pt_year v fmt d month p)"
proof (cases fmt)
  case isoc
  with assms show ?thesis
    by (auto simp: pt_year_def Let_def rd_def dest!: dec_byte_bounds intro!: need_ok pt_clock_ok pt_ok_error)
qed (use assms in \<open>auto simp: pt_year_def intro!: pt_intros\<close>)

lemma parse_http_time_ok: "pt_ok (ngx_parse_http_time v)"
proof -
  obtain fmt p where P: "pt_prefix v 0 = (fmt, p)" by force
  define q where "q = pt_spaces v (Suc p)"
  show ?thesis
  proof (cases "q + 18 \<le> length v")
    case True
    have "fmt \<noteq> isoc \<Longrightarrow> pt_ok (ngx_parse_http_time v)"
      using True
      by (auto simp: ngx_parse_http_time_def P q_def [symmetric] Let_def rd_def intro!: pt_intros)
    moreover have "fmt = isoc \<Longrightarrow> pt_ok (ngx_parse_http_time v)"
      using True
      by (auto simp: ngx_parse_http_time_def P q_def [symmetric] Let_def intro!: pt_intros)
    ultimately show ?thesis by blast
  next
    case False
    then show ?thesis
      by (simp add: ngx_parse_http_time_def P q_def [symmetric] Let_def pt_ok_error)
  qed
qed


lemma parse_http_time_values:
  "ngx_parse_http_time (bytes ''Sun, 06 Nov 1994 08:49:37 GMT'') = Some 784111777"
  "ngx_parse_http_time (bytes ''Sunday, 06-Nov-94 08:49:37 GMT'') = Some 784111777"
  "ngx_parse_http_time (bytes ''Sun Nov  6 08:49:37 1994'') = Some 784111777"
  by (simp_all add: ngx_parse_http_time_def bytes_def pt_prefix.simps pt_spaces.simps need_def need2_def need4_def
      rd_def dec_byte_def pt_month_def pt_year_def pt_clock_def pt_finish_def pt_mday_def pt_seconds_def gauss_years_def
      Let_def signed_divide_int_def)

text \<open>Two texts that no date stands for: the year 0 before March, and the day 0.\<close>

lemma parse_http_time_oddities:
  "ngx_parse_http_time (bytes ''Sat, 01 Jan 0000 00:00:00 GMT'') = Some (- 62167208832)"
  "date_seconds 0 1 1 0 0 0 = - 62167219200"
  "ngx_parse_http_time (bytes ''Fri, 00 Jan 1971 00:00:00 GMT'') = Some 31449600"
  "date_seconds 1970 12 31 0 0 0 = 31449600"
proof -
  show "ngx_parse_http_time (bytes ''Sat, 01 Jan 0000 00:00:00 GMT'') = Some (- 62167208832)"
    "ngx_parse_http_time (bytes ''Fri, 00 Jan 1971 00:00:00 GMT'') = Some 31449600"
    by (simp_all add: ngx_parse_http_time_def bytes_def pt_prefix.simps pt_spaces.simps need_def need2_def need4_def
        rd_def dec_byte_def pt_month_def pt_year_def pt_clock_def pt_finish_def pt_mday_def pt_seconds_def
        gauss_years_def Let_def signed_divide_int_def)
  show "date_seconds 0 1 1 0 0 0 = - 62167219200"
    by (simp add: date_seconds_def date_days_epoch [unfolded One_nat_def]) (simp add: date_days_def)
  show "date_seconds 1970 12 31 0 0 0 = 31449600"
    using date_days_gauss [of 12 1970 1970 10 31]
    by (simp add: date_seconds_def date_days_epoch [unfolded One_nat_def] gauss_def)
qed

section \<open>What is printed\<close>

lemma week_names:
  assumes "0 \<le> i" "i < 7"
  shows "va_name week i = Some (Va_chars (week ! nat i @ [ch_NUL])) \<and> length (week ! nat i) = 3 \<and>
    set (week ! nat i) \<inter> {ch_NUL, ch_comma, ch_space} = {}"
proof -
  from assms have "i \<in> {0, 1, 2, 3, 4, 5, 6}" by auto
  then show ?thesis by (auto simp: va_name_def week_def rd_def bytes_def)
qed

lemma month_names:
  assumes "0 \<le> i" "i < 12"
  shows "va_name months i = Some (Va_chars (months ! nat i @ [ch_NUL])) \<and> length (months ! nat i) = 3 \<and>
    ch_NUL \<notin> set (months ! nat i)"
proof -
  from assms have "i = 0 \<or> i = 1 \<or> i = 2 \<or> i = 3 \<or> i = 4 \<or> i = 5 \<or> i = 6 \<or> i = 7 \<or> i = 8 \<or> i = 9 \<or> i = 10 \<or> i = 11"
    by presburger
  then show ?thesis by (elim disjE) (simp_all add: va_name_def months_def rd_def bytes_def)
qed

lemma date_days_mono: "Suc y \<le> y' \<Longrightarrow> 1 \<le> d \<Longrightarrow> 366 + gauss (int y) \<le> date_days y' m d"
proof -
  assume A: "Suc y \<le> y'" "1 \<le> d"
  have "(\<Sum>k<Suc y. year_days k) \<le> (\<Sum>k<y'. year_days k)"
    using A(1) by (intro sum_mono2) auto
  then have "int (\<Sum>k<Suc y. year_days k) \<le> int (\<Sum>k<y'. year_days k)"
    by (simp only: of_nat_le_iff)
  then show ?thesis
    using A(2) unfolding years_gauss date_days_def by (simp add: trans_le_add1)
qed

text \<open>The fields of a time before the given year's end.\<close>

lemma gmtime_fields:
  assumes "0 \<le> t" "t < (366 + gauss (int Y) - 719528) * 86400" "Y < 100000"
  obtains y m d where "ngx_tm_year (ngx_gmtime t) = int y" "ngx_tm_mon (ngx_gmtime t) = int m"
    "ngx_tm_mday (ngx_gmtime t) = int d" "1970 \<le> y" "y \<le> Y" "1 \<le> m" "m \<le> 12" "1 \<le> d" "d \<le> month_days y m" "d \<le> 31"
    "ngx_tm_hour (ngx_gmtime t) \<in> {0..23}" "ngx_tm_min (ngx_gmtime t) \<in> {0..59}"
    "ngx_tm_sec (ngx_gmtime t) \<in> {0..59}" "ngx_tm_wday (ngx_gmtime t) \<in> {0..6}"
    "t = date_seconds y m d (nat (ngx_tm_hour (ngx_gmtime t))) (nat (ngx_tm_min (ngx_gmtime t)))
      (nat (ngx_tm_sec (ngx_gmtime t)))"
proof -
  have "gauss (int Y) \<le> 40000000"
    using gauss_linear(2) [of "int Y"] assms(3) by simp
  then have "t < 2 ^ 55"
    using assms(2) by simp
  from gmtime_date [OF assms(1) this] obtain y m d where
    D: "ngx_tm_year (ngx_gmtime t) = int y" "ngx_tm_mon (ngx_gmtime t) = int m"
      "ngx_tm_mday (ngx_gmtime t) = int d" "1970 \<le> y" "1 \<le> m" "m \<le> 12" "1 \<le> d" "d \<le> month_days y m"
    and T: "t = (date_days y m d - date_days 1970 1 1) * 86400 + ngx_tm_hour (ngx_gmtime t) * 3600 +
      ngx_tm_min (ngx_gmtime t) * 60 + ngx_tm_sec (ngx_gmtime t)"
    and H: "ngx_tm_hour (ngx_gmtime t) \<in> {0..23}" "ngx_tm_min (ngx_gmtime t) \<in> {0..59}"
    "ngx_tm_sec (ngx_gmtime t) \<in> {0..59}"
    and W: "ngx_tm_wday (ngx_gmtime t) = (4 + (date_days y m d - date_days 1970 1 1)) mod 7"
    by (elim exE conjE)
  have "y \<le> Y"
  proof (rule ccontr)
    assume "\<not> y \<le> Y"
    then have "366 + gauss (int Y) \<le> date_days y m d"
      using D(7) by (intro date_days_mono) simp_all
    with T H assms(2) show False
      unfolding date_days_epoch by simp
  qed
  moreover have "ngx_tm_wday (ngx_gmtime t) \<in> {0..6}"
    using W pos_mod_bound [of 7 "4 + (date_days y m d - date_days 1970 1 1)"] by auto
  moreover have "d \<le> 31"
    using D(8) by (auto simp: month_days_def split: if_splits)
  moreover have "t = date_seconds y m d (nat (ngx_tm_hour (ngx_gmtime t))) (nat (ngx_tm_min (ngx_gmtime t)))
      (nat (ngx_tm_sec (ngx_gmtime t)))"
    using T H by (simp add: date_seconds_def)
  ultimately show ?thesis
    using that D H by blast
qed

text \<open>Printing into a large room, from the result in a room of 64 bytes.\<close>

lemma sprintf_short:
  "ngx_vslprintf 64 fmt args = Some out \<Longrightarrow> length out < 64 \<Longrightarrow> buf < 2 ^ 63 \<Longrightarrow> ngx_sprintf buf fmt args = Some out"
  unfolding ngx_sprintf_def by (rule vslprintf_free [of 64]) simp_all

lemmas format_eval = vslprintf_s vslprintf_02d vslprintf_4d vslprintf_d vslprintf_plain

lemma http_format:
  assumes "length w = 3" "ch_NUL \<notin> set w" "length mo = 3" "ch_NUL \<notin> set mo"
    "0 \<le> d" "d < 100" "1000 \<le> y" "y < 10000" "0 \<le> h" "h < 100" "0 \<le> mi" "mi < 100" "0 \<le> s" "s < 100" "buf < 2 ^ 63"
  shows "ngx_sprintf buf (bytes ''%s, %02d %s %4d %02d:%02d:%02d GMT'')
      [Va_chars (w @ [ch_NUL]), va_d d, Va_chars (mo @ [ch_NUL]), va_d y, va_d h, va_d mi, va_d s] =
    Some (w @ bytes '', '' @ dec2 (nat d) @ bytes '' '' @ mo @ bytes '' '' @ dec4 (nat y) @ bytes '' '' @
      dec2 (nat h) @ bytes '':'' @ dec2 (nat mi) @ bytes '':'' @ dec2 (nat s) @ bytes '' GMT'')"
  by (rule sprintf_short) (use assms in \<open>simp_all add: bytes_def format_eval va_d_def\<close>)

lemma cookie_format:
  assumes "length w = 3" "ch_NUL \<notin> set w" "length mo = 3" "ch_NUL \<notin> set mo"
    "0 \<le> d" "d < 100" "0 \<le> h" "h < 100" "0 \<le> mi" "mi < 100" "0 \<le> s" "s < 100" "buf < 2 ^ 63"
  shows "0 \<le> y \<Longrightarrow> y < 100 \<Longrightarrow> ngx_sprintf buf (bytes ''%s, %02d-%s-%02d %02d:%02d:%02d GMT'')
      [Va_chars (w @ [ch_NUL]), va_d d, Va_chars (mo @ [ch_NUL]), va_d y, va_d h, va_d mi, va_d s] =
    Some (w @ bytes '', '' @ dec2 (nat d) @ bytes ''-'' @ mo @ bytes ''-'' @ dec2 (nat y) @ bytes '' '' @
      dec2 (nat h) @ bytes '':'' @ dec2 (nat mi) @ bytes '':'' @ dec2 (nat s) @ bytes '' GMT'')"
    and "1000 \<le> y \<Longrightarrow> y < 10000 \<Longrightarrow> ngx_sprintf buf (bytes ''%s, %02d-%s-%d %02d:%02d:%02d GMT'')
      [Va_chars (w @ [ch_NUL]), va_d d, Va_chars (mo @ [ch_NUL]), va_d y, va_d h, va_d mi, va_d s] =
    Some (w @ bytes '', '' @ dec2 (nat d) @ bytes ''-'' @ mo @ bytes ''-'' @ dec4 (nat y) @ bytes '' '' @
      dec2 (nat h) @ bytes '':'' @ dec2 (nat mi) @ bytes '':'' @ dec2 (nat s) @ bytes '' GMT'')"
  by (rule sprintf_short; use assms in \<open>simp add: bytes_def format_eval va_d_def\<close>)+

text \<open>The names that go with a time before the end of the year \<open>Y\<close>.\<close>

lemma gmtime_names:
  assumes "0 \<le> t" "t < (366 + gauss (int Y) - 719528) * 86400" "Y < 100000" "tm = ngx_gmtime t"
  shows "va_name week (ngx_tm_wday tm) = Some (Va_chars (week ! nat (ngx_tm_wday tm) @ [ch_NUL])) \<and>
    length (week ! nat (ngx_tm_wday tm)) = 3 \<and>
    set (week ! nat (ngx_tm_wday tm)) \<inter> {ch_NUL, ch_comma, ch_space} = {} \<and>
    va_name months (ngx_tm_mon tm - 1) = Some (Va_chars (months ! nat (ngx_tm_mon tm - 1) @ [ch_NUL])) \<and>
    length (months ! nat (ngx_tm_mon tm - 1)) = 3 \<and> ch_NUL \<notin> set (months ! nat (ngx_tm_mon tm - 1)) \<and>
    1 \<le> ngx_tm_mon tm \<and> ngx_tm_mon tm \<le> 12 \<and> 1 \<le> ngx_tm_mday tm \<and> ngx_tm_mday tm \<le> 31 \<and>
    1970 \<le> ngx_tm_year tm \<and> ngx_tm_year tm \<le> int Y \<and>
    ngx_tm_hour tm \<in> {0..23} \<and> ngx_tm_min tm \<in> {0..59} \<and> ngx_tm_sec tm \<in> {0..59}"
proof -
  obtain y m d where
    D: "ngx_tm_year tm = int y" "ngx_tm_mon tm = int m" "ngx_tm_mday tm = int d"
      "1970 \<le> y" "y \<le> Y" "1 \<le> m" "m \<le> 12" "1 \<le> d" "d \<le> 31"
    and H: "ngx_tm_hour tm \<in> {0..23}" "ngx_tm_min tm \<in> {0..59}" "ngx_tm_sec tm \<in> {0..59}" "ngx_tm_wday tm \<in> {0..6}"
    using gmtime_fields [OF assms(1-3)] unfolding assms(4) by blast
  then show ?thesis
    using week_names [of "ngx_tm_wday tm"] month_names [of "ngx_tm_mon tm - 1"] by simp
qed

lemma http_time_prints:
  assumes "0 \<le> t" "t < 253402300800" "buf < 2 ^ 63" "tm = ngx_gmtime t"
  shows "ngx_http_time buf t = Some (week ! nat (ngx_tm_wday tm) @ bytes '', '' @ dec2 (nat (ngx_tm_mday tm)) @
     bytes '' '' @ months ! nat (ngx_tm_mon tm - 1) @ bytes '' '' @ dec4 (nat (ngx_tm_year tm)) @ bytes '' '' @
     dec2 (nat (ngx_tm_hour tm)) @ bytes '':'' @ dec2 (nat (ngx_tm_min tm)) @ bytes '':'' @
     dec2 (nat (ngx_tm_sec tm)) @ bytes '' GMT'')"
proof -
  have "t < (366 + gauss (int 9999) - 719528) * 86400" "9999 < (100000::nat)"
    using assms(2) by (simp_all add: gauss_def)
  note F = gmtime_names [OF assms(1) this assms(4)]
  show ?thesis
    unfolding ngx_http_time_def Let_def assms(4) [symmetric] F [THEN conjunct1] conjunct1 [OF conjunct2 [OF F]]
    using F assms(3) by (simp add: http_format)
qed

section \<open>Reading what was printed\<close>

lemma unat_dig: "n < 10 \<Longrightarrow> unat (dig n) = n + 48"
  by (simp add: dig_def del: of_nat_add)

lemma dec_byte_dig: "n < 10 \<Longrightarrow> dec_byte (dig n)"
  using unat_dig [of n] by (simp add: dec_byte_def word_less_nat_alt)

lemma dig_not_space: "n < 10 \<Longrightarrow> dig n \<noteq> ch_space \<and> dig n \<noteq> ch_minus"
  using unat_dig [of n] by auto

lemma dec4_value: "n div 1000 * 1000 + n div 100 mod 10 * 100 + n div 10 mod 10 * 10 + n mod 10 = n" for n :: nat
proof -
  have "n div 10 div 10 = n div 100" "n div 100 div 10 = n div 1000"
    by (simp_all add: div_mult2_eq [symmetric])
  then show ?thesis
    using div_mult_mod_eq [of n 10] div_mult_mod_eq [of "n div 10" 10] div_mult_mod_eq [of "n div 100" 10] by linarith
qed

lemma pt_month_name:
  assumes "m < 12" "rd v p = Some (months ! m ! 0)" "rd v (Suc p) = Some (months ! m ! 1)"
    "rd v (Suc (Suc p)) = Some (months ! m ! 2)"
  shows "pt_month v p k = k (int m)"
proof -
  have "m = 0 \<or> m = 1 \<or> m = 2 \<or> m = 3 \<or> m = 4 \<or> m = 5 \<or> m = 6 \<or> m = 7 \<or> m = 8 \<or> m = 9 \<or> m = 10 \<or> m = 11"
    using assms(1) by presburger
  then show ?thesis
    using assms(2-4) by (elim disjE) (simp_all add: pt_month_def months_def bytes_def)
qed

lemma three_chars: "length w = 3 \<Longrightarrow> \<exists>a b c. w = [a, b, c]"
  by (auto simp: numeral_eq_Suc length_Suc_conv)

lemma parse_rfc822:
  assumes "length w = 3" "set w \<inter> {ch_NUL, ch_comma, ch_space} = {}" "length (months ! m) = 3"
    and "d < 100" "m < 12" "y \<le> 9999" "h < 100" "mi < 100" "s < 100"
  shows "ngx_parse_http_time (w @ bytes '', '' @ dec2 d @ bytes '' '' @ months ! m @ bytes '' '' @ dec4 y @
     bytes '' '' @ dec2 h @ bytes '':'' @ dec2 mi @ bytes '':'' @ dec2 s @ bytes '' GMT'') =
    Some (pt_finish y (int m) d h mi s)"
proof -
  obtain a b c where W: "w = [a, b, c]" using three_chars [OF assms(1)] by blast
  obtain m0 m1 m2 where M: "months ! m = [m0, m1, m2]" using three_chars [OF assms(3)] by blast
  have "y div 1000 < 10" using assms(6) by simp
  moreover have "d div 10 < 10" "h div 10 < 10" "mi div 10 < 10" "s div 10 < 10"
    using assms by simp_all
  ultimately show ?thesis
    using assms(2,5) W M
    by (simp add: bytes_def dec2_def dec4_def ngx_parse_http_time_def pt_prefix.simps pt_spaces.simps need_def need2_def
        need4_def rd_def pt_month_name [of m] pt_year_def pt_clock_def Let_def unat_dig dec_byte_dig dig_not_space
        dec4_value [unfolded add.assoc])
qed


lemma parse_rfc850:
  assumes "length w = 3" "set w \<inter> {ch_NUL, ch_comma, ch_space} = {}" "length (months ! m) = 3"
    and "d < 100" "m < 12" "y < 100" "h < 100" "mi < 100" "s < 100"
  shows "ngx_parse_http_time (w @ bytes '', '' @ dec2 d @ bytes ''-'' @ months ! m @ bytes ''-'' @ dec2 y @
     bytes '' '' @ dec2 h @ bytes '':'' @ dec2 mi @ bytes '':'' @ dec2 s @ bytes '' GMT'') =
    Some (pt_finish (y + (if y < 70 then 2000 else 1900)) (int m) d h mi s)"
proof -
  obtain a b c where W: "w = [a, b, c]" using three_chars [OF assms(1)] by blast
  obtain m0 m1 m2 where M: "months ! m = [m0, m1, m2]" using three_chars [OF assms(3)] by blast
  have "d div 10 < 10" "y div 10 < 10" "h div 10 < 10" "mi div 10 < 10" "s div 10 < 10"
    using assms by simp_all
  then show ?thesis
    using assms(2,5) W M
    by (simp add: bytes_def dec2_def ngx_parse_http_time_def pt_prefix.simps pt_spaces.simps need_def need2_def
        rd_def pt_month_name [of m] pt_year_def pt_clock_def Let_def unat_dig dec_byte_dig dig_not_space)
qed

text \<open>The checks of \<open>pt_finish\<close> pass for a date of the calendar.\<close>

lemma pt_finish_date:
  assumes "1 \<le> m" "m \<le> 12" "1 \<le> y" "y \<le> 9999" "d \<le> month_days y m" "d \<le> 31" "h \<le> 23" "mi \<le> 59" "s \<le> 59"
  shows "pt_finish y (int m - 1) d h mi s = date_seconds y m d h mi s"
proof -
  have "y AND 3 = y mod 4"
    using take_bit_eq_mask [of 2 y] by (simp add: mask_eq_exp_minus_1 take_bit_eq_mod)
  moreover have "pt_mday ! 1 = 28"
    by (simp add: pt_mday_def)
  moreover have "nat (int m - 1) = m - 1" "m - 1 < 12" "Suc (m - 1) = m"
    using assms(1,2) by auto
  ultimately have "\<not> (if d = 29 \<and> int m - 1 = 1 then y AND 3 \<noteq> 0 \<or> y mod 100 = 0 \<and> y mod 400 \<noteq> 0
      else d > pt_mday ! nat (int m - 1))"
    using assms(5) pt_mday_days [of "m - 1" y]
    by (cases "m = 2") (auto simp: month_days_def leap_year_def split: if_splits)
  then have "pt_finish y (int m - 1) d h mi s =
      sint (pt_seconds (of_nat y) (int m - 1) (of_nat d) (of_nat h) (of_nat mi) (of_nat s))"
    using assms(7-9) by (auto simp: pt_finish_def)
  also have "\<dots> = date_seconds y m d h mi s"
    using assms by (intro pt_seconds_date) simp_all
  finally show ?thesis .
qed

lemma parse_long_year:
  assumes "length w = 3" "set w \<inter> {ch_NUL, ch_comma, ch_space} = {}" "length (months ! m) = 3"
    and "d < 100" "m < 12" "y \<le> 9999"
  shows "ngx_parse_http_time (w @ bytes '', '' @ dec2 d @ bytes ''-'' @ months ! m @ bytes ''-'' @ dec4 y @
     bytes '' '' @ dec2 h @ bytes '':'' @ dec2 mi @ bytes '':'' @ dec2 s @ bytes '' GMT'') = Some NGX_ERROR"
proof -
  obtain a b c where W: "w = [a, b, c]" using three_chars [OF assms(1)] by blast
  obtain m0 m1 m2 where M: "months ! m = [m0, m1, m2]" using three_chars [OF assms(3)] by blast
  have "d div 10 < 10" "y div 1000 < 10"
    using assms by simp_all
  then show ?thesis
    using assms(2,5) W M
    by (simp add: bytes_def dec2_def dec4_def ngx_parse_http_time_def pt_prefix.simps pt_spaces.simps need_def need2_def
        rd_def pt_month_name [of m] pt_year_def pt_clock_def Let_def unat_dig dec_byte_dig dig_not_space)
qed

text \<open>A date of a year lies before the next one.\<close>

lemma date_days_less:
  assumes "1 \<le> m" "m \<le> 12" "d \<le> month_days y m"
  shows "date_days y m d < 366 + gauss (int y)"
proof -
  have "m = 1 \<or> m = 2 \<or> m = 3 \<or> m = 4 \<or> m = 5 \<or> m = 6 \<or> m = 7 \<or> m = 8 \<or> m = 9 \<or> m = 10 \<or> m = 11 \<or> m = 12"
    using assms(1,2) by presburger
  then have "(\<Sum>k\<leftarrow>[1..<m]. month_days y k) + d \<le> year_days y"
    using assms(3) by (elim disjE)
      (auto simp: month_days_def year_days_def upt_conv_Cons simp del: One_nat_def split: if_splits)
  then have "int (\<Sum>k\<leftarrow>[1..<m]. month_days y k) + int d \<le> int (year_days y)"
    by (simp only: of_nat_add [symmetric] of_nat_le_iff)
  then show ?thesis
    using years_gauss [of y] by (simp add: date_days_def)
qed

text \<open>A time and its fields as natural numbers, with what the printed names are like.\<close>

lemma gmtime_nat:
  assumes "0 \<le> t" "t < 253402300800"
  obtains w y m d h mi s where
    "ngx_gmtime t = \<lparr>ngx_tm_sec = int s, ngx_tm_min = int mi, ngx_tm_hour = int h, ngx_tm_mday = int d,
       ngx_tm_mon = int m, ngx_tm_year = int y, ngx_tm_wday = w\<rparr>"
    "1 \<le> m" "m \<le> 12" "1 \<le> d" "d \<le> 31" "d \<le> month_days y m" "1970 \<le> y" "y \<le> 9999" "h \<le> 23" "mi \<le> 59" "s \<le> 59"
    "date_seconds y m d h mi s = t"
    "va_name week w = Some (Va_chars (week ! nat w @ [ch_NUL]))" "length (week ! nat w) = 3"
    "set (week ! nat w) \<inter> {ch_NUL, ch_comma, ch_space} = {}"
    "va_name months (int m - 1) = Some (Va_chars (months ! (m - 1) @ [ch_NUL]))"
    "length (months ! (m - 1)) = 3" "ch_NUL \<notin> set (months ! (m - 1))"
proof -
  define tm where "tm = ngx_gmtime t"
  have Y: "t < (366 + gauss (int 9999) - 719528) * 86400" "9999 < (100000::nat)"
    using assms(2) by (simp_all add: gauss_def)
  note F = gmtime_names [OF assms(1) Y tm_def]
  obtain y m d where D: "ngx_tm_year tm = int y" "ngx_tm_mon tm = int m" "ngx_tm_mday tm = int d" "d \<le> month_days y m"
    "t = date_seconds y m d (nat (ngx_tm_hour tm)) (nat (ngx_tm_min tm)) (nat (ngx_tm_sec tm))"
    using gmtime_fields [OF assms(1) Y] unfolding tm_def by blast
  obtain h mi s where H: "ngx_tm_hour tm = int h" "ngx_tm_min tm = int mi" "ngx_tm_sec tm = int s"
    using F by (metis atLeastAtMost_iff nonneg_int_cases)
  have "tm = \<lparr>ngx_tm_sec = int s, ngx_tm_min = int mi, ngx_tm_hour = int h, ngx_tm_mday = int d,
       ngx_tm_mon = int m, ngx_tm_year = int y, ngx_tm_wday = ngx_tm_wday tm\<rparr>"
    using D(1-3) H by (cases tm) simp
  moreover have "nat (int m - 1) = m - 1"
    by simp
  moreover have "date_seconds y m d h mi s = t"
    using D(5) H by simp
  ultimately show ?thesis
    using F D(1-4) H by (intro that [of s mi h d m y "ngx_tm_wday tm"]) (simp_all add: tm_def [symmetric])
qed

lemma http_time_back:
  assumes "0 \<le> t" "t < 253402300800" "buf < 2 ^ 63"
  shows "ngx_http_time buf t \<bind> ngx_parse_http_time = Some t"
proof -
  obtain w y m d h mi s where G:
    "ngx_gmtime t = \<lparr>ngx_tm_sec = int s, ngx_tm_min = int mi, ngx_tm_hour = int h, ngx_tm_mday = int d,
       ngx_tm_mon = int m, ngx_tm_year = int y, ngx_tm_wday = w\<rparr>"
    and D: "1 \<le> m" "m \<le> 12" "1 \<le> d" "d \<le> 31" "d \<le> month_days y m" "1970 \<le> y" "y \<le> 9999" "h \<le> 23" "mi \<le> 59" "s \<le> 59"
      "date_seconds y m d h mi s = t"
    and W: "va_name week w = Some (Va_chars (week ! nat w @ [ch_NUL]))" "length (week ! nat w) = 3"
      "set (week ! nat w) \<inter> {ch_NUL, ch_comma, ch_space} = {}"
    and M: "va_name months (int m - 1) = Some (Va_chars (months ! (m - 1) @ [ch_NUL]))"
      "length (months ! (m - 1)) = 3" "ch_NUL \<notin> set (months ! (m - 1))"
    using gmtime_nat [OF assms(1,2)] .
  have "ngx_parse_http_time (week ! nat w @ bytes '', '' @ dec2 d @ bytes '' '' @ months ! (m - 1) @ bytes '' '' @
      dec4 y @ bytes '' '' @ dec2 h @ bytes '':'' @ dec2 mi @ bytes '':'' @ dec2 s @ bytes '' GMT'') =
      Some (pt_finish y (int (m - 1)) d h mi s)"
    using D W M by (intro parse_rfc822) simp_all
  also have "\<dots> = Some t"
    using D pt_finish_date [of m y d h mi s] by (simp add: of_nat_diff)
  finally show ?thesis
    using G W M D assms(3) by (simp add: ngx_http_time_def Let_def http_format)
qed

lemma smod_nonneg: "0 \<le> (a::int) \<Longrightarrow> 0 < b \<Longrightarrow> a smod b = a mod b"
  using sdiv_nonneg [of a b] minus_div_mult_eq_mod [of a b]
  by (cases "a = 0") (simp_all add: signed_modulo_int_def mult.commute)

lemma year_2037:
  assumes "1 \<le> m" "m \<le> 12" "1 \<le> d" "d \<le> month_days y m" "h \<le> 23" "mi \<le> 59" "s \<le> 59"
  shows "2037 < y \<longleftrightarrow> 2145916800 \<le> date_seconds y m d h mi s"
proof
  assume "2037 < y"
  then have "366 + gauss (int 2037) \<le> date_days y m d"
    using assms(3) by (intro date_days_mono) simp_all
  then show "2145916800 \<le> date_seconds y m d h mi s"
    by (simp add: date_seconds_def date_days_epoch [unfolded One_nat_def] gauss_def)
next
  assume L: "2145916800 \<le> date_seconds y m d h mi s"
  show "2037 < y"
  proof (rule ccontr)
    assume "\<not> 2037 < y"
    then have "366 + gauss (int y) \<le> date_days 2038 1 1"
      by (intro date_days_mono) simp_all
    moreover have "date_days 2038 1 1 = 744365"
      using date_days_gauss [of 1 2038 2037 11 1] by (simp add: gauss_def)
    ultimately have "date_days y m d < 744365"
      using date_days_less [OF assms(1,2,4)] by simp
    then have "date_seconds y m d h mi s < 2145916800"
      using assms(5-7) by (simp add: date_seconds_def date_days_epoch [unfolded One_nat_def])
    with L show False by simp
  qed
qed

lemma cookie_time_back:
  assumes "0 \<le> t" "t < 253402300800" "buf < 2 ^ 63"
  shows "ngx_http_cookie_time buf t \<bind> ngx_parse_http_time = Some (if t < 2145916800 then t else NGX_ERROR)"
proof -
  obtain w y m d h mi s where G:
    "ngx_gmtime t = \<lparr>ngx_tm_sec = int s, ngx_tm_min = int mi, ngx_tm_hour = int h, ngx_tm_mday = int d,
       ngx_tm_mon = int m, ngx_tm_year = int y, ngx_tm_wday = w\<rparr>"
    and D: "1 \<le> m" "m \<le> 12" "1 \<le> d" "d \<le> 31" "d \<le> month_days y m" "1970 \<le> y" "y \<le> 9999" "h \<le> 23" "mi \<le> 59" "s \<le> 59"
      "date_seconds y m d h mi s = t"
    and W: "va_name week w = Some (Va_chars (week ! nat w @ [ch_NUL]))" "length (week ! nat w) = 3"
      "set (week ! nat w) \<inter> {ch_NUL, ch_comma, ch_space} = {}"
    and M: "va_name months (int m - 1) = Some (Va_chars (months ! (m - 1) @ [ch_NUL]))"
      "length (months ! (m - 1)) = 3" "ch_NUL \<notin> set (months ! (m - 1))"
    using gmtime_nat [OF assms(1,2)] .
  have year: "2037 < y \<longleftrightarrow> 2145916800 \<le> t"
    using year_2037 [OF D(1-3,5,8-10)] D(11) by simp
  show ?thesis
  proof (cases "2037 < y")
    case True
    have "ngx_parse_http_time (week ! nat w @ bytes '', '' @ dec2 d @ bytes ''-'' @ months ! (m - 1) @ bytes ''-'' @
        dec4 y @ bytes '' '' @ dec2 h @ bytes '':'' @ dec2 mi @ bytes '':'' @ dec2 s @ bytes '' GMT'') = Some NGX_ERROR"
      using D W M by (intro parse_long_year) simp_all
    then show ?thesis
      using G W M D assms(3) True year by (simp add: ngx_http_cookie_time_def Let_def cookie_format(2))
  next
    case False
    have y: "y mod 100 + (if y mod 100 < 70 then 2000 else 1900) = y"
    proof -
      have "y mod 100 = (if y < 2000 then y - 1900 else y - 2000)"
        using False D(6) by (intro mod_nat_eqI) auto
      then show ?thesis using False D(6) by auto
    qed
    have y': "int y smod 100 = int (y mod 100)"
      by (simp add: smod_nonneg zmod_int)
    have "ngx_parse_http_time (week ! nat w @ bytes '', '' @ dec2 d @ bytes ''-'' @ months ! (m - 1) @ bytes ''-'' @
        dec2 (y mod 100) @ bytes '' '' @ dec2 h @ bytes '':'' @ dec2 mi @ bytes '':'' @ dec2 s @ bytes '' GMT'') =
        Some (pt_finish (y mod 100 + (if y mod 100 < 70 then 2000 else 1900)) (int (m - 1)) d h mi s)"
      using D W M by (intro parse_rfc850) simp_all
    also have "\<dots> = Some t"
      unfolding y using D pt_finish_date [of m y d h mi s] by (simp add: of_nat_diff)
    finally show ?thesis
      using G W M D assms(3) False year y' cookie_format(1) [of "week ! nat w" "months ! (m - 1)" "int d" "int h" "int mi" "int s" buf "int (y mod 100)"]
      by (simp add: ngx_http_cookie_time_def Let_def)
  qed
qed

text \<open>C33. Reading inverts printing: \<open>ngx_parse_http_time\<close> gives back every time of the years 1970 to
  9999 that \<open>ngx_http_time\<close> prints, and every time up to the end of 2037 that
  \<open>ngx_http_cookie_time\<close> prints with a two-digit year; a cookie's date of a later year, with dashes
  and four digits, is refused.\<close>

theorem http_time_roundtrip:
  assumes "0 \<le> t" "buf < 2 ^ 63"
  shows "(t < 253402300800 \<longrightarrow> ngx_http_time buf t \<bind> ngx_parse_http_time = Some t) \<and>
    (t < 2145916800 \<longrightarrow> ngx_http_cookie_time buf t \<bind> ngx_parse_http_time = Some t) \<and>
    (2145916800 \<le> t \<longrightarrow> t < 253402300800 \<longrightarrow> ngx_http_cookie_time buf t \<bind> ngx_parse_http_time = Some NGX_ERROR)"
  using http_time_back [OF assms(1) _ assms(2)] cookie_time_back [OF assms(1) _ assms(2)] by simp

theorem http_time_roundtrip_witness:
  "ngx_http_time 4096 951782400 \<bind> ngx_parse_http_time = Some 951782400 \<and>
   ngx_http_cookie_time 4096 951782400 \<bind> ngx_parse_http_time = Some 951782400"
  using http_time_roundtrip [of 951782400 4096] by simp

end
