(* ===== verification/Ngx_Base64.thy ===== *)
theory Ngx_Base64
  imports Ngx_Prelude
begin

text \<open>
  Base64 and base64url of \<open>src/core/ngx_string.c\<close>: \<open>ngx_encode_base64\<close>,
  \<open>ngx_encode_base64url\<close>, \<open>ngx_decode_base64\<close>, \<open>ngx_decode_base64url\<close> and the two internal
  routines they share, with the alphabets and decoding tables as in the source.

  Both codecs are instances of the locale \<open>base64_codec\<close>, whose laws say that the
  decoding table inverts the alphabet; the round trip and the length laws are proved once
  in the locale.
\<close>

section \<open>Encoding\<close>

definition basis64 :: "u_char list" where
  "basis64 = bytes ''ABCDEFGHIJKLMNOPQRSTUVWXYZabcdefghijklmnopqrstuvwxyz0123456789+/''"

definition basis64url :: "u_char list" where
  "basis64url = bytes ''ABCDEFGHIJKLMNOPQRSTUVWXYZabcdefghijklmnopqrstuvwxyz0123456789-_''"

fun ngx_encode_base64_internal :: "u_char list \<Rightarrow> bool \<Rightarrow> ngx_str \<Rightarrow> ngx_str" where
  "ngx_encode_base64_internal basis padding (s0 # s1 # s2 # s) =
     [basis ! unat (drop_bit 2 s0 AND 0x3f),
      basis ! unat (push_bit 4 (s0 AND 3) OR drop_bit 4 s1),
      basis ! unat (push_bit 2 (s1 AND 0x0f) OR drop_bit 6 s2),
      basis ! unat (s2 AND 0x3f)] @ ngx_encode_base64_internal basis padding s"
| "ngx_encode_base64_internal basis padding [s0] =
     [basis ! unat (drop_bit 2 s0 AND 0x3f),
      basis ! unat (push_bit 4 (s0 AND 3))] @
     (if padding then [ch_eq] else []) @ (if padding then [ch_eq] else [])"
| "ngx_encode_base64_internal basis padding [s0, s1] =
     [basis ! unat (drop_bit 2 s0 AND 0x3f),
      basis ! unat (push_bit 4 (s0 AND 3) OR drop_bit 4 s1),
      basis ! unat (push_bit 2 (s1 AND 0x0f))] @ (if padding then [ch_eq] else [])"
| "ngx_encode_base64_internal basis padding [] = []"

definition ngx_encode_base64 :: "ngx_str \<Rightarrow> ngx_str" where
  "ngx_encode_base64 src = ngx_encode_base64_internal basis64 True src"

definition ngx_encode_base64url :: "ngx_str \<Rightarrow> ngx_str" where
  "ngx_encode_base64url src = ngx_encode_base64_internal basis64url False src"

section \<open>Decoding\<close>

definition decode_basis64 :: "u_char list" where
  "decode_basis64 = [
    77, 77, 77, 77, 77, 77, 77, 77, 77, 77, 77, 77, 77, 77, 77, 77,
    77, 77, 77, 77, 77, 77, 77, 77, 77, 77, 77, 77, 77, 77, 77, 77,
    77, 77, 77, 77, 77, 77, 77, 77, 77, 77, 77, 62, 77, 77, 77, 63,
    52, 53, 54, 55, 56, 57, 58, 59, 60, 61, 77, 77, 77, 77, 77, 77,
    77,  0,  1,  2,  3,  4,  5,  6,  7,  8,  9, 10, 11, 12, 13, 14,
    15, 16, 17, 18, 19, 20, 21, 22, 23, 24, 25, 77, 77, 77, 77, 77,
    77, 26, 27, 28, 29, 30, 31, 32, 33, 34, 35, 36, 37, 38, 39, 40,
    41, 42, 43, 44, 45, 46, 47, 48, 49, 50, 51, 77, 77, 77, 77, 77,

    77, 77, 77, 77, 77, 77, 77, 77, 77, 77, 77, 77, 77, 77, 77, 77,
    77, 77, 77, 77, 77, 77, 77, 77, 77, 77, 77, 77, 77, 77, 77, 77,
    77, 77, 77, 77, 77, 77, 77, 77, 77, 77, 77, 77, 77, 77, 77, 77,
    77, 77, 77, 77, 77, 77, 77, 77, 77, 77, 77, 77, 77, 77, 77, 77,
    77, 77, 77, 77, 77, 77, 77, 77, 77, 77, 77, 77, 77, 77, 77, 77,
    77, 77, 77, 77, 77, 77, 77, 77, 77, 77, 77, 77, 77, 77, 77, 77,
    77, 77, 77, 77, 77, 77, 77, 77, 77, 77, 77, 77, 77, 77, 77, 77,
    77, 77, 77, 77, 77, 77, 77, 77, 77, 77, 77, 77, 77, 77, 77, 77]"

definition decode_basis64url :: "u_char list" where
  "decode_basis64url = [
    77, 77, 77, 77, 77, 77, 77, 77, 77, 77, 77, 77, 77, 77, 77, 77,
    77, 77, 77, 77, 77, 77, 77, 77, 77, 77, 77, 77, 77, 77, 77, 77,
    77, 77, 77, 77, 77, 77, 77, 77, 77, 77, 77, 77, 77, 62, 77, 77,
    52, 53, 54, 55, 56, 57, 58, 59, 60, 61, 77, 77, 77, 77, 77, 77,
    77,  0,  1,  2,  3,  4,  5,  6,  7,  8,  9, 10, 11, 12, 13, 14,
    15, 16, 17, 18, 19, 20, 21, 22, 23, 24, 25, 77, 77, 77, 77, 63,
    77, 26, 27, 28, 29, 30, 31, 32, 33, 34, 35, 36, 37, 38, 39, 40,
    41, 42, 43, 44, 45, 46, 47, 48, 49, 50, 51, 77, 77, 77, 77, 77,

    77, 77, 77, 77, 77, 77, 77, 77, 77, 77, 77, 77, 77, 77, 77, 77,
    77, 77, 77, 77, 77, 77, 77, 77, 77, 77, 77, 77, 77, 77, 77, 77,
    77, 77, 77, 77, 77, 77, 77, 77, 77, 77, 77, 77, 77, 77, 77, 77,
    77, 77, 77, 77, 77, 77, 77, 77, 77, 77, 77, 77, 77, 77, 77, 77,
    77, 77, 77, 77, 77, 77, 77, 77, 77, 77, 77, 77, 77, 77, 77, 77,
    77, 77, 77, 77, 77, 77, 77, 77, 77, 77, 77, 77, 77, 77, 77, 77,
    77, 77, 77, 77, 77, 77, 77, 77, 77, 77, 77, 77, 77, 77, 77, 77,
    77, 77, 77, 77, 77, 77, 77, 77, 77, 77, 77, 77, 77, 77, 77, 77]"

text \<open>The first loop: \<open>None\<close> for \<open>return NGX_ERROR\<close>, otherwise the bytes before \<open>=\<close> or the
  end, whose number is \<open>len\<close>.\<close>

fun decode_base64_scan :: "u_char list \<Rightarrow> ngx_str \<Rightarrow> ngx_str option" where
  "decode_base64_scan basis [] = Some []"
| "decode_base64_scan basis (c # src) =
     (if c = ch_eq then Some []
      else if basis ! unat c = 77 then None
      else map_option ((#) c) (decode_base64_scan basis src))"

text \<open>The decoding loop and the two conditionals after it.\<close>

fun decode_base64_groups :: "u_char list \<Rightarrow> ngx_str \<Rightarrow> ngx_str" where
  "decode_base64_groups basis (s0 # s1 # s2 # s3 # s) =
     [push_bit 2 (basis ! unat s0) OR drop_bit 4 (basis ! unat s1),
      push_bit 4 (basis ! unat s1) OR drop_bit 2 (basis ! unat s2),
      push_bit 6 (basis ! unat s2) OR basis ! unat s3] @ decode_base64_groups basis s"
| "decode_base64_groups basis s =
     (if length s > 1
      then [push_bit 2 (basis ! unat (s ! 0)) OR drop_bit 4 (basis ! unat (s ! 1))] else []) @
     (if length s > 2
      then [push_bit 4 (basis ! unat (s ! 1)) OR drop_bit 2 (basis ! unat (s ! 2))] else [])"

definition ngx_decode_base64_internal :: "u_char list \<Rightarrow> ngx_str \<Rightarrow> ngx_str option" where
  "ngx_decode_base64_internal basis src =
     (case decode_base64_scan basis src of
        None \<Rightarrow> None
      | Some s \<Rightarrow> if length s mod 4 = 1 then None else Some (decode_base64_groups basis s))"

definition ngx_decode_base64 :: "ngx_str \<Rightarrow> ngx_str option" where
  "ngx_decode_base64 src = ngx_decode_base64_internal decode_basis64 src"

definition ngx_decode_base64url :: "ngx_str \<Rightarrow> ngx_str option" where
  "ngx_decode_base64url src = ngx_decode_base64_internal decode_basis64url src"

text \<open>The macros of \<open>ngx_string.h\<close> callers size the destination with.\<close>

definition ngx_base64_encoded_length :: "nat \<Rightarrow> nat" where
  "ngx_base64_encoded_length len = ((len + 2) div 3) * 4"

definition ngx_base64_decoded_length :: "nat \<Rightarrow> nat" where
  "ngx_base64_decoded_length len = ((len + 3) div 4) * 3"

section \<open>Bits\<close>

text \<open>The four 6-bit groups of three bytes, and the 6-bit groups of a byte string with the
  last group filled up with zero bits.\<close>

definition sextet0 :: "u_char \<Rightarrow> u_char" where
  "sextet0 s0 = drop_bit 2 s0 AND 0x3f"

definition sextet1 :: "u_char \<Rightarrow> u_char \<Rightarrow> u_char" where
  "sextet1 s0 s1 = push_bit 4 (s0 AND 3) OR drop_bit 4 s1"

definition sextet2 :: "u_char \<Rightarrow> u_char \<Rightarrow> u_char" where
  "sextet2 s1 s2 = push_bit 2 (s1 AND 0x0f) OR drop_bit 6 s2"

definition sextet3 :: "u_char \<Rightarrow> u_char" where
  "sextet3 s2 = s2 AND 0x3f"

lemmas sextet_defs = sextet0_def sextet1_def sextet2_def sextet3_def

fun base64_sextets :: "ngx_str \<Rightarrow> u_char list" where
  "base64_sextets (s0 # s1 # s2 # s) =
     [sextet0 s0, sextet1 s0 s1, sextet2 s1 s2, sextet3 s2] @ base64_sextets s"
| "base64_sextets [s0] = [sextet0 s0, sextet1 s0 0]"
| "base64_sextets [s0, s1] = [sextet0 s0, sextet1 s0 s1, sextet2 s1 0]"
| "base64_sextets [] = []"

lemma sextets_join:
  "push_bit 2 (sextet0 s0) OR drop_bit 4 (sextet1 s0 s1) = s0"
  "push_bit 4 (sextet1 s0 s1) OR drop_bit 2 (sextet2 s1 s2) = s1"
  "push_bit 6 (sextet2 s1 s2) OR sextet3 s2 = s2"
  unfolding sextet_defs
  by (rule bit_word_eqI; simp add: bit_simps; auto simp: less_Suc_eq numeral_eq_Suc)+

lemma unat_less_64: "u AND 0x3f = u \<Longrightarrow> unat (u::u_char) < 64"
proof -
  assume "u AND 0x3f = u"
  moreover have "unat (u AND 0x3f) = unat u mod 64"
    using unat_and_mask_mod [of u 6] by (simp add: mask_eq_exp_minus_1)
  ultimately have "unat u = unat u mod 64" by simp
  then show "unat u < 64"
    using mod_less_divisor [of 64 "unat u"] by simp
qed

lemma sextet_less [simp]:
  "unat (sextet0 s0) < 64" "unat (sextet1 s0 s1) < 64"
  "unat (sextet2 s1 s2) < 64" "unat (sextet3 s2) < 64"
  by (rule unat_less_64; rule bit_word_eqI; simp add: bit_simps sextet_defs;
      auto simp: less_Suc_eq numeral_eq_Suc dest: bit_imp_le_length)+

lemma sextets_less: "u \<in> set (base64_sextets src) \<Longrightarrow> unat u < 64"
  by (induction src rule: base64_sextets.induct) auto

lemma sextets_length: "length (base64_sextets src) = (4 * length src + 2) div 3"
  by (induction src rule: base64_sextets.induct) auto

lemma mod3_Suc3: "Suc (Suc (Suc n)) mod 3 = n mod 3"
  by presburger

lemma div3_Suc3: "(5 + n) div 3 = Suc (Suc (Suc n) div 3)"
  by presburger

section \<open>The codec contract\<close>

locale base64_codec =
  fixes basis :: "u_char list" and dbasis :: "u_char list"
  assumes decode_encode: "k < 64 \<Longrightarrow> dbasis ! unat (basis ! k) = word_of_nat k"
    and no_padding_char: "k < 64 \<Longrightarrow> basis ! k \<noteq> ch_eq"
begin

lemma table: "unat (u::u_char) < 64 \<Longrightarrow> dbasis ! unat (basis ! unat u) = u"
  by (simp add: decode_encode)

lemma encode_sextets:
  "ngx_encode_base64_internal basis padding src =
     map (\<lambda>u. basis ! unat u) (base64_sextets src) @
     (if padding then replicate ((3 - length src mod 3) mod 3) ch_eq else [])"
  by (induction basis padding src rule: ngx_encode_base64_internal.induct)
    (simp_all add: sextet_defs mod3_Suc3 numeral_2_eq_2)

lemma scan_alphabet:
  fixes us :: "u_char list"
  assumes "\<And>u. u \<in> set us \<Longrightarrow> unat u < 64"
  shows "decode_base64_scan dbasis (map (\<lambda>u. basis ! unat u) us @ replicate n ch_eq) =
    Some (map (\<lambda>u. basis ! unat u) us)"
  using assms
proof (induction us)
  case Nil
  then show ?case by (cases n) simp_all
next
  case (Cons u us)
  then have u: "unat u < 64" by simp
  then have "u \<noteq> 77"
    by (cases "u = 77") simp_all
  with u Cons show ?case
    by (simp add: table no_padding_char)
qed

lemma groups_sextets: "decode_base64_groups dbasis (map (\<lambda>u. basis ! unat u) (base64_sextets src)) = src"
  by (induction src rule: base64_sextets.induct) (simp_all add: table sextets_join)

lemma roundtrip:
  "ngx_decode_base64_internal dbasis (ngx_encode_base64_internal basis padding src) = Some src"
proof -
  have "decode_base64_scan dbasis (ngx_encode_base64_internal basis padding src) =
      Some (map (\<lambda>u. basis ! unat u) (base64_sextets src))"
    using scan_alphabet [of "base64_sextets src"] scan_alphabet [of "base64_sextets src" 0] sextets_less
    by (auto simp: encode_sextets)
  moreover have "length (base64_sextets src) mod 4 \<noteq> 1"
    by (simp add: sextets_length) presburger
  ultimately show ?thesis
    by (simp add: ngx_decode_base64_internal_def groups_sextets)
qed

lemma padded_length:
  "length (ngx_encode_base64_internal basis True src) = ngx_base64_encoded_length (length src)"
  by (induction src rule: base64_sextets.induct) (simp_all add: ngx_base64_encoded_length_def div3_Suc3)

lemma unpadded_length:
  "length (ngx_encode_base64_internal basis False src) \<le> ngx_base64_encoded_length (length src)"
  by (simp add: encode_sextets flip: padded_length)

end

lemma basis_tables:
  "map (\<lambda>c. decode_basis64 ! unat c) basis64 = map word_of_nat [0..<64]"
  "map (\<lambda>c. decode_basis64url ! unat c) basis64url = map word_of_nat [0..<64]"
  by (simp_all add: decode_basis64_def basis64_def decode_basis64url_def basis64url_def bytes_def upt_rec)

lemma basis_alphabets:
  "list_all (\<lambda>c. c \<noteq> ch_eq) basis64 \<and> length basis64 = 64"
  "list_all (\<lambda>c. c \<noteq> ch_eq) basis64url \<and> length basis64url = 64"
  by (simp_all add: basis64_def basis64url_def bytes_def)

lemma nth_map_eq: "map f xs = map g [0..<n] \<Longrightarrow> k < n \<Longrightarrow> f (xs ! k) = g k"
  by (metis length_map length_upt minus_nat.diff_0 nth_map nth_upt add_0)

interpretation b64: base64_codec basis64 decode_basis64
  by unfold_locales (use basis_alphabets(1) in \<open>auto simp: nth_map_eq [OF basis_tables(1)] list_all_length\<close>)

interpretation b64url: base64_codec basis64url decode_basis64url
  by unfold_locales (use basis_alphabets(2) in \<open>auto simp: nth_map_eq [OF basis_tables(2)] list_all_length\<close>)

text \<open>Decoding what was encoded gives the original bytes, for every byte string, in both
  alphabets, with and without padding.\<close>

theorem base64_roundtrip:
  "ngx_decode_base64 (ngx_encode_base64 src) = Some src
   \<and> ngx_decode_base64url (ngx_encode_base64url src) = Some src"
  by (simp add: ngx_decode_base64_def ngx_encode_base64_def ngx_decode_base64url_def
      ngx_encode_base64url_def b64.roundtrip b64url.roundtrip)

lemma groups_length: "length (decode_base64_groups basis s) = length s * 3 div 4"
  by (induction basis s rule: decode_base64_groups.induct) auto

lemma scan_length: "decode_base64_scan basis src = Some s \<Longrightarrow> length s \<le> length src"
  by (induction src arbitrary: s) (fastforce split: if_splits)+

lemma decoded_length:
  assumes "ngx_decode_base64_internal basis src = Some dst"
  shows "length dst \<le> ngx_base64_decoded_length (length src)"
proof -
  from assms obtain s where "decode_base64_scan basis src = Some s" and "dst = decode_base64_groups basis s"
    by (auto simp: ngx_decode_base64_internal_def split: option.splits if_splits)
  then have "length dst = length s * 3 div 4" "length s \<le> length src"
    by (simp_all add: groups_length scan_length)
  then show ?thesis
    unfolding ngx_base64_decoded_length_def by linarith
qed

text \<open>The length macros are right: the padded encoding has exactly
  \<open>ngx_base64_encoded_length\<close> bytes, the unpadded one at most that many, and a successful
  decoding never writes more than \<open>ngx_base64_decoded_length\<close> bytes.\<close>

theorem base64_lengths:
  "length (ngx_encode_base64 src) = ngx_base64_encoded_length (length src)
   \<and> length (ngx_encode_base64url src) \<le> ngx_base64_encoded_length (length src)
   \<and> (case ngx_decode_base64_internal basis src of
        None \<Rightarrow> True | Some dst \<Rightarrow> length dst \<le> ngx_base64_decoded_length (length src))"
  by (simp add: ngx_encode_base64_def ngx_encode_base64url_def b64.padded_length b64url.unpadded_length
      decoded_length split: option.split)

end
