(* ===== verification/Ngx_Utf8.thy ===== *)
theory Ngx_Utf8
  imports Ngx_Prelude
begin

text \<open>
  UTF-8 of \<open>src/core/ngx_string.c\<close>: \<open>ngx_utf8_decode\<close>, \<open>ngx_utf8_length\<close> and
  \<open>ngx_utf8_cpystrn\<close>. The functions read through pointers, so the model reads through
  \<open>rd\<close>: the result \<open>None\<close> stands for a read outside the memory object, and a result
  \<open>Some\<close> includes the claim that every read was inside. \<open>size_t\<close> arguments whose
  decrement may wrap are 64-bit words.
\<close>

section \<open>The functions\<close>

text \<open>The loop over the continuation bytes: the inner \<open>None\<close> is \<open>return 0xffffffff\<close>.\<close>

fun utf8_decode_loop :: "u_char list \<Rightarrow> nat \<Rightarrow> 32 word \<Rightarrow> nat \<Rightarrow> (32 word option \<times> nat) option" where
  "utf8_decode_loop mem 0 u p = Some (Some u, p)"
| "utf8_decode_loop mem (Suc len) u p =
     (case rd mem p of
        None \<Rightarrow> None
      | Some c \<Rightarrow>
          (let i = ucast c :: 32 word in
           if i < 0x80 then Some (None, p + 1)
           else utf8_decode_loop mem len (push_bit 6 u OR (i AND 0x3f)) (p + 1)))"

definition utf8_decode_tail ::
  "u_char list \<Rightarrow> nat \<Rightarrow> 64 word \<Rightarrow> 32 word \<Rightarrow> 32 word \<Rightarrow> nat \<Rightarrow> (32 word \<times> nat) option" where
  "utf8_decode_tail mem p n u valid len =
     (if n - 1 < word_of_nat len then Some (0xfffffffe, p)
      else case utf8_decode_loop mem len u (p + 1) of
             None \<Rightarrow> None
           | Some (None, p') \<Rightarrow> Some (0xffffffff, p')
           | Some (Some u', p') \<Rightarrow> Some (if u' > valid then u' else 0xffffffff, p'))"

definition ngx_utf8_decode :: "u_char list \<Rightarrow> nat \<Rightarrow> 64 word \<Rightarrow> (32 word \<times> nat) option" where
  "ngx_utf8_decode mem p n =
     (case rd mem p of
        None \<Rightarrow> None
      | Some c \<Rightarrow>
          (let u = ucast c :: 32 word in
           if u \<ge> 0xf0 then utf8_decode_tail mem p n (u AND 0x07) 0xffff 3
           else if u \<ge> 0xe0 then utf8_decode_tail mem p n (u AND 0x0f) 0x7ff 2
           else if u \<ge> 0xc2 then utf8_decode_tail mem p n (u AND 0x1f) 0x7f 1
           else Some (0xffffffff, p + 1)))"

lemma utf8_decode_loop_pos: "utf8_decode_loop mem len u p = Some (r, p') \<Longrightarrow> p \<le> p'"
  by (induction len arbitrary: u p) (fastforce simp: Let_def split: option.splits if_splits)+

text \<open>A decoded character moves the pointer: the loops below terminate.\<close>

lemma ngx_utf8_decode_advances:
  assumes "ngx_utf8_decode mem p n = Some (v, p')" "\<not> v > 0x10ffff"
  shows "p < p'"
  using assms utf8_decode_loop_pos
  by (fastforce simp: ngx_utf8_decode_def utf8_decode_tail_def Let_def
      split: option.splits if_splits prod.splits)

function utf8_length_loop :: "u_char list \<Rightarrow> nat \<Rightarrow> 64 word \<Rightarrow> nat \<Rightarrow> nat \<Rightarrow> nat option" where
  "utf8_length_loop mem lim n p len =
     (if p < lim then
        (case rd mem p of
           None \<Rightarrow> None
         | Some c \<Rightarrow>
             if c < 0x80 then utf8_length_loop mem lim n (p + 1) (len + 1)
             else
               (case ngx_utf8_decode mem p n of
                  None \<Rightarrow> None
                | Some (v, p') \<Rightarrow>
                    if v > 0x10ffff then Some (unat n)
                    else utf8_length_loop mem lim n p' (len + 1)))
      else Some len)"
  by pat_completeness auto
termination
  by (relation "measure (\<lambda>(mem, lim, n, p, len). lim - p)")
    (auto dest: ngx_utf8_decode_advances)

declare utf8_length_loop.simps [simp del]

definition ngx_utf8_length :: "u_char list \<Rightarrow> nat \<Rightarrow> 64 word \<Rightarrow> nat option" where
  "ngx_utf8_length mem p n = utf8_length_loop mem (p + unat n) n p 0"

text \<open>\<open>ngx_utf8_cpystrn\<close>: the bytes written to \<open>dst\<close>. The loop argument is \<open>n\<close> before
  \<open>while (--n)\<close>.\<close>

fun utf8_cpystrn_loop :: "u_char list \<Rightarrow> nat \<Rightarrow> nat \<Rightarrow> 64 word \<Rightarrow> u_char list option" where
  "utf8_cpystrn_loop mem 0 src len = Some [ch_NUL]"
| "utf8_cpystrn_loop mem (Suc n) src len =
     (if n = 0 then Some [ch_NUL]
      else case rd mem src of
        None \<Rightarrow> None
      | Some c \<Rightarrow>
          if c < 0x80 then
            (if c \<noteq> 0 then map_option ((#) c) (utf8_cpystrn_loop mem n (src + 1) (len - 1))
             else Some [c])
          else
            (case ngx_utf8_decode mem src len of
               None \<Rightarrow> None
             | Some (v, nxt) \<Rightarrow>
                 if v > 0x10ffff then Some [ch_NUL]
                 else map_option ((@) (take (nxt - src) (drop src mem)))
                        (utf8_cpystrn_loop mem n nxt (len - word_of_nat (nxt - src)))))"

definition ngx_utf8_cpystrn :: "u_char list \<Rightarrow> nat \<Rightarrow> nat \<Rightarrow> 64 word \<Rightarrow> u_char list option" where
  "ngx_utf8_cpystrn mem src n len =
     (if n = 0 then Some [] else utf8_cpystrn_loop mem n src len)"

section \<open>The encoding the functions read\<close>

definition utf8_encode :: "nat \<Rightarrow> u_char list" where
  "utf8_encode cp =
     (if cp < 0x80 then [word_of_nat cp]
      else if cp < 0x800 then [word_of_nat (0xc0 + cp div 64), word_of_nat (0x80 + cp mod 64)]
      else if cp < 0x10000 then
        [word_of_nat (0xe0 + cp div 4096), word_of_nat (0x80 + cp div 64 mod 64),
         word_of_nat (0x80 + cp mod 64)]
      else
        [word_of_nat (0xf0 + cp div 262144), word_of_nat (0x80 + cp div 4096 mod 64),
         word_of_nat (0x80 + cp div 64 mod 64), word_of_nat (0x80 + cp mod 64)])"

definition code_point :: "nat \<Rightarrow> bool" where
  "code_point cp \<longleftrightarrow> cp < 0x110000"

subsection \<open>One step of the loop as arithmetic\<close>

lemma ucast_byte: "n < 256 \<Longrightarrow> (ucast (word_of_nat n :: u_char) :: 32 word) = word_of_nat n"
  by (rule word_unat_eq_iff [THEN iffD2])
    (simp add: unsigned_ucast_eq unsigned_of_nat take_bit_nat_eq_self)

lemma unat_32_of_nat: "n < 4294967296 \<Longrightarrow> unat (word_of_nat n :: 32 word) = n"
  by (simp add: unsigned_of_nat take_bit_nat_eq_self)

lemma and_mask_of_nat:
  "n < 256 \<Longrightarrow> (word_of_nat n :: 32 word) AND mask j = word_of_nat (n mod 2 ^ j)"
proof (rule word_unat_eq_iff [THEN iffD2])
  assume "n < 256"
  then have "n mod 2 ^ j < 4294967296"
    using mod_less_eq_dividend [of n "2 ^ j"] by linarith
  with \<open>n < 256\<close> show "unat ((word_of_nat n :: 32 word) AND mask j) = unat (word_of_nat (n mod 2 ^ j) :: 32 word)"
    by (simp only: unat_and_mask_mod unat_32_of_nat)
qed

lemma sextet_append:
  assumes "k < 64"
  shows "push_bit 6 u OR (ucast (word_of_nat (128 + k) :: u_char) AND 0x3f) = (u * 64 + word_of_nat k :: 32 word)"
proof -
  have "(k + 2 * 64) mod 64 = k"
    using assms by (simp only: mod_mult_self1 mod_less)
  then have m: "(128 + k) mod 64 = k"
    by (simp only: add.commute) simp
  have lt: "128 + k < 256"
    using assms by simp
  have "(ucast (word_of_nat (128 + k) :: u_char) AND 0x3f :: 32 word) = word_of_nat (128 + k) AND mask 6"
    by (simp only: ucast_byte [OF lt]) (simp only: mask_eq_exp_minus_1, simp)
  also have "\<dots> = word_of_nat ((128 + k) mod 64)"
    by (rule trans [OF and_mask_of_nat [OF lt]]) simp
  also have "\<dots> = word_of_nat k"
    by (simp only: m)
  finally have "(ucast (word_of_nat (128 + k) :: u_char) AND 0x3f :: 32 word) = word_of_nat k" .
  moreover have "push_bit 6 u OR word_of_nat k = push_bit 6 u + (word_of_nat k :: 32 word)"
  proof (rule disjunctive_add_eq_or [symmetric], rule bit_eqI)
    fix m
    have "m < 6" if "bit k m"
    proof (rule ccontr)
      assume "\<not> m < 6"
      then have "(2::nat) ^ 6 \<le> 2 ^ m"
        by (intro power_increasing) simp_all
      with assms have "k div 2 ^ m = 0" by simp
      with that show False by (simp add: bit_iff_odd)
    qed
    then show "bit (push_bit 6 u AND (word_of_nat k :: 32 word)) m = bit 0 m"
      by (auto simp: bit_simps)
  qed
  ultimately show ?thesis
    by (simp add: push_bit_eq_mult)
qed

lemma lead_and_mask:
  assumes "q < 2 ^ j" "a * 2 ^ j + q < 256"
  shows "(ucast (word_of_nat (a * 2 ^ j + q) :: u_char) :: 32 word) AND mask j = word_of_nat q"
proof -
  have "(a * 2 ^ j + q) mod 2 ^ j = q"
    using assms(1) by simp
  then show ?thesis
    by (simp only: ucast_byte [OF assms(2)] and_mask_of_nat [OF assms(2)])
qed

lemma unat_ucast_byte [simp]: "unat (ucast (c::u_char) :: 32 word) = unat c"
proof -
  have "unat c < 2 ^ 32"
    by (rule order.strict_trans [OF unat_byte_less]) simp
  then show ?thesis
    by (simp only: unsigned_ucast_eq) (simp add: take_bit_nat_eq_self)
qed

lemma lead_ranges:
  "(0xf0 :: 32 word) \<le> ucast (c::u_char) \<longleftrightarrow> 240 \<le> unat c"
  "(0xe0 :: 32 word) \<le> ucast (c::u_char) \<longleftrightarrow> 224 \<le> unat c"
  "(0xc2 :: 32 word) \<le> ucast (c::u_char) \<longleftrightarrow> 194 \<le> unat c"
  "(ucast (c::u_char) :: 32 word) < 0x80 \<longleftrightarrow> unat c < 128"
  by (simp_all add: word_le_nat_alt word_less_nat_alt)

lemma enough_bytes:
  assumes "len < unat (n::64 word)" "len < 4"
  shows "\<not> n - 1 < word_of_nat len"
proof -
  have "n \<noteq> 0" using assms(1) by auto
  then have "unat (n - 1) = unat n - 1"
    by (rule unat_minus_one)
  moreover have "unat (word_of_nat len :: 64 word) = len"
    using assms(2) by (simp add: unsigned_of_nat take_bit_nat_eq_self)
  ultimately show ?thesis
    using assms(1) by (simp add: word_less_nat_alt)
qed

lemma decode_lead:
  assumes c: "rd mem p = Some (word_of_nat b)"
  shows "b = 6 * 2 ^ 5 + q \<Longrightarrow> 2 \<le> q \<Longrightarrow> q < 32 \<Longrightarrow>
      ngx_utf8_decode mem p n = utf8_decode_tail mem p n (word_of_nat q) 0x7f 1"
    and "b = 14 * 2 ^ 4 + q \<Longrightarrow> q < 16 \<Longrightarrow>
      ngx_utf8_decode mem p n = utf8_decode_tail mem p n (word_of_nat q) 0x7ff 2"
    and "b = 30 * 2 ^ 3 + q \<Longrightarrow> q < 8 \<Longrightarrow>
      ngx_utf8_decode mem p n = utf8_decode_tail mem p n (word_of_nat q) 0xffff 3"
proof -
  have masks: "(0x1f :: 32 word) = mask 5" "(0x0f :: 32 word) = mask 4" "(0x07 :: 32 word) = mask 3"
    by (simp_all add: mask_eq_exp_minus_1)
  { assume b: "b = 6 * 2 ^ 5 + q" "2 \<le> q" "q < 32"
    then have "unat (word_of_nat b :: u_char) = b" by (intro unat_word_of_nat_byte) simp
    moreover have "(ucast (word_of_nat b :: u_char) :: 32 word) AND mask 5 = word_of_nat q"
      unfolding b(1) by (rule lead_and_mask) (use b in simp_all)
    ultimately show "ngx_utf8_decode mem p n = utf8_decode_tail mem p n (word_of_nat q) 0x7f 1"
      using b by (simp add: ngx_utf8_decode_def c lead_ranges masks Let_def) }
  { assume b: "b = 14 * 2 ^ 4 + q" "q < 16"
    then have "unat (word_of_nat b :: u_char) = b" by (intro unat_word_of_nat_byte) simp
    moreover have "(ucast (word_of_nat b :: u_char) :: 32 word) AND mask 4 = word_of_nat q"
      unfolding b(1) by (rule lead_and_mask) (use b in simp_all)
    ultimately show "ngx_utf8_decode mem p n = utf8_decode_tail mem p n (word_of_nat q) 0x7ff 2"
      using b by (simp add: ngx_utf8_decode_def c lead_ranges masks Let_def) }
  { assume b: "b = 30 * 2 ^ 3 + q" "q < 8"
    then have "unat (word_of_nat b :: u_char) = b" by (intro unat_word_of_nat_byte) simp
    moreover have "(ucast (word_of_nat b :: u_char) :: 32 word) AND mask 3 = word_of_nat q"
      unfolding b(1) by (rule lead_and_mask) (use b in simp_all)
    ultimately show "ngx_utf8_decode mem p n = utf8_decode_tail mem p n (word_of_nat q) 0xffff 3"
      using b by (simp add: ngx_utf8_decode_def c lead_ranges masks Let_def) }
qed

lemma loop_continuation:
  assumes "drop p mem = word_of_nat (0x80 + k) # rest" "k < 64"
  shows "utf8_decode_loop mem (Suc len) (word_of_nat q) p =
    utf8_decode_loop mem len (word_of_nat (q * 64 + k)) (Suc p)"
proof -
  have b: "unat (word_of_nat (0x80 + k) :: u_char) = 0x80 + k"
    using assms(2) by (intro unat_word_of_nat_byte) simp
  have "\<not> (ucast (word_of_nat (0x80 + k) :: u_char) :: 32 word) < 0x80"
    unfolding lead_ranges b by simp
  moreover have "(word_of_nat q :: 32 word) * 64 + word_of_nat k = word_of_nat (q * 64 + k)"
    by simp
  ultimately show ?thesis
    using sextet_append [OF assms(2), of "word_of_nat q"]
    by (simp only: utf8_decode_loop.simps rd_drop [OF assms(1)] option.case Let_def if_False
        add_Suc_right One_nat_def add_0_right)
qed

lemma tail_value:
  assumes "utf8_decode_loop mem len (word_of_nat q) (Suc p) = Some (Some (word_of_nat cp), p')"
    and "len < unat n" "len < 4" "unat valid < cp" "cp < 4294967296"
  shows "utf8_decode_tail mem p n (word_of_nat q) valid len = Some (word_of_nat cp, p')"
  using assms enough_bytes [OF assms(2,3)]
  by (simp add: utf8_decode_tail_def word_less_nat_alt unat_32_of_nat)

lemma cp_div:
  "cp div 4096 * 64 + cp div 64 mod 64 = cp div (64::nat)"
  "cp div 262144 * 64 + cp div 4096 mod 64 = cp div (4096::nat)"
  using div_mult2_eq [of cp 64 64] div_mult2_eq [of cp 4096 64] by simp_all

text \<open>Decoding an encoded character gives it back and consumes exactly its bytes.\<close>

lemma decode_encode:
  assumes mem: "drop p mem = utf8_encode cp @ rest"
    and cp: "0x80 \<le> cp" "code_point cp" and n: "length (utf8_encode cp) \<le> unat n"
  shows "ngx_utf8_decode mem p n = Some (word_of_nat cp, p + length (utf8_encode cp))"
proof -
  consider (two) "cp < 0x800" | (three) "0x800 \<le> cp" "cp < 0x10000" | (four) "0x10000 \<le> cp"
    by linarith
  then show ?thesis
  proof cases
    case two
    then have m: "drop p mem = word_of_nat (6 * 2 ^ 5 + cp div 64) # word_of_nat (0x80 + cp mod 64) # rest"
      using mem cp by (simp add: utf8_encode_def)
    have l: "utf8_decode_loop mem 1 (word_of_nat (cp div 64)) (Suc p) = Some (Some (word_of_nat cp), Suc (Suc p))"
      using loop_continuation [OF drop_Suc_Cons [OF m], of 0 "cp div 64"] by simp
    have "ngx_utf8_decode mem p n = utf8_decode_tail mem p n (word_of_nat (cp div 64)) 0x7f 1"
      by (rule decode_lead(1) [OF rd_drop [OF m] refl]) (use two cp in simp_all)
    also have "\<dots> = Some (word_of_nat cp, Suc (Suc p))"
      by (rule tail_value [OF l]) (use two cp n in \<open>simp_all add: utf8_encode_def\<close>)
    finally show ?thesis
      using two cp by (simp add: utf8_encode_def)
  next
    case three
    then have m: "drop p mem = word_of_nat (14 * 2 ^ 4 + cp div 4096) # word_of_nat (0x80 + cp div 64 mod 64) #
        word_of_nat (0x80 + cp mod 64) # rest"
      using mem by (simp add: utf8_encode_def)
    have l: "utf8_decode_loop mem 2 (word_of_nat (cp div 4096)) (Suc p) = Some (Some (word_of_nat cp), Suc (Suc (Suc p)))"
      using loop_continuation [OF drop_Suc_Cons [OF m], of 1 "cp div 4096"]
        loop_continuation [OF drop_Suc_Cons [OF drop_Suc_Cons [OF m]], of 0 "cp div 64"]
      by (simp add: cp_div numeral_2_eq_2)
    have "ngx_utf8_decode mem p n = utf8_decode_tail mem p n (word_of_nat (cp div 4096)) 0x7ff 2"
      by (rule decode_lead(2) [OF rd_drop [OF m] refl]) (use three in simp)
    also have "\<dots> = Some (word_of_nat cp, Suc (Suc (Suc p)))"
      by (rule tail_value [OF l]) (use three n in \<open>simp_all add: utf8_encode_def\<close>)
    finally show ?thesis
      using three by (simp add: utf8_encode_def)
  next
    case four
    then have m: "drop p mem = word_of_nat (30 * 2 ^ 3 + cp div 262144) #
        word_of_nat (0x80 + cp div 4096 mod 64) # word_of_nat (0x80 + cp div 64 mod 64) #
        word_of_nat (0x80 + cp mod 64) # rest"
      using mem by (simp add: utf8_encode_def)
    have l: "utf8_decode_loop mem 3 (word_of_nat (cp div 262144)) (Suc p) = Some (Some (word_of_nat cp), Suc (Suc (Suc (Suc p))))"
      using loop_continuation [OF drop_Suc_Cons [OF m], of 2 "cp div 262144"]
        loop_continuation [OF drop_Suc_Cons [OF drop_Suc_Cons [OF m]], of 1 "cp div 4096"]
        loop_continuation [OF drop_Suc_Cons [OF drop_Suc_Cons [OF drop_Suc_Cons [OF m]]], of 0 "cp div 64"]
      by (simp add: cp_div numeral_2_eq_2 numeral_3_eq_3)
    have "ngx_utf8_decode mem p n = utf8_decode_tail mem p n (word_of_nat (cp div 262144)) 0xffff 3"
      by (rule decode_lead(3) [OF rd_drop [OF m] refl]) (use four cp in \<open>simp add: code_point_def\<close>)
    also have "\<dots> = Some (word_of_nat cp, Suc (Suc (Suc (Suc p))))"
      by (rule tail_value [OF l]) (use four n cp in \<open>simp_all add: utf8_encode_def code_point_def\<close>)
    finally show ?thesis
      using four by (simp add: utf8_encode_def)
  qed
qed

section \<open>Memory safety of decoding\<close>

lemma decode_loop_safe:
  "p + len \<le> length mem \<Longrightarrow> \<exists>r p'. utf8_decode_loop mem len u p = Some (r, p') \<and> p' \<le> p + len"
proof (induction len arbitrary: u p)
  case 0
  then show ?case by simp
next
  case (Suc len)
  then obtain c where "rd mem p = Some c"
    by (auto simp: rd_def)
  moreover have "\<exists>r p'. utf8_decode_loop mem len u' (Suc p) = Some (r, p') \<and> p' \<le> Suc p + len" for u'
    using Suc.IH [of "Suc p" u'] Suc.prems by simp
  ultimately show ?case
    by (fastforce simp: Let_def)
qed

lemma tail_safe:
  assumes "0 < unat (n::64 word)" "p + unat n \<le> length mem" "0 < len" "len < 4"
  shows "\<exists>v p'. utf8_decode_tail mem p n u valid len = Some (v, p') \<and> p' \<le> p + unat n"
proof (cases "n - 1 < word_of_nat len")
  case True
  then show ?thesis by (simp add: utf8_decode_tail_def)
next
  case False
  have "unat (n - 1) = unat n - 1"
    using assms(1) by (intro unat_minus_one) auto
  moreover have "unat (word_of_nat len :: 64 word) = len"
    using assms(4) by (simp add: unsigned_of_nat take_bit_nat_eq_self)
  ultimately have "len \<le> unat n - 1"
    using False by (simp add: word_less_nat_alt)
  then have le: "p + 1 + len \<le> p + unat n"
    using assms(1) by linarith
  then obtain r p' where "utf8_decode_loop mem len u (p + 1) = Some (r, p')" "p' \<le> p + 1 + len"
    using assms(2) decode_loop_safe [of "p + 1" len mem u] by (meson le_trans)
  with False le show ?thesis
    by (cases r) (simp_all add: utf8_decode_tail_def)
qed

text \<open>\<open>ngx_utf8_decode\<close> called on at least one byte reads only the \<open>n\<close> bytes it is given
  and leaves the pointer inside or just behind them, whatever the bytes are.\<close>

theorem ngx_utf8_decode_safe:
  assumes "0 < unat n" "p + unat n \<le> length mem"
  shows "\<exists>v p'. ngx_utf8_decode mem p n = Some (v, p') \<and> p \<le> p' \<and> p' \<le> p + unat n"
proof -
  obtain c where c: "rd mem p = Some c"
    using assms by (auto simp: rd_def)
  have "\<exists>v p'. ngx_utf8_decode mem p n = Some (v, p') \<and> p' \<le> p + unat n"
    using tail_safe [OF assms] assms(1) by (simp add: ngx_utf8_decode_def c Let_def)
  moreover have "ngx_utf8_decode mem p n = Some (v, p') \<Longrightarrow> p \<le> p'" for v p'
    by (fastforce simp: ngx_utf8_decode_def utf8_decode_tail_def c Let_def
        dest: utf8_decode_loop_pos split: option.splits if_splits prod.splits)
  ultimately show ?thesis by blast
qed

theorem ngx_utf8_decode_safe_witness:
  "\<exists>v p'. ngx_utf8_decode [0xe2, 0x82, 0xac] 0 3 = Some (v, p') \<and> 0 \<le> p' \<and> p' \<le> 0 + unat (3::64 word)"
  by (rule ngx_utf8_decode_safe) simp_all

text \<open>Decoding inverts encoding: the bytes of a code point from U+0080 to U+10FFFF, found
  anywhere in memory, decode to that code point and the pointer moves past them.\<close>

theorem utf8_roundtrip:
  assumes "drop p mem = utf8_encode cp @ rest" "0x80 \<le> cp" "code_point cp"
    and "length (utf8_encode cp) \<le> unat n"
  shows "ngx_utf8_decode mem p n = Some (word_of_nat cp, p + length (utf8_encode cp))"
  using assms by (rule decode_encode)

theorem utf8_roundtrip_witness:
  "ngx_utf8_decode [0x61, 0xe2, 0x82, 0xac, 0x62] 1 4 = Some (word_of_nat 0x20ac, 1 + 3)"
  using utf8_roundtrip [where p = 1 and mem = "[0x61, 0xe2, 0x82, 0xac, 0x62]" and cp = "0x20ac"
      and rest = "[0x62]" and n = 4]
  by (simp add: utf8_encode_def code_point_def)

section \<open>Counting and copying characters\<close>

lemma encode_ascii: "cp < 0x80 \<Longrightarrow> utf8_encode cp = [word_of_nat cp]"
  by (simp add: utf8_encode_def)

lemma ascii_byte: "cp < 0x80 \<Longrightarrow> (word_of_nat cp :: u_char) < 0x80"
  by (simp add: word_less_nat_alt)

lemma encode_lead:
  assumes "0x80 \<le> cp" "code_point cp"
  shows "\<exists>c cs. utf8_encode cp = c # cs \<and> \<not> c < 0x80"
proof -
  have "cp div 64 < 0x20" if "cp < 0x800" using that by simp
  moreover have "cp div 4096 < 0x10" if "cp < 0x10000" using that by simp
  moreover have "cp div 262144 < 8" using assms(2) by (simp add: code_point_def)
  ultimately show ?thesis
    using assms(1) by (simp add: utf8_encode_def word_less_nat_alt del: of_nat_add)
qed

lemma code_point_value: "code_point cp \<Longrightarrow> \<not> (word_of_nat cp :: 32 word) > 0x10ffff"
  by (simp add: code_point_def word_less_nat_alt unat_32_of_nat)

lemma drop_past: "drop p mem = xs @ ys \<Longrightarrow> drop (p + length xs) mem = ys"
  by (metis add.commute append_eq_conv_conj drop_drop)

lemma length_loop_valid:
  assumes "drop p mem = concat (map utf8_encode cps) @ rest" "list_all code_point cps"
    and "length (concat (map utf8_encode cps)) \<le> unat n" "lim = p + length (concat (map utf8_encode cps))"
  shows "utf8_length_loop mem lim n p len = Some (len + length cps)"
  using assms
proof (induction cps arbitrary: p len)
  case Nil
  then show ?case by (subst utf8_length_loop.simps) simp
next
  case (Cons cp cps)
  let ?cs = "concat (map utf8_encode cps)"
  have dr: "drop p mem = utf8_encode cp @ ?cs @ rest"
    using Cons.prems(1) by simp
  have IH: "utf8_length_loop mem lim n (p + length (utf8_encode cp)) (Suc len) = Some (Suc len + length cps)"
    using Cons.prems by (intro Cons.IH drop_past [OF dr]) simp_all
  show ?case
  proof (cases "cp < 0x80")
    case True
    then have "rd mem p = Some (word_of_nat cp)"
      using dr by (intro rd_drop) (simp add: encode_ascii)
    with True IH Cons.prems(4) show ?thesis
      by (subst utf8_length_loop.simps) (simp add: encode_ascii ascii_byte)
  next
    case False
    then obtain c cs where c: "utf8_encode cp = c # cs" "\<not> c < 0x80"
      using encode_lead [of cp] Cons.prems(2) by (auto simp: not_less)
    have "ngx_utf8_decode mem p n = Some (word_of_nat cp, p + length (utf8_encode cp))"
      using False Cons.prems by (intro decode_encode [OF dr]) auto
    moreover have "rd mem p = Some c"
      using dr c by (intro rd_drop) simp
    ultimately show ?thesis
      using c IH Cons.prems code_point_value [of cp]
      by (subst utf8_length_loop.simps) simp
  qed
qed

text \<open>\<open>ngx_utf8_length\<close> of a valid UTF-8 text is its number of code points, and the
  function reads nothing outside the text.\<close>

theorem ngx_utf8_length_valid:
  assumes "list_all code_point cps" "length (concat (map utf8_encode cps)) < 2 ^ 64"
  shows "ngx_utf8_length (concat (map utf8_encode cps)) 0
      (word_of_nat (length (concat (map utf8_encode cps)))) = Some (length cps)"
proof -
  have "unat (word_of_nat (length (concat (map utf8_encode cps))) :: 64 word) =
      length (concat (map utf8_encode cps))"
    using assms(2) by (simp add: unsigned_of_nat take_bit_nat_eq_self del: length_concat)
  then show ?thesis
    using assms(1) length_loop_valid [of 0 "concat (map utf8_encode cps)" cps "[]"]
    by (simp add: ngx_utf8_length_def del: length_concat)
qed

theorem ngx_utf8_length_valid_witness:
  "ngx_utf8_length [0x61, 0xc3, 0xa9, 0xe2, 0x82, 0xac] 0 6 = Some 3"
  using ngx_utf8_length_valid [of "[0x61, 0xe9, 0x20ac]"]
  by (simp add: utf8_encode_def code_point_def)


lemma unat_sub_of_nat:
  assumes "k \<le> unat (w::64 word)"
  shows "unat (w - word_of_nat k) = unat w - k"
proof -
  have "k < 2 ^ LENGTH(64)"
    using assms unsigned_less [of w, where ?'a = nat] by (rule le_less_trans)
  then have "unat (word_of_nat k :: 64 word) = k"
    by (simp only: unsigned_of_nat take_bit_nat_eq_self of_nat_id)
  with assms show ?thesis
    by (simp add: unat_sub word_le_nat_alt)
qed

lemma cpystrn_loop_valid:
  assumes "drop src mem = concat (map utf8_encode cps) @ ch_NUL # rest"
    and "list_all (\<lambda>cp. code_point cp \<and> cp \<noteq> 0) cps"
    and "length (concat (map utf8_encode cps)) < unat len" "0 < n"
  shows "utf8_cpystrn_loop mem n src len =
    Some (concat (map utf8_encode (take (n - 1) cps)) @ [ch_NUL])"
  using assms
proof (induction cps arbitrary: src len n)
  case Nil
  then have "rd mem src = Some ch_NUL"
    by (intro rd_drop) simp
  with Nil(4) show ?case by (cases n) simp_all
next
  case (Cons cp cps)
  let ?cs = "concat (map utf8_encode cps)" and ?k = "length (utf8_encode cp)"
  have dr: "drop src mem = utf8_encode cp @ ?cs @ ch_NUL # rest"
    using Cons.prems(1) by simp
  have "?k \<le> unat len"
    using Cons.prems(3) by simp
  then have len: "unat (len - word_of_nat ?k) = unat len - ?k"
    by (rule unat_sub_of_nat)
  show ?case
  proof (cases "n = 1")
    case True
    then show ?thesis by simp
  next
    case False
    then obtain m where m: "0 < m" and n: "n = Suc m"
      using Cons.prems(4) by (cases n) auto
    have IH: "utf8_cpystrn_loop mem m (src + ?k) (len - word_of_nat ?k) =
        Some (concat (map utf8_encode (take (m - 1) cps)) @ [ch_NUL])"
      using Cons.IH [of "src + ?k" "len - word_of_nat ?k" m] Cons.prems drop_past [OF dr] len m
      by simp
    have tk: "take m (cp # cps) = cp # take (m - 1) cps"
      using m by (cases m) simp_all
    show ?thesis
    proof (cases "cp < 0x80")
      case True
      then have "rd mem src = Some (word_of_nat cp)"
        using dr by (intro rd_drop) (simp add: encode_ascii)
      moreover have "unat (word_of_nat cp :: u_char) = cp"
        using True by simp
      then have "(word_of_nat cp :: u_char) \<noteq> 0"
        using Cons.prems(2) by auto
      ultimately show ?thesis
        using True n m tk IH by (simp add: encode_ascii ascii_byte)
    next
      case False
      then obtain c cs where c: "utf8_encode cp = c # cs" "\<not> c < 0x80"
        using encode_lead [of cp] Cons.prems(2) by (auto simp: not_less)
      have "ngx_utf8_decode mem src len = Some (word_of_nat cp, src + ?k)"
        using False Cons.prems by (intro decode_encode [OF dr]) auto
      moreover have "rd mem src = Some c"
        using dr c by (intro rd_drop) simp
      moreover have "take ?k (drop src mem) = utf8_encode cp"
        using dr by simp
      ultimately show ?thesis
        using c IH Cons.prems(2) n m tk code_point_value [of cp] by simp
    qed
  qed
qed

text \<open>\<open>ngx_utf8_cpystrn\<close> of a valid zero-terminated text copies its first \<open>n - 1\<close>
  characters (never a part of one) and terminates the copy.\<close>

theorem ngx_utf8_cpystrn_valid:
  assumes "list_all (\<lambda>cp. code_point cp \<and> cp \<noteq> 0) cps" "0 < n"
    and "length (concat (map utf8_encode cps)) < unat len"
  shows "ngx_utf8_cpystrn (concat (map utf8_encode cps) @ [ch_NUL]) 0 n len =
    Some (concat (map utf8_encode (take (n - 1) cps)) @ [ch_NUL])"
  using assms cpystrn_loop_valid [of 0 "concat (map utf8_encode cps) @ [ch_NUL]" cps "[]" len n]
  by (simp add: ngx_utf8_cpystrn_def)

theorem ngx_utf8_cpystrn_valid_witness:
  "ngx_utf8_cpystrn [0x61, 0xc3, 0xa9, 0x62, 0] 0 3 5 = Some [0x61, 0xc3, 0xa9, 0]"
  using ngx_utf8_cpystrn_valid [of "[0x61, 0xe9, 0x62]" 3 5]
  by (simp add: utf8_encode_def code_point_def)

end
