(* ===== verification/Ngx_Escape.thy ===== *)
theory Ngx_Escape
  imports Ngx_Number
begin

text \<open>
  Escaping of \<open>src/core/ngx_string.c\<close>: \<open>ngx_escape_uri\<close> with its seven character tables,
  \<open>ngx_unescape_uri\<close>, \<open>ngx_escape_html\<close> and \<open>ngx_escape_json\<close>. The escape functions have
  two modes: with \<open>dst == NULL\<close> they count, else they write; both modes are modelled and the
  counting mode is proved to size the buffer exactly.
\<close>

section \<open>Percent-escaping\<close>

definition escape_uri_tab :: "32 word list" where
  "escape_uri_tab = [0xffffffff, 0x80000029, 0x00000000, 0x80000000,
                     0xffffffff, 0xffffffff, 0xffffffff, 0xffffffff]"

definition escape_args_tab :: "32 word list" where
  "escape_args_tab = [0xffffffff, 0x88000869, 0x00000000, 0x80000000,
                      0xffffffff, 0xffffffff, 0xffffffff, 0xffffffff]"

definition escape_uri_component_tab :: "32 word list" where
  "escape_uri_component_tab = [0xffffffff, 0xfc009fff, 0x78000001, 0xb8000001,
                               0xffffffff, 0xffffffff, 0xffffffff, 0xffffffff]"

definition escape_html_tab :: "32 word list" where
  "escape_html_tab = [0xffffffff, 0x000000ad, 0x00000000, 0x80000000,
                      0xffffffff, 0xffffffff, 0xffffffff, 0xffffffff]"

definition escape_refresh_tab :: "32 word list" where
  "escape_refresh_tab = [0xffffffff, 0x00000085, 0x00000000, 0x80000000,
                         0xffffffff, 0xffffffff, 0xffffffff, 0xffffffff]"

definition escape_memcached_tab :: "32 word list" where
  "escape_memcached_tab = [0xffffffff, 0x00000021, 0x00000000, 0x00000000,
                           0x00000000, 0x00000000, 0x00000000, 0x00000000]"

text \<open>The \<open>type\<close> argument: the constants \<open>NGX_ESCAPE_*\<close> of \<open>ngx_string.h\<close>.\<close>

datatype escape_type =
  NGX_ESCAPE_URI | NGX_ESCAPE_ARGS | NGX_ESCAPE_URI_COMPONENT | NGX_ESCAPE_HTML
| NGX_ESCAPE_REFRESH | NGX_ESCAPE_MEMCACHED | NGX_ESCAPE_MAIL_AUTH

fun escape_map :: "escape_type \<Rightarrow> 32 word list" where
  "escape_map NGX_ESCAPE_URI = escape_uri_tab"
| "escape_map NGX_ESCAPE_ARGS = escape_args_tab"
| "escape_map NGX_ESCAPE_URI_COMPONENT = escape_uri_component_tab"
| "escape_map NGX_ESCAPE_HTML = escape_html_tab"
| "escape_map NGX_ESCAPE_REFRESH = escape_refresh_tab"
| "escape_map NGX_ESCAPE_MEMCACHED = escape_memcached_tab"
| "escape_map NGX_ESCAPE_MAIL_AUTH = escape_memcached_tab"

text \<open>\<open>dst == NULL\<close>: the number of characters to be escaped.\<close>

fun ngx_escape_uri_count :: "escape_type \<Rightarrow> ngx_str \<Rightarrow> nat" where
  "ngx_escape_uri_count type [] = 0"
| "ngx_escape_uri_count type (c # src) =
     (if bitmap_test (escape_map type) c then 1 else 0) + ngx_escape_uri_count type src"

fun ngx_escape_uri :: "escape_type \<Rightarrow> ngx_str \<Rightarrow> ngx_str" where
  "ngx_escape_uri type [] = []"
| "ngx_escape_uri type (c # src) =
     (if bitmap_test (escape_map type) c
      then [ch_percent, ngx_HEX ! unat (drop_bit 4 c), ngx_HEX ! unat (c AND 0xf)]
      else [c]) @ ngx_escape_uri type src"

section \<open>Unescaping\<close>

datatype unescape_state = sw_usual | sw_quoted | sw_quoted_second

text \<open>The flags \<open>NGX_UNESCAPE_URI = 1\<close> and \<open>NGX_UNESCAPE_REDIRECT = 2\<close> of \<open>type\<close>.\<close>

record unescape_type =
  unescape_uri :: bool
  unescape_redirect :: bool

text \<open>One iteration: the next state, \<open>decoded\<close>, the bytes written and whether the loop is
  left by \<open>goto done\<close>. \<open>s2\<close> is \<open>*(s - 2)\<close>, the byte before \<open>ch\<close>.\<close>

definition unescape_emit :: "unescape_type \<Rightarrow> u_char \<Rightarrow> u_char \<Rightarrow> u_char \<Rightarrow> ngx_str" where
  "unescape_emit type ch s2 s1 =
     (if unescape_redirect type
      then (if ch > ch_percent \<and> ch < 0x7f then [ch] else [ch_percent, s2, s1])
      else [ch])"

definition unescape_step ::
  "unescape_type \<Rightarrow> unescape_state \<Rightarrow> u_char \<Rightarrow> u_char \<Rightarrow> u_char \<Rightarrow>
   unescape_state \<times> u_char \<times> ngx_str \<times> bool" where
  "unescape_step type state decoded s2 ch =
     (case state of
        sw_usual \<Rightarrow>
          if ch = ch_question \<and> (unescape_uri type \<or> unescape_redirect type)
          then (sw_usual, decoded, [ch], True)
          else if ch = ch_percent then (sw_quoted, decoded, [], False)
          else (sw_usual, decoded, [ch], False)
      | sw_quoted \<Rightarrow>
          if ch \<ge> ch_0 \<and> ch \<le> ch_9 then (sw_quoted_second, ch - ch_0, [], False)
          else (let c = ch OR 0x20 in
            if c \<ge> ch_a \<and> c \<le> ch_f then (sw_quoted_second, c - ch_a + 10, [], False)
            else (sw_usual, decoded, [ch], False))
      | sw_quoted_second \<Rightarrow>
          if ch \<ge> ch_0 \<and> ch \<le> ch_9 then
            (let ch' = push_bit 4 decoded + ch - ch_0
             in (sw_usual, decoded, unescape_emit type ch' s2 ch, False))
          else (let c = ch OR 0x20 in
            if c \<ge> ch_a \<and> c \<le> ch_f then
              (let ch' = push_bit 4 decoded + c - ch_a + 10
               in if unescape_uri type then (sw_usual, decoded, [ch'], ch' = ch_question)
                  else if unescape_redirect type \<and> ch' = ch_question
                  then (sw_usual, decoded, [ch'], True)
                  else (sw_usual, decoded, unescape_emit type ch' s2 ch, False))
            else (sw_usual, decoded, [], False)))"

text \<open>The loop: the bytes written and the unread rest of \<open>src\<close>.\<close>

fun unescape_loop ::
  "unescape_type \<Rightarrow> unescape_state \<Rightarrow> u_char \<Rightarrow> u_char \<Rightarrow> ngx_str \<Rightarrow> ngx_str \<times> ngx_str" where
  "unescape_loop type state decoded s2 [] = ([], [])"
| "unescape_loop type state decoded s2 (ch # s) =
     (case unescape_step type state decoded s2 ch of
        (state', decoded', out, stop) \<Rightarrow>
          if stop then (out, s)
          else (case unescape_loop type state' decoded' ch s of (d, rest) \<Rightarrow> (out @ d, rest)))"

definition ngx_unescape_uri :: "unescape_type \<Rightarrow> ngx_str \<Rightarrow> ngx_str \<times> ngx_str" where
  "ngx_unescape_uri type src = unescape_loop type sw_usual 0 0 src"

section \<open>HTML and JSON\<close>

fun ngx_escape_html_count :: "ngx_str \<Rightarrow> nat" where
  "ngx_escape_html_count [] = 0"
| "ngx_escape_html_count (c # src) =
     (if c = ch_lt then length ''&lt;'' - 1
      else if c = ch_gt then length ''&gt;'' - 1
      else if c = ch_amp then length ''&amp;'' - 1
      else if c = ch_dquote then length ''&quot;'' - 1
      else 0) + ngx_escape_html_count src"

fun ngx_escape_html :: "ngx_str \<Rightarrow> ngx_str" where
  "ngx_escape_html [] = []"
| "ngx_escape_html (c # src) =
     (if c = ch_lt then bytes ''&lt;''
      else if c = ch_gt then bytes ''&gt;''
      else if c = ch_amp then bytes ''&amp;''
      else if c = ch_dquote then bytes ''&quot;''
      else [c]) @ ngx_escape_html src"

fun ngx_escape_json_count :: "ngx_str \<Rightarrow> nat" where
  "ngx_escape_json_count [] = 0"
| "ngx_escape_json_count (c # src) =
     (if c = ch_backslash \<or> c = ch_dquote then 1
      else if c \<le> 0x1f then length (bytes [CHR 0x5c] @ bytes ''u001F'') - 1
      else 0) + ngx_escape_json_count src"

fun ngx_escape_json :: "ngx_str \<Rightarrow> ngx_str" where
  "ngx_escape_json [] = []"
| "ngx_escape_json (c # src) =
     (if c > 0x1f then (if c = ch_backslash \<or> c = ch_dquote then [ch_backslash] else []) @ [c]
      else [ch_backslash, 0x75, ch_0, ch_0, ch_0 + drop_bit 4 c] @
           (let c' = c AND 0xf in [if c' < 10 then ch_0 + c' else ch_A + c' - 10]))
     @ ngx_escape_json src"

section \<open>Percent-escaping is sized right and reversible\<close>

lemma escape_uri_length:
  "length (ngx_escape_uri type src) = length src + 2 * ngx_escape_uri_count type src"
  by (induction src) simp_all

lemma escapes_percent:
  "type \<noteq> NGX_ESCAPE_REFRESH \<Longrightarrow> bitmap_test (escape_map type) ch_percent"
  by (cases type)
    (simp_all add: bitmap_test_bit escape_uri_tab_def escape_args_tab_def escape_uri_component_tab_def
      escape_html_tab_def escape_memcached_tab_def bit_iff_odd)

lemma less_16_cases:
  "k < 16 \<Longrightarrow> k = 0 \<or> k = 1 \<or> k = 2 \<or> k = 3 \<or> k = 4 \<or> k = 5 \<or> k = 6 \<or> k = 7 \<or> k = 8 \<or> k = 9 \<or>
    k = 10 \<or> k = 11 \<or> k = 12 \<or> k = 13 \<or> k = 14 \<or> k = (15::nat)"
  by (auto simp: less_Suc_eq numeral_eq_Suc)

lemma HEX_letter:
  assumes "k < 16"
  shows "(ngx_HEX ! k \<ge> ch_0 \<and> ngx_HEX ! k \<le> ch_9 \<and> ngx_HEX ! k - ch_0 = word_of_nat k) \<or>
    (\<not> (ngx_HEX ! k \<ge> ch_0 \<and> ngx_HEX ! k \<le> ch_9) \<and>
     (ngx_HEX ! k OR 0x20) \<ge> ch_a \<and> (ngx_HEX ! k OR 0x20) \<le> ch_f \<and>
     (ngx_HEX ! k OR 0x20) - ch_a + 10 = word_of_nat k)"
  using less_16_cases [OF assms] by (elim disjE) (simp_all add: ngx_HEX_def bytes_def)

definition plain :: unescape_type where
  "plain = \<lparr>unescape_uri = False, unescape_redirect = False\<rparr>"

lemma unescape_HEX:
  assumes "k < 16" "j < 16"
  shows "unescape_loop plain sw_quoted d s2 (ngx_HEX ! k # ngx_HEX ! j # s) =
    (case unescape_loop plain sw_usual (word_of_nat k) (ngx_HEX ! j) s of
       (d, rest) \<Rightarrow> ((push_bit 4 (word_of_nat k) + word_of_nat j) # d, rest))"
proof -
  have second: "unescape_step plain sw_quoted_second x s2 (ngx_HEX ! j) =
      (sw_usual, x, [push_bit 4 x + word_of_nat j], False)" for x s2
    using HEX_letter [OF assms(2)]
    by (auto simp: unescape_step_def plain_def unescape_emit_def Let_def algebra_simps)
  have "unescape_step plain sw_quoted d s2 (ngx_HEX ! k) = (sw_quoted_second, word_of_nat k, [], False)"
    using HEX_letter [OF assms(1)] by (auto simp: unescape_step_def Let_def)
  then show ?thesis
    by (simp add: second split: prod.splits)
qed

lemma join_nibbles: "push_bit 4 (word_of_nat (unat (c::u_char) div 16)) + word_of_nat (unat c mod 16) = c"
proof -
  have "push_bit 4 (word_of_nat (unat c div 16)) + word_of_nat (unat c mod 16) =
      (word_of_nat (unat c div 16 * 16 + unat c mod 16) :: u_char)"
    by (simp only: push_bit_eq_mult of_nat_add of_nat_mult) simp
  then show ?thesis
    by (simp only: div_mult_mod_eq) simp
qed

text \<open>Unescaping (without the URI and redirect modes) undoes escaping for every type but
  \<open>NGX_ESCAPE_REFRESH\<close>, on every byte string, and reads all of it.\<close>

theorem escape_uri_roundtrip:
  assumes "type \<noteq> NGX_ESCAPE_REFRESH"
  shows "ngx_unescape_uri plain (ngx_escape_uri type src) = (src, [])"
proof -
  have "unescape_loop plain sw_usual d s2 (ngx_escape_uri type src) = (src, [])" for d s2
  proof (induction src arbitrary: d s2)
    case Nil
    then show ?case by simp
  next
    case (Cons c src)
    have nib: "unat c div 16 < 16" "unat c mod 16 < 16"
      by simp_all
    show ?case
    proof (cases "bitmap_test (escape_map type) c")
      case True
      have "unescape_step plain sw_usual d s2 ch_percent = (sw_quoted, d, [], False)"
        by (simp add: unescape_step_def plain_def)
      with True Cons.IH show ?thesis
        using unescape_loop.simps(2) [of plain sw_usual d s2 ch_percent]
        by (simp add: nibbles unescape_HEX [OF nib] join_nibbles del: unescape_loop.simps(2))
    next
      case False
      then have "c \<noteq> ch_percent"
        using escapes_percent [OF assms] by auto
      then have "unescape_step plain sw_usual d s2 c = (sw_usual, d, [c], False)"
        by (simp add: unescape_step_def plain_def)
      with False Cons.IH show ?thesis by simp
    qed
  qed
  then show ?thesis
    by (simp add: ngx_unescape_uri_def)
qed

theorem escape_uri_roundtrip_witness:
  "ngx_unescape_uri plain (ngx_escape_uri NGX_ESCAPE_ARGS (bytes ''a&b c%'')) = (bytes ''a&b c%'', [])"
  by (rule escape_uri_roundtrip) simp

text \<open>The \<open>NGX_ESCAPE_REFRESH\<close> table does not escape the percent sign, though the comment
  above it lists it: text with a percent sign is then not restored by unescaping.\<close>

theorem escape_refresh_percent:
  "ngx_escape_uri NGX_ESCAPE_REFRESH (bytes ''%41'') = bytes ''%41''
   \<and> ngx_unescape_uri plain (ngx_escape_uri NGX_ESCAPE_REFRESH (bytes ''%41'')) = (bytes ''A'', [])"
  by (simp add: bytes_def bitmap_test_bit escape_refresh_tab_def bit_iff_odd ngx_unescape_uri_def
      unescape_step_def plain_def unescape_emit_def Let_def)

lemma unescape_loop_length:
  "unescape_loop type state decoded s2 s = (d, rest) \<Longrightarrow>
   length d + length rest \<le> length s + (case state of sw_usual \<Rightarrow> 0 | sw_quoted \<Rightarrow> 1 | sw_quoted_second \<Rightarrow> 2)"
proof (induction s arbitrary: state decoded s2 d)
  case Nil
  then show ?case by simp
next
  case (Cons ch s)
  obtain state' decoded' out stop where
    step: "unescape_step type state decoded s2 ch = (state', decoded', out, stop)"
    by (metis prod_cases4)
  have "length out + (if stop then 0 else case state' of sw_usual \<Rightarrow> 0 | sw_quoted \<Rightarrow> 1 | sw_quoted_second \<Rightarrow> 2) \<le>
      1 + (case state of sw_usual \<Rightarrow> 0 | sw_quoted \<Rightarrow> 1 | sw_quoted_second \<Rightarrow> 2)"
    using step by (auto simp: unescape_step_def unescape_emit_def Let_def
        split: unescape_state.splits if_splits)
  with Cons step show ?case
    by (fastforce split: if_splits prod.splits)
qed

text \<open>Unescaping never produces more bytes than it reads, in any mode, so it may run in
  place: the bytes written and the bytes left unread together fit the source.\<close>

theorem ngx_unescape_uri_bounds:
  "length (fst (ngx_unescape_uri type src)) + length (snd (ngx_unescape_uri type src)) \<le> length src"
  using unescape_loop_length [of type sw_usual 0 0 src] by (simp add: ngx_unescape_uri_def)

text \<open>The counting mode of the three escape functions gives exactly the number of extra
  bytes the writing mode produces (\<open>ngx_escape_uri\<close> counts characters, two extra bytes each).\<close>

theorem escape_counts_exact:
  "length (ngx_escape_uri type src) = length src + 2 * ngx_escape_uri_count type src
   \<and> length (ngx_escape_html src) = length src + ngx_escape_html_count src
   \<and> length (ngx_escape_json src) = length src + ngx_escape_json_count src"
proof -
  have "length (ngx_escape_html src) = length src + ngx_escape_html_count src"
    by (induction src) (simp_all add: bytes_def)
  moreover have "length (ngx_escape_json src) = length src + ngx_escape_json_count src"
    by (induction src) (auto simp: bytes_def Let_def not_less)
  ultimately show ?thesis
    by (simp add: escape_uri_length)
qed

section \<open>HTML and JSON escaping lose nothing\<close>

text \<open>Readers of the escaped forms: entities, and the escapes of a JSON string body.\<close>

function html_unescape :: "ngx_str \<Rightarrow> ngx_str" where
  "html_unescape s =
     (if s = [] then []
      else if take 4 s = bytes ''&lt;'' then ch_lt # html_unescape (drop 4 s)
      else if take 4 s = bytes ''&gt;'' then ch_gt # html_unescape (drop 4 s)
      else if take 5 s = bytes ''&amp;'' then ch_amp # html_unescape (drop 5 s)
      else if take 6 s = bytes ''&quot;'' then ch_dquote # html_unescape (drop 6 s)
      else hd s # html_unescape (tl s))"
  by pat_completeness auto
termination
  by (relation "measure length") auto

declare html_unescape.simps [simp del]

function json_unescape :: "ngx_str \<Rightarrow> ngx_str" where
  "json_unescape s =
     (if s = [] then []
      else if hd s \<noteq> ch_backslash then hd s # json_unescape (tl s)
      else if take 4 s = [ch_backslash, 0x75, ch_0, ch_0] then
        word_of_int (the (radix_value hex_digit 16 0 (take 2 (drop 4 s)))) # json_unescape (drop 6 s)
      else take 1 (tl s) @ json_unescape (drop 2 s))"
  by pat_completeness auto
termination
  by (relation "measure length") auto

declare json_unescape.simps [simp del]

lemma html_unescape_step:
  "html_unescape (bytes ''&lt;'' @ s) = ch_lt # html_unescape s"
  "html_unescape (bytes ''&gt;'' @ s) = ch_gt # html_unescape s"
  "html_unescape (bytes ''&amp;'' @ s) = ch_amp # html_unescape s"
  "html_unescape (bytes ''&quot;'' @ s) = ch_dquote # html_unescape s"
  "c \<noteq> ch_amp \<Longrightarrow> html_unescape (c # s) = c # html_unescape s"
  by (subst html_unescape.simps; simp add: bytes_def)+

text \<open>\<open>ngx_escape_html\<close> leaves no raw \<open><\<close>, \<open>>\<close> or double quote in its output and loses
  nothing: reading the entities back gives the source.\<close>

theorem ngx_escape_html_correct:
  "set (ngx_escape_html src) \<inter> {ch_lt, ch_gt, ch_dquote} = {} \<and> html_unescape (ngx_escape_html src) = src"
proof
  show "set (ngx_escape_html src) \<inter> {ch_lt, ch_gt, ch_dquote} = {}"
    by (induction src) (auto simp: bytes_def)
  show "html_unescape (ngx_escape_html src) = src"
    by (induction src) (simp_all add: html_unescape_step, simp add: html_unescape.simps)
qed

text \<open>The two hexadecimal digits of \<open>\u00XY\<close>, checked for the 32 control bytes.\<close>

definition json_hex :: "u_char \<Rightarrow> ngx_str" where
  "json_hex c = [ch_0 + drop_bit 4 c,
     if c AND 0xf < 10 then ch_0 + (c AND 0xf) else ch_A + (c AND 0xf) - 10]"

lemma json_hex_value:
  assumes "\<not> c > (0x1f::u_char)"
  shows "radix_value hex_digit 16 0 (json_hex c) = Some (uint c) \<and>
    list_all (\<lambda>x. x > 0x1f \<and> x \<noteq> ch_dquote \<and> x \<noteq> ch_backslash) (json_hex c)"
proof -
  have "list_all (\<lambda>k. radix_value hex_digit 16 0 (json_hex (word_of_nat k)) = Some (int k) \<and>
      list_all (\<lambda>x. x > 0x1f \<and> x \<noteq> ch_dquote \<and> x \<noteq> ch_backslash) (json_hex (word_of_nat k))) [0..<32]"
    by (simp add: json_hex_def hex_digit_def upt_rec)
  from this [unfolded list_all_iff [where xs = "[0..<32]"], THEN bspec, of "unat c"]
  show ?thesis
    using assms by (simp add: word_less_nat_alt)
qed

lemma json_unescape_step:
  "c \<noteq> ch_backslash \<Longrightarrow> json_unescape (c # s) = c # json_unescape s"
  "c \<noteq> 0x75 \<Longrightarrow> json_unescape (ch_backslash # c # s) = c # json_unescape s"
  "json_unescape ([ch_backslash, 0x75, ch_0, ch_0, a, b] @ s) =
     word_of_int (the (radix_value hex_digit 16 0 [a, b])) # json_unescape s"
  by (subst json_unescape.simps; simp del: radix_value.simps)+

lemma escape_json_Cons:
  "ngx_escape_json (c # src) =
     (if c > 0x1f then (if c = ch_backslash \<or> c = ch_dquote then [ch_backslash, c] else [c])
      else [ch_backslash, 0x75, ch_0, ch_0] @ json_hex c) @ ngx_escape_json src"
  by (simp add: json_hex_def Let_def)

text \<open>A JSON string body is well formed: no control byte, and every double quote and every
  backslash belongs to an escape.\<close>

fun json_body :: "ngx_str \<Rightarrow> bool" where
  "json_body [] = True"
| "json_body [c] = (c > 0x1f \<and> c \<noteq> ch_dquote \<and> c \<noteq> ch_backslash)"
| "json_body (c # c' # s) =
     (if c = ch_backslash then c' > 0x1f \<and> json_body s
      else c > 0x1f \<and> c \<noteq> ch_dquote \<and> json_body (c' # s))"

lemma json_body_Cons:
  "c > 0x1f \<Longrightarrow> c \<noteq> ch_dquote \<Longrightarrow> c \<noteq> ch_backslash \<Longrightarrow> json_body (c # s) = json_body s"
  by (cases s) simp_all

text \<open>\<open>ngx_escape_json\<close> writes a well-formed JSON string body for every byte string, and
  reading its escapes back gives the source.\<close>

theorem ngx_escape_json_correct:
  "json_body (ngx_escape_json src) \<and> json_unescape (ngx_escape_json src) = src"
proof (induction src)
  case Nil
  then show ?case by (simp add: json_unescape.simps)
next
  case (Cons c src)
  show ?case
  proof (cases "c > 0x1f")
    case True
    with Cons show ?thesis
      by (auto simp: escape_json_Cons json_unescape_step json_body_Cons simp del: ngx_escape_json.simps(2))
  next
    case False
    obtain a b where ab: "json_hex c = [a, b]"
      by (simp add: json_hex_def)
    have "json_unescape (ngx_escape_json (c # src)) = c # src"
      using False Cons json_hex_value [OF False] ab
      by (simp add: escape_json_Cons json_unescape_step(3) [of a b, simplified] del: ngx_escape_json.simps(2))
    moreover have "json_body (ngx_escape_json (c # src))"
      using False Cons json_hex_value [OF False] ab
      by (simp add: escape_json_Cons json_body_Cons del: ngx_escape_json.simps(2))
    ultimately show ?thesis by simp
  qed
qed

end
