(* ===== verification/Ngx_Strings.thy ===== *)
theory Ngx_Strings
  imports Ngx_Prelude "HOL-Library.List_Lexorder"
begin

text \<open>
  The comparison and search functions of \<open>src/core/ngx_string.c\<close> and \<open>ngx_strlchr\<close> of
  \<open>ngx_string.h\<close>.

  A \<open>u_char *\<close> argument is the list of the bytes from the pointer to the end of the object it
  points into, \<open>None\<close> a read behind that end; where a function returns a pointer, the result is
  an offset from its first argument and \<open>None\<close> inside the \<open>Some\<close> is \<open>NULL\<close>. The comparisons
  return the difference of two unsigned values converted to \<open>ngx_int_t\<close>, a number between -255
  and 255. The locale \<open>byte_order\<close> is the contract of the comparison functions of
  zero-terminated strings.
\<close>

subsection \<open>Definitions\<close>

definition ngx_tolower :: "u_char \<Rightarrow> u_char" where
  "ngx_tolower c = (if c \<ge> ch_A \<and> c \<le> ch_Z then c OR 0x20 else c)"

text \<open>\<open>ngx_strlow\<close>: the \<open>n\<close> bytes written to \<open>dst\<close>.\<close>

fun ngx_strlow :: "ngx_str \<Rightarrow> nat \<Rightarrow> ngx_str option" where
  "ngx_strlow src 0 = Some []"
| "ngx_strlow (c # src) (Suc n) = map_option (\<lambda>dst. ngx_tolower c # dst) (ngx_strlow src n)"
| "ngx_strlow [] (Suc n) = None"

text \<open>\<open>ngx_cpystrn\<close>: the bytes written to \<open>dst\<close>; the result points to the last of them, the zero
  byte (to \<open>dst\<close> itself when \<open>n\<close> is 0 and nothing is written).\<close>

fun cpystrn_loop :: "ngx_str \<Rightarrow> nat \<Rightarrow> ngx_str option" where
  "cpystrn_loop src 0 = Some [ch_NUL]"
| "cpystrn_loop (c # src) (Suc n) =
     (if c = ch_NUL then Some [c] else map_option (\<lambda>dst. c # dst) (cpystrn_loop src n))"
| "cpystrn_loop [] (Suc n) = None"

definition ngx_cpystrn :: "ngx_str \<Rightarrow> nat \<Rightarrow> ngx_str option" where
  "ngx_cpystrn src n = (if n = 0 then Some [] else cpystrn_loop src (n - 1))"

definition byte_diff :: "u_char \<Rightarrow> u_char \<Rightarrow> int" where
  "byte_diff c1 c2 = uint c1 - uint c2"

fun ngx_strcasecmp :: "ngx_str \<Rightarrow> ngx_str \<Rightarrow> int option" where
  "ngx_strcasecmp (s # s1) (t # s2) =
     (let c1 = (if s \<ge> ch_A \<and> s \<le> ch_Z then s OR 0x20 else s);
          c2 = (if t \<ge> ch_A \<and> t \<le> ch_Z then t OR 0x20 else t)
      in if c1 = c2 then if c1 \<noteq> 0 then ngx_strcasecmp s1 s2 else Some 0
         else Some (byte_diff c1 c2))"
| "ngx_strcasecmp _ _ = None"

fun ngx_strncasecmp :: "ngx_str \<Rightarrow> ngx_str \<Rightarrow> nat \<Rightarrow> int option" where
  "ngx_strncasecmp s1 s2 0 = Some 0"
| "ngx_strncasecmp (s # s1) (t # s2) (Suc n) =
     (let c1 = (if s \<ge> ch_A \<and> s \<le> ch_Z then s OR 0x20 else s);
          c2 = (if t \<ge> ch_A \<and> t \<le> ch_Z then t OR 0x20 else t)
      in if c1 = c2 then if c1 \<noteq> 0 then ngx_strncasecmp s1 s2 n else Some 0
         else Some (byte_diff c1 c2))"
| "ngx_strncasecmp _ _ (Suc n) = None"

text \<open>\<open>strncmp\<close> of the C library.\<close>

fun c_strncmp :: "ngx_str \<Rightarrow> ngx_str \<Rightarrow> nat \<Rightarrow> int option" where
  "c_strncmp s1 s2 0 = Some 0"
| "c_strncmp (c1 # s1) (c2 # s2) (Suc n) =
     (if c1 = c2 then if c1 \<noteq> 0 then c_strncmp s1 s2 n else Some 0 else Some (byte_diff c1 c2))"
| "c_strncmp _ _ (Suc n) = None"

fun c_strlen :: "ngx_str \<Rightarrow> nat option" where
  "c_strlen (c # s) = (if c = 0 then Some 0 else map_option Suc (c_strlen s))"
| "c_strlen [] = None"

text \<open>The loops of the search functions; \<open>s1\<close> is what is left of the text, \<open>p\<close> the offset of
  its first byte.\<close>

fun strnstr_loop :: "u_char \<Rightarrow> ngx_str \<Rightarrow> nat \<Rightarrow> ngx_str \<Rightarrow> nat \<Rightarrow> nat \<Rightarrow> nat option option" where
  "strnstr_loop c2 s2 n s1 0 p = Some None"
| "strnstr_loop c2 s2 n [] (Suc len) p = None"
| "strnstr_loop c2 s2 n (c1 # s1) (Suc len) p =
     (if c1 = 0 then Some None
      else if c1 \<noteq> c2 then strnstr_loop c2 s2 n s1 len (Suc p)
      else if n > len then Some None
      else case c_strncmp s1 s2 n of
          None \<Rightarrow> None
        | Some d \<Rightarrow> if d \<noteq> 0 then strnstr_loop c2 s2 n s1 len (Suc p) else Some (Some p))"

definition ngx_strnstr :: "ngx_str \<Rightarrow> ngx_str \<Rightarrow> nat \<Rightarrow> nat option option" where
  "ngx_strnstr s1 s2 len =
     (case s2 of [] \<Rightarrow> None | c2 # s2' \<Rightarrow>
        (case c_strlen s2' of None \<Rightarrow> None | Some n \<Rightarrow> strnstr_loop c2 s2' n s1 len 0))"

fun strstrn_loop :: "u_char \<Rightarrow> ngx_str \<Rightarrow> nat \<Rightarrow> ngx_str \<Rightarrow> nat \<Rightarrow> nat option option" where
  "strstrn_loop c2 s2 n [] p = None"
| "strstrn_loop c2 s2 n (c1 # s1) p =
     (if c1 = 0 then Some None
      else if c1 \<noteq> c2 then strstrn_loop c2 s2 n s1 (Suc p)
      else case c_strncmp s1 s2 n of
          None \<Rightarrow> None
        | Some d \<Rightarrow> if d \<noteq> 0 then strstrn_loop c2 s2 n s1 (Suc p) else Some (Some p))"

definition ngx_strstrn :: "ngx_str \<Rightarrow> ngx_str \<Rightarrow> nat \<Rightarrow> nat option option" where
  "ngx_strstrn s1 s2 n = (case s2 of [] \<Rightarrow> None | c2 # s2' \<Rightarrow> strstrn_loop c2 s2' n s1 0)"

fun strcasestrn_loop :: "u_char \<Rightarrow> ngx_str \<Rightarrow> nat \<Rightarrow> ngx_str \<Rightarrow> nat \<Rightarrow> nat option option" where
  "strcasestrn_loop c2 s2 n [] p = None"
| "strcasestrn_loop c2 s2 n (c # s1) p =
     (if c = 0 then Some None
      else let c1 = (if c \<ge> ch_A \<and> c \<le> ch_Z then c OR 0x20 else c) in
        if c1 \<noteq> c2 then strcasestrn_loop c2 s2 n s1 (Suc p)
        else case ngx_strncasecmp s1 s2 n of
            None \<Rightarrow> None
          | Some d \<Rightarrow> if d \<noteq> 0 then strcasestrn_loop c2 s2 n s1 (Suc p) else Some (Some p))"

definition ngx_strcasestrn :: "ngx_str \<Rightarrow> ngx_str \<Rightarrow> nat \<Rightarrow> nat option option" where
  "ngx_strcasestrn s1 s2 n =
     (case s2 of [] \<Rightarrow> None | c # s2' \<Rightarrow>
        strcasestrn_loop (if c \<ge> ch_A \<and> c \<le> ch_Z then c OR 0x20 else c) s2' n s1 0)"

text \<open>\<open>ngx_strlcasestrn\<close>; \<open>len\<close> is the distance from \<open>s1\<close> to the argument \<open>last\<close>, which lies in the
  same object, so that after \<open>last -= n\<close> the test \<open>s1 >= last\<close> reads \<open>len \<le> n\<close>.\<close>

fun strlcasestrn_loop :: "u_char \<Rightarrow> ngx_str \<Rightarrow> nat \<Rightarrow> ngx_str \<Rightarrow> nat \<Rightarrow> nat \<Rightarrow> nat option option" where
  "strlcasestrn_loop c2 s2 n s1 len p =
     (if len \<le> n then Some None
      else case s1 of [] \<Rightarrow> None | c # s1 \<Rightarrow>
        let c1 = (if c \<ge> ch_A \<and> c \<le> ch_Z then c OR 0x20 else c) in
        if c1 \<noteq> c2 then strlcasestrn_loop c2 s2 n s1 (len - 1) (Suc p)
        else case ngx_strncasecmp s1 s2 n of
            None \<Rightarrow> None
          | Some d \<Rightarrow> if d \<noteq> 0 then strlcasestrn_loop c2 s2 n s1 (len - 1) (Suc p) else Some (Some p))"

definition ngx_strlcasestrn :: "ngx_str \<Rightarrow> nat \<Rightarrow> ngx_str \<Rightarrow> nat \<Rightarrow> nat option option" where
  "ngx_strlcasestrn s1 len s2 n =
     (case s2 of [] \<Rightarrow> None | c # s2' \<Rightarrow>
        strlcasestrn_loop (if c \<ge> ch_A \<and> c \<le> ch_Z then c OR 0x20 else c) s2' n s1 len 0)"

declare strlcasestrn_loop.simps [simp del]

text \<open>\<open>ngx_strlchr\<close> on the bytes from \<open>p\<close> to \<open>last\<close>: the offset from \<open>p\<close>.\<close>

fun ngx_strlchr :: "ngx_str \<Rightarrow> u_char \<Rightarrow> nat option" where
  "ngx_strlchr [] c = None"
| "ngx_strlchr (x # p) c = (if x = c then Some 0 else map_option Suc (ngx_strlchr p c))"

text \<open>The comparisons from the end of two strings of \<open>n\<close> bytes, and of two strings of known lengths.\<close>

fun ngx_rstrncmp_loop :: "ngx_str \<Rightarrow> ngx_str \<Rightarrow> nat \<Rightarrow> int option" where
  "ngx_rstrncmp_loop s1 s2 n =
     (case (rd s1 n, rd s2 n) of
        (Some c1, Some c2) \<Rightarrow>
          if c1 \<noteq> c2 then Some (byte_diff c1 c2)
          else (case n of 0 \<Rightarrow> Some 0 | Suc n' \<Rightarrow> ngx_rstrncmp_loop s1 s2 n')
      | _ \<Rightarrow> None)"

definition ngx_rstrncmp :: "ngx_str \<Rightarrow> ngx_str \<Rightarrow> nat \<Rightarrow> int option" where
  "ngx_rstrncmp s1 s2 n = (if n = 0 then Some 0 else ngx_rstrncmp_loop s1 s2 (n - 1))"

fun ngx_rstrncasecmp_loop :: "ngx_str \<Rightarrow> ngx_str \<Rightarrow> nat \<Rightarrow> int option" where
  "ngx_rstrncasecmp_loop s1 s2 n =
     (case (rd s1 n, rd s2 n) of
        (Some a, Some b) \<Rightarrow>
          (let c1 = (if a \<ge> ch_a \<and> a \<le> ch_z then a - (ch_a - ch_A) else a);
               c2 = (if b \<ge> ch_a \<and> b \<le> ch_z then b - (ch_a - ch_A) else b)
           in if c1 \<noteq> c2 then Some (byte_diff c1 c2)
              else (case n of 0 \<Rightarrow> Some 0 | Suc n' \<Rightarrow> ngx_rstrncasecmp_loop s1 s2 n'))
      | _ \<Rightarrow> None)"

definition ngx_rstrncasecmp :: "ngx_str \<Rightarrow> ngx_str \<Rightarrow> nat \<Rightarrow> int option" where
  "ngx_rstrncasecmp s1 s2 n = (if n = 0 then Some 0 else ngx_rstrncasecmp_loop s1 s2 (n - 1))"

declare ngx_rstrncmp_loop.simps [simp del] ngx_rstrncasecmp_loop.simps [simp del]

text \<open>\<open>memcmp\<close> of the C library.\<close>

fun c_memcmp :: "ngx_str \<Rightarrow> ngx_str \<Rightarrow> nat \<Rightarrow> int option" where
  "c_memcmp s1 s2 0 = Some 0"
| "c_memcmp (c1 # s1) (c2 # s2) (Suc n) = (if c1 = c2 then c_memcmp s1 s2 n else Some (byte_diff c1 c2))"
| "c_memcmp _ _ (Suc n) = None"

definition ngx_memn2cmp :: "ngx_str \<Rightarrow> ngx_str \<Rightarrow> nat \<Rightarrow> nat \<Rightarrow> int option" where
  "ngx_memn2cmp s1 s2 n1 n2 =
     (let (n, z) = (if n1 \<le> n2 then (n1, -1) else (n2, 1)) in
      case c_memcmp s1 s2 n of
        None \<Rightarrow> None
      | Some m \<Rightarrow> if m \<noteq> 0 \<or> n1 = n2 then Some m else Some z)"

fun ngx_dns_strcmp :: "ngx_str \<Rightarrow> ngx_str \<Rightarrow> int option" where
  "ngx_dns_strcmp (s # s1) (t # s2) =
     (let c1 = (if s \<ge> ch_A \<and> s \<le> ch_Z then s OR 0x20 else s);
          c2 = (if t \<ge> ch_A \<and> t \<le> ch_Z then t OR 0x20 else t)
      in if c1 = c2 then if c1 \<noteq> 0 then ngx_dns_strcmp s1 s2 else Some 0
         else
           let c1 = (if c1 = ch_dot then ch_space else c1);
               c2 = (if c2 = ch_dot then ch_space else c2)
           in Some (byte_diff c1 c2))"
| "ngx_dns_strcmp _ _ = None"

text \<open>Without \<open>NGX_HAVE_CASELESS_FILESYSTEM\<close>.\<close>

fun ngx_filename_cmp :: "ngx_str \<Rightarrow> ngx_str \<Rightarrow> nat \<Rightarrow> int option" where
  "ngx_filename_cmp s1 s2 0 = Some 0"
| "ngx_filename_cmp (c1 # s1) (c2 # s2) (Suc n) =
     (if c1 = c2 then if c1 \<noteq> 0 then ngx_filename_cmp s1 s2 n else Some 0
      else if c1 = 0 \<or> c2 = 0 then Some (byte_diff c1 c2)
      else
        let c1 = (if c1 = ch_slash then 0 else c1);
            c2 = (if c2 = ch_slash then 0 else c2)
        in Some (byte_diff c1 c2))"
| "ngx_filename_cmp _ _ (Suc n) = None"

subsection \<open>Comparing zero-terminated strings\<close>

text \<open>The contract: bytes are compared by their keys, the first difference decides, and the
  terminating zero is smaller than every other byte. \<open>ok\<close> are the bytes for which this holds.\<close>

locale byte_order =
  fixes cmp :: "ngx_str \<Rightarrow> ngx_str \<Rightarrow> int option"
    and key :: "u_char \<Rightarrow> int"
    and ok :: "u_char \<Rightarrow> bool"
  assumes cmp_same: "ok a \<Longrightarrow> ok b \<Longrightarrow> key a = key b \<Longrightarrow> cmp (a # s) (b # t) = cmp s t"
    and cmp_differ: "ok a \<Longrightarrow> ok b \<Longrightarrow> key a \<noteq> key b \<Longrightarrow>
      \<exists>d. cmp (a # s) (b # t) = Some d \<and> d \<noteq> 0 \<and> (d < 0 \<longleftrightarrow> key a < key b)"
    and cmp_end: "cmp (ch_NUL # s) (ch_NUL # t) = Some 0"
    and cmp_shorter: "ok b \<Longrightarrow> \<exists>d. cmp (ch_NUL # s) (b # t) = Some d \<and> d < 0"
    and cmp_longer: "ok a \<Longrightarrow> \<exists>d. cmp (a # s) (ch_NUL # t) = Some d \<and> 0 < d"
begin

lemma cmp_lexicographic:
  "list_all ok a \<Longrightarrow> list_all ok b \<Longrightarrow>
   \<exists>d. cmp (a @ ch_NUL # s) (b @ ch_NUL # t) = Some d \<and> (d = 0 \<longleftrightarrow> map key a = map key b) \<and>
       (d < 0 \<longleftrightarrow> map key a < map key b)"
proof (induction a arbitrary: b)
  case Nil
  then show ?case
    using cmp_end cmp_shorter by (cases b) force+
next
  case (Cons x a)
  show ?case
  proof (cases b)
    case Nil
    then show ?thesis
      using Cons.prems cmp_longer [of x "a @ ch_NUL # s" t] by auto
  next
    case (Cons y b')
    then show ?thesis
      using Cons.IH [of b'] Cons.prems cmp_same [of x y] cmp_differ [of x y "a @ ch_NUL # s" "b' @ ch_NUL # t"]
      by (cases "key x = key y") auto
  qed
qed

end

definition case_key :: "u_char \<Rightarrow> int" where
  "case_key c = uint (ngx_tolower c)"

definition dns_key :: "u_char \<Rightarrow> int" where
  "dns_key c = (if c = ch_dot then uint ch_space else uint (ngx_tolower c))"

definition filename_key :: "u_char \<Rightarrow> int" where
  "filename_key c = (if c = ch_slash then 0 else uint c)"

lemma uint_ngx_tolower: "uint (ngx_tolower c) = (if 65 \<le> uint c \<and> uint c \<le> 90 then uint c + 32 else uint c)"
proof (cases "65 \<le> uint c \<and> uint c \<le> 90")
  case True
  then have "uint c div 32 = 2"
    by (intro int_div_pos_eq [where r = "uint c - 64"]) auto
  then show ?thesis
    using True by (simp add: ngx_tolower_def byte_cmp uint_or_0x20)
qed (auto simp: ngx_tolower_def byte_cmp)

lemma uint_0_byte: "uint (c::u_char) = 0 \<longleftrightarrow> c = ch_NUL"
  by (simp add: byte_eq_iff)

lemma ngx_tolower_0 [simp]: "ngx_tolower c = ch_NUL \<longleftrightarrow> c = ch_NUL"
  using uint_byte_bounds(1) [of c] by (auto simp: byte_eq_iff uint_ngx_tolower)

lemmas case_defs = ngx_tolower_def [symmetric] case_key_def dns_key_def filename_key_def byte_diff_def Let_def

lemma uint_pos: "c \<noteq> ch_NUL \<Longrightarrow> 0 < uint (c::u_char)"
  using uint_byte_bounds(1) [of c] uint_0_byte [of c] by linarith

lemma case_key_eq: "case_key a = case_key b \<longleftrightarrow> ngx_tolower a = ngx_tolower b"
  by (simp add: case_key_def byte_eq_iff)

lemma ngx_tolower_NUL [simp]: "ngx_tolower ch_NUL = ch_NUL" "ch_NUL = ngx_tolower c \<longleftrightarrow> c = ch_NUL"
  using ngx_tolower_0 [of c] by (auto simp: ngx_tolower_def)

lemma case_key_0: "case_key ch_NUL = 0" "c \<noteq> ch_NUL \<Longrightarrow> 0 < case_key c" "case_key c = 0 \<longleftrightarrow> c = ch_NUL"
  by (simp_all add: case_key_def uint_pos uint_0_byte)

lemma strcasecmp_Cons:
  "ngx_strcasecmp (a # s) (b # t) =
    (if case_key a = case_key b then if a \<noteq> ch_NUL then ngx_strcasecmp s t else Some 0 else Some (case_key a - case_key b))"
  unfolding case_key_eq by (simp add: ngx_tolower_def [symmetric] byte_diff_def case_key_def)

declare ngx_strcasecmp.simps(1) [simp del]

interpretation strcase: byte_order ngx_strcasecmp case_key "\<lambda>c. c \<noteq> ch_NUL"
  by unfold_locales (auto simp: strcasecmp_Cons case_key_0)

lemma ngx_tolower_other:
  "ngx_tolower c = ch_dot \<longleftrightarrow> c = ch_dot" "ngx_tolower c = ch_space \<longleftrightarrow> c = ch_space"
  by (simp_all add: byte_eq_iff uint_ngx_tolower)

lemma dns_strcmp_Cons:
  assumes "a \<noteq> ch_NUL" "b \<noteq> ch_NUL" "a \<noteq> ch_space" "b \<noteq> ch_space"
  shows "ngx_dns_strcmp (a # s) (b # t) =
    (if dns_key a = dns_key b then ngx_dns_strcmp s t else Some (dns_key a - dns_key b))"
proof (cases "ngx_tolower a = ngx_tolower b")
  case True
  then have "dns_key a = dns_key b"
    using ngx_tolower_other(1) [of a] ngx_tolower_other(1) [of b] by (auto simp: dns_key_def)
  then show ?thesis
    using True assms by (simp add: case_defs)
next
  case False
  have "dns_key a \<noteq> dns_key b"
    using False assms ngx_tolower_other(2) [of a] ngx_tolower_other(2) [of b]
    unfolding dns_key_def by (metis uint_word_of_int_eq word_uint_eqI)
  then show ?thesis
    using False assms ngx_tolower_other(1) [of a] ngx_tolower_other(1) [of b]
    by (simp add: ngx_tolower_def [symmetric] byte_diff_def Let_def) (auto simp: dns_key_def)
qed

lemma dns_key_pos: "c \<noteq> ch_NUL \<Longrightarrow> 0 < dns_key c"
  by (simp add: dns_key_def uint_pos)

lemma dns_strcmp_end:
  "ngx_dns_strcmp (ch_NUL # s) (ch_NUL # t) = Some 0"
  "b \<noteq> ch_NUL \<Longrightarrow> ngx_dns_strcmp (ch_NUL # s) (b # t) = Some (- dns_key b)"
  "a \<noteq> ch_NUL \<Longrightarrow> ngx_dns_strcmp (a # s) (ch_NUL # t) = Some (dns_key a)"
  using ngx_tolower_other(1) [of b] ngx_tolower_other(1) [of a]
  by (auto simp: ngx_tolower_def [symmetric] byte_diff_def Let_def dns_key_def)

interpretation dns: byte_order ngx_dns_strcmp dns_key "\<lambda>c. c \<noteq> ch_NUL \<and> c \<noteq> ch_space"
  by unfold_locales (auto simp: dns_strcmp_Cons dns_strcmp_end dns_key_pos simp del: ngx_dns_strcmp.simps)

interpretation filename: byte_order "\<lambda>s t. ngx_filename_cmp s t (length s)" filename_key "\<lambda>c. c \<noteq> ch_NUL"
  by unfold_locales (auto simp: case_defs byte_eq_iff uint_pos)

lemma uint_inj: "inj (uint :: u_char \<Rightarrow> int)"
  by (simp add: inj_def byte_eq_iff)

text \<open>A bound larger than the first string changes nothing.\<close>

lemma strncasecmp_enough: "n > length a \<Longrightarrow> ngx_strncasecmp (a @ ch_NUL # s) t n = ngx_strcasecmp (a @ ch_NUL # s) t"
proof (induction a arbitrary: t n)
  case Nil
  then show ?case
    by (cases t; cases n) (auto simp: ngx_strcasecmp.simps Let_def)
next
  case (Cons c a)
  then show ?case
    by (cases t; cases n) (auto simp: ngx_strcasecmp.simps Let_def)
qed

lemma filename_cmp_enough:
  "length a < n \<Longrightarrow> length a < m \<Longrightarrow> ngx_filename_cmp (a @ ch_NUL # s) t n = ngx_filename_cmp (a @ ch_NUL # s) t m"
proof (induction a arbitrary: t n m)
  case Nil
  then show ?case
    by (cases t; cases n; cases m) simp_all
next
  case (Cons c a)
  obtain n' m' where N: "n = Suc n'" "m = Suc m'" "length a < n'" "length a < m'"
    using Cons.prems by (cases n; cases m) auto
  then show ?case
    using Cons.IH [OF N(3,4)] by (cases t) (simp_all add: Let_def)
qed

lemma comparisons_parts:
  assumes "ch_NUL \<notin> set a" "ch_NUL \<notin> set b" "length a < n"
  shows "\<exists>d. ngx_strcasecmp (a @ ch_NUL # s) (b @ ch_NUL # t) = Some d \<and>
      ngx_strncasecmp (a @ ch_NUL # s) (b @ ch_NUL # t) n = Some d \<and>
      (d = 0 \<longleftrightarrow> map ngx_tolower a = map ngx_tolower b) \<and> (d < 0 \<longleftrightarrow> map case_key a < map case_key b)"
    and "\<exists>d. ngx_filename_cmp (a @ ch_NUL # s) (b @ ch_NUL # t) n = Some d \<and>
      (d = 0 \<longleftrightarrow> map filename_key a = map filename_key b) \<and> (d < 0 \<longleftrightarrow> map filename_key a < map filename_key b)"
    and "ch_space \<notin> set a \<union> set b \<Longrightarrow> \<exists>d. ngx_dns_strcmp (a @ ch_NUL # s) (b @ ch_NUL # t) = Some d \<and>
      (d = 0 \<longleftrightarrow> map dns_key a = map dns_key b) \<and> (d < 0 \<longleftrightarrow> map dns_key a < map dns_key b)"
proof -
  have N: "list_all (\<lambda>c. c \<noteq> ch_NUL) a" "list_all (\<lambda>c. c \<noteq> ch_NUL) b"
    using assms(1,2) by (auto simp: list_all_iff)
  have "map case_key a = map uint (map ngx_tolower a)" for a
    by (simp add: case_key_def)
  then have "map case_key a = map case_key b \<longleftrightarrow> map ngx_tolower a = map ngx_tolower b"
    by (simp only: inj_map_eq_map [OF uint_inj])
  then show "\<exists>d. ngx_strcasecmp (a @ ch_NUL # s) (b @ ch_NUL # t) = Some d \<and>
      ngx_strncasecmp (a @ ch_NUL # s) (b @ ch_NUL # t) n = Some d \<and>
      (d = 0 \<longleftrightarrow> map ngx_tolower a = map ngx_tolower b) \<and> (d < 0 \<longleftrightarrow> map case_key a < map case_key b)"
    using strcase.cmp_lexicographic [OF N, of s t] strncasecmp_enough [OF assms(3)] by auto
  show "\<exists>d. ngx_filename_cmp (a @ ch_NUL # s) (b @ ch_NUL # t) n = Some d \<and>
      (d = 0 \<longleftrightarrow> map filename_key a = map filename_key b) \<and> (d < 0 \<longleftrightarrow> map filename_key a < map filename_key b)"
    using filename.cmp_lexicographic [OF N, of s t]
      filename_cmp_enough [OF assms(3), of "length (a @ ch_NUL # s)" s "b @ ch_NUL # t"] by auto
  assume "ch_space \<notin> set a \<union> set b"
  then have "list_all (\<lambda>c. c \<noteq> ch_NUL \<and> c \<noteq> ch_space) a" "list_all (\<lambda>c. c \<noteq> ch_NUL \<and> c \<noteq> ch_space) b"
    using assms(1,2) by (auto simp: list_all_iff)
  then show "\<exists>d. ngx_dns_strcmp (a @ ch_NUL # s) (b @ ch_NUL # t) = Some d \<and>
      (d = 0 \<longleftrightarrow> map dns_key a = map dns_key b) \<and> (d < 0 \<longleftrightarrow> map dns_key a < map dns_key b)"
    by (rule dns.cmp_lexicographic)
qed

text \<open>The comparison functions read only up to the terminating zeros and order strings
  lexicographically by a key of their bytes, a proper prefix first: \<open>ngx_strcasecmp\<close>, and
  \<open>ngx_strncasecmp\<close> with a bound behind the first string, by the lower-case letter,
  \<open>ngx_dns_strcmp\<close> by the lower-case letter with the dot lowest (for names without spaces, whose
  code it borrows), \<open>ngx_filename_cmp\<close> by the byte with the slash lowest.\<close>

theorem comparisons_lexicographic:
  assumes "ch_NUL \<notin> set a" "ch_NUL \<notin> set b" "length a < n"
  shows "(\<exists>d. ngx_strcasecmp (a @ ch_NUL # s) (b @ ch_NUL # t) = Some d \<and>
      ngx_strncasecmp (a @ ch_NUL # s) (b @ ch_NUL # t) n = Some d \<and>
      (d = 0 \<longleftrightarrow> map ngx_tolower a = map ngx_tolower b) \<and> (d < 0 \<longleftrightarrow> map case_key a < map case_key b)) \<and>
    (\<exists>d. ngx_filename_cmp (a @ ch_NUL # s) (b @ ch_NUL # t) n = Some d \<and>
      (d = 0 \<longleftrightarrow> map filename_key a = map filename_key b) \<and> (d < 0 \<longleftrightarrow> map filename_key a < map filename_key b)) \<and>
    (ch_space \<notin> set a \<union> set b \<longrightarrow> (\<exists>d. ngx_dns_strcmp (a @ ch_NUL # s) (b @ ch_NUL # t) = Some d \<and>
      (d = 0 \<longleftrightarrow> map dns_key a = map dns_key b) \<and> (d < 0 \<longleftrightarrow> map dns_key a < map dns_key b)))"
  using comparisons_parts [OF assms, of s t] by blast

theorem comparisons_lexicographic_witness:
  "\<exists>d. ngx_strcasecmp (bytes ''aB'' @ [ch_NUL]) (bytes ''AC'' @ [ch_NUL]) = Some d \<and> d < 0"
  using comparisons_lexicographic [of "bytes ''aB''" "bytes ''AC''" 3 "[]" "[]"]
  by (auto simp: bytes_def case_key_def uint_ngx_tolower)

subsection \<open>Searching\<close>

lemma byte_diff_0: "byte_diff a b = 0 \<longleftrightarrow> a = b"
  by (simp add: byte_diff_def byte_eq_iff)

lemma strncasecmp_equal:
  "n \<le> length s \<Longrightarrow> n \<le> length t \<Longrightarrow> ch_NUL \<notin> set (take n t) \<Longrightarrow>
   \<exists>d. ngx_strncasecmp s t n = Some d \<and> (d = 0 \<longleftrightarrow> map ngx_tolower (take n s) = map ngx_tolower (take n t))"
proof (induction s t n rule: ngx_strncasecmp.induct)
  case (2 c s1 d s2 n)
  moreover have "ngx_tolower c = ngx_tolower d \<Longrightarrow> c = ch_NUL \<longleftrightarrow> d = ch_NUL"
    by (metis ngx_tolower_0)
  ultimately show ?case
    by (auto simp: ngx_tolower_def [symmetric] Let_def byte_diff_0)
qed auto

text \<open>The text holds \<open>w\<close> at offset \<open>p\<close>, up to case.\<close>

definition occurs_at :: "ngx_str \<Rightarrow> ngx_str \<Rightarrow> nat \<Rightarrow> bool" where
  "occurs_at w text p \<longleftrightarrow> map ngx_tolower (take (length w) (drop p text)) = map ngx_tolower w"

lemma upt_shift: "[0..<Suc n] = 0 # map Suc [0..<n]"
  by (subst upt_conv_Cons) (simp_all add: map_Suc_upt)

lemma find_map_Suc: "find P (map Suc xs) = map_option Suc (find (\<lambda>i. P (Suc i)) xs)"
  by (induction xs) auto

lemma strlcasestrn_loop_find:
  assumes "ch_NUL \<notin> set w" "length w = n"
  shows "len \<le> length s1 \<Longrightarrow>
    strlcasestrn_loop (ngx_tolower c) w n s1 len p =
      Some (map_option (\<lambda>i. p + i) (find (occurs_at (c # w) s1) [0..<len - n]))"
proof (induction len arbitrary: s1 p)
  case 0
  then show ?case
    by (simp add: strlcasestrn_loop.simps)
next
  case (Suc len)
  then obtain x s where S: "s1 = x # s"
    by (cases s1) auto
  show ?case
  proof (cases "Suc len \<le> n")
    case True
    then show ?thesis
      by (simp add: strlcasestrn_loop.simps)
  next
    case False
    then have U: "[0..<Suc len - n] = 0 # map Suc [0..<len - n]"
      using upt_shift by (simp add: Suc_diff_le del: upt_Suc)
    have F: "find (occurs_at (c # w) (x # s)) (map Suc xs) = map_option Suc (find (occurs_at (c # w) s) xs)" for xs
      unfolding find_map_Suc by (simp add: occurs_at_def [abs_def])
    have IH: "strlcasestrn_loop (ngx_tolower c) w n s len (Suc p) =
        Some (map_option (\<lambda>i. Suc p + i) (find (occurs_at (c # w) s) [0..<len - n]))"
      using Suc S by simp
    obtain d where D: "ngx_strncasecmp s w n = Some d" "d = 0 \<longleftrightarrow> map ngx_tolower (take n s) = map ngx_tolower w"
      using strncasecmp_equal [of n s w] assms False Suc.prems S by auto
    have "occurs_at (c # w) (x # s) 0 \<longleftrightarrow> ngx_tolower x = ngx_tolower c \<and> d = 0"
      using D(2) assms(2) by (auto simp: occurs_at_def)
    then show ?thesis
      using False S U F IH D(1)
      by (subst strlcasestrn_loop.simps) (simp add: ngx_tolower_def [symmetric] option.map_comp o_def)
  qed
qed

lemma strlcasestrn_find:
  assumes "w \<noteq> []" "ch_NUL \<notin> set w" "len \<le> length text"
  shows "ngx_strlcasestrn text len w (length w - 1) =
    Some (find (occurs_at w text) [0..<len - (length w - 1)])"
proof -
  obtain c v where "w = c # v"
    using assms(1) by (cases w) auto
  then show ?thesis
    using strlcasestrn_loop_find [of v "length v" len "text" c 0] assms(2,3)
    by (simp add: ngx_strlcasestrn_def ngx_tolower_def [symmetric] option.map_ident)
qed

text \<open>\<open>ngx_strlcasestrn\<close> finds the first occurrence of a string in the first \<open>len\<close> bytes of
  another one, up to case, and reads nothing behind them.\<close>

theorem strlcasestrn_first:
  assumes "w \<noteq> []" "ch_NUL \<notin> set w" "len \<le> length text"
  shows "ngx_strlcasestrn text len w (length w - 1) =
    Some (find (occurs_at w text) [0..<len - (length w - 1)])"
  using strlcasestrn_find [OF assms] .

theorem strlcasestrn_first_witness:
  "ngx_strlcasestrn (bytes ''x-Abc'') 5 (bytes ''aB'') 1 = Some (Some 2)"
  using strlcasestrn_first [of "bytes ''aB''" 5 "bytes ''x-Abc''"]
  by (simp add: bytes_def occurs_at_def ngx_tolower_def upt_conv_Cons)

lemma strlchr_find: "ngx_strlchr p c = find (\<lambda>i. p ! i = c) [0..<length p]"
proof (induction p)
  case (Cons x p)
  then show ?case
    using upt_shift [of "length p"] by (simp add: find_map_Suc del: upt_Suc)
qed simp

end
