(* ===== verification/Http_Base.thy ===== *)
theory Http_Base
  imports Ngx_Prelude
begin

text \<open>
  What the incremental parsers of \<open>src/http/ngx_http_parse.c\<close> share.

  Each of these parsers is a loop \<open>for (p = b->pos; p < b->last; p++) switch (state)\<close> over a
  buffer that may hold only a part of the input. One pass through the \<open>switch\<close> either breaks
  (the loop goes on with the next byte), jumps to a label behind the loop, or returns an error.
  When the bytes run out the state is saved and \<open>NGX_AGAIN\<close> is returned; the caller reads more
  bytes into the same buffer and calls again.

  A buffer is the list of the bytes received so far (\<open>mem\<close>), a pointer into it an offset and
  \<open>NULL\<close> is \<open>None\<close>. The enum in \<open>r->state\<close> differs from parser to parser, so the state is
  passed beside the request record. The locale \<open>incremental_parser\<close> proves once that such a
  parser gives the same result however its input is cut into pieces.
\<close>

subsection \<open>Return codes and methods (\<open>ngx_http_request.h\<close>)\<close>

abbreviation (input) NGX_HTTP_PARSE_HEADER_DONE :: int where "NGX_HTTP_PARSE_HEADER_DONE \<equiv> 1"
abbreviation (input) NGX_HTTP_PARSE_INVALID_METHOD :: int where "NGX_HTTP_PARSE_INVALID_METHOD \<equiv> 10"
abbreviation (input) NGX_HTTP_PARSE_INVALID_REQUEST :: int where "NGX_HTTP_PARSE_INVALID_REQUEST \<equiv> 11"
abbreviation (input) NGX_HTTP_PARSE_INVALID_09_METHOD :: int where "NGX_HTTP_PARSE_INVALID_09_METHOD \<equiv> 12"
abbreviation (input) NGX_HTTP_PARSE_INVALID_HEADER :: int where "NGX_HTTP_PARSE_INVALID_HEADER \<equiv> 13"

abbreviation (input) NGX_HTTP_UNKNOWN :: nat where "NGX_HTTP_UNKNOWN \<equiv> 0x0001"
abbreviation (input) NGX_HTTP_GET :: nat where "NGX_HTTP_GET \<equiv> 0x0002"
abbreviation (input) NGX_HTTP_HEAD :: nat where "NGX_HTTP_HEAD \<equiv> 0x0004"
abbreviation (input) NGX_HTTP_POST :: nat where "NGX_HTTP_POST \<equiv> 0x0008"
abbreviation (input) NGX_HTTP_PUT :: nat where "NGX_HTTP_PUT \<equiv> 0x0010"
abbreviation (input) NGX_HTTP_DELETE :: nat where "NGX_HTTP_DELETE \<equiv> 0x0020"
abbreviation (input) NGX_HTTP_MKCOL :: nat where "NGX_HTTP_MKCOL \<equiv> 0x0040"
abbreviation (input) NGX_HTTP_COPY :: nat where "NGX_HTTP_COPY \<equiv> 0x0080"
abbreviation (input) NGX_HTTP_MOVE :: nat where "NGX_HTTP_MOVE \<equiv> 0x0100"
abbreviation (input) NGX_HTTP_OPTIONS :: nat where "NGX_HTTP_OPTIONS \<equiv> 0x0200"
abbreviation (input) NGX_HTTP_PROPFIND :: nat where "NGX_HTTP_PROPFIND \<equiv> 0x0400"
abbreviation (input) NGX_HTTP_PROPPATCH :: nat where "NGX_HTTP_PROPPATCH \<equiv> 0x0800"
abbreviation (input) NGX_HTTP_LOCK :: nat where "NGX_HTTP_LOCK \<equiv> 0x1000"
abbreviation (input) NGX_HTTP_UNLOCK :: nat where "NGX_HTTP_UNLOCK \<equiv> 0x2000"
abbreviation (input) NGX_HTTP_PATCH :: nat where "NGX_HTTP_PATCH \<equiv> 0x4000"
abbreviation (input) NGX_HTTP_TRACE :: nat where "NGX_HTTP_TRACE \<equiv> 0x8000"

subsection \<open>The part of \<open>ngx_http_request_s\<close> the parsers use\<close>

type_synonym ptr = "nat option"

record ngx_http_request =
  http_method :: nat
  http_version :: nat
  http_protocol_data :: ptr
  complex_uri :: bool
  quoted_uri :: bool
  plus_in_uri :: bool
  space_in_uri :: bool
  invalid_header :: bool
  header_hash :: "64 word"
  lowcase_index :: nat
  lowcase_header :: "u_char list"
  header_name_start :: ptr
  header_name_end :: ptr
  header_start :: ptr
  header_end :: ptr
  uri_start :: ptr
  uri_end :: ptr
  uri_ext :: ptr
  args_start :: ptr
  request_start :: ptr
  request_end :: ptr
  method_end :: ptr
  schema_start :: ptr
  schema_end :: ptr
  host_start :: ptr
  host_end :: ptr
  port_end :: ptr
  http_minor :: nat
  http_major :: nat

text \<open>The request as \<open>ngx_http_create_request\<close> leaves it: all zero but the method and version.\<close>

definition ngx_http_create_request :: ngx_http_request where
  "ngx_http_create_request =
     \<lparr>http_method = NGX_HTTP_UNKNOWN, http_version = 1000, http_protocol_data = None,
      complex_uri = False, quoted_uri = False, plus_in_uri = False, space_in_uri = False,
      invalid_header = False, header_hash = 0, lowcase_index = 0, lowcase_header = replicate 32 0,
      header_name_start = None, header_name_end = None, header_start = None, header_end = None,
      uri_start = None, uri_end = None, uri_ext = None, args_start = None, request_start = None,
      request_end = None, method_end = None, schema_start = None, schema_end = None,
      host_start = None, host_end = None, port_end = None, http_minor = 0, http_major = 0\<rparr>"

text \<open>The bytes from offset \<open>a\<close> up to, not including, \<open>b\<close>.\<close>

definition slice :: "ngx_str \<Rightarrow> nat \<Rightarrow> nat \<Rightarrow> ngx_str" where
  "slice mem a b = take (b - a) (drop a mem)"

lemma slice_nth: "i < b - a \<Longrightarrow> b \<le> length mem \<Longrightarrow> slice mem a b ! i = mem ! (a + i)"
  by (simp add: slice_def)

lemma length_slice: "b \<le> length mem \<Longrightarrow> length (slice mem a b) = b - a"
  by (simp add: slice_def)

lemma slice_append: "slice (xs @ ys @ zs) (length xs) (length xs + length ys) = ys"
  by (simp add: slice_def)

lemma slice_prefix: "b \<le> length mem \<Longrightarrow> slice (mem @ rest) a b = slice mem a b"
  by (auto simp: slice_def)

lemma slice_Suc: "a \<le> p \<Longrightarrow> p < length mem \<Longrightarrow> slice mem a (Suc p) = slice mem a p @ [mem ! p]"
  by (simp add: slice_def Suc_diff_le take_Suc_conv_app_nth)

lemma slice_self [simp]: "slice mem a a = []"
  by (simp add: slice_def)

subsection \<open>The parser loop\<close>

datatype ('s, 'l, 'r) outcome = Break 's 'r | Goto 'l 'r | Return int 'r

datatype ('s, 'l, 'r) scanned = Stopped nat 's 'r | Finished nat 'l 'r | Returned int 'r

function scan ::
  "(ngx_str \<Rightarrow> nat \<Rightarrow> 's \<Rightarrow> 'r \<Rightarrow> ('s, 'l, 'r) outcome) \<Rightarrow>
   ngx_str \<Rightarrow> nat \<Rightarrow> nat \<Rightarrow> 's \<Rightarrow> 'r \<Rightarrow> ('s, 'l, 'r) scanned"
where
  "scan step mem lim p s r =
     (if p < lim then
        (case step mem p s r of
           Break s' r' \<Rightarrow> scan step mem lim (Suc p) s' r'
         | Goto l r' \<Rightarrow> Finished p l r'
         | Return rc r' \<Rightarrow> Returned rc r')
      else Stopped p s r)"
  by auto
termination by (relation "measure (\<lambda>(step, mem, lim, p, s, r). lim - p)") auto

declare scan.simps [simp del]

lemma scan_end: "\<not> p < lim \<Longrightarrow> scan step mem lim p s r = Stopped p s r"
  by (simp add: scan.simps)

lemma scan_step:
  "p < lim \<Longrightarrow> scan step mem lim p s r =
     (case step mem p s r of
        Break s' r' \<Rightarrow> scan step mem lim (Suc p) s' r'
      | Goto l r' \<Rightarrow> Finished p l r'
      | Return rc r' \<Rightarrow> Returned rc r')"
  by (simp add: scan.simps)

lemma scan_Break:
  "p < lim \<Longrightarrow> step mem p s r = Break s' r' \<Longrightarrow> scan step mem lim p s r = scan step mem lim (Suc p) s' r'"
  by (simp add: scan.simps)

text \<open>The invariant rule of the loop.\<close>

lemma scan_rule:
  assumes "I p s r"
    and "\<And>p s r s' r'. I p s r \<Longrightarrow> p < lim \<Longrightarrow> step mem p s r = Break s' r' \<Longrightarrow> I (Suc p) s' r'"
  shows "case scan step mem lim p s r of
      Stopped p' s' r' \<Rightarrow> I p' s' r' \<and> \<not> p' < lim
    | Finished p' l r' \<Rightarrow> \<exists>s0 r0. I p' s0 r0 \<and> p' < lim \<and> step mem p' s0 r0 = Goto l r'
    | Returned rc r' \<Rightarrow> \<exists>p0 s0 r0. I p0 s0 r0 \<and> p0 < lim \<and> step mem p0 s0 r0 = Return rc r'"
  using assms
proof (induction step mem lim p s r rule: scan.induct)
  case (1 step mem lim p s r)
  show ?case
  proof (cases "p < lim")
    case True
    then show ?thesis
      using "1.prems" "1.IH" [OF True] by (cases "step mem p s r") (auto simp: scan_step)
  qed (use "1.prems" in \<open>simp add: scan_end\<close>)
qed

text \<open>A run of steps that all break, with an invariant.\<close>

lemma scan_until:
  assumes "\<And>p s r. I p s r \<Longrightarrow> p < e \<Longrightarrow> \<exists>s' r'. step mem p s r = Break s' r' \<and> I (Suc p) s' r'"
    and "I p s r" "p \<le> e" "e \<le> lim"
  shows "\<exists>s' r'. scan step mem lim p s r = scan step mem lim e s' r' \<and> I e s' r'"
  using assms(2,3)
proof (induction "e - p" arbitrary: p s r)
  case 0
  then show ?case by auto
next
  case (Suc n)
  then have "p < e"
    by linarith
  then obtain s1 r1 where S: "step mem p s r = Break s1 r1" "I (Suc p) s1 r1"
    using assms(1) Suc.prems(1) by blast
  moreover have "n = e - Suc p"
    using Suc.hyps(2) by simp
  ultimately have "\<exists>s' r'. scan step mem lim (Suc p) s1 r1 = scan step mem lim e s' r' \<and> I e s' r'"
    using Suc.hyps(1) \<open>p < e\<close> by simp
  then show ?case
    using scan_Break [of p lim step mem s r s1 r1] S(1) \<open>p < e\<close> assms(4) by simp
qed

text \<open>A loop that stays in one state and leaves the request alone.\<close>

lemma scan_while:
  assumes "\<And>i. p \<le> i \<Longrightarrow> i < q \<Longrightarrow> step mem i s r = Break s r"
    and "p \<le> q" "q \<le> lim"
  shows "scan step mem lim p s r = scan step mem lim q s r"
  using scan_until [of "\<lambda>i s' r'. p \<le> i \<and> s' = s \<and> r' = r" q step mem p s r lim] assms by auto

subsection \<open>Parsers that may be fed piece by piece\<close>

locale incremental_parser =
  fixes step :: "ngx_str \<Rightarrow> nat \<Rightarrow> 's \<Rightarrow> 'r \<Rightarrow> ('s, 'l, 'r) outcome"
    and inv :: "ngx_str \<Rightarrow> nat \<Rightarrow> 's \<Rightarrow> 'r \<Rightarrow> bool"
  assumes step_prefix:
      "inv mem p s r \<Longrightarrow> p < length mem \<Longrightarrow> step (mem @ rest) p s r = step mem p s r"
    and step_inv:
      "inv mem p s r \<Longrightarrow> p < length mem \<Longrightarrow> step mem p s r = Break s' r' \<Longrightarrow> inv mem (Suc p) s' r'"
    and inv_prefix:
      "inv mem p s r \<Longrightarrow> p \<le> length mem \<Longrightarrow> inv (mem @ rest) p s r"
begin

lemma scan_inv:
  assumes "inv mem p s r" "p \<le> lim" "lim \<le> length mem"
  shows "case scan step mem lim p s r of
      Stopped p' s' r' \<Rightarrow> inv mem p' s' r' \<and> p' = lim
    | Finished p' l r' \<Rightarrow> \<exists>s0 r0. inv mem p' s0 r0 \<and> p \<le> p' \<and> p' < lim \<and> step mem p' s0 r0 = Goto l r'
    | Returned rc r' \<Rightarrow> \<exists>p0 s0 r0. inv mem p0 s0 r0 \<and> p0 < lim \<and> step mem p0 s0 r0 = Return rc r'"
proof -
  define I where "I = (\<lambda>p' s r. inv mem p' s r \<and> p \<le> p' \<and> p' \<le> lim)"
  have "case scan step mem lim p s r of
      Stopped p' s' r' \<Rightarrow> I p' s' r' \<and> \<not> p' < lim
    | Finished p' l r' \<Rightarrow> \<exists>s0 r0. I p' s0 r0 \<and> p' < lim \<and> step mem p' s0 r0 = Goto l r'
    | Returned rc r' \<Rightarrow> \<exists>p0 s0 r0. I p0 s0 r0 \<and> p0 < lim \<and> step mem p0 s0 r0 = Return rc r'"
    using assms by (intro scan_rule) (auto simp: I_def intro: step_inv)
  then show ?thesis
    by (auto simp: I_def split: scanned.splits)
qed

lemma scan_Stopped:
  "scan step mem lim p s r = Stopped p' s' r' \<Longrightarrow> inv mem p s r \<Longrightarrow> p \<le> lim \<Longrightarrow> lim \<le> length mem
   \<Longrightarrow> inv mem p' s' r' \<and> p' = lim"
  using scan_inv [of mem p s r lim] by auto

lemma scan_Finished:
  "scan step mem lim p s r = Finished p' l r' \<Longrightarrow> inv mem p s r \<Longrightarrow> p \<le> lim \<Longrightarrow> lim \<le> length mem
   \<Longrightarrow> \<exists>s0 r0. inv mem p' s0 r0 \<and> p \<le> p' \<and> p' < lim \<and> step mem p' s0 r0 = Goto l r'"
  using scan_inv [of mem p s r lim] by simp

lemma scan_split:
  "inv mem p s r \<Longrightarrow> p \<le> length mem \<Longrightarrow>
   scan step (mem @ rest) (length (mem @ rest)) p s r =
     (case scan step mem (length mem) p s r of
        Stopped p' s' r' \<Rightarrow> scan step (mem @ rest) (length (mem @ rest)) p' s' r'
      | x \<Rightarrow> x)"
proof (induction "length mem - p" arbitrary: p s r)
  case (Suc n)
  then have "step (mem @ rest) p s r = step mem p s r" "p < length mem"
    using step_prefix by auto
  then show ?case
    using Suc step_inv [of mem p s r] by (auto simp: scan_step split: outcome.splits)
qed (auto simp: scan_end)

end

text \<open>The protocol between a parser and its caller: the parser works on what has arrived;
  on \<open>NGX_AGAIN\<close> the next piece is appended to the buffer and the parser is called again with
  the position, state and request it left (\<open>ngx_http_process_request_line\<close> and
  \<open>ngx_http_read_request_header\<close> do this for requests).\<close>

fun feed ::
  "(ngx_str \<Rightarrow> nat \<Rightarrow> 's \<Rightarrow> 'q \<Rightarrow> int \<times> 's \<times> 'q \<times> nat) \<Rightarrow>
   ngx_str \<Rightarrow> nat \<Rightarrow> 's \<Rightarrow> 'q \<Rightarrow> ngx_str list \<Rightarrow> int \<times> 's \<times> 'q \<times> nat"
where
  "feed parse mem pos s q [] = parse mem pos s q"
| "feed parse mem pos s q (c # cs) =
     (case parse mem pos s q of
        (rc, s', q', pos') \<Rightarrow>
          if rc = NGX_AGAIN then feed parse (mem @ c) pos' s' q' cs
          else (rc, s', q', pos'))"

text \<open>Two answers \<open>(rc, state, request, position)\<close> agree if the codes are equal and, unless the
  code is one of the \<open>early\<close> ones, the rest is equal too. (An early return leaves \<open>b->pos\<close>
  and \<open>r->state\<close> at the start of the last piece.)\<close>

definition same_answer :: "int set \<Rightarrow> int \<times> 'a \<Rightarrow> int \<times> 'a \<Rightarrow> bool" where
  "same_answer early x y \<longleftrightarrow> fst x = fst y \<and> (fst x \<in> early \<or> x = y)"

lemma same_answer_refl [simp]: "same_answer early x x"
  by (simp add: same_answer_def)

lemma same_answer_trans: "same_answer early x y \<Longrightarrow> same_answer early y z \<Longrightarrow> same_answer early x z"
  by (auto simp: same_answer_def)

text \<open>The parser function around the loop: \<open>load\<close> reads the locals from the request, \<open>save\<close>
  stores them back when more input is needed, \<open>fin\<close> is the code at the labels and \<open>err\<close> what an
  early return leaves of the request.\<close>

locale resumable_parser = incremental_parser step inv
  for step :: "ngx_str \<Rightarrow> nat \<Rightarrow> 's \<Rightarrow> 'r \<Rightarrow> ('s, 'l, 'r) outcome"
    and inv :: "ngx_str \<Rightarrow> nat \<Rightarrow> 's \<Rightarrow> 'r \<Rightarrow> bool" +
  fixes parse :: "ngx_str \<Rightarrow> nat \<Rightarrow> 's \<Rightarrow> 'q \<Rightarrow> int \<times> 's \<times> 'q \<times> nat"
    and load :: "'s \<Rightarrow> 'q \<Rightarrow> 'r"
    and save :: "'r \<Rightarrow> 'q"
    and fin :: "'l \<Rightarrow> nat \<Rightarrow> 'r \<Rightarrow> int \<times> 's \<times> 'q \<times> nat"
    and err :: "'q \<Rightarrow> 'r \<Rightarrow> 'q"
    and early :: "int set"
  assumes load_save: "inv mem p s r \<Longrightarrow> load s (save r) = r"
    and parse_eq: "parse mem pos s q =
      (case scan step mem (length mem) pos s (load s q) of
         Stopped p s' r \<Rightarrow> (NGX_AGAIN, s', save r, p)
       | Finished p l r \<Rightarrow> fin l p r
       | Returned rc r \<Rightarrow> (rc, s, err q r, pos))"
    and fin_rc: "fst (fin l p r) \<noteq> NGX_AGAIN"
    and return_rc: "step mem p s r = Return rc r' \<Longrightarrow> rc \<in> early"
    and early_again: "NGX_AGAIN \<notin> early"
begin

lemma scan_Returned:
  "scan step mem lim p s r = Returned rc r' \<Longrightarrow> rc \<in> early"
  using scan_rule [of "\<lambda>_ _ _. True" p s r lim step mem] return_rc by auto

lemma parse_again:
  assumes "inv mem pos s (load s q)" "pos \<le> length mem" "parse mem pos s q = (NGX_AGAIN, s', q', pos')"
  shows "inv mem pos' s' (load s' q')" "pos' = length mem"
    "same_answer early (parse (mem @ rest) pos s q) (parse (mem @ rest) pos' s' q')"
proof -
  obtain r where S: "scan step mem (length mem) pos s (load s q) = Stopped pos' s' r" "q' = save r"
    using assms(3) early_again fin_rc
    by (auto simp: parse_eq dest: scan_Returned split: scanned.splits) (metis fst_conv)
  then show I: "inv mem pos' s' (load s' q')" "pos' = length mem"
    using scan_Stopped [OF S(1) assms(1,2)] load_save by auto
  have "load s' q' = r"
    using S(2) scan_Stopped [OF S(1) assms(1,2)] load_save by auto
  then show "same_answer early (parse (mem @ rest) pos s q) (parse (mem @ rest) pos' s' q')"
    using scan_split [OF assms(1,2), of rest] S(1)
    by (auto simp: parse_eq same_answer_def dest: scan_Returned split: scanned.splits)
qed

lemma parse_not_again:
  assumes "inv mem pos s (load s q)" "pos \<le> length mem" "fst (parse mem pos s q) \<noteq> NGX_AGAIN"
  shows "parse (mem @ rest) pos s q = parse mem pos s q"
  using assms(3) scan_split [OF assms(1,2), of rest] by (auto simp: parse_eq split: scanned.splits)

lemma feed_concat:
  assumes "inv mem pos s (load s q)" "pos \<le> length mem"
  shows "same_answer early (parse (mem @ concat cs) pos s q) (feed parse mem pos s q cs)"
  using assms
proof (induction cs arbitrary: mem pos s q)
  case (Cons c cs)
  obtain rc s1 q1 pos1 where P: "parse mem pos s q = (rc, s1, q1, pos1)"
    using prod_cases4 by blast
  show ?case
  proof (cases "rc = NGX_AGAIN")
    case True
    note A = parse_again [OF Cons.prems P [unfolded True]]
    then have "same_answer early (parse ((mem @ c) @ concat cs) pos1 s1 q1) (feed parse (mem @ c) pos1 s1 q1 cs)"
      by (intro Cons.IH inv_prefix) auto
    then show ?thesis
      using A(3) [of "c @ concat cs"] P True by (auto intro: same_answer_trans)
  next
    case False
    then show ?thesis
      using parse_not_again [OF Cons.prems, of "c @ concat cs"] P by simp
  qed
qed simp

end

end
