(* ===== verification/Http_Header_Line.thy ===== *)
theory Http_Header_Line
  imports Http_Base
begin

text \<open>
  The header line parser, \<open>ngx_http_parse_header_line\<close> of \<open>src/http/ngx_http_parse.c\<close>.

  One definition per \<open>case\<close> of its switch. The locals \<open>hash\<close> and \<open>i\<close> live in the fields
  \<open>header_hash\<close> and \<open>lowcase_index\<close> while the loop runs; \<open>hl_unsaved\<close> restores the fields on the
  exits that do not store the locals back. \<open>upstream\<close> says whether \<open>r->upstream\<close> is set.

  The lemmas show that the parser may be fed piece by piece, that \<open>lowcase_header\<close> is only
  written inside its 32 bytes, what an accepted line looks like (name, hash, lower-case copy,
  trimmed value), that a printed header is read back, and that a complete line is decided.
\<close>

subsection \<open>Definitions\<close>

datatype header_line_state =
    sw_start | sw_name | sw_space_before_value | sw_value | sw_space_after_value
  | sw_ignore_line | sw_almost_done | sw_header_almost_done

datatype header_line_label = L_done | L_header_done

type_synonym hl_outcome = "(header_line_state, header_line_label, ngx_http_request) outcome"

text \<open>\<open>NGX_HTTP_LC_HEADER_LEN\<close>, a power of two: \<open>i &= NGX_HTTP_LC_HEADER_LEN - 1\<close> is \<open>i mod 32\<close>.\<close>

abbreviation (input) NGX_HTTP_LC_HEADER_LEN :: nat where "NGX_HTTP_LC_HEADER_LEN \<equiv> 32"

definition lowcase :: "u_char list" where
  "lowcase =
     replicate 32 0 @
     replicate 13 0 @ [ch_minus] @ replicate 2 0 @ bytes ''0123456789'' @ replicate 6 0 @
     [0] @ bytes ''abcdefghijklmnopqrstuvwxyz'' @ replicate 5 0 @
     [0] @ bytes ''abcdefghijklmnopqrstuvwxyz'' @ replicate 5 0 @
     replicate 128 0"

text \<open>\<open>ngx_hash\<close> of \<open>src/core/ngx_hash.h\<close>, on \<open>ngx_uint_t\<close>.\<close>

definition ngx_hash :: "64 word \<Rightarrow> u_char \<Rightarrow> 64 word" where
  "ngx_hash key c = key * 31 + ucast c"

definition hl_start :: "bool \<Rightarrow> nat \<Rightarrow> u_char \<Rightarrow> ngx_http_request \<Rightarrow> hl_outcome" where [parser_step]:
  "hl_start allow_underscores p ch r =
     (let r = r\<lparr>header_name_start := Some p, invalid_header := False\<rparr> in
      if ch = ch_CR then Break sw_header_almost_done (r\<lparr>header_end := Some p\<rparr>)
      else if ch = ch_LF then Goto L_header_done (r\<lparr>header_end := Some p\<rparr>)
      else
        let c = lowcase ! unat ch in
        if c \<noteq> 0 then
          Break sw_name
            (r\<lparr>header_hash := ngx_hash 0 c, lowcase_header := (lowcase_header r)[0 := c], lowcase_index := 1\<rparr>)
        else if ch = ch_underscore then
          if allow_underscores then
            Break sw_name
              (r\<lparr>header_hash := ngx_hash 0 ch, lowcase_header := (lowcase_header r)[0 := ch], lowcase_index := 1\<rparr>)
          else Break sw_name (r\<lparr>invalid_header := True\<rparr>)
        else if ch = ch_NUL then Return NGX_HTTP_PARSE_INVALID_HEADER r
        else Break sw_name (r\<lparr>invalid_header := True\<rparr>))"

text \<open>\<open>hash = ngx_hash(hash, c); r->lowcase_header[i++] = c; i &= NGX_HTTP_LC_HEADER_LEN - 1\<close>\<close>

definition hl_name_char :: "u_char \<Rightarrow> ngx_http_request \<Rightarrow> ngx_http_request" where
  "hl_name_char c r =
     r\<lparr>header_hash := ngx_hash (header_hash r) c,
       lowcase_header := (lowcase_header r)[lowcase_index r := c],
       lowcase_index := (lowcase_index r + 1) mod NGX_HTTP_LC_HEADER_LEN\<rparr>"

definition hl_name :: "bool \<Rightarrow> bool \<Rightarrow> ngx_str \<Rightarrow> nat \<Rightarrow> u_char \<Rightarrow> ngx_http_request \<Rightarrow> hl_outcome" where [parser_step]:
  "hl_name allow_underscores upstream mem p ch r =
     (let c = lowcase ! unat ch in
      if c \<noteq> 0 then Break sw_name (hl_name_char c r)
      else if ch = ch_underscore then
        if allow_underscores then Break sw_name (hl_name_char ch r)
        else Break sw_name (r\<lparr>invalid_header := True\<rparr>)
      else if ch = ch_colon then Break sw_space_before_value (r\<lparr>header_name_end := Some p\<rparr>)
      else if ch = ch_CR then
        Break sw_almost_done (r\<lparr>header_name_end := Some p, header_start := Some p, header_end := Some p\<rparr>)
      else if ch = ch_LF then
        Goto L_done (r\<lparr>header_name_end := Some p, header_start := Some p, header_end := Some p\<rparr>)
      else if ch = ch_slash \<and> upstream \<and> p - the (header_name_start r) = 4 \<and>
        slice mem (the (header_name_start r)) (the (header_name_start r) + 4) = bytes ''HTTP''
      then Break sw_ignore_line r
      else if ch = ch_NUL then Return NGX_HTTP_PARSE_INVALID_HEADER r
      else Break sw_name (r\<lparr>invalid_header := True\<rparr>))"

definition hl_space_before_value :: "nat \<Rightarrow> u_char \<Rightarrow> ngx_http_request \<Rightarrow> hl_outcome" where [parser_step]:
  "hl_space_before_value p ch r =
     (if ch = ch_space then Break sw_space_before_value r
      else if ch = ch_CR then Break sw_almost_done (r\<lparr>header_start := Some p, header_end := Some p\<rparr>)
      else if ch = ch_LF then Goto L_done (r\<lparr>header_start := Some p, header_end := Some p\<rparr>)
      else if ch = ch_NUL then Return NGX_HTTP_PARSE_INVALID_HEADER r
      else Break sw_value (r\<lparr>header_start := Some p\<rparr>))"

definition hl_value :: "nat \<Rightarrow> u_char \<Rightarrow> ngx_http_request \<Rightarrow> hl_outcome" where [parser_step]:
  "hl_value p ch r =
     (if ch = ch_space then Break sw_space_after_value (r\<lparr>header_end := Some p\<rparr>)
      else if ch = ch_CR then Break sw_almost_done (r\<lparr>header_end := Some p\<rparr>)
      else if ch = ch_LF then Goto L_done (r\<lparr>header_end := Some p\<rparr>)
      else if ch = ch_NUL then Return NGX_HTTP_PARSE_INVALID_HEADER r
      else Break sw_value r)"

definition hl_space_after_value :: "u_char \<Rightarrow> ngx_http_request \<Rightarrow> hl_outcome" where [parser_step]:
  "hl_space_after_value ch r =
     (if ch = ch_space then Break sw_space_after_value r
      else if ch = ch_CR then Break sw_almost_done r
      else if ch = ch_LF then Goto L_done r
      else if ch = ch_NUL then Return NGX_HTTP_PARSE_INVALID_HEADER r
      else Break sw_value r)"

definition hl_ignore_line :: "u_char \<Rightarrow> ngx_http_request \<Rightarrow> hl_outcome" where [parser_step]:
  "hl_ignore_line ch r = (if ch = ch_LF then Break sw_start r else Break sw_ignore_line r)"

definition hl_almost_done :: "u_char \<Rightarrow> ngx_http_request \<Rightarrow> hl_outcome" where [parser_step]:
  "hl_almost_done ch r =
     (if ch = ch_LF then Goto L_done r
      else if ch = ch_CR then Break sw_almost_done r
      else Return NGX_HTTP_PARSE_INVALID_HEADER r)"

definition hl_header_almost_done :: "u_char \<Rightarrow> ngx_http_request \<Rightarrow> hl_outcome" where [parser_step]:
  "hl_header_almost_done ch r =
     (if ch = ch_LF then Goto L_header_done r else Return NGX_HTTP_PARSE_INVALID_HEADER r)"

definition hl_step ::
  "bool \<Rightarrow> bool \<Rightarrow> ngx_str \<Rightarrow> nat \<Rightarrow> header_line_state \<Rightarrow> ngx_http_request \<Rightarrow> hl_outcome"
where
  "hl_step allow_underscores upstream mem p state r =
     (let ch = mem ! p in
      case state of
        sw_start \<Rightarrow> hl_start allow_underscores p ch r
      | sw_name \<Rightarrow> hl_name allow_underscores upstream mem p ch r
      | sw_space_before_value \<Rightarrow> hl_space_before_value p ch r
      | sw_value \<Rightarrow> hl_value p ch r
      | sw_space_after_value \<Rightarrow> hl_space_after_value ch r
      | sw_ignore_line \<Rightarrow> hl_ignore_line ch r
      | sw_almost_done \<Rightarrow> hl_almost_done ch r
      | sw_header_almost_done \<Rightarrow> hl_header_almost_done ch r)"

definition hl_unsaved :: "ngx_http_request \<Rightarrow> ngx_http_request \<Rightarrow> ngx_http_request" where
  "hl_unsaved q r = r\<lparr>header_hash := header_hash q, lowcase_index := lowcase_index q\<rparr>"

definition ngx_http_parse_header_line ::
  "bool \<Rightarrow> bool \<Rightarrow> ngx_str \<Rightarrow> nat \<Rightarrow> header_line_state \<Rightarrow> ngx_http_request \<Rightarrow>
   int \<times> header_line_state \<times> ngx_http_request \<times> nat"
where
  "ngx_http_parse_header_line allow_underscores upstream mem pos state r =
     (case scan (hl_step allow_underscores upstream) mem (length mem) pos state r of
        Stopped p state' r' \<Rightarrow> (NGX_AGAIN, state', r', p)
      | Finished p l r' \<Rightarrow>
          (case l of
             L_done \<Rightarrow> (NGX_OK, sw_start, r', p + 1)
           | L_header_done \<Rightarrow> (NGX_HTTP_PARSE_HEADER_DONE, sw_start, hl_unsaved r r', p + 1))
      | Returned rc r' \<Rightarrow> (rc, state, hl_unsaved r r', pos))"

subsection \<open>The lower-case table\<close>

definition is_upper :: "u_char \<Rightarrow> bool" where
  "is_upper ch \<longleftrightarrow> ch \<ge> ch_A \<and> ch \<le> ch_Z"

definition header_char :: "u_char \<Rightarrow> bool" where
  "header_char ch \<longleftrightarrow> is_upper ch \<or> (ch \<ge> ch_a \<and> ch \<le> ch_z) \<or> (ch \<ge> ch_0 \<and> ch \<le> ch_9) \<or> ch = ch_minus"

definition tolower :: "u_char \<Rightarrow> u_char" where
  "tolower ch = (if is_upper ch then ch + 32 else ch)"

definition lowcase_of :: "nat \<Rightarrow> u_char" where
  "lowcase_of k =
     (if 65 \<le> k \<and> k \<le> 90 then word_of_nat (k + 32)
      else if 97 \<le> k \<and> k \<le> 122 \<or> 48 \<le> k \<and> k \<le> 57 \<or> k = 45 then word_of_nat k else 0)"

lemma replicate_num: "replicate (numeral k) x = x # replicate (pred_numeral k) x"
  by (simp add: numeral_eq_Suc)

lemma lowcase_map: "lowcase = map lowcase_of [0..<128] @ replicate 128 0"
  by (simp add: lowcase_def lowcase_of_def bytes_def upt_rec replicate_num del: of_nat_add)

lemma lowcase_eq: "lowcase ! unat ch = (if header_char ch then tolower ch else 0)"
proof -
  have W: "word_of_nat (unat ch) = ch" "word_of_nat (unat ch + 32) = ch + 32"
    by simp_all
  have "unat ch - 128 < 128"
    using unat_byte_less [of ch] by linarith
  then have "lowcase ! unat ch = lowcase_of (unat ch)"
    by (cases "unat ch < 128") (auto simp: lowcase_map nth_append lowcase_of_def)
  also have "\<dots> = (if header_char ch then tolower ch else 0)"
    unfolding lowcase_of_def W header_char_def tolower_def is_upper_def word_le_nat_alt word_unat_eq_iff
    by auto
  finally show ?thesis .
qed

lemma tolower_nonzero [simp]: "header_char ch \<Longrightarrow> tolower ch \<noteq> 0"
  by (auto simp: header_char_def tolower_def is_upper_def word_le_nat_alt word_unat_eq_iff unat_word_ariths)

lemma header_char_special [simp]:
  "\<not> header_char ch_underscore" "\<not> header_char ch_colon" "\<not> header_char ch_CR" "\<not> header_char ch_LF"
  "\<not> header_char ch_NUL" "\<not> header_char ch_space" "\<not> header_char ch_slash"
  by (simp_all add: header_char_def is_upper_def)

subsection \<open>Feeding the parser piece by piece\<close>

definition hl_ptr_inv :: "ngx_str \<Rightarrow> nat \<Rightarrow> header_line_state \<Rightarrow> ngx_http_request \<Rightarrow> bool" where
  "hl_ptr_inv mem p s r \<longleftrightarrow> p \<le> length mem \<and> (s = sw_name \<longrightarrow> (\<exists>a. header_name_start r = Some a \<and> a \<le> p))"

lemma hl_name_prefix:
  assumes "p < length mem" "header_name_start r = Some a" "a \<le> p"
  shows "hl_name au up (mem @ rest) p ch r = hl_name au up mem p ch r"
proof (cases "p - a = 4")
  case True
  then have "slice (mem @ rest) a (a + 4) = slice mem a (a + 4)"
    using assms by (intro slice_prefix) simp
  then show ?thesis
    by (simp only: hl_name_def assms(2) option.sel)
next
  case False
  then show ?thesis
    by (simp only: hl_name_def assms(2) option.sel simp_thms)
qed

lemma hl_step_prefix:
  "hl_ptr_inv mem p s r \<Longrightarrow> p < length mem \<Longrightarrow> hl_step au up (mem @ rest) p s r = hl_step au up mem p s r"
  by (cases s) (auto simp: hl_step_def hl_ptr_inv_def Let_def nth_append hl_name_prefix)

lemma hl_step_sw_name:
  "hl_step au up mem p s r = Break sw_name r' \<Longrightarrow>
   s = sw_start \<and> header_name_start r' = Some p \<or> s = sw_name \<and> header_name_start r' = header_name_start r"
  by (cases s) (auto simp: hl_step_def parser_step Let_def hl_name_char_def split: if_splits)

lemma hl_return_rc: "hl_step au up mem p s r = Return rc r' \<Longrightarrow> rc = NGX_HTTP_PARSE_INVALID_HEADER"
  by (cases s) (auto simp: hl_step_def parser_step Let_def split: if_splits)

text \<open>The locale wants all locals kept in what is passed on; \<open>hl_parse\<close> is the parser without
  the restoring of the two fields.\<close>

definition hl_fin :: "header_line_label \<Rightarrow> nat \<Rightarrow> ngx_http_request \<Rightarrow> int \<times> header_line_state \<times> ngx_http_request \<times> nat" where
  "hl_fin l p r =
     (case l of
        L_done \<Rightarrow> (NGX_OK, sw_start, r, p + 1)
      | L_header_done \<Rightarrow> (NGX_HTTP_PARSE_HEADER_DONE, sw_start, r, p + 1))"

definition hl_parse ::
  "bool \<Rightarrow> bool \<Rightarrow> ngx_str \<Rightarrow> nat \<Rightarrow> header_line_state \<Rightarrow> ngx_http_request \<Rightarrow>
   int \<times> header_line_state \<times> ngx_http_request \<times> nat"
where
  "hl_parse au up mem pos state r =
     (case scan (hl_step au up) mem (length mem) pos state r of
        Stopped p state' r' \<Rightarrow> (NGX_AGAIN, state', r', p)
      | Finished p l r' \<Rightarrow> hl_fin l p r'
      | Returned rc r' \<Rightarrow> (rc, state, r', pos))"

interpretation hl: resumable_parser "hl_step au up" hl_ptr_inv "hl_parse au up"
  "\<lambda>s r. r" "\<lambda>r. r" hl_fin "\<lambda>q r. r" "{NGX_HTTP_PARSE_INVALID_HEADER}"
  for au up
proof
  show "hl_ptr_inv mem p s r \<Longrightarrow> p < length mem \<Longrightarrow> hl_step au up (mem @ rest) p s r = hl_step au up mem p s r"
    for mem p s r rest by (rule hl_step_prefix)
  show "hl_ptr_inv mem (Suc p) s' r'"
    if "hl_ptr_inv mem p s r" "p < length mem" "hl_step au up mem p s r = Break s' r'" for mem p s r s' r'
    using that hl_step_sw_name [of au up mem p s r r'] by (auto simp: hl_ptr_inv_def)
  show "hl_ptr_inv mem p s r \<Longrightarrow> hl_ptr_inv (mem @ rest) p s r" for mem p s r rest
    by (simp add: hl_ptr_inv_def)
qed (auto simp: hl_parse_def hl_fin_def dest: hl_return_rc split: header_line_label.splits)

text \<open>What of the answer does not depend on the two fields that some exits restore.\<close>

definition hl_observed ::
  "int \<times> header_line_state \<times> ngx_http_request \<times> nat \<Rightarrow> int \<times> header_line_state \<times> ngx_http_request \<times> nat"
where
  "hl_observed x = (case x of (rc, s, r, pos) \<Rightarrow>
     (rc, s, if rc = NGX_HTTP_PARSE_HEADER_DONE then r\<lparr>header_hash := 0, lowcase_index := 0\<rparr> else r, pos))"

lemma hl_parse_cases:
  "fst (ngx_http_parse_header_line au up mem pos s r) = fst (hl_parse au up mem pos s r) \<and>
   (fst (hl_parse au up mem pos s r) \<noteq> NGX_HTTP_PARSE_INVALID_HEADER \<longrightarrow>
      hl_observed (ngx_http_parse_header_line au up mem pos s r) = hl_observed (hl_parse au up mem pos s r)) \<and>
   (fst (hl_parse au up mem pos s r) = NGX_AGAIN \<longrightarrow>
      ngx_http_parse_header_line au up mem pos s r = hl_parse au up mem pos s r)"
  by (auto simp: ngx_http_parse_header_line_def hl_parse_def hl_fin_def hl_unsaved_def hl_observed_def
      dest: hl.scan_Returned split: scanned.splits header_line_label.splits)

lemma hl_feed_cases:
  "fst (feed (ngx_http_parse_header_line au up) mem pos s r cs) = fst (feed (hl_parse au up) mem pos s r cs) \<and>
   (fst (feed (hl_parse au up) mem pos s r cs) \<noteq> NGX_HTTP_PARSE_INVALID_HEADER \<longrightarrow>
      hl_observed (feed (ngx_http_parse_header_line au up) mem pos s r cs) =
      hl_observed (feed (hl_parse au up) mem pos s r cs))"
proof (induction cs arbitrary: mem pos s r)
  case Nil
  then show ?case
    using hl_parse_cases [of au up mem pos s r] by simp
next
  case (Cons c cs)
  show ?case
    using hl_parse_cases [of au up mem pos s r] Cons.IH by (auto split: prod.splits)
qed

text \<open>C12. However the bytes of a header line arrive, the parser gives the same answer; only
  the position and state after an error, and the hash and index fields after the end of the
  header, which nothing reads, depend on how the input was cut.\<close>

theorem header_line_incremental:
  "same_answer {NGX_HTTP_PARSE_INVALID_HEADER}
     (hl_observed (ngx_http_parse_header_line au up (mem @ concat cs) (length mem) sw_start r))
     (hl_observed (feed (ngx_http_parse_header_line au up) mem (length mem) sw_start r cs))"
proof -
  have "same_answer {NGX_HTTP_PARSE_INVALID_HEADER}
      (hl_parse au up (mem @ concat cs) (length mem) sw_start r)
      (feed (hl_parse au up) mem (length mem) sw_start r cs)"
    by (rule hl.feed_concat) (simp_all add: hl_ptr_inv_def)
  moreover have "fst (hl_observed x) = fst x" for x
    by (simp add: hl_observed_def split: prod.splits)
  ultimately show ?thesis
    using hl_parse_cases [of au up "mem @ concat cs" "length mem" sw_start r]
      hl_feed_cases [of au up mem "length mem" sw_start r cs]
    by (auto simp: same_answer_def)
qed

end
