(* ===== verification/Http_Header_Spec.thy ===== *)
theory Http_Header_Spec
  imports Http_Header_Line
begin

text \<open>
  What the header line parser of \<open>Http_Header_Line\<close> guarantees: the invariant of its loop, the
  form of an accepted line with its hash and lower-case name, that a complete line is decided,
  and that a printed header is read back.
\<close>

subsection \<open>The invariant of the loop\<close>

definition text_char :: "u_char \<Rightarrow> bool" where
  "text_char ch \<longleftrightarrow> ch \<noteq> ch_NUL \<and> ch \<noteq> ch_CR \<and> ch \<noteq> ch_LF"

definition header_name_char :: "bool \<Rightarrow> u_char \<Rightarrow> bool" where
  "header_name_char au ch \<longleftrightarrow> header_char ch \<or> au \<and> ch = ch_underscore"

text \<open>The hash of a header name, as \<open>ngx_hash_key_lc\<close> computes it for the configured names.\<close>

definition hash_lc :: "ngx_str \<Rightarrow> 64 word" where
  "hash_lc name = foldl (\<lambda>h c. ngx_hash h (tolower c)) 0 name"

definition name_hashed :: "bool \<Rightarrow> ngx_str \<Rightarrow> 64 word \<Rightarrow> nat \<Rightarrow> ngx_str \<Rightarrow> bool" where
  "name_hashed au name hash i buf \<longleftrightarrow>
     list_all (header_name_char au) name \<and> hash = hash_lc name \<and> i = length name mod NGX_HTTP_LC_HEADER_LEN \<and>
     (length name < NGX_HTTP_LC_HEADER_LEN \<longrightarrow> take (length name) buf = map tolower name)"

fun name_run :: "bool \<Rightarrow> ngx_str \<Rightarrow> nat \<Rightarrow> ptr \<Rightarrow> bool \<Rightarrow> 64 word \<Rightarrow> nat \<Rightarrow> ngx_str \<Rightarrow> bool" where
  "name_run au mem p (Some a) invalid hash i buf =
     (a < p \<and> list_all text_char (slice mem a p) \<and>
      (\<not> invalid \<longrightarrow> name_hashed au (slice mem a p) hash i buf))"
| "name_run au mem p None invalid hash i buf = False"

fun name_done :: "bool \<Rightarrow> ngx_str \<Rightarrow> nat \<Rightarrow> ptr \<Rightarrow> ptr \<Rightarrow> bool \<Rightarrow> 64 word \<Rightarrow> nat \<Rightarrow> ngx_str \<Rightarrow> bool" where
  "name_done au mem p a (Some b) invalid hash i buf = (b \<le> p \<and> name_run au mem b a invalid hash i buf)"
| "name_done au mem p a None invalid hash i buf = False"

fun value_run :: "ngx_str \<Rightarrow> nat \<Rightarrow> ptr \<Rightarrow> ptr \<Rightarrow> bool" where
  "value_run mem p (Some b) (Some c) =
     (b \<le> c \<and> c < p \<and> mem ! c \<noteq> ch_space \<and> list_all text_char (slice mem c p))"
| "value_run mem p _ _ = False"

fun value_done :: "ngx_str \<Rightarrow> nat \<Rightarrow> ptr \<Rightarrow> ptr \<Rightarrow> ptr \<Rightarrow> bool" where
  "value_done mem p (Some b) (Some c) (Some d) =
     (b \<le> c \<and> c \<le> d \<and> d \<le> p \<and> list_all text_char (slice mem c d) \<and>
      (c < d \<longrightarrow> mem ! c \<noteq> ch_space \<and> mem ! (d - 1) \<noteq> ch_space))"
| "value_done mem p _ _ _ = False"

definition hl_name_done :: "bool \<Rightarrow> ngx_str \<Rightarrow> nat \<Rightarrow> ngx_http_request \<Rightarrow> bool" where
  "hl_name_done au mem p r =
     name_done au mem p (header_name_start r) (header_name_end r) (invalid_header r)
       (header_hash r) (lowcase_index r) (lowcase_header r)"

definition hl_inv :: "bool \<Rightarrow> ngx_str \<Rightarrow> nat \<Rightarrow> header_line_state \<Rightarrow> ngx_http_request \<Rightarrow> bool" where
  "hl_inv au mem p s r \<longleftrightarrow>
     p \<le> length mem \<and> lowcase_index r < NGX_HTTP_LC_HEADER_LEN \<and> length (lowcase_header r) = NGX_HTTP_LC_HEADER_LEN \<and>
     (case s of
        sw_name \<Rightarrow> name_run au mem p (header_name_start r) (invalid_header r)
          (header_hash r) (lowcase_index r) (lowcase_header r)
      | sw_space_before_value \<Rightarrow> hl_name_done au mem p r
      | sw_value \<Rightarrow> hl_name_done au mem p r \<and> value_run mem p (header_name_end r) (header_start r) \<and>
          mem ! (p - 1) \<noteq> ch_space
      | sw_space_after_value \<Rightarrow> hl_name_done au mem p r \<and> value_run mem p (header_name_end r) (header_start r) \<and>
          value_done mem p (header_name_end r) (header_start r) (header_end r)
      | sw_almost_done \<Rightarrow> hl_name_done au mem p r \<and>
          value_done mem p (header_name_end r) (header_start r) (header_end r)
      | _ \<Rightarrow> True)"

lemma name_hashed_Nil: "c = tolower ch \<Longrightarrow> header_name_char au ch \<Longrightarrow> length buf = NGX_HTTP_LC_HEADER_LEN \<Longrightarrow>
    name_hashed au [ch] (ngx_hash 0 c) (Suc 0) (buf[0 := c])"
  by (cases buf) (auto simp: name_hashed_def hash_lc_def)

lemma name_hashed_snoc:
  assumes "name_hashed au name hash i buf" "c = tolower ch" "header_name_char au ch"
    and "length buf = NGX_HTTP_LC_HEADER_LEN"
  shows "name_hashed au (name @ [ch]) (ngx_hash hash c) (Suc i mod NGX_HTTP_LC_HEADER_LEN) (buf[i := c])"
proof (cases "length name < NGX_HTTP_LC_HEADER_LEN")
  case True
  then have "i = length name"
    using assms(1) by (simp add: name_hashed_def)
  then show ?thesis
    using assms True by (auto simp: name_hashed_def hash_lc_def take_Suc_conv_app_nth)
next
  case False
  then show ?thesis
    using assms by (auto simp: name_hashed_def hash_lc_def mod_Suc_eq)
qed

lemma name_run_start:
  "p < length mem \<Longrightarrow> text_char (mem ! p) \<Longrightarrow> (\<not> invalid \<Longrightarrow> name_hashed au [mem ! p] hash i buf) \<Longrightarrow>
   name_run au mem (Suc p) (Some p) invalid hash i buf"
  by (simp add: slice_Suc)

lemma name_run_Suc:
  "name_run au mem p a inv' hash i buf \<Longrightarrow> p < length mem \<Longrightarrow> text_char (mem ! p) \<Longrightarrow>
   (\<not> invalid \<Longrightarrow> \<not> inv' \<and> name_hashed au (slice mem (the a) p @ [mem ! p]) hash' i' buf') \<Longrightarrow>
   name_run au mem (Suc p) a invalid hash' i' buf'"
  by (cases a) (auto simp: slice_Suc)

lemma name_run_hashed:
  "name_run au mem p a False hash i buf \<Longrightarrow> name_hashed au (slice mem (the a) p) hash i buf"
  by (cases a) auto

lemma name_done_Suc: "name_done au mem p a b invalid hash i buf \<Longrightarrow> name_done au mem (Suc p) a b invalid hash i buf"
  by (cases b) auto

lemma hl_name_done_Suc: "hl_name_done au mem p r \<Longrightarrow> hl_name_done au mem (Suc p) r"
  by (simp add: hl_name_done_def name_done_Suc)

lemma hl_name_done_update [simp]:
  "hl_name_done au mem p (r\<lparr>header_start := x\<rparr>) = hl_name_done au mem p r"
  "hl_name_done au mem p (r\<lparr>header_end := x\<rparr>) = hl_name_done au mem p r"
  by (simp_all add: hl_name_done_def)

lemma value_run_start:
  "hl_name_done au mem p r \<Longrightarrow> p < length mem \<Longrightarrow> text_char (mem ! p) \<Longrightarrow> mem ! p \<noteq> ch_space \<Longrightarrow>
   value_run mem (Suc p) (header_name_end r) (Some p)"
  by (cases "header_name_end r") (auto simp: hl_name_done_def slice_Suc)

lemma value_run_Suc:
  "value_run mem p b c \<Longrightarrow> p < length mem \<Longrightarrow> text_char (mem ! p) \<Longrightarrow> value_run mem (Suc p) b c"
  by (cases b; cases c) (auto simp: slice_Suc)

lemma value_done_run:
  "value_run mem p b c \<Longrightarrow> mem ! (p - Suc 0) \<noteq> ch_space \<Longrightarrow> value_done mem p b c (Some p)"
  by (cases b; cases c) auto

lemma value_done_Suc: "value_done mem p b c d \<Longrightarrow> value_done mem (Suc p) b c d"
  by (cases b; cases c; cases d) auto

lemma value_done_empty:
  "hl_name_done au mem p r \<Longrightarrow> value_done mem p (header_name_end r) (Some p) (Some p)"
  by (cases "header_name_end r") (auto simp: hl_name_done_def)

lemma text_charI:
  "ch \<noteq> ch_NUL \<Longrightarrow> ch \<noteq> ch_CR \<Longrightarrow> ch \<noteq> ch_LF \<Longrightarrow> text_char ch" "ch = ch_space \<Longrightarrow> text_char ch"
  by (auto simp: text_char_def)

lemmas value_run_first = value_run_start [OF _ _ text_charI(1)]

lemmas hl_run_intros = text_charI value_done_empty [THEN value_done_Suc] value_done_run [THEN value_done_Suc] name_run_start name_done_Suc hl_name_done_Suc value_run_start
  value_run_Suc value_done_run value_done_Suc value_done_empty

lemma header_name_char_text: "header_name_char au ch \<Longrightarrow> text_char ch"
  by (auto simp: header_name_char_def text_char_def)

lemma tolower_underscore [simp]: "tolower ch_underscore = ch_underscore"
  by (simp add: tolower_def is_upper_def)

lemma hl_inv_start:
  "hl_inv au mem p sw_start r \<Longrightarrow> p < length mem \<Longrightarrow> hl_step au up mem p sw_start r = Break s' r' \<Longrightarrow>
   hl_inv au mem (Suc p) s' r'"
  by (auto simp: hl_inv_def hl_step_def hl_start_def Let_def lowcase_eq header_name_char_def
      text_char_def simp del: name_run.simps intro!: name_run_start name_hashed_Nil split: if_splits)

lemma hl_inv_name:
  assumes "hl_inv au mem p sw_name r" "p < length mem" "hl_step au up mem p sw_name r = Break s' r'"
  shows "hl_inv au mem (Suc p) s' r'"
proof (cases "header_name_char au (mem ! p)")
  case True
  then have "s' = sw_name \<and> r' = hl_name_char (tolower (mem ! p)) r"
    using assms(3) by (auto simp: hl_step_def hl_name_def header_name_char_def Let_def lowcase_eq split: if_splits)
  then show ?thesis
    using assms(1,2) True
    by (auto simp: hl_inv_def hl_name_char_def header_name_char_text
        intro!: name_run_Suc name_hashed_snoc dest: name_run_hashed)
next
  case False
  then show ?thesis
    using assms by (auto simp: hl_inv_def hl_step_def hl_name_def header_name_char_def Let_def lowcase_eq
        text_char_def hl_name_done_def intro!: name_run_Suc split: if_splits)
qed

lemma hl_inv_rest:
  "s \<in> {sw_space_before_value, sw_value, sw_space_after_value, sw_ignore_line, sw_almost_done, sw_header_almost_done} \<Longrightarrow>
   hl_inv au mem p s r \<Longrightarrow> p < length mem \<Longrightarrow> hl_step au up mem p s r = Break s' r' \<Longrightarrow> hl_inv au mem (Suc p) s' r'"
  by (elim insertE emptyE; hypsubst)
     (auto simp: hl_inv_def hl_step_def parser_step Let_def intro: value_run_first hl_run_intros split: if_splits)

lemma hl_step_inv:
  assumes "hl_inv au mem p s r" "p < length mem" "hl_step au up mem p s r = Break s' r'"
  shows "hl_inv au mem (Suc p) s' r'"
  using assms hl_inv_start hl_inv_name hl_inv_rest [OF _ assms] by (cases s) simp_all


lemma hl_scan_inv:
  assumes "hl_inv au mem p s r"
  shows "case scan (hl_step au up) mem (length mem) p s r of
      Stopped p' s' r' \<Rightarrow> hl_inv au mem p' s' r'
    | Finished p' l r' \<Rightarrow> \<exists>s0 r0. hl_inv au mem p' s0 r0 \<and> p' < length mem \<and> hl_step au up mem p' s0 r0 = Goto l r'
    | Returned rc r' \<Rightarrow> \<exists>p0 s0 r0. hl_inv au mem p0 s0 r0 \<and> hl_step au up mem p0 s0 r0 = Return rc r'"
proof -
  have "case scan (hl_step au up) mem (length mem) p s r of
      Stopped p' s' r' \<Rightarrow> hl_inv au mem p' s' r' \<and> \<not> p' < length mem
    | Finished p' l r' \<Rightarrow> \<exists>s0 r0. hl_inv au mem p' s0 r0 \<and> p' < length mem \<and> hl_step au up mem p' s0 r0 = Goto l r'
    | Returned rc r' \<Rightarrow> \<exists>p0 s0 r0. hl_inv au mem p0 s0 r0 \<and> p0 < length mem \<and> hl_step au up mem p0 s0 r0 = Return rc r'"
    using assms by (rule scan_rule) (rule hl_step_inv)
  then show ?thesis
    by (auto split: scanned.splits)
qed

lemma hl_Goto_done:
  assumes "hl_inv au mem p s r" "hl_step au up mem p s r = Goto L_done r'"
  shows "mem ! p = ch_LF \<and> hl_name_done au mem p r' \<and>
    value_done mem p (header_name_end r') (header_start r') (header_end r') \<and>
    lowcase_index r' < NGX_HTTP_LC_HEADER_LEN \<and> length (lowcase_header r') = NGX_HTTP_LC_HEADER_LEN"
  using assms
  by (cases s) (auto simp: hl_inv_def hl_step_def parser_step Let_def hl_name_done_def
      intro: hl_run_intros value_done_empty [unfolded hl_name_done_def] split: if_splits)

lemma hl_accepted:
  assumes "ngx_http_parse_header_line au up mem pos sw_start r = (NGX_OK, s', r', pos')"
    and "pos \<le> length mem" "lowcase_index r < 32" "length (lowcase_header r) = 32"
  shows "\<exists>p. pos' = Suc p \<and> p < length mem \<and> mem ! p = ch_LF \<and> hl_name_done au mem p r' \<and>
    value_done mem p (header_name_end r') (header_start r') (header_end r') \<and>
    lowcase_index r' < 32 \<and> length (lowcase_header r') = 32"
proof -
  have "hl_inv au mem pos sw_start r"
    using assms(2-4) by (simp add: hl_inv_def)
  then show ?thesis
    using hl_scan_inv [of au mem pos sw_start r up] hl_Goto_done assms(1)
    by (auto simp: ngx_http_parse_header_line_def split: scanned.splits header_line_label.splits
        dest: hl.scan_Returned)
qed


subsection \<open>A complete line is decided\<close>

lemma hl_LF_not_Break:
  "s \<noteq> sw_ignore_line \<Longrightarrow> mem ! p = ch_LF \<Longrightarrow> hl_step au up mem p s r \<noteq> Break s' r'"
  by (cases s) (auto simp: hl_step_def parser_step Let_def lowcase_eq split: if_splits)

lemma hl_no_ignore:
  "s \<noteq> sw_ignore_line \<Longrightarrow> hl_step au False mem p s r \<noteq> Break sw_ignore_line r'"
  by (cases s) (auto simp: hl_step_def parser_step Let_def split: if_splits)

text \<open>For a client request (no upstream, so no line is ignored) a line feed in the buffer
  always decides: the parser does not ask for more input.\<close>

theorem header_line_decided:
  assumes "pos \<le> j" "j < length mem" "mem ! j = ch_LF"
  shows "fst (ngx_http_parse_header_line au False mem pos sw_start r) \<noteq> NGX_AGAIN"
proof -
  define I where "I = (\<lambda>p s (r::ngx_http_request). p \<le> j \<and> s \<noteq> sw_ignore_line)"
  have "case scan (hl_step au False) mem (length mem) pos sw_start r of
      Stopped p' s' r' \<Rightarrow> I p' s' r' \<and> \<not> p' < length mem
    | Finished p' l r' \<Rightarrow> \<exists>s0 r0. I p' s0 r0 \<and> p' < length mem \<and> hl_step au False mem p' s0 r0 = Goto l r'
    | Returned rc r' \<Rightarrow> \<exists>p0 s0 r0. I p0 s0 r0 \<and> p0 < length mem \<and> hl_step au False mem p0 s0 r0 = Return rc r'"
  proof (rule scan_rule)
    fix p s r s' r'
    assume A: "I p s r" "hl_step au False mem p s r = Break s' r'"
    then have "p \<noteq> j"
      using hl_LF_not_Break [of s mem p au False r s' r'] assms(3) by (auto simp: I_def)
    then show "I (Suc p) s' r'"
      using A hl_no_ignore [of s au mem p r r'] by (auto simp: I_def)
  qed (simp add: I_def assms)
  then show ?thesis
    using assms(2)
    by (auto simp: ngx_http_parse_header_line_def I_def dest: hl_return_rc
        split: scanned.splits header_line_label.splits)
qed

subsection \<open>Printed header lines are read back\<close>

lemma hl_name_step:
  "header_name_char au (mem ! p) \<Longrightarrow>
   hl_step au up mem p sw_name r = Break sw_name (hl_name_char (tolower (mem ! p)) r)"
  by (auto simp: hl_step_def hl_name_def header_name_char_def Let_def lowcase_eq)

lemma hl_start_step:
  "header_name_char au (mem ! p) \<Longrightarrow>
   \<exists>r'. hl_step au up mem p sw_start r = Break sw_name r' \<and> header_name_start r' = Some p \<and> \<not> invalid_header r'"
  by (auto simp: hl_step_def hl_start_def header_name_char_def Let_def lowcase_eq)

lemma hl_name_scan:
  assumes "p \<le> q" "q \<le> lim" "\<And>i. p \<le> i \<Longrightarrow> i < q \<Longrightarrow> header_name_char au (mem ! i)"
  shows "\<exists>r'. scan (hl_step au up) mem lim p sw_name r = scan (hl_step au up) mem lim q sw_name r' \<and>
    header_name_start r' = header_name_start r \<and> invalid_header r' = invalid_header r"
  using assms
proof (induction "q - p" arbitrary: p r)
  case (Suc n)
  have S: "hl_step au up mem p sw_name r = Break sw_name (hl_name_char (tolower (mem ! p)) r)"
    using Suc by (intro hl_name_step) simp
  show ?case
    using Suc.hyps(1) [of "Suc p" "hl_name_char (tolower (mem ! p)) r"] Suc.hyps(2) Suc.prems
      scan_Break [of p lim "hl_step au up" mem, OF _ S]
    by (auto simp: hl_name_char_def)
qed auto

lemma hl_value_step:
  assumes "text_char (mem ! p)" "s \<in> {sw_value, sw_space_after_value}"
  shows "\<exists>s' r'. hl_step au up mem p s r = Break s' r' \<and> s' \<in> {sw_value, sw_space_after_value} \<and>
    (mem ! p \<noteq> ch_space \<longrightarrow> s' = sw_value) \<and>
    header_name_start r' = header_name_start r \<and> invalid_header r' = invalid_header r \<and>
    header_name_end r' = header_name_end r \<and> header_start r' = header_start r"
  using assms by (cases "mem ! p = ch_space")
    (auto simp: hl_step_def hl_value_def hl_space_after_value_def text_char_def)

text \<open>Inside a value: the header end is only meaningful in \<open>sw_space_after_value\<close>.\<close>

lemma hl_value_scan:
  assumes "p \<le> q" "q \<le> lim" "\<And>i. p \<le> i \<Longrightarrow> i < q \<Longrightarrow> text_char (mem ! i)" "s \<in> {sw_value, sw_space_after_value}"
  shows "\<exists>s' r'. scan (hl_step au up) mem lim p s r = scan (hl_step au up) mem lim q s' r' \<and>
    header_name_start r' = header_name_start r \<and> invalid_header r' = invalid_header r \<and>
    header_name_end r' = header_name_end r \<and> header_start r' = header_start r \<and>
    s' \<in> {sw_value, sw_space_after_value} \<and> (p < q \<longrightarrow> mem ! (q - 1) \<noteq> ch_space \<longrightarrow> s' = sw_value) \<and>
    (p = q \<longrightarrow> s' = s)"
  using assms
proof (induction "q - p" arbitrary: p r s)
  case (Suc n)
  have "text_char (mem ! p)"
    using Suc by simp
  then obtain s1 r1 where S: "hl_step au up mem p s r = Break s1 r1" "s1 \<in> {sw_value, sw_space_after_value}"
      "mem ! p \<noteq> ch_space \<longrightarrow> s1 = sw_value"
      "header_name_start r1 = header_name_start r" "invalid_header r1 = invalid_header r"
      "header_name_end r1 = header_name_end r" "header_start r1 = header_start r"
    using hl_value_step [of mem p s au up r] Suc.prems(4) by blast
  have A: "scan (hl_step au up) mem lim p s r = scan (hl_step au up) mem lim (Suc p) s1 r1"
    using Suc S(1) by (intro scan_Break) auto
  have P: "n = q - Suc p" "Suc p \<le> q" "q \<le> lim"
    using Suc.hyps(2) Suc.prems(1,2) by simp_all
  obtain s2 r2 where B: "scan (hl_step au up) mem lim (Suc p) s1 r1 = scan (hl_step au up) mem lim q s2 r2"
      "header_name_start r2 = header_name_start r1" "invalid_header r2 = invalid_header r1"
      "header_name_end r2 = header_name_end r1" "header_start r2 = header_start r1"
      "s2 \<in> {sw_value, sw_space_after_value}" "Suc p < q \<longrightarrow> mem ! (q - 1) \<noteq> ch_space \<longrightarrow> s2 = sw_value"
      "Suc p = q \<longrightarrow> s2 = s1"
    using Suc.hyps(1) [OF P _ S(2), of r1] Suc.prems(3) by fastforce
  have "mem ! (q - 1) \<noteq> ch_space \<longrightarrow> s2 = sw_value"
    using B(7,8) S(3) P(2) by (cases "Suc p = q") auto
  then show ?case
    using A B S Suc.hyps(2) by (intro exI [of _ s2] exI [of _ r2]) auto
qed auto

definition print_header :: "ngx_str \<Rightarrow> ngx_str \<Rightarrow> ngx_str" where
  "print_header name value = name @ [ch_colon, ch_space] @ value @ [ch_CR, ch_LF]"

lemma nth_print_header:
  "i < length name \<Longrightarrow> (pre @ print_header name v @ rest) ! (length pre + i) = name ! i"
  "(pre @ print_header name v @ rest) ! (length pre + length name) = ch_colon"
  "(pre @ print_header name v @ rest) ! (length pre + length name + 1) = ch_space"
  "i < length v \<Longrightarrow> (pre @ print_header name v @ rest) ! (length pre + length name + 2 + i) = v ! i"
  "(pre @ print_header name v @ rest) ! (length pre + length name + 2 + length v) = ch_CR"
  "(pre @ print_header name v @ rest) ! (length pre + length name + 2 + length v + 1) = ch_LF"
  by (simp_all add: print_header_def nth_append)

text \<open>C14. A printed header line is read back wherever it stands in the buffer: exactly the bytes
  of the name and of the value, and the position behind the line feed.\<close>

theorem header_line_roundtrip:
  assumes "name \<noteq> []" "list_all (header_name_char au) name"
    and "value \<noteq> []" "list_all text_char value" "hd value \<noteq> ch_space" "last value \<noteq> ch_space"
    and "mem = pre @ print_header name value @ rest"
  shows "case ngx_http_parse_header_line au up mem (length pre) sw_start r of
    (rc, s, r', pos) \<Rightarrow>
      rc = NGX_OK \<and> s = sw_start \<and> pos = length pre + length (print_header name value) \<and>
      \<not> invalid_header r' \<and>
      slice mem (the (header_name_start r')) (the (header_name_end r')) = name \<and>
      slice mem (the (header_start r')) (the (header_end r')) = value"
proof -
  let ?a = "length pre" and ?b = "length pre + length name"
  let ?c = "?b + 2" and ?d = "?b + 2 + length value"
  let ?step = "hl_step au up" and ?l = "length mem"
  note N = nth_print_header [where pre = pre and name = name and v = "value" and rest = rest, folded assms(7)]
  have L: "?d + 1 < ?l"
    using assms(7) by (simp add: print_header_def)
  have name: "header_name_char au (mem ! i)" if "?a \<le> i" "i < ?b" for i
    using N(1) [of "i - ?a"] that assms(2) by (simp add: list_all_length)
  have val: "text_char (mem ! i)" if I: "?c \<le> i" "i < ?d" for i
  proof -
    obtain k where "i = ?c + k"
      using I(1) le_Suc_ex by blast
    then show ?thesis
      using N(4) [of k] I(2) assms(4) by (simp add: list_all_length)
  qed
  have "header_name_char au (mem ! ?a)"
    using name [of ?a] assms(1) by simp
  then obtain r1 where R1: "?step mem ?a sw_start r = Break sw_name r1" "header_name_start r1 = Some ?a"
      "\<not> invalid_header r1"
    using hl_start_step by blast
  obtain r2 where R2: "scan ?step mem ?l (Suc ?a) sw_name r1 = scan ?step mem ?l ?b sw_name r2"
      "header_name_start r2 = Some ?a" "\<not> invalid_header r2"
    using hl_name_scan [of "Suc ?a" ?b ?l au mem up r1] name L R1 assms(1) by (auto simp: Suc_le_eq)
  let ?r3 = "r2\<lparr>header_name_end := Some ?b, header_start := Some ?c\<rparr>"
  have D: "?d - 1 = ?c + (length value - 1)"
    using assms(3) by (cases "value") simp_all
  have V: "mem ! ?c = hd value" "mem ! (?d - 1) = last value" "text_char (hd value)" "?c < ?d"
    unfolding D using N(4) [of 0] N(4) [of "length value - 1"] assms(3,4)
    by (simp_all add: hd_conv_nth last_conv_nth list_all_length)
  have R3: "scan ?step mem ?l ?b sw_name r2 = scan ?step mem ?l (Suc ?c) sw_value ?r3"
    using N(2,3) L V assms(5)
    by (simp add: scan_step hl_step_def parser_step lowcase_eq text_char_def)
  have P: "Suc ?c \<le> ?d" "?d \<le> ?l"
    using L V(4) by (simp_all add: Suc_le_eq)
  obtain s4 r4 where R4: "scan ?step mem ?l (Suc ?c) sw_value ?r3 = scan ?step mem ?l ?d s4 r4"
      "Suc ?c < ?d \<longrightarrow> mem ! (?d - 1) \<noteq> ch_space \<longrightarrow> s4 = sw_value" "Suc ?c = ?d \<longrightarrow> s4 = sw_value"
      "header_name_start r4 = Some ?a" "\<not> invalid_header r4" "header_name_end r4 = Some ?b" "header_start r4 = Some ?c"
    using hl_value_scan [OF P, of mem sw_value au up ?r3] val R2(2,3) by auto
  have "s4 = sw_value"
    using R4(2,3) P(1) V(2) assms(6) by (cases "Suc ?c = ?d") auto
  note R4 = R4(1) this R4(4-7)
  have R5: "scan ?step mem ?l ?d sw_value r4 = Finished (?d + 1) L_done (r4\<lparr>header_end := Some ?d\<rparr>)"
    using N(5,6) L by (simp add: scan_step hl_step_def parser_step)
  have "scan ?step mem ?l ?a sw_start r = Finished (?d + 1) L_done (r4\<lparr>header_end := Some ?d\<rparr>)"
    using scan_Break [of ?a ?l ?step mem, OF _ R1(1)] R2(1) R3 R4(1,2) R5 L by simp
  moreover have "slice mem ?a ?b = name" "slice mem ?c ?d = value"
    using assms(7) by (simp_all add: print_header_def slice_def)
  ultimately show ?thesis
    using R4 by (simp add: ngx_http_parse_header_line_def print_header_def)
qed

subsection \<open>A sample\<close>

lemma lowcase_numeral: "numeral k < (128::nat) \<Longrightarrow> lowcase ! numeral k = lowcase_of (numeral k)"
  by (simp add: lowcase_map nth_append)

definition sample_header :: ngx_str where
  "sample_header = print_header (bytes ''Host'') (bytes ''a b'')"

theorem header_line_roundtrip_witness:
  "case ngx_http_parse_header_line False False sample_header 0 sw_start ngx_http_create_request of
    (rc, s, r', pos) \<Rightarrow>
      rc = NGX_OK \<and> pos = 11 \<and>
      slice sample_header (the (header_name_start r')) (the (header_name_end r')) = bytes ''Host'' \<and>
      slice sample_header (the (header_start r')) (the (header_end r')) = bytes ''a b''"
  using header_line_roundtrip [of "bytes ''Host''" False "bytes ''a b''" sample_header "[]" "[]" False
      ngx_http_create_request]
  by (simp add: bytes_def header_name_char_def header_char_def is_upper_def text_char_def sample_header_def
      print_header_def split: prod.splits)

lemma sample_header_parsed:
  "\<exists>r. ngx_http_parse_header_line False False sample_header 0 sw_start ngx_http_create_request =
     (NGX_OK, sw_start, r, 11) \<and> \<not> invalid_header r"
  by (simp add: sample_header_def print_header_def bytes_def ngx_http_parse_header_line_def scan_step hl_step_def
      parser_step hl_name_char_def lowcase_numeral lowcase_of_def ngx_http_create_request_def)


theorem header_line_decided_witness:
  "fst (ngx_http_parse_header_line False False [ch_CR, ch_LF] 0 sw_start ngx_http_create_request) \<noteq> NGX_AGAIN"
  by (rule header_line_decided [of 0 1]) simp_all

end
