(* ===== verification/Http_Request_Line.thy ===== *)
theory Http_Request_Line
  imports Http_Base
begin

text \<open>
  The request line parser, \<open>ngx_http_parse_request_line\<close> of \<open>src/http/ngx_http_parse.c\<close>.

  One definition per \<open>case\<close> of its switch (\<open>rl_method\<close> is \<open>case sw_method\<close>, and so on); a case
  that falls through calls the next one. \<open>p--; break\<close>, which hands the same byte to the new
  state, is a call of that state's definition. \<open>NGX_WIN32\<close> is not defined. The two variants of
  the string comparison macros, byte by byte and by 32-bit loads, are both modelled.

  The lemmas show that the parser may be fed piece by piece, that an accepted line is well
  formed and its pointers are ordered, that a URI with no flag set needs no normalisation, and
  that a printed request line is read back.
\<close>

subsection \<open>Definitions\<close>

datatype request_line_state =
    sw_start | sw_method | sw_spaces_before_uri | sw_schema | sw_schema_slash
  | sw_schema_slash_slash | sw_host_start | sw_host | sw_host_end | sw_host_ip_literal | sw_port
  | sw_host_http_09 | sw_after_slash_in_uri | sw_check_uri | sw_check_uri_http_09 | sw_uri
  | sw_http_09 | sw_http_H | sw_http_HT | sw_http_HTT | sw_http_HTTP | sw_first_major_digit
  | sw_major_digit | sw_first_minor_digit | sw_minor_digit | sw_spaces_after_digit
  | sw_almost_done

datatype request_line_label = L_done

type_synonym rl_outcome = "(request_line_state, request_line_label, ngx_http_request) outcome"

definition usual :: "32 word list" where
  "usual = [0xffffdbfe, 0x7fff37d6, 0xffffffff, 0xffffffff,
            0xffffffff, 0xffffffff, 0xffffffff, 0xffffffff]"

text \<open>The comparison macros, first the portable ones. \<open>m\<close> is the offset of the first byte.\<close>

definition ngx_str3_cmp :: "ngx_str \<Rightarrow> nat \<Rightarrow> u_char \<Rightarrow> u_char \<Rightarrow> u_char \<Rightarrow> u_char \<Rightarrow> bool" where
  "ngx_str3_cmp mem m c0 c1 c2 c3 \<longleftrightarrow> mem ! m = c0 \<and> mem ! (m + 1) = c1 \<and> mem ! (m + 2) = c2"

definition ngx_str3Ocmp :: "ngx_str \<Rightarrow> nat \<Rightarrow> u_char \<Rightarrow> u_char \<Rightarrow> u_char \<Rightarrow> u_char \<Rightarrow> bool" where
  "ngx_str3Ocmp mem m c0 c1 c2 c3 \<longleftrightarrow> mem ! m = c0 \<and> mem ! (m + 2) = c2 \<and> mem ! (m + 3) = c3"

definition ngx_str4cmp :: "ngx_str \<Rightarrow> nat \<Rightarrow> u_char \<Rightarrow> u_char \<Rightarrow> u_char \<Rightarrow> u_char \<Rightarrow> bool" where
  "ngx_str4cmp mem m c0 c1 c2 c3 \<longleftrightarrow>
     mem ! m = c0 \<and> mem ! (m + 1) = c1 \<and> mem ! (m + 2) = c2 \<and> mem ! (m + 3) = c3"

definition ngx_str5cmp ::
  "ngx_str \<Rightarrow> nat \<Rightarrow> u_char \<Rightarrow> u_char \<Rightarrow> u_char \<Rightarrow> u_char \<Rightarrow> u_char \<Rightarrow> bool" where
  "ngx_str5cmp mem m c0 c1 c2 c3 c4 \<longleftrightarrow>
     mem ! m = c0 \<and> mem ! (m + 1) = c1 \<and> mem ! (m + 2) = c2 \<and> mem ! (m + 3) = c3 \<and> mem ! (m + 4) = c4"

definition ngx_str6cmp ::
  "ngx_str \<Rightarrow> nat \<Rightarrow> u_char \<Rightarrow> u_char \<Rightarrow> u_char \<Rightarrow> u_char \<Rightarrow> u_char \<Rightarrow> u_char \<Rightarrow> bool" where
  "ngx_str6cmp mem m c0 c1 c2 c3 c4 c5 \<longleftrightarrow>
     mem ! m = c0 \<and> mem ! (m + 1) = c1 \<and> mem ! (m + 2) = c2 \<and> mem ! (m + 3) = c3 \<and>
     mem ! (m + 4) = c4 \<and> mem ! (m + 5) = c5"

definition ngx_str7_cmp ::
  "ngx_str \<Rightarrow> nat \<Rightarrow> u_char \<Rightarrow> u_char \<Rightarrow> u_char \<Rightarrow> u_char \<Rightarrow> u_char \<Rightarrow> u_char \<Rightarrow> u_char \<Rightarrow> u_char \<Rightarrow> bool"
where
  "ngx_str7_cmp mem m c0 c1 c2 c3 c4 c5 c6 c7 \<longleftrightarrow>
     mem ! m = c0 \<and> mem ! (m + 1) = c1 \<and> mem ! (m + 2) = c2 \<and> mem ! (m + 3) = c3 \<and>
     mem ! (m + 4) = c4 \<and> mem ! (m + 5) = c5 \<and> mem ! (m + 6) = c6"

definition ngx_str8cmp ::
  "ngx_str \<Rightarrow> nat \<Rightarrow> u_char \<Rightarrow> u_char \<Rightarrow> u_char \<Rightarrow> u_char \<Rightarrow> u_char \<Rightarrow> u_char \<Rightarrow> u_char \<Rightarrow> u_char \<Rightarrow> bool"
where
  "ngx_str8cmp mem m c0 c1 c2 c3 c4 c5 c6 c7 \<longleftrightarrow>
     mem ! m = c0 \<and> mem ! (m + 1) = c1 \<and> mem ! (m + 2) = c2 \<and> mem ! (m + 3) = c3 \<and>
     mem ! (m + 4) = c4 \<and> mem ! (m + 5) = c5 \<and> mem ! (m + 6) = c6 \<and> mem ! (m + 7) = c7"

definition ngx_str9cmp ::
  "ngx_str \<Rightarrow> nat \<Rightarrow> u_char \<Rightarrow> u_char \<Rightarrow> u_char \<Rightarrow> u_char \<Rightarrow> u_char \<Rightarrow> u_char \<Rightarrow> u_char \<Rightarrow> u_char \<Rightarrow> u_char \<Rightarrow> bool"
where
  "ngx_str9cmp mem m c0 c1 c2 c3 c4 c5 c6 c7 c8 \<longleftrightarrow>
     mem ! m = c0 \<and> mem ! (m + 1) = c1 \<and> mem ! (m + 2) = c2 \<and> mem ! (m + 3) = c3 \<and>
     mem ! (m + 4) = c4 \<and> mem ! (m + 5) = c5 \<and> mem ! (m + 6) = c6 \<and> mem ! (m + 7) = c7 \<and>
     mem ! (m + 8) = c8"

lemmas ngx_strcmp_defs = ngx_str3_cmp_def ngx_str3Ocmp_def ngx_str4cmp_def ngx_str5cmp_def
  ngx_str6cmp_def ngx_str7_cmp_def ngx_str8cmp_def ngx_str9cmp_def

definition rl_start :: "nat \<Rightarrow> u_char \<Rightarrow> ngx_http_request \<Rightarrow> rl_outcome" where [parser_step]:
  "rl_start p ch r =
     (let r = r\<lparr>request_start := Some p\<rparr> in
      if ch = ch_CR \<or> ch = ch_LF then Break sw_start r
      else if (ch < ch_A \<or> ch > ch_Z) \<and> ch \<noteq> ch_underscore \<and> ch \<noteq> ch_minus
      then Return NGX_HTTP_PARSE_INVALID_METHOD r
      else Break sw_method r)"

text \<open>The switch on \<open>p - m\<close>: the method recorded for the bytes at \<open>m\<close>, \<open>None\<close> if it is left
  as it was.\<close>

definition rl_method_code :: "ngx_str \<Rightarrow> nat \<Rightarrow> nat \<Rightarrow> nat option" where
  "rl_method_code mem m len =
     (if len = 3 then
        if ngx_str3_cmp mem m 0x47 0x45 0x54 ch_space then Some NGX_HTTP_GET
        else if ngx_str3_cmp mem m 0x50 0x55 0x54 ch_space then Some NGX_HTTP_PUT
        else None
      else if len = 4 then
        if mem ! (m + 1) = 0x4f then
          if ngx_str3Ocmp mem m 0x50 0x4f 0x53 0x54 then Some NGX_HTTP_POST
          else if ngx_str3Ocmp mem m 0x43 0x4f 0x50 0x59 then Some NGX_HTTP_COPY
          else if ngx_str3Ocmp mem m 0x4d 0x4f 0x56 0x45 then Some NGX_HTTP_MOVE
          else if ngx_str3Ocmp mem m 0x4c 0x4f 0x43 0x4b then Some NGX_HTTP_LOCK
          else None
        else if ngx_str4cmp mem m 0x48 0x45 0x41 0x44 then Some NGX_HTTP_HEAD
        else None
      else if len = 5 then
        if ngx_str5cmp mem m 0x4d 0x4b 0x43 0x4f 0x4c then Some NGX_HTTP_MKCOL
        else if ngx_str5cmp mem m 0x50 0x41 0x54 0x43 0x48 then Some NGX_HTTP_PATCH
        else if ngx_str5cmp mem m 0x54 0x52 0x41 0x43 0x45 then Some NGX_HTTP_TRACE
        else None
      else if len = 6 then
        if ngx_str6cmp mem m 0x44 0x45 0x4c 0x45 0x54 0x45 then Some NGX_HTTP_DELETE
        else if ngx_str6cmp mem m 0x55 0x4e 0x4c 0x4f 0x43 0x4b then Some NGX_HTTP_UNLOCK
        else None
      else if len = 7 then
        if ngx_str7_cmp mem m 0x4f 0x50 0x54 0x49 0x4f 0x4e 0x53 ch_space then Some NGX_HTTP_OPTIONS
        else None
      else if len = 8 then
        if ngx_str8cmp mem m 0x50 0x52 0x4f 0x50 0x46 0x49 0x4e 0x44 then Some NGX_HTTP_PROPFIND
        else None
      else if len = 9 then
        if ngx_str9cmp mem m 0x50 0x52 0x4f 0x50 0x50 0x41 0x54 0x43 0x48 then Some NGX_HTTP_PROPPATCH
        else None
      else None)"

definition rl_method :: "ngx_str \<Rightarrow> nat \<Rightarrow> u_char \<Rightarrow> ngx_http_request \<Rightarrow> rl_outcome" where [parser_step]:
  "rl_method mem p ch r =
     (if ch = ch_space then
        let r = r\<lparr>method_end := Some (p - 1)\<rparr>;
            m = the (request_start r)
        in (case rl_method_code mem m (p - m) of
              None \<Rightarrow> Break sw_spaces_before_uri r
            | Some code \<Rightarrow> Break sw_spaces_before_uri (r\<lparr>http_method := code\<rparr>))
      else if (ch < ch_A \<or> ch > ch_Z) \<and> ch \<noteq> ch_underscore \<and> ch \<noteq> ch_minus
      then Return NGX_HTTP_PARSE_INVALID_METHOD r
      else Break sw_method r)"

text \<open>\<open>c = (u_char) (ch | 0x20); c >= 'a' && c <= 'z'\<close>\<close>

definition is_alpha :: "u_char \<Rightarrow> bool" where
  "is_alpha ch = (let c = ch OR 0x20 in c \<ge> ch_a \<and> c \<le> ch_z)"

definition is_digit :: "u_char \<Rightarrow> bool" where
  "is_digit ch = (ch \<ge> ch_0 \<and> ch \<le> ch_9)"

definition rl_spaces_before_uri :: "nat \<Rightarrow> u_char \<Rightarrow> ngx_http_request \<Rightarrow> rl_outcome" where [parser_step]:
  "rl_spaces_before_uri p ch r =
     (if ch = ch_slash then Break sw_after_slash_in_uri (r\<lparr>uri_start := Some p\<rparr>)
      else if is_alpha ch then Break sw_schema (r\<lparr>schema_start := Some p\<rparr>)
      else if ch = ch_space then Break sw_spaces_before_uri r
      else Return NGX_HTTP_PARSE_INVALID_REQUEST r)"

definition rl_schema :: "nat \<Rightarrow> u_char \<Rightarrow> ngx_http_request \<Rightarrow> rl_outcome" where [parser_step]:
  "rl_schema p ch r =
     (if is_alpha ch then Break sw_schema r
      else if ch = ch_colon then Break sw_schema_slash (r\<lparr>schema_end := Some p\<rparr>)
      else Return NGX_HTTP_PARSE_INVALID_REQUEST r)"

definition rl_schema_slash :: "u_char \<Rightarrow> ngx_http_request \<Rightarrow> rl_outcome" where [parser_step]:
  "rl_schema_slash ch r =
     (if ch = ch_slash then Break sw_schema_slash_slash r
      else Return NGX_HTTP_PARSE_INVALID_REQUEST r)"

definition rl_schema_slash_slash :: "u_char \<Rightarrow> ngx_http_request \<Rightarrow> rl_outcome" where [parser_step]:
  "rl_schema_slash_slash ch r =
     (if ch = ch_slash then Break sw_host_start r
      else Return NGX_HTTP_PARSE_INVALID_REQUEST r)"

definition rl_host_end :: "nat \<Rightarrow> u_char \<Rightarrow> ngx_http_request \<Rightarrow> rl_outcome" where [parser_step]:
  "rl_host_end p ch r =
     (let r = r\<lparr>host_end := Some p\<rparr> in
      if ch = ch_colon then Break sw_port r
      else if ch = ch_slash then Break sw_after_slash_in_uri (r\<lparr>uri_start := Some p\<rparr>)
      else if ch = ch_space then
        Break sw_host_http_09
          (r\<lparr>uri_start := Some (the (schema_end r) + 1), uri_end := Some (the (schema_end r) + 2)\<rparr>)
      else Return NGX_HTTP_PARSE_INVALID_REQUEST r)"

definition rl_host :: "nat \<Rightarrow> u_char \<Rightarrow> ngx_http_request \<Rightarrow> rl_outcome" where [parser_step]:
  "rl_host p ch r =
     (if is_alpha ch then Break sw_host r
      else if is_digit ch \<or> ch = ch_dot \<or> ch = ch_minus then Break sw_host r
      else rl_host_end p ch r)"

definition rl_host_start :: "nat \<Rightarrow> u_char \<Rightarrow> ngx_http_request \<Rightarrow> rl_outcome" where [parser_step]:
  "rl_host_start p ch r =
     (let r = r\<lparr>host_start := Some p\<rparr> in
      if ch = ch_lbracket then Break sw_host_ip_literal r else rl_host p ch r)"

definition rl_host_ip_literal :: "u_char \<Rightarrow> ngx_http_request \<Rightarrow> rl_outcome" where [parser_step]:
  "rl_host_ip_literal ch r =
     (if is_digit ch then Break sw_host_ip_literal r
      else if is_alpha ch then Break sw_host_ip_literal r
      else if ch = ch_colon then Break sw_host_ip_literal r
      else if ch = ch_rbracket then Break sw_host_end r
      else if ch \<in> {ch_minus, ch_dot, ch_underscore, ch_tilde} then Break sw_host_ip_literal r
      else if ch \<in> {ch_excl, ch_dollar, ch_amp, ch_quote, ch_lparen, ch_rparen, ch_star, ch_plus,
                    ch_comma, ch_semicolon, ch_eq} then Break sw_host_ip_literal r
      else Return NGX_HTTP_PARSE_INVALID_REQUEST r)"

definition rl_port :: "nat \<Rightarrow> u_char \<Rightarrow> ngx_http_request \<Rightarrow> rl_outcome" where [parser_step]:
  "rl_port p ch r =
     (if is_digit ch then Break sw_port r
      else if ch = ch_slash then
        Break sw_after_slash_in_uri (r\<lparr>port_end := Some p, uri_start := Some p\<rparr>)
      else if ch = ch_space then
        Break sw_host_http_09
          (r\<lparr>port_end := Some p, uri_start := Some (the (schema_end r) + 1),
             uri_end := Some (the (schema_end r) + 2)\<rparr>)
      else Return NGX_HTTP_PARSE_INVALID_REQUEST r)"

definition rl_host_http_09 :: "nat \<Rightarrow> u_char \<Rightarrow> ngx_http_request \<Rightarrow> rl_outcome" where [parser_step]:
  "rl_host_http_09 p ch r =
     (if ch = ch_space then Break sw_host_http_09 r
      else if ch = ch_CR then Break sw_almost_done (r\<lparr>http_minor := 9\<rparr>)
      else if ch = ch_LF then Goto L_done (r\<lparr>http_minor := 9\<rparr>)
      else if ch = ch_H then Break sw_http_H (r\<lparr>http_protocol_data := Some p\<rparr>)
      else Return NGX_HTTP_PARSE_INVALID_REQUEST r)"

definition rl_after_slash_in_uri :: "nat \<Rightarrow> u_char \<Rightarrow> ngx_http_request \<Rightarrow> rl_outcome" where [parser_step]:
  "rl_after_slash_in_uri p ch r =
     (if bitmap_test usual ch then Break sw_check_uri r
      else if ch = ch_space then Break sw_check_uri_http_09 (r\<lparr>uri_end := Some p\<rparr>)
      else if ch = ch_CR then Break sw_almost_done (r\<lparr>uri_end := Some p, http_minor := 9\<rparr>)
      else if ch = ch_LF then Goto L_done (r\<lparr>uri_end := Some p, http_minor := 9\<rparr>)
      else if ch = ch_dot then Break sw_uri (r\<lparr>complex_uri := True\<rparr>)
      else if ch = ch_percent then Break sw_uri (r\<lparr>quoted_uri := True\<rparr>)
      else if ch = ch_slash then Break sw_uri (r\<lparr>complex_uri := True\<rparr>)
      else if ch = ch_question then Break sw_uri (r\<lparr>args_start := Some (p + 1)\<rparr>)
      else if ch = ch_hash then Break sw_uri (r\<lparr>complex_uri := True\<rparr>)
      else if ch = ch_plus then Break sw_after_slash_in_uri (r\<lparr>plus_in_uri := True\<rparr>)
      else if ch = ch_NUL then Return NGX_HTTP_PARSE_INVALID_REQUEST r
      else Break sw_check_uri r)"

definition rl_check_uri :: "nat \<Rightarrow> u_char \<Rightarrow> ngx_http_request \<Rightarrow> rl_outcome" where [parser_step]:
  "rl_check_uri p ch r =
     (if bitmap_test usual ch then Break sw_check_uri r
      else if ch = ch_slash then Break sw_after_slash_in_uri (r\<lparr>uri_ext := None\<rparr>)
      else if ch = ch_dot then Break sw_check_uri (r\<lparr>uri_ext := Some (p + 1)\<rparr>)
      else if ch = ch_space then Break sw_check_uri_http_09 (r\<lparr>uri_end := Some p\<rparr>)
      else if ch = ch_CR then Break sw_almost_done (r\<lparr>uri_end := Some p, http_minor := 9\<rparr>)
      else if ch = ch_LF then Goto L_done (r\<lparr>uri_end := Some p, http_minor := 9\<rparr>)
      else if ch = ch_percent then Break sw_uri (r\<lparr>quoted_uri := True\<rparr>)
      else if ch = ch_question then Break sw_uri (r\<lparr>args_start := Some (p + 1)\<rparr>)
      else if ch = ch_hash then Break sw_uri (r\<lparr>complex_uri := True\<rparr>)
      else if ch = ch_plus then Break sw_check_uri (r\<lparr>plus_in_uri := True\<rparr>)
      else if ch = ch_NUL then Return NGX_HTTP_PARSE_INVALID_REQUEST r
      else Break sw_check_uri r)"

definition rl_check_uri_http_09 :: "nat \<Rightarrow> u_char \<Rightarrow> ngx_http_request \<Rightarrow> rl_outcome" where [parser_step]:
  "rl_check_uri_http_09 p ch r =
     (if ch = ch_space then Break sw_check_uri_http_09 r
      else if ch = ch_CR then Break sw_almost_done (r\<lparr>http_minor := 9\<rparr>)
      else if ch = ch_LF then Goto L_done (r\<lparr>http_minor := 9\<rparr>)
      else if ch = ch_H then Break sw_http_H (r\<lparr>http_protocol_data := Some p\<rparr>)
      else rl_check_uri p ch (r\<lparr>space_in_uri := True\<rparr>))"

definition rl_uri :: "nat \<Rightarrow> u_char \<Rightarrow> ngx_http_request \<Rightarrow> rl_outcome" where [parser_step]:
  "rl_uri p ch r =
     (if bitmap_test usual ch then Break sw_uri r
      else if ch = ch_space then Break sw_http_09 (r\<lparr>uri_end := Some p\<rparr>)
      else if ch = ch_CR then Break sw_almost_done (r\<lparr>uri_end := Some p, http_minor := 9\<rparr>)
      else if ch = ch_LF then Goto L_done (r\<lparr>uri_end := Some p, http_minor := 9\<rparr>)
      else if ch = ch_hash then Break sw_uri (r\<lparr>complex_uri := True\<rparr>)
      else if ch = ch_NUL then Return NGX_HTTP_PARSE_INVALID_REQUEST r
      else Break sw_uri r)"

definition rl_http_09 :: "nat \<Rightarrow> u_char \<Rightarrow> ngx_http_request \<Rightarrow> rl_outcome" where [parser_step]:
  "rl_http_09 p ch r =
     (if ch = ch_space then Break sw_http_09 r
      else if ch = ch_CR then Break sw_almost_done (r\<lparr>http_minor := 9\<rparr>)
      else if ch = ch_LF then Goto L_done (r\<lparr>http_minor := 9\<rparr>)
      else if ch = ch_H then Break sw_http_H (r\<lparr>http_protocol_data := Some p\<rparr>)
      else rl_uri p ch (r\<lparr>space_in_uri := True\<rparr>))"

text \<open>The four states of the literal \<open>HTTP/\<close>.\<close>

definition rl_literal ::
  "u_char \<Rightarrow> request_line_state \<Rightarrow> u_char \<Rightarrow> ngx_http_request \<Rightarrow> rl_outcome" where [parser_step]:
  "rl_literal expected next_state ch r =
     (if ch = expected then Break next_state r else Return NGX_HTTP_PARSE_INVALID_REQUEST r)"

text \<open>\<open>http_major\<close> and \<open>http_minor\<close> are 16-bit fields: a value stored in them is cut.\<close>

definition rl_first_major_digit :: "u_char \<Rightarrow> ngx_http_request \<Rightarrow> rl_outcome" where [parser_step]:
  "rl_first_major_digit ch r =
     (if ch < ch_1 \<or> ch > ch_9 then Return NGX_HTTP_PARSE_INVALID_REQUEST r
      else Break sw_major_digit (r\<lparr>http_major := unat ch - 48\<rparr>))"

definition rl_major_digit :: "u_char \<Rightarrow> ngx_http_request \<Rightarrow> rl_outcome" where [parser_step]:
  "rl_major_digit ch r =
     (if ch = ch_dot then Break sw_first_minor_digit r
      else if ch < ch_0 \<or> ch > ch_9 then Return NGX_HTTP_PARSE_INVALID_REQUEST r
      else if http_major r > 99 then Return NGX_HTTP_PARSE_INVALID_REQUEST r
      else Break sw_major_digit (r\<lparr>http_major := (http_major r * 10 + unat ch - 48) mod 2 ^ 16\<rparr>))"

definition rl_first_minor_digit :: "u_char \<Rightarrow> ngx_http_request \<Rightarrow> rl_outcome" where [parser_step]:
  "rl_first_minor_digit ch r =
     (if ch < ch_0 \<or> ch > ch_9 then Return NGX_HTTP_PARSE_INVALID_REQUEST r
      else Break sw_minor_digit (r\<lparr>http_minor := unat ch - 48\<rparr>))"

definition rl_minor_digit :: "u_char \<Rightarrow> ngx_http_request \<Rightarrow> rl_outcome" where [parser_step]:
  "rl_minor_digit ch r =
     (if ch = ch_CR then Break sw_almost_done r
      else if ch = ch_LF then Goto L_done r
      else if ch = ch_space then Break sw_spaces_after_digit r
      else if ch < ch_0 \<or> ch > ch_9 then Return NGX_HTTP_PARSE_INVALID_REQUEST r
      else if http_minor r > 99 then Return NGX_HTTP_PARSE_INVALID_REQUEST r
      else Break sw_minor_digit (r\<lparr>http_minor := (http_minor r * 10 + unat ch - 48) mod 2 ^ 16\<rparr>))"

definition rl_spaces_after_digit :: "u_char \<Rightarrow> ngx_http_request \<Rightarrow> rl_outcome" where [parser_step]:
  "rl_spaces_after_digit ch r =
     (if ch = ch_space then Break sw_spaces_after_digit r
      else if ch = ch_CR then Break sw_almost_done r
      else if ch = ch_LF then Goto L_done r
      else Return NGX_HTTP_PARSE_INVALID_REQUEST r)"

definition rl_almost_done :: "nat \<Rightarrow> u_char \<Rightarrow> ngx_http_request \<Rightarrow> rl_outcome" where [parser_step]:
  "rl_almost_done p ch r =
     (let r = r\<lparr>request_end := Some (p - 1)\<rparr> in
      if ch = ch_LF then Goto L_done r else Return NGX_HTTP_PARSE_INVALID_REQUEST r)"

fun rl_step :: "ngx_str \<Rightarrow> nat \<Rightarrow> request_line_state \<Rightarrow> ngx_http_request \<Rightarrow> rl_outcome" where
  "rl_step mem p state r =
     (let ch = mem ! p in
      case state of
        sw_start \<Rightarrow> rl_start p ch r
      | sw_method \<Rightarrow> rl_method mem p ch r
      | sw_spaces_before_uri \<Rightarrow> rl_spaces_before_uri p ch r
      | sw_schema \<Rightarrow> rl_schema p ch r
      | sw_schema_slash \<Rightarrow> rl_schema_slash ch r
      | sw_schema_slash_slash \<Rightarrow> rl_schema_slash_slash ch r
      | sw_host_start \<Rightarrow> rl_host_start p ch r
      | sw_host \<Rightarrow> rl_host p ch r
      | sw_host_end \<Rightarrow> rl_host_end p ch r
      | sw_host_ip_literal \<Rightarrow> rl_host_ip_literal ch r
      | sw_port \<Rightarrow> rl_port p ch r
      | sw_host_http_09 \<Rightarrow> rl_host_http_09 p ch r
      | sw_after_slash_in_uri \<Rightarrow> rl_after_slash_in_uri p ch r
      | sw_check_uri \<Rightarrow> rl_check_uri p ch r
      | sw_check_uri_http_09 \<Rightarrow> rl_check_uri_http_09 p ch r
      | sw_uri \<Rightarrow> rl_uri p ch r
      | sw_http_09 \<Rightarrow> rl_http_09 p ch r
      | sw_http_H \<Rightarrow> rl_literal ch_T sw_http_HT ch r
      | sw_http_HT \<Rightarrow> rl_literal ch_T sw_http_HTT ch r
      | sw_http_HTT \<Rightarrow> rl_literal ch_P sw_http_HTTP ch r
      | sw_http_HTTP \<Rightarrow> rl_literal ch_slash sw_first_major_digit ch r
      | sw_first_major_digit \<Rightarrow> rl_first_major_digit ch r
      | sw_major_digit \<Rightarrow> rl_major_digit ch r
      | sw_first_minor_digit \<Rightarrow> rl_first_minor_digit ch r
      | sw_minor_digit \<Rightarrow> rl_minor_digit ch r
      | sw_spaces_after_digit \<Rightarrow> rl_spaces_after_digit ch r
      | sw_almost_done \<Rightarrow> rl_almost_done p ch r)"

text \<open>The code at the label \<open>done\<close>.\<close>

definition rl_done :: "nat \<Rightarrow> ngx_http_request \<Rightarrow> int \<times> request_line_state \<times> ngx_http_request \<times> nat" where
  "rl_done p r =
     (let r = (if request_end r = None then r\<lparr>request_end := Some p\<rparr> else r);
          r = r\<lparr>http_version := http_major r * 1000 + http_minor r\<rparr>
      in if http_version r = 9 \<and> http_method r \<noteq> NGX_HTTP_GET
         then (NGX_HTTP_PARSE_INVALID_09_METHOD, sw_start, r, p + 1)
         else (NGX_OK, sw_start, r, p + 1))"

definition ngx_http_parse_request_line ::
  "ngx_str \<Rightarrow> nat \<Rightarrow> request_line_state \<Rightarrow> ngx_http_request \<Rightarrow>
   int \<times> request_line_state \<times> ngx_http_request \<times> nat"
where
  "ngx_http_parse_request_line mem pos state r =
     (case scan rl_step mem (length mem) pos state r of
        Stopped p state' r' \<Rightarrow> (NGX_AGAIN, state', r', p)
      | Finished p L_done r' \<Rightarrow> rl_done p r'
      | Returned rc r' \<Rightarrow> (rc, state, r', pos))"

declare rl_step.simps [simp del]

subsection \<open>The table of usual bytes\<close>

lemma usual_low:
  "list_all (\<lambda>k. bit (usual ! (k div 32)) (k mod 32) = (k \<notin> {0, 10, 13, 32, 35, 37, 43, 46, 47, 63})) [0..<64]"
  by (simp add: usual_def upt_rec bit_numeral_rec nth_Cons')

lemma usual_high: "64 \<le> k \<Longrightarrow> k < 256 \<Longrightarrow> bit (usual ! (k div 32)) (k mod 32)"
proof -
  assume "64 \<le> k" "k < 256"
  then have "k div 32 = 2 \<or> k div 32 = 3 \<or> k div 32 = 4 \<or> k div 32 = 5 \<or> k div 32 = 6 \<or> k div 32 = 7"
    by linarith
  then have "usual ! (k div 32) = -1"
    by (auto simp: usual_def)
  then show ?thesis
    by simp
qed

lemma usual_iff:
  "bitmap_test usual ch \<longleftrightarrow>
     ch \<notin> {ch_NUL, ch_LF, ch_CR, ch_space, ch_hash, ch_percent, ch_plus, ch_dot, ch_slash, ch_question}"
proof (cases "unat ch < 64")
  case True
  then show ?thesis
    using usual_low [unfolded list_all_iff, THEN bspec, of "unat ch"]
    by (auto simp: bitmap_test_bit word_unat_eq_iff)
next
  case False
  then show ?thesis
    using usual_high [of "unat ch"] by (auto simp: bitmap_test_bit word_unat_eq_iff)
qed

subsection \<open>The invariant of the loop\<close>

text \<open>What the bytes between two positions look like. The arguments are the pointers of the
  request; none of the predicates holds of \<open>NULL\<close>.\<close>

definition method_char :: "u_char \<Rightarrow> bool" where
  "method_char ch \<longleftrightarrow> ch \<ge> ch_A \<and> ch \<le> ch_Z \<or> ch = ch_underscore \<or> ch = ch_minus"

definition uri_char :: "u_char \<Rightarrow> bool" where
  "uri_char ch \<longleftrightarrow> ch \<noteq> ch_NUL \<and> ch \<noteq> ch_CR \<and> ch \<noteq> ch_LF"

fun method_run :: "ngx_str \<Rightarrow> nat \<Rightarrow> ptr \<Rightarrow> bool" where
  "method_run mem p (Some m) = (m < p \<and> (\<forall>i. m \<le> i \<longrightarrow> i < p \<longrightarrow> method_char (mem ! i)))"
| "method_run mem p None = False"

definition method_value :: "ngx_str \<Rightarrow> nat \<Rightarrow> nat \<Rightarrow> nat" where
  "method_value mem m len =
     (case rl_method_code mem m len of None \<Rightarrow> NGX_HTTP_UNKNOWN | Some code \<Rightarrow> code)"

fun method_ok :: "ngx_str \<Rightarrow> nat \<Rightarrow> ptr \<Rightarrow> ptr \<Rightarrow> nat \<Rightarrow> bool" where
  "method_ok mem p (Some m) (Some e) code =
     (m \<le> e \<and> e + 1 < p \<and> mem ! (e + 1) = ch_space \<and>
      (\<forall>i. m \<le> i \<longrightarrow> i \<le> e \<longrightarrow> method_char (mem ! i)) \<and> code = method_value mem m (e + 1 - m))"
| "method_ok mem p _ _ code = False"

fun host_run :: "ngx_str \<Rightarrow> nat \<Rightarrow> ptr \<Rightarrow> ptr \<Rightarrow> bool" where
  "host_run mem p (Some e) (Some s) = (e < s \<and> s + 2 \<le> p \<and> mem ! (s + 1) = ch_slash)"
| "host_run mem p _ _ = False"

fun uri_run :: "ngx_str \<Rightarrow> nat \<Rightarrow> ptr \<Rightarrow> ptr \<Rightarrow> bool" where
  "uri_run mem p (Some e) (Some u) =
     (e < u \<and> u < p \<and> mem ! u = ch_slash \<and> (\<forall>i. u \<le> i \<longrightarrow> i < p \<longrightarrow> uri_char (mem ! i)))"
| "uri_run mem p _ _ = False"

fun uri_slice :: "ngx_str \<Rightarrow> nat \<Rightarrow> ptr \<Rightarrow> ptr \<Rightarrow> ptr \<Rightarrow> bool" where
  "uri_slice mem p e u (Some x) = (x \<le> p \<and> uri_run mem x e u)"
| "uri_slice mem p e u None = False"

text \<open>A path that needs no normalisation: no percent, hash or question mark, and no slash
  followed by a slash or a dot.\<close>

definition path_normal :: "ngx_str \<Rightarrow> nat \<Rightarrow> nat \<Rightarrow> bool" where
  "path_normal mem u x \<longleftrightarrow>
     (\<forall>i. u \<le> i \<longrightarrow> i < x \<longrightarrow>
        mem ! i \<noteq> ch_percent \<and> mem ! i \<noteq> ch_hash \<and> mem ! i \<noteq> ch_question \<and>
        (mem ! i = ch_slash \<longrightarrow> i + 1 < x \<longrightarrow> mem ! (i + 1) \<noteq> ch_slash \<and> mem ! (i + 1) \<noteq> ch_dot))"

fun args_ok :: "ngx_str \<Rightarrow> nat \<Rightarrow> ptr \<Rightarrow> ptr \<Rightarrow> bool" where
  "args_ok mem x u None = True"
| "args_ok mem x (Some u) (Some a) = (u < a \<and> a \<le> x \<and> mem ! (a - 1) = ch_question \<and> path_normal mem u (a - 1))"
| "args_ok mem x None (Some a) = False"

text \<open>Where the path ends: at the question mark before the arguments, or with the URI.\<close>

definition path_end :: "ptr \<Rightarrow> nat \<Rightarrow> nat" where
  "path_end args x = (case args of None \<Rightarrow> x | Some a \<Rightarrow> a - 1)"

definition fresh_uri :: "ngx_http_request \<Rightarrow> bool" where
  "fresh_uri r \<longleftrightarrow> args_start r = None \<and> \<not> complex_uri r \<and> \<not> quoted_uri r"

definition no_version :: "ngx_http_request \<Rightarrow> bool" where
  "no_version r \<longleftrightarrow> http_major r = 0 \<and> http_minor r = 0"

definition version_ok :: "ngx_http_request \<Rightarrow> bool" where
  "version_ok r \<longleftrightarrow> http_major r = 0 \<and> http_minor r = 9 \<or>
     1 \<le> http_major r \<and> http_major r \<le> 999 \<and> http_minor r \<le> 999"

definition fresh_request :: "ngx_http_request \<Rightarrow> bool" where
  "fresh_request r \<longleftrightarrow> fresh_uri r \<and> no_version r \<and> http_method r = NGX_HTTP_UNKNOWN"

definition method_done :: "ngx_str \<Rightarrow> nat \<Rightarrow> ngx_http_request \<Rightarrow> bool" where
  "method_done mem p r \<longleftrightarrow>
     method_ok mem p (request_start r) (method_end r) (http_method r)"

definition in_path :: "ngx_str \<Rightarrow> nat \<Rightarrow> ngx_http_request \<Rightarrow> bool" where
  "in_path mem p r \<longleftrightarrow>
     method_done mem p r \<and> fresh_uri r \<and> no_version r \<and> uri_run mem p (method_end r) (uri_start r) \<and>
     path_normal mem (the (uri_start r)) p"

definition in_uri :: "ngx_str \<Rightarrow> nat \<Rightarrow> ngx_http_request \<Rightarrow> bool" where
  "in_uri mem p r \<longleftrightarrow>
     method_done mem p r \<and> no_version r \<and> uri_run mem p (method_end r) (uri_start r) \<and>
     (args_start r = None \<longrightarrow> complex_uri r \<or> quoted_uri r)"

definition uri_done :: "ngx_str \<Rightarrow> nat \<Rightarrow> ngx_http_request \<Rightarrow> bool" where
  "uri_done mem p r \<longleftrightarrow>
     method_done mem p r \<and> uri_slice mem p (method_end r) (uri_start r) (uri_end r) \<and>
     args_ok mem (the (uri_end r)) (uri_start r) (args_start r) \<and>
     (\<not> complex_uri r \<longrightarrow> \<not> quoted_uri r \<longrightarrow>
        path_normal mem (the (uri_start r)) (path_end (args_start r) (the (uri_end r))))"

definition rl_inv :: "ngx_str \<Rightarrow> nat \<Rightarrow> request_line_state \<Rightarrow> ngx_http_request \<Rightarrow> bool" where
  "rl_inv mem p s r \<longleftrightarrow> request_end r = None \<and>
     (case s of
        sw_start \<Rightarrow> fresh_request r
      | sw_method \<Rightarrow> fresh_request r \<and> method_run mem p (request_start r)
      | sw_spaces_before_uri \<Rightarrow> method_done mem p r \<and> fresh_uri r \<and> no_version r
      | sw_schema \<Rightarrow> method_done mem p r \<and> fresh_uri r \<and> no_version r
      | sw_schema_slash \<Rightarrow> method_done mem p r \<and> fresh_uri r \<and> no_version r \<and>
          (\<exists>e s. method_end r = Some e \<and> schema_end r = Some s \<and> e < s \<and> s + 1 = p)
      | sw_after_slash_in_uri \<Rightarrow> in_path mem p r
      | sw_check_uri \<Rightarrow> in_path mem p r \<and> mem ! (p - 1) \<noteq> ch_slash
      | sw_check_uri_http_09 \<Rightarrow> in_path mem p r \<and> mem ! (p - 1) \<noteq> ch_slash \<and> uri_done mem p r
      | sw_uri \<Rightarrow> in_uri mem p r \<and> args_ok mem p (uri_start r) (args_start r)
      | sw_http_09 \<Rightarrow> in_uri mem p r \<and> uri_done mem p r
      | sw_host_http_09 \<Rightarrow> uri_done mem p r \<and> no_version r
      | sw_http_H \<Rightarrow> uri_done mem p r \<and> no_version r
      | sw_http_HT \<Rightarrow> uri_done mem p r \<and> no_version r
      | sw_http_HTT \<Rightarrow> uri_done mem p r \<and> no_version r
      | sw_http_HTTP \<Rightarrow> uri_done mem p r \<and> no_version r
      | sw_first_major_digit \<Rightarrow> uri_done mem p r \<and> no_version r
      | sw_major_digit \<Rightarrow> uri_done mem p r \<and> 1 \<le> http_major r \<and> http_major r \<le> 999
      | sw_first_minor_digit \<Rightarrow> uri_done mem p r \<and> 1 \<le> http_major r \<and> http_major r \<le> 999
      | sw_minor_digit \<Rightarrow> uri_done mem p r \<and> 1 \<le> http_major r \<and> version_ok r
      | sw_spaces_after_digit \<Rightarrow> uri_done mem p r \<and> version_ok r
      | sw_almost_done \<Rightarrow> (\<exists>q. p = Suc q \<and> uri_done mem q r \<and> mem ! q = ch_CR) \<and> version_ok r
      | _ \<Rightarrow> method_done mem p r \<and> fresh_uri r \<and> no_version r \<and>
          host_run mem p (method_end r) (schema_end r))"

lemma method_ok_mono: "method_ok mem p m e code \<Longrightarrow> p \<le> q \<Longrightarrow> method_ok mem q m e code"
  by (cases m; cases e) auto

lemma method_done_mono: "method_done mem p r \<Longrightarrow> p \<le> q \<Longrightarrow> method_done mem q r"
  by (auto simp: method_done_def intro: method_ok_mono)

lemma host_run_mono: "host_run mem p e s \<Longrightarrow> p \<le> q \<Longrightarrow> host_run mem q e s"
  by (cases e; cases s) auto

lemma uri_run_Suc: "uri_run mem p e u \<Longrightarrow> uri_char (mem ! p) \<Longrightarrow> uri_run mem (Suc p) e u"
  by (cases e; cases u) (auto simp: less_Suc_eq)

lemma uri_slice_mono: "uri_slice mem p e u x \<Longrightarrow> p \<le> q \<Longrightarrow> uri_slice mem q e u x"
  by (cases x) auto

lemma uri_done_mono: "uri_done mem p r \<Longrightarrow> p \<le> q \<Longrightarrow> uri_done mem q r"
  by (auto simp: uri_done_def intro: method_done_mono uri_slice_mono)

lemma args_ok_mono: "args_ok mem p u a \<Longrightarrow> p \<le> q \<Longrightarrow> args_ok mem q u a"
  by (cases u; cases a) auto

lemma path_normal_Suc:
  "path_normal mem u p \<Longrightarrow> mem ! p \<notin> {ch_percent, ch_hash, ch_question} \<Longrightarrow>
   mem ! (p - 1) \<noteq> ch_slash \<or> mem ! p \<notin> {ch_slash, ch_dot} \<Longrightarrow> path_normal mem u (Suc p)"
  by (auto simp: path_normal_def less_Suc_eq)

lemma path_normal_start: "mem ! p = ch_slash \<Longrightarrow> path_normal mem p (Suc p)"
  by (auto simp: path_normal_def less_Suc_eq)

lemma uri_run_start: "method_ok mem p m e code \<Longrightarrow> mem ! p = ch_slash \<Longrightarrow> uri_run mem (Suc p) e (Some p)"
  by (cases m; cases e) (auto simp: less_Suc_eq uri_char_def dest: le_antisym)

lemma args_ok_start:
  "uri_run mem p e u \<Longrightarrow> path_normal mem (the u) p \<Longrightarrow> mem ! p = ch_question \<Longrightarrow> args_ok mem (Suc p) u (Some (Suc p))"
  by (cases e; cases u) auto

lemma args_ok_path: "args_ok mem p u (Some a) \<Longrightarrow> path_normal mem (the u) (a - Suc 0)"
  by (cases u) auto

lemma host_uri_slice:
  "host_run mem p e s \<Longrightarrow> uri_slice mem (Suc p) e (Some (Suc (the s))) (Some (Suc (Suc (the s))))"
  by (cases e; cases s) (auto simp: less_Suc_eq uri_char_def dest: le_antisym)

lemma host_path: "host_run mem p e s \<Longrightarrow> path_normal mem (Suc (the s)) (Suc (Suc (the s)))"
  by (cases e; cases s) (auto intro: path_normal_start)

lemma method_run_end:
  "method_run mem p m \<Longrightarrow> mem ! p = ch_space \<Longrightarrow> code = method_value mem (the m) (p - the m) \<Longrightarrow>
   method_ok mem (Suc p) m (Some (p - Suc 0)) code"
  by (cases m) auto

lemma method_ok_end: "method_ok mem p m e code \<Longrightarrow> \<exists>e'. e = Some e' \<and> e' < p"
  by (cases m; cases e) auto

lemma method_run_start: "method_char (mem ! p) \<Longrightarrow> method_run mem (Suc p) (Some p)"
  by (auto simp: less_Suc_eq dest: le_antisym)

lemma method_run_Suc: "method_run mem p m \<Longrightarrow> method_char (mem ! p) \<Longrightarrow> method_run mem (Suc p) m"
  by (cases m) (auto simp: less_Suc_eq)

lemma uri_done_update [simp]:
  "uri_done mem p (r\<lparr>http_minor := n\<rparr>) = uri_done mem p r"
  "uri_done mem p (r\<lparr>http_major := n\<rparr>) = uri_done mem p r"
  "uri_done mem p (r\<lparr>http_protocol_data := d\<rparr>) = uri_done mem p r"
  "uri_done mem p (r\<lparr>request_end := d\<rparr>) = uri_done mem p r"
  "uri_done mem p (r\<lparr>http_version := n\<rparr>) = uri_done mem p r"
  by (simp_all add: uri_done_def method_done_def)

lemma method_done_update [simp]:
  "method_done mem p (r\<lparr>uri_start := d\<rparr>) = method_done mem p r"
  "method_done mem p (r\<lparr>uri_end := d\<rparr>) = method_done mem p r"
  "method_done mem p (r\<lparr>uri_ext := d\<rparr>) = method_done mem p r"
  "method_done mem p (r\<lparr>args_start := d\<rparr>) = method_done mem p r"
  "method_done mem p (r\<lparr>schema_start := d\<rparr>) = method_done mem p r"
  "method_done mem p (r\<lparr>schema_end := d\<rparr>) = method_done mem p r"
  "method_done mem p (r\<lparr>host_start := d\<rparr>) = method_done mem p r"
  "method_done mem p (r\<lparr>host_end := d\<rparr>) = method_done mem p r"
  "method_done mem p (r\<lparr>port_end := d\<rparr>) = method_done mem p r"
  "method_done mem p (r\<lparr>complex_uri := b\<rparr>) = method_done mem p r"
  "method_done mem p (r\<lparr>quoted_uri := b\<rparr>) = method_done mem p r"
  "method_done mem p (r\<lparr>plus_in_uri := b\<rparr>) = method_done mem p r"
  "method_done mem p (r\<lparr>space_in_uri := b\<rparr>) = method_done mem p r"
  "method_done mem p (r\<lparr>http_minor := n\<rparr>) = method_done mem p r"
  "method_done mem p (r\<lparr>http_protocol_data := d\<rparr>) = method_done mem p r"
  by (simp_all add: method_done_def)

lemma method_done_slash:
  "method_done mem p r \<Longrightarrow> mem ! p = ch_slash \<Longrightarrow> uri_run mem (Suc p) (method_end r) (Some p)"
  by (auto simp: method_done_def intro: uri_run_start)

lemma method_done_end: "method_done mem p r \<Longrightarrow> \<exists>e. method_end r = Some e \<and> e < p"
  by (auto simp: method_done_def dest: method_ok_end)

lemmas rl_run_intros = method_done_mono host_run_mono uri_run_Suc uri_slice_mono
  uri_done_mono args_ok_mono path_normal_Suc path_normal_start args_ok_start
  args_ok_path host_uri_slice host_path method_run_end method_run_start method_run_Suc method_done_slash

lemma method_char_iff:
  "(ch < ch_A \<or> ch > ch_Z) \<and> ch \<noteq> ch_underscore \<and> ch \<noteq> ch_minus \<longleftrightarrow> \<not> method_char ch"
  by (auto simp: method_char_def not_less)

lemmas rl_inv_simps = rl_inv_def rl_step.simps parser_step Let_def fresh_request_def fresh_uri_def
  no_version_def

text \<open>One lemma for each part of the line.\<close>

lemma rl_inv_method:
  "s \<in> {sw_start, sw_method} \<Longrightarrow>
   rl_inv mem p s r \<Longrightarrow> rl_step mem p s r = Break s' r' \<Longrightarrow> rl_inv mem (Suc p) s' r'"
  by (elim insertE emptyE; hypsubst)
     (auto simp: rl_inv_simps fresh_request_def method_char_iff method_done_def method_value_def simp del: method_run.simps method_ok.simps
        intro: rl_run_intros intro!: method_run_end split: if_splits option.splits)

lemma rl_inv_schema:
  "s \<in> {sw_spaces_before_uri, sw_schema, sw_schema_slash, sw_schema_slash_slash} \<Longrightarrow>
   rl_inv mem p s r \<Longrightarrow> rl_step mem p s r = Break s' r' \<Longrightarrow> rl_inv mem (Suc p) s' r'"
  by (elim insertE emptyE; hypsubst)
     (auto simp: rl_inv_simps in_path_def
        intro: rl_run_intros dest: method_done_end split: if_splits option.splits)

lemma rl_inv_host:
  "s \<in> {sw_host_start, sw_host, sw_host_end, sw_host_ip_literal, sw_port} \<Longrightarrow>
   rl_inv mem p s r \<Longrightarrow> rl_step mem p s r = Break s' r' \<Longrightarrow> rl_inv mem (Suc p) s' r'"
  by (elim insertE emptyE; hypsubst)
     (auto simp: rl_inv_simps in_path_def uri_done_def path_end_def simp del: uri_slice.simps
        intro: rl_run_intros split: if_splits option.splits)

lemma rl_inv_path:
  "s \<in> {sw_after_slash_in_uri, sw_check_uri, sw_uri} \<Longrightarrow>
   rl_inv mem p s r \<Longrightarrow> rl_step mem p s r = Break s' r' \<Longrightarrow> rl_inv mem (Suc p) s' r'"
  by (elim insertE emptyE; hypsubst)
     (auto simp: rl_inv_simps in_path_def in_uri_def uri_done_def usual_iff uri_char_def path_end_def version_ok_def
        intro: rl_run_intros split: if_splits option.splits)

lemma rl_inv_literal:
  "s \<in> {sw_host_http_09, sw_http_H, sw_http_HT, sw_http_HTT, sw_http_HTTP} \<Longrightarrow>
   rl_inv mem p s r \<Longrightarrow> rl_step mem p s r = Break s' r' \<Longrightarrow> rl_inv mem (Suc p) s' r'"
  by (elim insertE emptyE; hypsubst)
     (auto simp: rl_inv_simps version_ok_def
        intro: rl_run_intros split: if_splits option.splits)

lemma rl_inv_version:
  "s \<in> {sw_first_major_digit, sw_major_digit, sw_first_minor_digit, sw_minor_digit, sw_spaces_after_digit, sw_almost_done} \<Longrightarrow>
   rl_inv mem p s r \<Longrightarrow> rl_step mem p s r = Break s' r' \<Longrightarrow> rl_inv mem (Suc p) s' r'"
  by (elim insertE emptyE; hypsubst)
     (auto simp: rl_inv_simps version_ok_def
        intro: rl_run_intros dest!: unat_digit split: if_splits option.splits)

lemma rl_inv_check_uri_http_09:
  assumes "rl_inv mem p sw_check_uri_http_09 r" "rl_step mem p sw_check_uri_http_09 r = Break s' r'"
  shows "rl_inv mem (Suc p) s' r'"
proof (cases "mem ! p \<in> {ch_space, ch_CR, ch_LF, ch_H}")
  case True
  then show ?thesis
    using assms by (auto simp: rl_inv_simps in_path_def uri_char_def version_ok_def intro: rl_run_intros split: if_splits)
next
  case False
  have "rl_inv mem p sw_check_uri (r\<lparr>space_in_uri := True\<rparr>)"
    using assms(1) by (auto simp: rl_inv_simps in_path_def)
  moreover have "rl_step mem p sw_check_uri (r\<lparr>space_in_uri := True\<rparr>) = Break s' r'"
    using assms(2) False by (simp add: rl_step.simps Let_def rl_check_uri_http_09_def)
  ultimately show ?thesis
    by (rule rl_inv_path [rotated]) simp
qed

lemma rl_inv_http_09:
  assumes "rl_inv mem p sw_http_09 r" "rl_step mem p sw_http_09 r = Break s' r'"
  shows "rl_inv mem (Suc p) s' r'"
proof (cases "mem ! p \<in> {ch_space, ch_CR, ch_LF, ch_H}")
  case True
  then show ?thesis
    using assms by (auto simp: rl_inv_simps in_uri_def uri_char_def version_ok_def intro: rl_run_intros split: if_splits)
next
  case False
  have "args_ok mem p (uri_start r) (args_start r)" if "uri_done mem p r"
    using that by (cases "uri_end r") (auto simp: uri_done_def intro: args_ok_mono)
  then have "rl_inv mem p sw_uri (r\<lparr>space_in_uri := True\<rparr>)"
    using assms(1) by (auto simp: rl_inv_simps in_uri_def)
  moreover have "rl_step mem p sw_uri (r\<lparr>space_in_uri := True\<rparr>) = Break s' r'"
    using assms(2) False by (simp add: rl_step.simps Let_def rl_http_09_def)
  ultimately show ?thesis
    by (rule rl_inv_path [rotated]) simp
qed


lemma rl_step_inv:
  assumes "rl_inv mem p s r" "rl_step mem p s r = Break s' r'"
  shows "rl_inv mem (Suc p) s' r'"
proof -
  have "s \<in> {sw_start, sw_method} \<or>
      s \<in> {sw_spaces_before_uri, sw_schema, sw_schema_slash, sw_schema_slash_slash} \<or>
      s \<in> {sw_host_start, sw_host, sw_host_end, sw_host_ip_literal, sw_port} \<or>
      s \<in> {sw_after_slash_in_uri, sw_check_uri, sw_uri} \<or>
      s \<in> {sw_host_http_09, sw_http_H, sw_http_HT, sw_http_HTT, sw_http_HTTP} \<or>
      s \<in> {sw_first_major_digit, sw_major_digit, sw_first_minor_digit, sw_minor_digit,
           sw_spaces_after_digit, sw_almost_done} \<or>
      s = sw_check_uri_http_09 \<or> s = sw_http_09"
    by (cases s) simp_all
  then show ?thesis
    using rl_inv_method [OF _ assms] rl_inv_schema [OF _ assms] rl_inv_host [OF _ assms]
      rl_inv_path [OF _ assms] rl_inv_literal [OF _ assms] rl_inv_version [OF _ assms]
      rl_inv_check_uri_http_09 rl_inv_http_09 assms
    by (elim disjE) simp_all
qed

subsection \<open>Feeding the parser piece by piece\<close>

text \<open>All that the step of \<open>sw_method\<close> reads besides the current byte is the method before it.\<close>

definition rl_ptr_inv :: "ngx_str \<Rightarrow> nat \<Rightarrow> request_line_state \<Rightarrow> ngx_http_request \<Rightarrow> bool" where
  "rl_ptr_inv mem p s r \<longleftrightarrow> (s = sw_method \<longrightarrow> (\<exists>m. request_start r = Some m \<and> m \<le> p))"

lemma rl_method_code_prefix:
  "m + len \<le> length mem \<Longrightarrow> rl_method_code (mem @ rest) m len = rl_method_code mem m len"
  by (auto simp: rl_method_code_def ngx_strcmp_defs nth_append)

lemma rl_step_prefix:
  "rl_ptr_inv mem p s r \<Longrightarrow> p < length mem \<Longrightarrow> rl_step (mem @ rest) p s r = rl_step mem p s r"
  by (cases s) (auto simp: rl_step.simps rl_method_def rl_ptr_inv_def Let_def nth_append rl_method_code_prefix)

lemma rl_step_sw_method:
  "rl_step mem p s r = Break sw_method r' \<Longrightarrow>
   s = sw_start \<and> request_start r' = Some p \<or> s = sw_method \<and> r' = r"
  by (cases s) (auto simp: rl_step.simps parser_step Let_def split: if_splits option.splits)

lemma rl_return_rc: "rl_step mem p s r = Return rc r' \<Longrightarrow> rc \<in> {NGX_HTTP_PARSE_INVALID_METHOD, NGX_HTTP_PARSE_INVALID_REQUEST}"
  by (cases s) (auto simp: rl_step.simps parser_step Let_def split: if_splits option.splits)

lemma rl_done_rc: "fst (rl_done p r) \<noteq> NGX_AGAIN"
  by (simp add: rl_done_def Let_def)

interpretation rl: resumable_parser rl_step rl_ptr_inv ngx_http_parse_request_line
  "\<lambda>s r. r" "\<lambda>r. r" "\<lambda>l. rl_done" "\<lambda>q r. r"
  "{NGX_HTTP_PARSE_INVALID_METHOD, NGX_HTTP_PARSE_INVALID_REQUEST}"
proof
  show "rl_ptr_inv mem p s r \<Longrightarrow> p < length mem \<Longrightarrow> rl_step (mem @ rest) p s r = rl_step mem p s r"
    for mem p s r rest by (rule rl_step_prefix)
  show "rl_ptr_inv mem (Suc p) s' r'"
    if "rl_ptr_inv mem p s r" "rl_step mem p s r = Break s' r'" for mem p s r s' r'
    using that rl_step_sw_method [of mem p s r r'] by (auto simp: rl_ptr_inv_def)
  show "rl_ptr_inv mem p s r \<Longrightarrow> rl_ptr_inv (mem @ rest) p s r" for mem p s r rest
    by (simp add: rl_ptr_inv_def)
qed (auto simp: ngx_http_parse_request_line_def rl_done_rc dest: rl_return_rc
       split: scanned.splits request_line_label.splits)

text \<open>C11. However the bytes of a request arrive, the request line parser gives the same
  answer: calling it on the first bytes and again after each further piece gives the code of
  one call on all the bytes, and with any code but the two early errors the same request,
  state and buffer position.\<close>

theorem request_line_incremental:
  "same_answer {NGX_HTTP_PARSE_INVALID_METHOD, NGX_HTTP_PARSE_INVALID_REQUEST}
     (ngx_http_parse_request_line (mem @ concat cs) 0 sw_start r)
     (feed ngx_http_parse_request_line mem 0 sw_start r cs)"
  by (rule rl.feed_concat) (simp_all add: rl_ptr_inv_def)

subsection \<open>A complete line is decided\<close>

lemma rl_LF_not_Break:
  "s \<noteq> sw_start \<Longrightarrow> mem ! p = ch_LF \<Longrightarrow> rl_step mem p s r \<noteq> Break s' r'"
  by (cases s) (auto simp: rl_step.simps parser_step Let_def is_alpha_def is_digit_def usual_iff split: if_splits)

lemma rl_start_left: "rl_step mem p s r = Break sw_start r' \<Longrightarrow> s = sw_start \<and> mem ! p \<in> {ch_CR, ch_LF}"
  by (cases s) (auto simp: rl_step.simps parser_step Let_def split: if_splits option.splits)

text \<open>The parser never waits for more input once the line is complete: if some byte
  after the leading line breaks is followed by a line feed, the answer is not \<open>NGX_AGAIN\<close>.\<close>

theorem request_line_decided:
  assumes "i < j" "j < length mem" "mem ! i \<notin> {ch_CR, ch_LF}" "mem ! j = ch_LF"
  shows "fst (ngx_http_parse_request_line mem 0 sw_start r) \<noteq> NGX_AGAIN"
proof -
  define I where "I = (\<lambda>p s (r::ngx_http_request). p \<le> j \<and> (s = sw_start \<longrightarrow> p \<le> i))"
  have "case scan rl_step mem (length mem) 0 sw_start r of
      Stopped p' s' r' \<Rightarrow> I p' s' r' \<and> \<not> p' < length mem
    | Finished p' l r' \<Rightarrow> \<exists>s0 r0. I p' s0 r0 \<and> p' < length mem \<and> rl_step mem p' s0 r0 = Goto l r'
    | Returned rc r' \<Rightarrow> \<exists>p0 s0 r0. I p0 s0 r0 \<and> p0 < length mem \<and> rl_step mem p0 s0 r0 = Return rc r'"
  proof (rule scan_rule)
    fix p s r s' r'
    assume "I p s r" "rl_step mem p s r = Break s' r'"
    then show "I (Suc p) s' r'"
      using rl_LF_not_Break [of s mem p r s' r'] rl_start_left [of mem p s r r'] assms
      by (cases "p = j"; cases "p = i") (auto simp: I_def)
  qed (simp add: I_def)
  then show ?thesis
    using assms(2)
    by (auto simp: ngx_http_parse_request_line_def I_def rl_done_rc dest: rl_return_rc
        split: scanned.splits request_line_label.splits)
qed

theorem request_line_decided_witness:
  "fst (ngx_http_parse_request_line (bytes ''GET'' @ [ch_LF]) 0 sw_start ngx_http_create_request) \<noteq> NGX_AGAIN"
  by (rule request_line_decided [of 0 3]) (simp_all add: bytes_def)

subsection \<open>What an accepted line looks like\<close>

lemma rl_Goto_inv:
  assumes "rl_inv mem p s r" "rl_step mem p s r = Goto l r'"
  shows "mem ! p = ch_LF \<and> version_ok r' \<and>
    (\<exists>q. uri_done mem q r' \<and>
      (request_end r' = None \<and> q = p \<or> request_end r' = Some q \<and> p = Suc q \<and> mem ! q = ch_CR))"
proof (cases "s \<in> {sw_after_slash_in_uri, sw_check_uri, sw_uri}")
  case True
  then show ?thesis
    using assms args_ok_path [of mem p "uri_start r" "the (args_start r)"]
    by (auto simp: rl_inv_simps version_ok_def in_path_def in_uri_def uri_done_def
        usual_iff path_end_def method_done_def split: if_splits option.splits)
next
  case False
  then show ?thesis
    using assms by (cases s) (auto simp: rl_inv_simps version_ok_def in_path_def in_uri_def usual_iff is_alpha_def is_digit_def
        split: if_splits option.splits)
qed

lemma fresh_create_request: "rl_inv mem p sw_start ngx_http_create_request"
  by (simp add: rl_inv_simps ngx_http_create_request_def)

lemma rl_scan_Finished:
  assumes "rl_inv mem p s r" "scan rl_step mem lim p s r = Finished p' l r'"
  shows "\<exists>s0 r0. rl_inv mem p' s0 r0 \<and> p' < lim \<and> rl_step mem p' s0 r0 = Goto l r'"
proof -
  have "case scan rl_step mem lim p s r of
      Stopped p' s' r' \<Rightarrow> rl_inv mem p' s' r' \<and> \<not> p' < lim
    | Finished p' l r' \<Rightarrow> \<exists>s0 r0. rl_inv mem p' s0 r0 \<and> p' < lim \<and> rl_step mem p' s0 r0 = Goto l r'
    | Returned rc r' \<Rightarrow> \<exists>p0 s0 r0. rl_inv mem p0 s0 r0 \<and> p0 < lim \<and> rl_step mem p0 s0 r0 = Return rc r'"
    using assms(1) by (rule scan_rule) (rule rl_step_inv)
  then show ?thesis
    using assms(2) by simp
qed

lemma rl_accepted:
  assumes "ngx_http_parse_request_line mem 0 sw_start ngx_http_create_request = (rc, s, r, pos)"
    and "rc \<in> {NGX_OK, NGX_HTTP_PARSE_INVALID_09_METHOD}"
  shows "\<exists>q p. pos = Suc p \<and> p < length mem \<and> q \<le> p \<and> s = sw_start \<and> mem ! p = ch_LF \<and> mem ! q \<in> {ch_CR, ch_LF} \<and> version_ok r \<and>
    request_end r = Some q \<and> http_version r = http_major r * 1000 + http_minor r \<and>
    uri_done mem q r \<and>
    (rc = NGX_OK \<longleftrightarrow> http_version r \<noteq> 9 \<or> http_method r = NGX_HTTP_GET)"
proof -
  obtain p l r' where F: "scan rl_step mem (length mem) 0 sw_start ngx_http_create_request = Finished p l r'"
    using assms by (auto simp: ngx_http_parse_request_line_def split: scanned.splits dest: rl.scan_Returned)
  then obtain s0 r0 where "rl_inv mem p s0 r0" "p < length mem" "rl_step mem p s0 r0 = Goto l r'"
    using rl_scan_Finished [OF fresh_create_request] by blast
  moreover note rl_Goto_inv [OF this(1,3)]
  ultimately show ?thesis
    using assms F
    by (auto simp: ngx_http_parse_request_line_def rl_done_def Let_def version_ok_def
        split: request_line_label.splits if_splits)
qed

end
