(* ===== verification/Http_Request_Spec.thy ===== *)
theory Http_Request_Spec
  imports Http_Request_Line
begin

text \<open>
  What the request line parser of \<open>Http_Request_Line\<close> guarantees: an accepted line is well
  formed and its pointers are ordered, a URI with no flag set needs no normalisation, a printed
  request line is read back, and the two variants of the method comparison macros agree.
\<close>

subsection \<open>Accepted lines\<close>

text \<open>C8. An accepted request line is well formed and the pointers left in the request are
  ordered and inside the buffer: a method of capital letters, \<open>_\<close> and \<open>-\<close> followed by a space,
  a URI that starts with a slash and holds no zero byte and no line break, the end of the line at
  a carriage return or the line feed, which is the last byte consumed.  The method code is the
  one of the method's bytes, and the version numbers do not exceed 999, so that the 16-bit
  fields never overflow and \<open>http_version\<close> identifies them.\<close>

theorem request_line_accepted:
  assumes "ngx_http_parse_request_line mem 0 sw_start ngx_http_create_request = (NGX_OK, s, r, pos)"
  shows "\<exists>m e u x q. request_start r = Some m \<and> method_end r = Some e \<and> uri_start r = Some u \<and>
    uri_end r = Some x \<and> request_end r = Some q \<and>
    m \<le> e \<and> e < u \<and> u < x \<and> x \<le> q \<and> q < pos \<and> pos \<le> length mem \<and>
    list_all method_char (slice mem m (e + 1)) \<and> mem ! (e + 1) = ch_space \<and>
    mem ! u = ch_slash \<and> list_all uri_char (slice mem u x) \<and>
    mem ! (pos - 1) = ch_LF \<and> mem ! q \<in> {ch_CR, ch_LF} \<and> s = sw_start \<and>
    http_method r = method_value mem m (e + 1 - m) \<and>
    http_major r \<le> 999 \<and> http_minor r \<le> 999 \<and>
    http_version r = http_major r * 1000 + http_minor r \<and>
    (http_version r = 9 \<longrightarrow> http_method r = NGX_HTTP_GET)"
proof -
  obtain q p where D: "pos = Suc p" "p < length mem" "q \<le> p" "s = sw_start" "mem ! p = ch_LF"
      "mem ! q \<in> {ch_CR, ch_LF}" "version_ok r" "request_end r = Some q"
      "http_version r = http_major r * 1000 + http_minor r" "uri_done mem q r"
      "http_version r \<noteq> 9 \<or> http_method r = NGX_HTTP_GET"
    using rl_accepted [OF assms, simplified] by blast
  from D(10) obtain m e u x where P: "request_start r = Some m" "method_end r = Some e"
      "uri_start r = Some u" "uri_end r = Some x"
    by (cases "request_start r"; cases "method_end r"; cases "uri_start r"; cases "uri_end r")
       (auto simp: uri_done_def method_done_def)
  have "list_all method_char (slice mem m (e + 1))" "list_all uri_char (slice mem u x)"
    using D P by (auto simp: uri_done_def method_done_def slice_def list_all_length)
  then show ?thesis
    using D P by (auto simp: uri_done_def method_done_def version_ok_def)
qed

subsection \<open>A URI without flags is normal\<close>

lemma path_normal_slice:
  assumes "path_normal mem u x" "x \<le> length mem"
  shows "set (slice mem u x) \<inter> {ch_percent, ch_hash, ch_question} = {}"
    and "slice mem u x = xs @ ch_slash # c # ys \<Longrightarrow> c \<noteq> ch_slash \<and> c \<noteq> ch_dot"
proof -
  show "set (slice mem u x) \<inter> {ch_percent, ch_hash, ch_question} = {}"
    using assms by (auto simp: in_set_conv_nth slice_nth length_slice path_normal_def)
  assume S: "slice mem u x = xs @ ch_slash # c # ys"
  then have L: "length xs + 1 < x - u"
    using length_slice [OF assms(2), of u] by simp
  have "mem ! (u + length xs) = ch_slash" "mem ! (u + length xs + 1) = c"
    using S L slice_nth [OF _ assms(2), of "length xs" u] slice_nth [OF _ assms(2), of "length xs + 1" u]
    by (simp_all add: nth_append)
  moreover have "u + length xs + 1 < x" "u + length xs < x"
    using L by linarith+
  ultimately show "c \<noteq> ch_slash \<and> c \<noteq> ch_dot"
    using assms(1) unfolding path_normal_def by (metis le_add1)
qed

text \<open>C3. When the parser accepts a line and leaves \<open>complex_uri\<close> and \<open>quoted_uri\<close> clear, the
  path (the URI up to the arguments) needs no normalisation: it has no percent sign, hash or
  question mark, and no slash is followed by a slash or a dot. This is what allows
  \<open>ngx_http_process_request_uri\<close> to use such a path as it stands.\<close>

theorem request_line_path_normal:
  assumes "ngx_http_parse_request_line mem 0 sw_start ngx_http_create_request = (NGX_OK, s, r, pos)"
    and "\<not> complex_uri r" "\<not> quoted_uri r"
  shows "let path = slice mem (the (uri_start r)) (path_end (args_start r) (the (uri_end r))) in
    (\<exists>tl. path = ch_slash # tl) \<and> set path \<inter> {ch_percent, ch_hash, ch_question} = {} \<and>
    (\<forall>xs c ys. path = xs @ ch_slash # c # ys \<longrightarrow> c \<noteq> ch_slash \<and> c \<noteq> ch_dot)"
proof -
  obtain q p where D: "pos = Suc p" "p < length mem" "q \<le> p" "uri_done mem q r"
    using rl_accepted [OF assms(1), simplified] by blast
  obtain u x where U: "uri_start r = Some u" "uri_end r = Some x" "u < x" "x \<le> q" "mem ! u = ch_slash"
    using D(4) by (cases "uri_start r"; cases "uri_end r"; cases "method_end r") (auto simp: uri_done_def)
  define e where "e = path_end (args_start r) x"
  have E: "u < e \<and> e \<le> x"
  proof (cases "args_start r")
    case (Some a)
    then have A: "u < a" "a \<le> x" "mem ! (a - 1) = ch_question"
      using D(4) U by (auto simp: uri_done_def)
    then have "a - 1 \<noteq> u"
      using U(5) by auto
    then show ?thesis
      using A Some by (simp add: e_def path_end_def) linarith
  qed (use U in \<open>simp add: e_def path_end_def\<close>)
  have N: "path_normal mem u e"
    using D(4) U assms(2,3) by (simp add: uri_done_def e_def)
  have L: "e \<le> length mem"
    using E U D by linarith
  have "slice mem u e = ch_slash # slice mem (u + 1) e"
    using E L U(5) by (simp add: slice_def Cons_nth_drop_Suc [symmetric] take_Cons')
  then show ?thesis
    using path_normal_slice [OF N L] U by (auto simp: Let_def e_def)
qed

subsection \<open>Printed request lines are read back\<close>

text \<open>The part of the request that scanning a URI leaves alone.\<close>

definition same_line :: "ngx_http_request \<Rightarrow> ngx_http_request \<Rightarrow> bool" where
  "same_line r r' \<longleftrightarrow> request_start r' = request_start r \<and> method_end r' = method_end r \<and>
     http_method r' = http_method r \<and> uri_start r' = uri_start r \<and> http_major r' = http_major r \<and>
     http_minor r' = http_minor r \<and> request_end r' = request_end r"

abbreviation (input) uri_states :: "request_line_state set" where
  "uri_states \<equiv> {sw_after_slash_in_uri, sw_check_uri, sw_uri}"

lemma rl_uri_step:
  assumes "s \<in> uri_states" "uri_char (mem ! p)" "mem ! p \<noteq> ch_space"
  shows "\<exists>s' r'. rl_step mem p s r = Break s' r' \<and> s' \<in> uri_states \<and> same_line r r'"
  using assms by (elim insertE emptyE; hypsubst)
    (auto simp: rl_step.simps parser_step Let_def uri_char_def same_line_def usual_iff)

lemma rl_uri_run:
  assumes "s \<in> uri_states" "p \<le> q" "q \<le> lim"
    and "\<And>i. p \<le> i \<Longrightarrow> i < q \<Longrightarrow> uri_char (mem ! i) \<and> mem ! i \<noteq> ch_space"
  shows "\<exists>s' r'. scan rl_step mem lim p s r = scan rl_step mem lim q s' r' \<and> s' \<in> uri_states \<and> same_line r r'"
  using assms
proof (induction "q - p" arbitrary: p s r)
  case 0
  then have "p = q" by simp
  then show ?case
    using 0 by (auto simp: same_line_def)
next
  case (Suc n)
  obtain s1 r1 where S: "rl_step mem p s r = Break s1 r1" "s1 \<in> uri_states" "same_line r r1"
    using rl_uri_step [of s mem p r] Suc by force
  obtain s2 r2 where "scan rl_step mem lim (Suc p) s1 r1 = scan rl_step mem lim q s2 r2"
      "s2 \<in> uri_states" "same_line r1 r2"
    using Suc.hyps(1) [of "Suc p" s1 r1] Suc.hyps(2) Suc.prems S by force
  then show ?case
    using S Suc.hyps(2) Suc.prems scan_Break [of p lim rl_step mem s r s1 r1]
    by (intro exI [of _ s2] exI [of _ r2]) (auto simp: same_line_def)
qed

lemma rl_uri_space:
  assumes "s \<in> uri_states" "mem ! p = ch_space" "mem ! (p + 1) = ch_H" "p + 1 < lim"
  shows "scan rl_step mem lim p s r =
    scan rl_step mem lim (p + 2) sw_http_H (r\<lparr>uri_end := Some p, http_protocol_data := Some (p + 1)\<rparr>)"
  using assms by (elim insertE emptyE; hypsubst)
    (simp_all add: scan_step rl_step.simps parser_step Let_def usual_iff)

text \<open>\<open>TP/\<close>, one digit, a dot, one digit and the line break.\<close>

lemma rl_version_run:
  assumes "slice mem p (p + 8) = [ch_T, ch_T, ch_P, ch_slash, a, ch_dot, b, ch_CR]"
    and "mem ! (p + 8) = ch_LF" "p + 8 < lim" "lim \<le> length mem"
    and "ch_1 \<le> a" "a \<le> ch_9" "ch_0 \<le> b" "b \<le> ch_9"
  shows "scan rl_step mem lim p sw_http_H r = Finished (p + 8) L_done
    (r\<lparr>http_major := unat a - 48, http_minor := unat b - 48, request_end := Some (p + 7)\<rparr>)"
proof -
  have N: "mem ! (p + i) = [ch_T, ch_T, ch_P, ch_slash, a, ch_dot, b, ch_CR] ! i" if "i < 8" for i
    using slice_nth [of i "p + 8" p mem] assms(1,3,4) that by simp
  have "b \<noteq> ch_CR" "b \<noteq> ch_LF" "b \<noteq> ch_space" "a \<noteq> ch_dot"
    using assms(5-8) by auto
  then show ?thesis
    using N [of 0] N [of 1] N [of 2] N [of 3] N [of 4] N [of 5] N [of 6] N [of 7] assms(2-8)
    by (simp add: scan_step rl_step.simps parser_step not_less numeral_eq_Suc)
qed

lemma rl_method_run:
  assumes "n > 0" "n < lim" "lim \<le> length mem" "\<And>i. i < n \<Longrightarrow> method_char (mem ! i)" "mem ! n = ch_space"
    and "http_method r = NGX_HTTP_UNKNOWN"
  shows "scan rl_step mem lim 0 sw_start r = scan rl_step mem lim (Suc n) sw_spaces_before_uri
    (r\<lparr>request_start := Some 0, method_end := Some (n - 1), http_method := method_value mem 0 n\<rparr>)"
proof -
  let ?r = "r\<lparr>request_start := Some 0\<rparr>"
  have "mem ! 0 \<noteq> ch_CR" "mem ! 0 \<noteq> ch_LF"
    using assms(1) assms(4) [of 0] by (auto simp: method_char_def)
  then have "rl_step mem 0 sw_start r = Break sw_method ?r"
    using assms(1,4) by (simp add: rl_step.simps parser_step method_char_iff Let_def)
  then have "scan rl_step mem lim 0 sw_start r = scan rl_step mem lim (Suc 0) sw_method ?r"
    using assms(1,2) by (simp add: scan_Break)
  also have "\<dots> = scan rl_step mem lim n sw_method ?r"
  proof (rule scan_while)
    fix i
    assume "Suc 0 \<le> i" "i < n"
    then have M: "method_char (mem ! i)"
      using assms(4) by simp
    then have "mem ! i \<noteq> ch_space"
      by (auto simp: method_char_def)
    then show "rl_step mem i sw_method ?r = Break sw_method ?r"
      using M by (simp add: rl_step.simps parser_step method_char_iff Let_def)
  qed (use assms in auto)
  also have "\<dots> = scan rl_step mem lim (Suc n) sw_spaces_before_uri
    (r\<lparr>request_start := Some 0, method_end := Some (n - 1), http_method := method_value mem 0 n\<rparr>)"
    using assms by (simp add: scan_step rl_step.simps parser_step Let_def method_value_def split: option.splits)
       (cases r; simp)
  finally show ?thesis .
qed

definition print_request_line :: "ngx_str \<Rightarrow> ngx_str \<Rightarrow> u_char \<Rightarrow> u_char \<Rightarrow> ngx_str" where
  "print_request_line m u a b =
     m @ [ch_space] @ u @ [ch_space, ch_H, ch_T, ch_T, ch_P, ch_slash, a, ch_dot, b, ch_CR, ch_LF]"

lemma length_print: "length (print_request_line m u a b) = length m + length u + 12"
  by (simp add: print_request_line_def)

lemma nth_print:
  "i < length m \<Longrightarrow> (print_request_line m u a b @ rest) ! i = m ! i"
  "(print_request_line m u a b @ rest) ! (length m) = ch_space"
  "i < length u \<Longrightarrow> (print_request_line m u a b @ rest) ! (length m + 1 + i) = u ! i"
  "i < 11 \<Longrightarrow> (print_request_line m u a b @ rest) ! (length m + 1 + length u + i) =
     [ch_space, ch_H, ch_T, ch_T, ch_P, ch_slash, a, ch_dot, b, ch_CR, ch_LF] ! i"
  by (auto simp: print_request_line_def nth_append nth_Cons split: nat.splits)



text \<open>A concrete line, for the two theorems on accepted lines.\<close>

definition sample_line :: ngx_str where
  "sample_line = print_request_line (bytes ''GET'') (bytes ''/a'') ch_1 ch_1"

lemma sample_line_parsed:
  "\<exists>r. ngx_http_parse_request_line sample_line 0 sw_start ngx_http_create_request = (NGX_OK, sw_start, r, 17) \<and>
     \<not> complex_uri r \<and> \<not> quoted_uri r"
  by (simp add: sample_line_def ngx_http_parse_request_line_def scan_step rl_step.simps parser_step
      print_request_line_def bytes_def ngx_http_create_request_def is_alpha_def is_digit_def usual_iff
      rl_done_def rl_method_code_def)

theorem request_line_accepted_witness:
  "\<exists>r. ngx_http_parse_request_line sample_line 0 sw_start ngx_http_create_request = (NGX_OK, sw_start, r, 17) \<and>
     (\<exists>u x. uri_start r = Some u \<and> uri_end r = Some x \<and> sample_line ! u = ch_slash \<and>
        list_all uri_char (slice sample_line u x))"
  using sample_line_parsed request_line_accepted [of sample_line sw_start _ 17] by blast

theorem request_line_path_normal_witness:
  "\<exists>r. ngx_http_parse_request_line sample_line 0 sw_start ngx_http_create_request = (NGX_OK, sw_start, r, 17) \<and>
     (let path = slice sample_line (the (uri_start r)) (path_end (args_start r) (the (uri_end r))) in
      (\<exists>tl. path = ch_slash # tl) \<and> set path \<inter> {ch_percent, ch_hash, ch_question} = {})"
proof -
  obtain r where R: "ngx_http_parse_request_line sample_line 0 sw_start ngx_http_create_request = (NGX_OK, sw_start, r, 17)"
      "\<not> complex_uri r" "\<not> quoted_uri r"
    using sample_line_parsed by blast
  show ?thesis
    using request_line_path_normal [OF R] R(1) by (auto simp: Let_def)
qed

subsection \<open>The comparison macros\<close>

text \<open>The variant for little-endian machines with unaligned loads: \<open>*(uint32_t *) m\<close> and the
  constant \<open>(c3 << 24) | (c2 << 16) | (c1 << 8) | c0\<close>.\<close>

definition pack32 :: "u_char \<Rightarrow> u_char \<Rightarrow> u_char \<Rightarrow> u_char \<Rightarrow> 32 word" where
  "pack32 c3 c2 c1 c0 =
     push_bit 24 (ucast c3) OR push_bit 16 (ucast c2) OR push_bit 8 (ucast c1) OR ucast c0"

definition load32 :: "ngx_str \<Rightarrow> nat \<Rightarrow> 32 word" where
  "load32 mem m = pack32 (mem ! (m + 3)) (mem ! (m + 2)) (mem ! (m + 1)) (mem ! m)"

lemma pack32_bytes:
  "ucast (pack32 c3 c2 c1 c0) = c0"
  "ucast (drop_bit 8 (pack32 c3 c2 c1 c0)) = c1"
  "ucast (drop_bit 16 (pack32 c3 c2 c1 c0)) = c2"
  "ucast (drop_bit 24 (pack32 c3 c2 c1 c0)) = c3"
  unfolding pack32_def
  by (rule bit_word_eqI; auto simp: bit_simps dest: bit_imp_le_length)+

lemma pack32_inject [simp]:
  "pack32 c3 c2 c1 c0 = pack32 d3 d2 d1 d0 \<longleftrightarrow> c3 = d3 \<and> c2 = d2 \<and> c1 = d1 \<and> c0 = d0"
  by (metis pack32_bytes)

lemma pack32_low: "pack32 c3 c2 c1 c0 AND 0xffff = pack32 0 0 c1 c0"
proof -
  have "pack32 c3 c2 c1 c0 AND mask 16 = pack32 0 0 c1 c0"
    unfolding pack32_def by (rule bit_word_eqI) (auto simp: bit_simps dest: bit_imp_le_length)
  then show ?thesis
    by (simp add: mask_eq_exp_minus_1)
qed

definition ngx_str3_cmp_le :: "ngx_str \<Rightarrow> nat \<Rightarrow> u_char \<Rightarrow> u_char \<Rightarrow> u_char \<Rightarrow> u_char \<Rightarrow> bool" where
  "ngx_str3_cmp_le mem m c0 c1 c2 c3 \<longleftrightarrow> load32 mem m = pack32 c3 c2 c1 c0"

definition ngx_str3Ocmp_le :: "ngx_str \<Rightarrow> nat \<Rightarrow> u_char \<Rightarrow> u_char \<Rightarrow> u_char \<Rightarrow> u_char \<Rightarrow> bool" where
  "ngx_str3Ocmp_le mem m c0 c1 c2 c3 \<longleftrightarrow> load32 mem m = pack32 c3 c2 c1 c0"

definition ngx_str4cmp_le :: "ngx_str \<Rightarrow> nat \<Rightarrow> u_char \<Rightarrow> u_char \<Rightarrow> u_char \<Rightarrow> u_char \<Rightarrow> bool" where
  "ngx_str4cmp_le mem m c0 c1 c2 c3 \<longleftrightarrow> load32 mem m = pack32 c3 c2 c1 c0"

definition ngx_str5cmp_le ::
  "ngx_str \<Rightarrow> nat \<Rightarrow> u_char \<Rightarrow> u_char \<Rightarrow> u_char \<Rightarrow> u_char \<Rightarrow> u_char \<Rightarrow> bool" where
  "ngx_str5cmp_le mem m c0 c1 c2 c3 c4 \<longleftrightarrow> load32 mem m = pack32 c3 c2 c1 c0 \<and> mem ! (m + 4) = c4"

definition ngx_str6cmp_le ::
  "ngx_str \<Rightarrow> nat \<Rightarrow> u_char \<Rightarrow> u_char \<Rightarrow> u_char \<Rightarrow> u_char \<Rightarrow> u_char \<Rightarrow> u_char \<Rightarrow> bool" where
  "ngx_str6cmp_le mem m c0 c1 c2 c3 c4 c5 \<longleftrightarrow>
     load32 mem m = pack32 c3 c2 c1 c0 \<and> load32 mem (m + 4) AND 0xffff = pack32 0 0 c5 c4"

definition ngx_str7_cmp_le ::
  "ngx_str \<Rightarrow> nat \<Rightarrow> u_char \<Rightarrow> u_char \<Rightarrow> u_char \<Rightarrow> u_char \<Rightarrow> u_char \<Rightarrow> u_char \<Rightarrow> u_char \<Rightarrow> u_char \<Rightarrow> bool"
where
  "ngx_str7_cmp_le mem m c0 c1 c2 c3 c4 c5 c6 c7 \<longleftrightarrow>
     load32 mem m = pack32 c3 c2 c1 c0 \<and> load32 mem (m + 4) = pack32 c7 c6 c5 c4"

definition ngx_str8cmp_le ::
  "ngx_str \<Rightarrow> nat \<Rightarrow> u_char \<Rightarrow> u_char \<Rightarrow> u_char \<Rightarrow> u_char \<Rightarrow> u_char \<Rightarrow> u_char \<Rightarrow> u_char \<Rightarrow> u_char \<Rightarrow> bool"
where
  "ngx_str8cmp_le mem m c0 c1 c2 c3 c4 c5 c6 c7 \<longleftrightarrow>
     load32 mem m = pack32 c3 c2 c1 c0 \<and> load32 mem (m + 4) = pack32 c7 c6 c5 c4"

definition ngx_str9cmp_le ::
  "ngx_str \<Rightarrow> nat \<Rightarrow> u_char \<Rightarrow> u_char \<Rightarrow> u_char \<Rightarrow> u_char \<Rightarrow> u_char \<Rightarrow> u_char \<Rightarrow> u_char \<Rightarrow> u_char \<Rightarrow> u_char \<Rightarrow> bool"
where
  "ngx_str9cmp_le mem m c0 c1 c2 c3 c4 c5 c6 c7 c8 \<longleftrightarrow>
     load32 mem m = pack32 c3 c2 c1 c0 \<and> load32 mem (m + 4) = pack32 c7 c6 c5 c4 \<and> mem ! (m + 8) = c8"

lemmas ngx_strcmp_le_defs = ngx_str3_cmp_le_def ngx_str3Ocmp_le_def ngx_str4cmp_le_def
  ngx_str5cmp_le_def ngx_str6cmp_le_def ngx_str7_cmp_le_def ngx_str8cmp_le_def ngx_str9cmp_le_def

text \<open>The two variants of the comparison macros agree wherever the parser uses them. The
  macros for three and seven letters also compare the byte behind the method, which is a space
  when they are called; the one for \<open>POST\<close>, \<open>COPY\<close>, \<open>MOVE\<close> and \<open>LOCK\<close> skips the letter \<open>O\<close> the
  parser has tested; the one for six letters loads eight bytes and masks two of them.\<close>

theorem method_macros_agree:
  "(mem ! (m + 3) = ch_space \<longrightarrow> ngx_str3_cmp_le mem m c0 c1 c2 ch_space = ngx_str3_cmp mem m c0 c1 c2 ch_space) \<and>
   (mem ! (m + 1) = c1 \<longrightarrow> ngx_str3Ocmp_le mem m c0 c1 c2 c3 = ngx_str3Ocmp mem m c0 c1 c2 c3) \<and>
   ngx_str4cmp_le mem m c0 c1 c2 c3 = ngx_str4cmp mem m c0 c1 c2 c3 \<and>
   ngx_str5cmp_le mem m c0 c1 c2 c3 c4 = ngx_str5cmp mem m c0 c1 c2 c3 c4 \<and>
   ngx_str6cmp_le mem m c0 c1 c2 c3 c4 c5 = ngx_str6cmp mem m c0 c1 c2 c3 c4 c5 \<and>
   (mem ! (m + 7) = ch_space \<longrightarrow>
      ngx_str7_cmp_le mem m c0 c1 c2 c3 c4 c5 c6 ch_space = ngx_str7_cmp mem m c0 c1 c2 c3 c4 c5 c6 ch_space) \<and>
   ngx_str8cmp_le mem m c0 c1 c2 c3 c4 c5 c6 c7 = ngx_str8cmp mem m c0 c1 c2 c3 c4 c5 c6 c7 \<and>
   ngx_str9cmp_le mem m c0 c1 c2 c3 c4 c5 c6 c7 c8 = ngx_str9cmp mem m c0 c1 c2 c3 c4 c5 c6 c7 c8"
  by (auto simp: ngx_strcmp_le_defs ngx_strcmp_defs load32_def pack32_low add.assoc add.commute [of m])

theorem method_macros_agree_witness:
  "ngx_str3_cmp_le (bytes ''GET /'') 0 0x47 0x45 0x54 ch_space \<and> ngx_str3_cmp (bytes ''GET /'') 0 0x47 0x45 0x54 ch_space"
  using method_macros_agree [of "bytes ''GET /''" 0 "0x47" "0x45" "0x54"]
  by (simp add: ngx_str3_cmp_def bytes_def)

end
