(* ===== verification/Http_Uri.thy ===== *)
theory Http_Uri
  imports Http_Request_Spec
begin

text \<open>
  The check of a URI that did not come from a request line, \<open>ngx_http_parse_uri\<close> of
  \<open>src/http/ngx_http_parse.c\<close>: one definition per \<open>case\<close> of its switch, run by the loop \<open>scan\<close>
  from \<open>uri_start\<close> to \<open>uri_end\<close>. The lemmas show that it never fails after the first byte and
  that the flags it leaves are right: with none set, the path needs no normalisation.
\<close>

subsection \<open>Definitions\<close>

datatype parse_uri_state = sw_start | sw_after_slash_in_uri | sw_check_uri | sw_uri

datatype no_label = No_label

type_synonym pu_outcome = "(parse_uri_state, no_label, ngx_http_request) outcome"

definition pu_start :: "u_char \<Rightarrow> ngx_http_request \<Rightarrow> pu_outcome" where [parser_step]:
  "pu_start ch r = (if ch \<noteq> ch_slash then Return NGX_ERROR r else Break sw_after_slash_in_uri r)"

definition pu_after_slash_in_uri :: "nat \<Rightarrow> u_char \<Rightarrow> ngx_http_request \<Rightarrow> pu_outcome" where [parser_step]:
  "pu_after_slash_in_uri p ch r =
     (if bitmap_test usual ch then Break sw_check_uri r
      else if ch = ch_space then Break sw_check_uri (r\<lparr>space_in_uri := True\<rparr>)
      else if ch = ch_dot then Break sw_uri (r\<lparr>complex_uri := True\<rparr>)
      else if ch = ch_percent then Break sw_uri (r\<lparr>quoted_uri := True\<rparr>)
      else if ch = ch_slash then Break sw_uri (r\<lparr>complex_uri := True\<rparr>)
      else if ch = ch_question then Break sw_uri (r\<lparr>args_start := Some (p + 1)\<rparr>)
      else if ch = ch_hash then Break sw_uri (r\<lparr>complex_uri := True\<rparr>)
      else if ch = ch_plus then Break sw_after_slash_in_uri (r\<lparr>plus_in_uri := True\<rparr>)
      else Break sw_check_uri r)"

definition pu_check_uri :: "nat \<Rightarrow> u_char \<Rightarrow> ngx_http_request \<Rightarrow> pu_outcome" where [parser_step]:
  "pu_check_uri p ch r =
     (if bitmap_test usual ch then Break sw_check_uri r
      else if ch = ch_slash then Break sw_after_slash_in_uri (r\<lparr>uri_ext := None\<rparr>)
      else if ch = ch_dot then Break sw_check_uri (r\<lparr>uri_ext := Some (p + 1)\<rparr>)
      else if ch = ch_space then Break sw_check_uri (r\<lparr>space_in_uri := True\<rparr>)
      else if ch = ch_percent then Break sw_uri (r\<lparr>quoted_uri := True\<rparr>)
      else if ch = ch_question then Break sw_uri (r\<lparr>args_start := Some (p + 1)\<rparr>)
      else if ch = ch_hash then Break sw_uri (r\<lparr>complex_uri := True\<rparr>)
      else if ch = ch_plus then Break sw_check_uri (r\<lparr>plus_in_uri := True\<rparr>)
      else Break sw_check_uri r)"

definition pu_uri :: "u_char \<Rightarrow> ngx_http_request \<Rightarrow> pu_outcome" where [parser_step]:
  "pu_uri ch r =
     (if bitmap_test usual ch then Break sw_uri r
      else if ch = ch_space then Break sw_uri (r\<lparr>space_in_uri := True\<rparr>)
      else if ch = ch_hash then Break sw_uri (r\<lparr>complex_uri := True\<rparr>)
      else Break sw_uri r)"

definition pu_step :: "ngx_str \<Rightarrow> nat \<Rightarrow> parse_uri_state \<Rightarrow> ngx_http_request \<Rightarrow> pu_outcome" where
  "pu_step mem p state r =
     (let ch = mem ! p in
      case state of
        sw_start \<Rightarrow> pu_start ch r
      | sw_after_slash_in_uri \<Rightarrow> pu_after_slash_in_uri p ch r
      | sw_check_uri \<Rightarrow> pu_check_uri p ch r
      | sw_uri \<Rightarrow> pu_uri ch r)"

definition ngx_http_parse_uri :: "ngx_str \<Rightarrow> ngx_http_request \<Rightarrow> int \<times> ngx_http_request" where
  "ngx_http_parse_uri mem r =
     (case scan pu_step mem (the (uri_end r)) (the (uri_start r)) sw_start r of
        Stopped p state r' \<Rightarrow> (NGX_OK, r')
      | Finished p l r' \<Rightarrow> (NGX_OK, r')
      | Returned rc r' \<Rightarrow> (rc, r'))"

subsection \<open>The flags are right\<close>

definition pu_inv :: "ngx_str \<Rightarrow> nat \<Rightarrow> nat \<Rightarrow> parse_uri_state \<Rightarrow> ngx_http_request \<Rightarrow> bool" where
  "pu_inv mem u p s r \<longleftrightarrow>
     (case s of
        sw_start \<Rightarrow> fresh_uri r \<and> p = u
      | sw_after_slash_in_uri \<Rightarrow> fresh_uri r \<and> u < p \<and> mem ! u = ch_slash \<and> path_normal mem u p
      | sw_check_uri \<Rightarrow> fresh_uri r \<and> u < p \<and> mem ! u = ch_slash \<and> path_normal mem u p \<and> mem ! (p - 1) \<noteq> ch_slash
      | sw_uri \<Rightarrow> mem ! u = ch_slash \<and> args_ok mem p (Some u) (args_start r) \<and>
          (args_start r = None \<longrightarrow> complex_uri r \<or> quoted_uri r))"

lemma pu_step_inv:
  assumes "pu_inv mem u p s r" "pu_step mem p s r = Break s' r'"
  shows "pu_inv mem u (Suc p) s' r'"
  using assms
  by (cases s) (auto simp: pu_inv_def pu_step_def parser_step fresh_uri_def usual_iff Let_def
      intro: path_normal_Suc path_normal_start args_ok_mono split: if_splits)

lemma pu_no_Goto: "pu_step mem p s r \<noteq> Goto l r'"
  by (cases s) (simp_all add: pu_step_def parser_step Let_def)

lemma pu_Return: "pu_step mem p s r = Return rc r' \<Longrightarrow> s = sw_start \<and> rc = NGX_ERROR \<and> mem ! p \<noteq> ch_slash"
  by (cases s) (auto simp: pu_step_def parser_step Let_def split: if_splits)

text \<open>\<open>ngx_http_parse_uri\<close> refuses exactly the URIs that do not start with a slash; otherwise
  it returns \<open>NGX_OK\<close>, and if it leaves \<open>complex_uri\<close> and \<open>quoted_uri\<close> clear the path up to the
  arguments has no percent sign, hash or question mark and no slash followed by a slash or
  a dot.\<close>

theorem parse_uri_flags:
  assumes "uri_start r = Some u" "uri_end r = Some x" "u < x" "fresh_uri r"
  shows "case ngx_http_parse_uri mem r of (rc, r') \<Rightarrow>
    (rc = NGX_ERROR \<longleftrightarrow> mem ! u \<noteq> ch_slash) \<and> (rc \<noteq> NGX_ERROR \<longrightarrow> rc = NGX_OK) \<and>
    (rc = NGX_OK \<longrightarrow> \<not> complex_uri r' \<longrightarrow> \<not> quoted_uri r' \<longrightarrow>
       path_normal mem u (path_end (args_start r') x) \<and>
       (\<forall>a. args_start r' = Some a \<longrightarrow> u < a \<and> a \<le> x \<and> mem ! (a - 1) = ch_question))"
proof -
  define I where "I = (\<lambda>p s r. pu_inv mem u p s r \<and> p \<le> x)"
  have S: "case scan pu_step mem x u sw_start r of
      Stopped p' s' r' \<Rightarrow> I p' s' r' \<and> \<not> p' < x
    | Finished p' l r' \<Rightarrow> \<exists>s0 r0. I p' s0 r0 \<and> p' < x \<and> pu_step mem p' s0 r0 = Goto l r'
    | Returned rc r' \<Rightarrow> \<exists>p0 s0 r0. I p0 s0 r0 \<and> p0 < x \<and> pu_step mem p0 s0 r0 = Return rc r'"
  proof (rule scan_rule)
    show "I u sw_start r"
      using assms by (simp add: I_def pu_inv_def)
  qed (auto simp: I_def intro: pu_step_inv)
  show ?thesis
  proof (cases "scan pu_step mem x u sw_start r")
    case (Stopped p s' r')
    then have "pu_inv mem u p s' r'" "p = x"
      using S by (simp_all add: I_def)
    then have "mem ! u = ch_slash \<and> (\<not> complex_uri r' \<longrightarrow> \<not> quoted_uri r' \<longrightarrow>
       path_normal mem u (path_end (args_start r') x) \<and>
       (\<forall>a. args_start r' = Some a \<longrightarrow> u < a \<and> a \<le> x \<and> mem ! (a - 1) = ch_question))"
      using assms(3) by (cases s') (auto simp: pu_inv_def fresh_uri_def path_end_def)
    then show ?thesis
      using Stopped assms(1,2) by (simp add: ngx_http_parse_uri_def)
  next
    case (Finished p l r')
    then show ?thesis
      using S by (auto simp: pu_no_Goto)
  next
    case (Returned rc r')
    then obtain p0 s0 r0 where R: "I p0 s0 r0" "pu_step mem p0 s0 r0 = Return rc r'"
      using S by auto
    then have "p0 = u"
      using pu_Return [OF R(2)] by (simp add: I_def pu_inv_def)
    then show ?thesis
      using Returned assms(1,2) pu_Return [OF R(2)] by (simp add: ngx_http_parse_uri_def)
  qed
qed

theorem parse_uri_flags_witness:
  "case ngx_http_parse_uri (bytes ''/a?b'') (ngx_http_create_request\<lparr>uri_start := Some 0, uri_end := Some 4\<rparr>) of
     (rc, r') \<Rightarrow> rc = NGX_OK"
  using parse_uri_flags [of "ngx_http_create_request\<lparr>uri_start := Some 0, uri_end := Some 4\<rparr>" 0 4 "bytes ''/a?b''"]
  by (auto simp: fresh_uri_def ngx_http_create_request_def bytes_def split: prod.splits)

end
