(* ===== verification/Http_Complex_Uri.thy ===== *)
theory Http_Complex_Uri
  imports Http_Uri
begin

text \<open>
  The normalisation of a URI, \<open>ngx_http_parse_complex_uri\<close> of \<open>src/http/ngx_http_parse.c\<close>: the
  path is decoded, \<open>/./\<close> and \<open>/../\<close> are resolved and, with \<open>merge_slashes\<close>, slashes are merged
  while it is copied to \<open>r->uri.data\<close>.

  The bytes written so far, from \<open>r->uri.data\<close> up to \<open>u\<close>, are the list \<open>cx_u\<close>; \<open>*u++ = ch\<close> appends
  to it and lowering \<open>u\<close> cuts it. \<open>uri_ext\<close> is an offset into them, \<open>args_start\<close> one into the request
  buffer. The loop keeps \<open>ch\<close> equal to the byte before \<open>p\<close>, so one iteration handles the byte
  at offset \<open>p - 1\<close>, and \<open>p <= uri_end\<close> says that it lies inside the URI; the definitions take that
  offset as their \<open>p\<close>. A \<open>break\<close> without \<open>ch = *p++\<close>, which hands a decoded byte to the state
  saved in \<open>quoted_state\<close>, is a call of that state's definition; \<open>quoted_state\<close> only ever
  holds one of the four states that are not about quoting.
\<close>

subsection \<open>Definitions\<close>

datatype path_state = sw_usual | sw_slash | sw_dot | sw_dot_dot

datatype complex_state = Path path_state | sw_quoted | sw_quoted_second

datatype complex_label = L_done | L_args nat

record complex_locals =
  cx_quoted_state :: path_state
  cx_decoded :: u_char
  cx_u :: ngx_str
  cx_r :: ngx_http_request

type_synonym cx_outcome = "(complex_state, complex_label, complex_locals) outcome"

text \<open>\<open>*u++ = ch\<close>\<close>

definition cx_put :: "u_char \<Rightarrow> complex_locals \<Rightarrow> complex_locals" where
  "cx_put ch x = x\<lparr>cx_u := cx_u x @ [ch]\<rparr>"

definition cx_set :: "(ngx_http_request \<Rightarrow> ngx_http_request) \<Rightarrow> complex_locals \<Rightarrow> complex_locals" where
  "cx_set f x = x\<lparr>cx_r := f (cx_r x)\<rparr>"

definition cx_usual :: "nat \<Rightarrow> u_char \<Rightarrow> complex_locals \<Rightarrow> cx_outcome" where [parser_step]:
  "cx_usual p ch x =
     (if bitmap_test usual ch then Break (Path sw_usual) (cx_put ch x)
      else if ch = ch_slash then
        Break (Path sw_slash) (cx_put ch (cx_set (\<lambda>r. r\<lparr>uri_ext := None\<rparr>) x))
      else if ch = ch_percent then Break sw_quoted (x\<lparr>cx_quoted_state := sw_usual\<rparr>)
      else if ch = ch_question then
        Goto (L_args (p + 1)) (cx_set (\<lambda>r. r\<lparr>args_start := Some (p + 1)\<rparr>) x)
      else if ch = ch_hash then Goto L_done x
      else if ch = ch_dot then
        Break (Path sw_usual) (cx_put ch (cx_set (\<lambda>r. r\<lparr>uri_ext := Some (length (cx_u x) + 1)\<rparr>) x))
      else if ch = ch_plus then
        Break (Path sw_usual) (cx_put ch (cx_set (\<lambda>r. r\<lparr>plus_in_uri := True\<rparr>) x))
      else Break (Path sw_usual) (cx_put ch x))"

definition cx_slash :: "bool \<Rightarrow> nat \<Rightarrow> u_char \<Rightarrow> complex_locals \<Rightarrow> cx_outcome" where [parser_step]:
  "cx_slash merge_slashes p ch x =
     (if bitmap_test usual ch then Break (Path sw_usual) (cx_put ch x)
      else if ch = ch_slash then
        Break (Path sw_slash) (if \<not> merge_slashes then cx_put ch x else x)
      else if ch = ch_dot then Break (Path sw_dot) (cx_put ch x)
      else if ch = ch_percent then Break sw_quoted (x\<lparr>cx_quoted_state := sw_slash\<rparr>)
      else if ch = ch_question then
        Goto (L_args (p + 1)) (cx_set (\<lambda>r. r\<lparr>args_start := Some (p + 1)\<rparr>) x)
      else if ch = ch_hash then Goto L_done x
      else if ch = ch_plus then
        Break (Path sw_usual) (cx_put ch (cx_set (\<lambda>r. r\<lparr>plus_in_uri := True\<rparr>) x))
      else Break (Path sw_usual) (cx_put ch x))"

definition cx_dot :: "nat \<Rightarrow> u_char \<Rightarrow> complex_locals \<Rightarrow> cx_outcome" where [parser_step]:
  "cx_dot p ch x =
     (if bitmap_test usual ch then Break (Path sw_usual) (cx_put ch x)
      else if ch = ch_slash then
        Break (Path sw_slash) (x\<lparr>cx_u := take (length (cx_u x) - 1) (cx_u x)\<rparr>)
      else if ch = ch_dot then Break (Path sw_dot_dot) (cx_put ch x)
      else if ch = ch_percent then Break sw_quoted (x\<lparr>cx_quoted_state := sw_dot\<rparr>)
      else if ch = ch_question then
        Goto (L_args (p + 1)) (cx_set (\<lambda>r. r\<lparr>args_start := Some (p + 1)\<rparr>) x)
      else if ch = ch_hash then Goto L_done x
      else if ch = ch_plus then
        Break (Path sw_usual) (cx_put ch (cx_set (\<lambda>r. r\<lparr>plus_in_uri := True\<rparr>) x))
      else Break (Path sw_usual) (cx_put ch x))"

text \<open>The loop \<open>for ( ;; )\<close> behind \<open>u -= 5\<close>: it looks at \<open>data[k]\<close>, \<open>data[k - 1]\<close>, \<open>...\<close> for a slash;
  \<open>None\<close> is the way out with \<open>u < r->uri.data\<close>.\<close>

fun cx_find_slash :: "ngx_str \<Rightarrow> nat \<Rightarrow> nat option" where
  "cx_find_slash data k =
     (if data ! k = ch_slash then Some (k + 1)
      else case k of 0 \<Rightarrow> None | Suc k' \<Rightarrow> cx_find_slash data k')"

definition cx_dot_dot :: "nat \<Rightarrow> u_char \<Rightarrow> complex_locals \<Rightarrow> cx_outcome" where [parser_step]:
  "cx_dot_dot p ch x =
     (if bitmap_test usual ch then Break (Path sw_usual) (cx_put ch x)
      else if ch = ch_slash then
        (if length (cx_u x) < 5 then Return NGX_HTTP_PARSE_INVALID_REQUEST x
         else case cx_find_slash (cx_u x) (length (cx_u x) - 5) of
           None \<Rightarrow> Return NGX_HTTP_PARSE_INVALID_REQUEST x
         | Some u \<Rightarrow> Break (Path sw_slash) (x\<lparr>cx_u := take u (cx_u x)\<rparr>))
      else if ch = ch_percent then Break sw_quoted (x\<lparr>cx_quoted_state := sw_dot_dot\<rparr>)
      else if ch = ch_question then
        Goto (L_args (p + 1)) (cx_set (\<lambda>r. r\<lparr>args_start := Some (p + 1)\<rparr>) x)
      else if ch = ch_hash then Goto L_done x
      else if ch = ch_plus then
        Break (Path sw_usual) (cx_put ch (cx_set (\<lambda>r. r\<lparr>plus_in_uri := True\<rparr>) x))
      else Break (Path sw_usual) (cx_put ch x))"

definition cx_path :: "bool \<Rightarrow> nat \<Rightarrow> path_state \<Rightarrow> u_char \<Rightarrow> complex_locals \<Rightarrow> cx_outcome" where
  "cx_path merge_slashes p s ch x =
     (case s of
        sw_usual \<Rightarrow> cx_usual p ch x
      | sw_slash \<Rightarrow> cx_slash merge_slashes p ch x
      | sw_dot \<Rightarrow> cx_dot p ch x
      | sw_dot_dot \<Rightarrow> cx_dot_dot p ch x)"

definition cx_quoted :: "u_char \<Rightarrow> complex_locals \<Rightarrow> cx_outcome" where [parser_step]:
  "cx_quoted ch x =
     (let x = cx_set (\<lambda>r. r\<lparr>quoted_uri := True\<rparr>) x;
          c = ch OR 0x20
      in if ch \<ge> ch_0 \<and> ch \<le> ch_9 then Break sw_quoted_second (x\<lparr>cx_decoded := ch - ch_0\<rparr>)
         else if c \<ge> ch_a \<and> c \<le> ch_f then Break sw_quoted_second (x\<lparr>cx_decoded := c - ch_a + 10\<rparr>)
         else Return NGX_HTTP_PARSE_INVALID_REQUEST x)"

definition cx_quoted_second :: "bool \<Rightarrow> nat \<Rightarrow> u_char \<Rightarrow> complex_locals \<Rightarrow> cx_outcome" where [parser_step]:
  "cx_quoted_second merge_slashes p ch x =
     (if ch \<ge> ch_0 \<and> ch \<le> ch_9 then
        let ch = push_bit 4 (cx_decoded x) + ch - ch_0 in
        if ch = ch_percent \<or> ch = ch_hash then Break (Path sw_usual) (cx_put ch x)
        else if ch = ch_NUL then Return NGX_HTTP_PARSE_INVALID_REQUEST x
        else cx_path merge_slashes p (cx_quoted_state x) ch x
      else
        let c = ch OR 0x20 in
        if c \<ge> ch_a \<and> c \<le> ch_f then
          let ch = push_bit 4 (cx_decoded x) + c - ch_a + 10 in
          if ch = ch_question then Break (Path sw_usual) (cx_put ch x)
          else cx_path merge_slashes p (cx_quoted_state x) ch
            (if ch = ch_plus then cx_set (\<lambda>r. r\<lparr>plus_in_uri := True\<rparr>) x else x)
        else Return NGX_HTTP_PARSE_INVALID_REQUEST x)"

definition cx_step :: "bool \<Rightarrow> ngx_str \<Rightarrow> nat \<Rightarrow> complex_state \<Rightarrow> complex_locals \<Rightarrow> cx_outcome" where
  "cx_step merge_slashes mem p state x =
     (let ch = mem ! p in
      case state of
        Path s \<Rightarrow> cx_path merge_slashes p s ch x
      | sw_quoted \<Rightarrow> cx_quoted ch x
      | sw_quoted_second \<Rightarrow> cx_quoted_second merge_slashes p ch x)"

text \<open>What the function leaves in \<open>r->uri\<close>, \<open>r->exten\<close> and \<open>r->args\<close>; \<open>None\<close> stands for a string that
  is not assigned.\<close>

record complex_result =
  cr_uri :: ngx_str
  cr_exten :: "ngx_str option"
  cr_args :: "ngx_str option"
  cr_r :: ngx_http_request

text \<open>The common end: \<open>r->uri.len\<close>, \<open>r->exten\<close> and \<open>r->uri_ext = NULL\<close>.\<close>

definition cx_finish :: "complex_locals \<Rightarrow> ngx_str option \<Rightarrow> complex_result" where
  "cx_finish x args =
     \<lparr>cr_uri = cx_u x,
      cr_exten = map_option (\<lambda>e. drop e (cx_u x)) (uri_ext (cx_r x)),
      cr_args = args,
      cr_r = (cx_r x)\<lparr>uri_ext := None\<rparr>\<rparr>"

text \<open>The loop at the label \<open>args\<close>: the offset of the first hash.\<close>

function cx_args_end :: "ngx_str \<Rightarrow> nat \<Rightarrow> nat \<Rightarrow> nat option" where
  "cx_args_end mem p lim =
     (if p < lim then if mem ! p \<noteq> ch_hash then cx_args_end mem (p + 1) lim else Some p else None)"
  by auto
termination by (relation "measure (\<lambda>(mem, p, lim). lim - p)") auto

declare cx_args_end.simps [simp del]

definition cx_args :: "ngx_str \<Rightarrow> nat \<Rightarrow> complex_locals \<Rightarrow> complex_result" where
  "cx_args mem p x =
     (case cx_args_end mem p (the (uri_end (cx_r x))) of
        None \<Rightarrow> cx_finish x None
      | Some q \<Rightarrow>
          cx_finish (cx_set (\<lambda>r. r\<lparr>args_start := None\<rparr>) x)
            (Some (slice mem (the (args_start (cx_r x))) q)))"

definition cx_init :: "ngx_http_request \<Rightarrow> complex_locals" where
  "cx_init r =
     \<lparr>cx_quoted_state = sw_usual, cx_decoded = 0, cx_u = [],
      cx_r = r\<lparr>uri_ext := None, args_start := None\<rparr>\<rparr>"

definition ngx_http_parse_complex_uri ::
  "ngx_str \<Rightarrow> ngx_http_request \<Rightarrow> bool \<Rightarrow> int + complex_result"
where
  "ngx_http_parse_complex_uri mem r merge_slashes =
     (case scan (cx_step merge_slashes) mem (the (uri_end r)) (the (uri_start r)) (Path sw_usual) (cx_init r) of
        Stopped p state x \<Rightarrow> Inr (cx_finish x None)
      | Finished p L_done x \<Rightarrow> Inr (cx_finish x None)
      | Finished p (L_args q) x \<Rightarrow> Inr (cx_args mem q x)
      | Returned rc x \<Rightarrow> Inl rc)"

declare cx_find_slash.simps [simp del]

end
