(* ===== verification/Http_Complex_Spec.thy ===== *)
theory Http_Complex_Spec
  imports Http_Complex_Uri "HOL-Library.Sublist"
begin

text \<open>
  What \<open>ngx_http_parse_complex_uri\<close> guarantees: the invariant of its loop and the normal form of
  its result, its agreement with a stack-based resolution of the path segments, and what it
  does with a last dot segment and with an escape that the end of the URI cuts off.
\<close>

subsection \<open>The result is a normal path\<close>

text \<open>No \<open>/./\<close> and no \<open>/../\<close>, and with \<open>merge_slashes\<close> no double slash.\<close>

definition normal_path :: "bool \<Rightarrow> ngx_str \<Rightarrow> bool" where
  "normal_path m out \<longleftrightarrow> \<not> sublist [ch_slash, ch_dot, ch_slash] out \<and>
     \<not> sublist [ch_slash, ch_dot, ch_dot, ch_slash] out \<and> (m \<longrightarrow> \<not> sublist [ch_slash, ch_slash] out)"

definition cx_tail :: "path_state \<Rightarrow> ngx_str \<Rightarrow> bool" where
  "cx_tail s out =
     (case s of
        sw_usual \<Rightarrow> \<not> suffix [ch_slash] out \<and> \<not> suffix [ch_slash, ch_dot] out \<and> \<not> suffix [ch_slash, ch_dot, ch_dot] out
      | sw_slash \<Rightarrow> suffix [ch_slash] out
      | sw_dot \<Rightarrow> suffix [ch_slash, ch_dot] out
      | sw_dot_dot \<Rightarrow> suffix [ch_slash, ch_dot, ch_dot] out)"

definition cx_ext :: "path_state \<Rightarrow> ptr \<Rightarrow> ngx_str \<Rightarrow> bool" where
  "cx_ext s ext out =
     (case ext of
        None \<Rightarrow> True
      | Some e \<Rightarrow> s = sw_usual \<and> 0 < e \<and> e \<le> length out \<and> out ! (e - 1) = ch_dot \<and> ch_slash \<notin> set (drop e out))"

definition cx_ok :: "bool \<Rightarrow> path_state \<Rightarrow> complex_locals \<Rightarrow> bool" where
  "cx_ok m s x \<longleftrightarrow> normal_path m (cx_u x) \<and> cx_tail s (cx_u x) \<and> cx_ext s (uri_ext (cx_r x)) (cx_u x) \<and>
     ch_NUL \<notin> set (cx_u x)"

definition cx_state_ok :: "bool \<Rightarrow> complex_state \<Rightarrow> complex_locals \<Rightarrow> bool" where
  "cx_state_ok m st x =
     (case st of
        Path s \<Rightarrow> cx_ok m s x
      | sw_quoted \<Rightarrow> cx_ok m (cx_quoted_state x) x
      | sw_quoted_second \<Rightarrow> cx_ok m (cx_quoted_state x) x \<and> cx_decoded x < 16)"

lemma suffix_snoc_lit:
  "suffix [a] (out @ [d]) \<longleftrightarrow> a = d"
  "suffix [a, b] (out @ [d]) \<longleftrightarrow> b = d \<and> suffix [a] out"
  "suffix [a, b, c] (out @ [d]) \<longleftrightarrow> c = d \<and> suffix [a, b] out"
  "suffix [a, b, c, e] (out @ [d]) \<longleftrightarrow> e = d \<and> suffix [a, b, c] out"
  using snoc_suffix_snoc [of "[]" a out d] snoc_suffix_snoc [of "[a]" b out d]
    snoc_suffix_snoc [of "[a, b]" c out d] snoc_suffix_snoc [of "[a, b, c]" e out d]
  by auto

lemma suffix_lit_last:
  "suffix [a] out \<Longrightarrow> suffix [b] out \<Longrightarrow> a = b"
  "suffix [a, b] out \<Longrightarrow> suffix [c] out \<Longrightarrow> b = c"
  "suffix [a, b, c] out \<Longrightarrow> suffix [d] out \<Longrightarrow> c = d"
  "suffix [a, b] out \<Longrightarrow> suffix [c, d] out \<Longrightarrow> a = c \<and> b = d"
  "suffix [a, b, c] out \<Longrightarrow> suffix [d, e] out \<Longrightarrow> b = d \<and> c = e"
  by (auto simp: suffix_def)

lemma sublist_snoc_lit: "sublist xs (out @ [d]) \<longleftrightarrow> suffix xs (out @ [d]) \<or> sublist xs out"
  by (rule sublist_snoc)

lemma normal_path_take: "normal_path m out \<Longrightarrow> normal_path m (take n out)"
  unfolding normal_path_def using sublist_order.order_trans sublist_take by blast

lemma normal_path_put:
  "normal_path m out \<Longrightarrow> d \<noteq> ch_slash \<Longrightarrow> normal_path m (out @ [d])"
  by (simp add: normal_path_def sublist_snoc_lit suffix_snoc_lit del: suffix_snoc)

lemma normal_path_slash:
  "normal_path m out \<Longrightarrow> \<not> suffix [ch_slash, ch_dot] out \<Longrightarrow> \<not> suffix [ch_slash, ch_dot, ch_dot] out \<Longrightarrow>
   \<not> (m \<and> suffix [ch_slash] out) \<Longrightarrow> normal_path m (out @ [ch_slash])"
  by (auto simp: normal_path_def sublist_snoc_lit suffix_snoc_lit simp del: suffix_snoc)

lemma cx_ext_None [simp]: "cx_ext s None out"
  by (simp add: cx_ext_def)

lemma cx_ext_put: "cx_ext s e out \<Longrightarrow> d \<noteq> ch_slash \<Longrightarrow> cx_ext sw_usual e (out @ [d])"
  by (auto simp: cx_ext_def nth_append split: option.splits)

lemma cx_ext_dot: "cx_ext sw_usual (Some (Suc (length out))) (out @ [ch_dot])"
  by (simp add: cx_ext_def)

lemma cx_ext_other: "cx_ext s e out \<Longrightarrow> s \<noteq> sw_usual \<Longrightarrow> e = None"
  by (auto simp: cx_ext_def split: option.splits)

text \<open>A byte that is neither a slash nor a dot, or any byte decoded to a literal, leads to
  \<open>sw_usual\<close>.\<close>

lemma cx_ok_literal:
  "cx_ok m s x \<Longrightarrow> ch \<notin> {ch_slash, ch_dot, ch_NUL} \<Longrightarrow> cx_ok m sw_usual (cx_put ch x)"
  by (auto simp: cx_ok_def cx_put_def cx_tail_def suffix_snoc_lit normal_path_put cx_ext_put simp del: suffix_snoc)

lemma cx_ok_set:
  "cx_ok m s x \<Longrightarrow> (\<And>r. uri_ext (f r) = uri_ext r) \<Longrightarrow> cx_ok m s (cx_set f x)"
  by (simp add: cx_ok_def cx_set_def)

lemma cx_ok_quoted: "cx_ok m s x \<Longrightarrow> cx_ok m s (x\<lparr>cx_quoted_state := t\<rparr>)"
  by (simp add: cx_ok_def)

lemma cx_find_slash_Some:
  "cx_find_slash data k = Some u \<Longrightarrow> 0 < u \<and> u \<le> k + 1 \<and> data ! (u - 1) = ch_slash"
proof (induction data k rule: cx_find_slash.induct)
  case (1 data k)
  then show ?case
    using cx_find_slash.simps [of data k] by (cases k) (auto split: if_splits intro: le_SucI)
qed

lemma suffix_take: "0 < u \<Longrightarrow> u \<le> length out \<Longrightarrow> out ! (u - 1) = c \<Longrightarrow> suffix [c] (take u out)"
  by (cases u) (auto simp: take_Suc_conv_app_nth)

lemma cx_path_ok:
  assumes "cx_ok m s x" "ch \<noteq> ch_NUL" "cx_path m p s ch x = Break st' x'"
  shows "cx_state_ok m st' x' \<and> length (cx_u x') \<le> length (cx_u x) + 1 \<and>
    (cx_u x = [] \<and> ch = ch_slash \<and> s = sw_usual \<or> cx_u x \<noteq> [] \<and> hd (cx_u x) = ch_slash \<longrightarrow>
       cx_u x' \<noteq> [] \<and> hd (cx_u x') = ch_slash)"
proof (cases s)
  case sw_usual
  then show ?thesis
    using assms cx_ok_literal [OF assms(1)]
    by (auto simp: cx_path_def parser_step usual_iff cx_state_ok_def cx_ok_quoted cx_set_def
        cx_put_def cx_ok_def cx_tail_def suffix_snoc_lit normal_path_put normal_path_slash cx_ext_put cx_ext_dot
        simp del: suffix_snoc split: if_splits)
next
  case sw_slash
  have T: "suffix [ch_slash] (cx_u x)" "uri_ext (cx_r x) = None" "cx_u x \<noteq> []"
    using assms(1) cx_ext_other sw_slash by (auto simp: cx_ok_def cx_tail_def)
  moreover have "\<not> suffix [ch_slash, ch_dot] (cx_u x)" "\<not> suffix [ch_slash, ch_dot, ch_dot] (cx_u x)"
    using T(1) suffix_lit_last(2) [of ch_slash ch_dot "cx_u x" ch_slash]
      suffix_lit_last(3) [of ch_slash ch_dot ch_dot "cx_u x" ch_slash] by auto
  ultimately show ?thesis
    using assms cx_ok_literal [OF assms(1)] sw_slash
    by (auto simp: cx_path_def parser_step usual_iff cx_state_ok_def cx_ok_quoted cx_set_def
        cx_put_def cx_ok_def cx_tail_def suffix_snoc_lit normal_path_put
        intro!: normal_path_slash dest: suffix_lit_last
        simp del: suffix_snoc split: if_splits)
next
  case sw_dot
  have T: "suffix [ch_slash, ch_dot] (cx_u x)" "uri_ext (cx_r x) = None"
    using assms(1) cx_ext_other sw_dot by (auto simp: cx_ok_def cx_tail_def)
  have F: "suffix [ch_slash] (take (length (cx_u x) - 1) (cx_u x)) \<and> take (length (cx_u x) - 1) (cx_u x) \<noteq> [] \<and>
      hd (take (length (cx_u x) - 1) (cx_u x)) = hd (cx_u x)"
    using T(1) by (auto simp: suffix_def hd_append)
  have "cx_u x \<noteq> []"
    using T(1) by auto
  then show ?thesis
    using assms cx_ok_literal [OF assms(1)] sw_dot T F
    by (auto simp: cx_path_def parser_step usual_iff cx_state_ok_def cx_ok_quoted cx_set_def
        cx_put_def cx_ok_def cx_tail_def suffix_snoc_lit normal_path_put normal_path_take
        dest: suffix_lit_last in_set_takeD simp del: suffix_snoc split: if_splits)
next
  case sw_dot_dot
  have T: "suffix [ch_slash, ch_dot, ch_dot] (cx_u x)" "uri_ext (cx_r x) = None" "cx_u x \<noteq> []"
    using assms(1) cx_ext_other sw_dot_dot by (auto simp: cx_ok_def cx_tail_def)
  have T': "\<not> suffix [ch_slash] (cx_u x)" "\<not> suffix [ch_slash, ch_dot] (cx_u x)"
    using T(1) suffix_lit_last(3) [of ch_slash ch_dot ch_dot "cx_u x" ch_slash]
      suffix_lit_last(5) [of ch_slash ch_dot ch_dot "cx_u x" ch_slash ch_dot] by auto
  have F: "0 < u \<and> u \<le> length (cx_u x) \<and> suffix [ch_slash] (take u (cx_u x)) \<and> take u (cx_u x) \<noteq> [] \<and>
      hd (take u (cx_u x)) = hd (cx_u x)"
    if "cx_find_slash (cx_u x) (length (cx_u x) - 5) = Some u" "\<not> length (cx_u x) < 5" for u
    using cx_find_slash_Some [OF that(1)] that(2) T(3) by (auto intro!: suffix_take)
  show ?thesis
    using assms cx_ok_literal [OF assms(1)] sw_dot_dot T T' F
    by (auto simp: cx_path_def parser_step usual_iff cx_state_ok_def cx_ok_quoted cx_set_def
        cx_put_def cx_ok_def cx_tail_def suffix_snoc_lit normal_path_put normal_path_take
        dest: suffix_lit_last in_set_takeD simp del: suffix_snoc split: if_splits option.splits)
qed


lemma cx_path_Goto:
  "cx_ok m s x \<Longrightarrow> cx_path mg p s ch x = Goto l x' \<Longrightarrow>
   cx_ok m s x' \<and> cx_u x' = cx_u x \<and> uri_end (cx_r x') = uri_end (cx_r x) \<and> uri_ext (cx_r x') = uri_ext (cx_r x)"
  by (cases s) (auto simp: cx_path_def parser_step cx_set_def cx_ok_def split: if_splits option.splits)

lemma hex_pair_nonzero:
  assumes "d < 16" "ch_a \<le> c" "c \<le> ch_f"
  shows "push_bit 4 d + c - ch_a + 10 \<noteq> (0::u_char)"
proof -
  have "push_bit 4 d + c - ch_a + 10 = 16 * d + (c - 0x57)"
    by (simp add: push_bit_eq_mult)
  moreover have "uint (c - 0x57) = uint c - 0x57"
    using assms by (simp add: uint_word_ariths byte_cmp)
  moreover have "uint (16 * d) = 16 * uint d"
    using assms by (simp add: uint_word_ariths byte_cmp)
  moreover have "uint (16 * d + (c - 0x57)) = (uint (16 * d) + uint (c - 0x57)) mod 256"
    by (simp add: uint_word_ariths)
  ultimately have "uint (push_bit 4 d + c - ch_a + 10) = 16 * uint d + uint c - 0x57"
    using assms by (simp add: byte_cmp)
  moreover have "0 \<le> uint d" "97 \<le> uint c"
    using assms by (simp_all add: byte_cmp)
  ultimately have "0 < uint (push_bit 4 d + c - ch_a + 10)"
    by linarith
  then show ?thesis
    by auto
qed

definition cx_inv :: "bool \<Rightarrow> nat \<Rightarrow> nat \<Rightarrow> complex_state \<Rightarrow> complex_locals \<Rightarrow> bool" where
  "cx_inv m u0 p st x \<longleftrightarrow>
     u0 \<le> p \<and> length (cx_u x) \<le> p - u0 \<and> cx_state_ok m st x \<and>
     (p = u0 \<and> cx_u x = [] \<and> st = Path sw_usual \<or> cx_u x \<noteq> [] \<and> hd (cx_u x) = ch_slash)"

lemma cx_quoted_second_cases:
  assumes "cx_decoded x < 16"
  obtains (literal) c where "cx_quoted_second m p ch x = Break (Path sw_usual) (cx_put c x)" "c \<notin> {ch_slash, ch_dot, ch_NUL}"
  | (path) c x' where "cx_quoted_second m p ch x = cx_path m p (cx_quoted_state x) c x'" "c \<noteq> ch_NUL"
      "x' = x \<or> x' = cx_set (\<lambda>r. r\<lparr>plus_in_uri := True\<rparr>) x"
  | (err) "cx_quoted_second m p ch x = Return NGX_HTTP_PARSE_INVALID_REQUEST x"
proof -
  consider (dec) "ch \<ge> ch_0 \<and> ch \<le> ch_9" | (hex) "\<not> (ch \<ge> ch_0 \<and> ch \<le> ch_9)" "ch OR 0x20 \<ge> ch_a \<and> ch OR 0x20 \<le> ch_f"
    | (bad) "\<not> (ch \<ge> ch_0 \<and> ch \<le> ch_9)" "\<not> (ch OR 0x20 \<ge> ch_a \<and> ch OR 0x20 \<le> ch_f)"
    by blast
  then show thesis
  proof cases
    case dec
    define c where "c = push_bit 4 (cx_decoded x) + ch - ch_0"
    show thesis
    proof (cases "c = ch_percent \<or> c = ch_hash")
      case True
      then show thesis
        using dec literal [of c] by (auto simp: cx_quoted_second_def c_def [symmetric])
    next
      case False
      then show thesis
        using dec path [of c x] err by (cases "c = ch_NUL") (auto simp: cx_quoted_second_def Let_def c_def [symmetric])
    qed
  next
    case hex
    define c where "c = push_bit 4 (cx_decoded x) + (ch OR 0x20) - ch_a + 10"
    have Z: "c \<noteq> ch_NUL"
      unfolding c_def using hex assms by (intro hex_pair_nonzero) auto
    show thesis
    proof (cases "c = ch_question")
      case True
      then show thesis
        using hex literal [of c] by (auto simp: cx_quoted_second_def Let_def c_def [symmetric])
    next
      case False
      then have "cx_quoted_second m p ch x = cx_path m p (cx_quoted_state x) c
          (if c = ch_plus then cx_set (\<lambda>r. r\<lparr>plus_in_uri := True\<rparr>) x else x)"
        using hex by (simp only: cx_quoted_second_def Let_def c_def [symmetric] if_False if_True simp_thms)
      then show thesis
        using path [OF _ Z] by (cases "c = ch_plus") auto
    qed
  next
    case bad
    then show thesis
      using err by (simp only: cx_quoted_second_def Let_def if_False simp_thms)
  qed
qed

lemma cx_step_inv:
  assumes "cx_inv m u0 p st x" "mem ! p \<noteq> ch_NUL" "p = u0 \<longrightarrow> mem ! p = ch_slash"
    and "cx_step m mem p st x = Break st' x'"
  shows "cx_inv m u0 (Suc p) st' x'"
proof (cases st)
  case (Path s)
  then show ?thesis
    using assms cx_path_ok [of m s x "mem ! p" p st' x']
    by (auto simp: cx_inv_def cx_step_def cx_state_ok_def)
next
  case sw_quoted
  have "ch - ch_0 < 16" if "ch_0 \<le> ch" "ch \<le> ch_9" for ch :: u_char
    using that by (simp add: byte_cmp uint_word_ariths)
  moreover have "ch - ch_a + 10 < 16" if "ch_a \<le> ch" "ch \<le> ch_f" for ch :: u_char
    using that by (simp add: byte_cmp uint_word_ariths)
  ultimately show ?thesis
    using assms sw_quoted
    by (auto simp: cx_inv_def cx_step_def cx_quoted_def cx_state_ok_def cx_ok_def cx_set_def Let_def split: if_splits)
next
  case sw_quoted_second
  then have Q: "cx_ok m (cx_quoted_state x) x" "cx_decoded x < 16" "cx_u x \<noteq> []" "hd (cx_u x) = ch_slash"
    using assms(1) by (auto simp: cx_inv_def cx_state_ok_def)
  have L: "u0 \<le> p" "length (cx_u x) \<le> p - u0"
    using assms(1) by (auto simp: cx_inv_def)
  from Q(2) show ?thesis
  proof (cases rule: cx_quoted_second_cases [where m = m and p = p and ch = "mem ! p"])
    case (literal c)
    then show ?thesis
      using assms(4) sw_quoted_second L Q cx_ok_literal [OF Q(1) literal(2)]
      by (auto simp: cx_inv_def cx_step_def cx_state_ok_def cx_put_def)
  next
    case (path c y)
    have "cx_ok m (cx_quoted_state x) y" "cx_u y = cx_u x"
      using path(3) Q(1) by (auto simp: cx_ok_def cx_set_def)
    then show ?thesis
      using assms(4) sw_quoted_second L Q path cx_path_ok [of m "cx_quoted_state x" y c p st' x']
      by (auto simp: cx_inv_def cx_step_def)
  next
    case err
    then show ?thesis
      using assms(4) sw_quoted_second by (simp add: cx_step_def)
  qed
qed

definition cx_final :: "bool \<Rightarrow> nat \<Rightarrow> complex_locals \<Rightarrow> bool" where
  "cx_final m n y \<longleftrightarrow> (\<exists>s. cx_ok m s y) \<and> cx_u y \<noteq> [] \<and> hd (cx_u y) = ch_slash \<and> length (cx_u y) \<le> n"

lemma cx_final_inv: "cx_inv m u0 p st y \<Longrightarrow> u0 < p \<Longrightarrow> cx_final m (p - u0) y"
  by (cases st) (auto simp: cx_inv_def cx_final_def cx_state_ok_def)

lemma cx_step_Goto:
  assumes "cx_inv m u0 p st x" "p = u0 \<longrightarrow> mem ! p = ch_slash" "cx_step m mem p st x = Goto l x'"
  shows "cx_final m (p - u0) x'"
proof (cases st)
  case (Path s)
  have "p \<noteq> u0"
    using assms by (auto simp: cx_inv_def cx_step_def cx_path_def cx_usual_def usual_iff cx_put_def cx_state_ok_def
        cx_ok_def cx_tail_def Path split: path_state.splits)
  then show ?thesis
    using assms Path cx_path_Goto [of m s x m p "mem ! p" l x']
    by (auto simp: cx_inv_def cx_step_def cx_state_ok_def cx_final_def)
next
  case sw_quoted
  then show ?thesis
    using assms by (auto simp: cx_step_def cx_quoted_def Let_def split: if_splits)
next
  case sw_quoted_second
  then have Q: "cx_ok m (cx_quoted_state x) x" "cx_decoded x < 16" "cx_u x \<noteq> []" "hd (cx_u x) = ch_slash"
      "length (cx_u x) \<le> p - u0"
    using assms(1) by (auto simp: cx_inv_def cx_state_ok_def)
  from Q(2) show ?thesis
  proof (cases rule: cx_quoted_second_cases [where m = m and p = p and ch = "mem ! p"])
    case (path c y)
    have "cx_ok m (cx_quoted_state x) y" "cx_u y = cx_u x"
      using path(3) Q(1) by (auto simp: cx_ok_def cx_set_def)
    then show ?thesis
      using assms(3) sw_quoted_second Q path cx_path_Goto [of m "cx_quoted_state x" y m p c l x']
      by (auto simp: cx_step_def cx_final_def)
  qed (use assms(3) sw_quoted_second in \<open>simp_all add: cx_step_def\<close>)
qed

lemma cx_final_result:
  assumes "cx_final m n y" "res = cx_finish y args \<or> res = cx_args mem q y"
  shows "(\<exists>tl. cr_uri res = ch_slash # tl) \<and> ch_NUL \<notin> set (cr_uri res) \<and>
    normal_path m (cr_uri res) \<and> length (cr_uri res) \<le> n \<and>
    (\<forall>e. cr_exten res = Some e \<longrightarrow> ch_slash \<notin> set e \<and> (\<exists>dir. cr_uri res = dir @ ch_dot # e))"
proof -
  have R: "cr_uri res = cx_u y" "cr_exten res = map_option (\<lambda>e. drop e (cx_u y)) (uri_ext (cx_r y))"
    using assms(2) by (auto simp: cx_finish_def cx_args_def cx_set_def split: option.splits)
  have "cx_u y = take (e - 1) (cx_u y) @ ch_dot # drop e (cx_u y)"
    if "0 < e" "e \<le> length (cx_u y)" "cx_u y ! (e - 1) = ch_dot" for e
    using that id_take_nth_drop [of "e - 1" "cx_u y"] by simp
  then have "\<exists>dir. cx_u y = dir @ ch_dot # drop e (cx_u y)" if "uri_ext (cx_r y) = Some e" for e
    using assms(1) that by (auto simp: cx_final_def cx_ok_def cx_ext_def)
  then show ?thesis
    using assms(1) R by (cases "cx_u y") (auto simp: cx_final_def cx_ok_def cx_ext_def)
qed

lemma complex_uri_result:
  assumes "ngx_http_parse_complex_uri mem r merge_slashes = Inr res"
    and "uri_start r = Some u0" "uri_end r = Some x" "u0 < x" "mem ! u0 = ch_slash"
    and "\<And>i. u0 \<le> i \<Longrightarrow> i < x \<Longrightarrow> mem ! i \<noteq> ch_NUL"
  shows "(\<exists>tl. cr_uri res = ch_slash # tl) \<and> ch_NUL \<notin> set (cr_uri res) \<and>
    normal_path merge_slashes (cr_uri res) \<and> length (cr_uri res) \<le> x - u0 \<and>
    (\<forall>e. cr_exten res = Some e \<longrightarrow> ch_slash \<notin> set e \<and> (\<exists>dir. cr_uri res = dir @ ch_dot # e))"
proof -
  define I where "I = (\<lambda>p st y. cx_inv merge_slashes u0 p st y \<and> p \<le> x)"
  have S: "case scan (cx_step merge_slashes) mem x u0 (Path sw_usual) (cx_init r) of
      Stopped p' s' r' \<Rightarrow> I p' s' r' \<and> \<not> p' < x
    | Finished p' l r' \<Rightarrow> \<exists>s0 r0. I p' s0 r0 \<and> p' < x \<and> cx_step merge_slashes mem p' s0 r0 = Goto l r'
    | Returned rc r' \<Rightarrow> \<exists>p0 s0 r0. I p0 s0 r0 \<and> p0 < x \<and> cx_step merge_slashes mem p0 s0 r0 = Return rc r'"
  proof (rule scan_rule)
    show "I u0 (Path sw_usual) (cx_init r)"
      using assms(4) by (simp add: I_def cx_inv_def cx_init_def cx_state_ok_def cx_ok_def cx_tail_def normal_path_def)
  next
    fix p st y st' y'
    assume A: "I p st y" "p < x" "cx_step merge_slashes mem p st y = Break st' y'"
    then have "mem ! p \<noteq> ch_NUL" "p = u0 \<longrightarrow> mem ! p = ch_slash"
      using assms(5,6) by (auto simp: I_def cx_inv_def)
    then show "I (Suc p) st' y'"
      using A cx_step_inv [of merge_slashes u0 p st y mem st' y'] by (simp add: I_def)
  qed
  show ?thesis
  proof (cases "scan (cx_step merge_slashes) mem x u0 (Path sw_usual) (cx_init r)")
    case (Stopped p st y)
    then have "cx_final merge_slashes (x - u0) y"
      using S assms(4) cx_final_inv [of merge_slashes u0 p st y] by (auto simp: I_def)
    then show ?thesis
      using cx_final_result [of merge_slashes "x - u0" y res None] Stopped assms(1-3)
      by (simp add: ngx_http_parse_complex_uri_def)
  next
    case (Finished p l y)
    then obtain s0 r0 where "I p s0 r0" "p < x" "cx_step merge_slashes mem p s0 r0 = Goto l y"
      using S by auto
    then have "cx_final merge_slashes (p - u0) y" "p < x"
      using cx_step_Goto [of merge_slashes u0 p s0 r0 mem l y] assms(5) by (auto simp: I_def)
    then show ?thesis
      using cx_final_result [of merge_slashes "p - u0" y res None mem] Finished assms(1-3)
      by (fastforce simp: ngx_http_parse_complex_uri_def split: complex_label.splits)
  next
    case (Returned rc y)
    then show ?thesis
      using assms(1-3) by (simp add: ngx_http_parse_complex_uri_def)
  qed
qed

text \<open>C4. A URI that \<open>ngx_http_parse_complex_uri\<close> accepts is normalised: the path it writes
  starts with a slash, holds no zero byte, no \<open>/./\<close> and no \<open>/../\<close>, and with \<open>merge_slashes\<close> no
  double slash, whatever was escaped in the request. It is never longer than the URI read, so the
  buffer of \<open>uri.len + 1\<close> bytes is not overrun, and \<open>u\<close> never falls below \<open>r->uri.data\<close>. The
  extension is the part of the last segment behind its last dot recorded.\<close>

theorem complex_uri_normal:
  assumes "ngx_http_parse_complex_uri mem r merge_slashes = Inr res"
    and "uri_start r = Some u0" "uri_end r = Some x" "u0 < x" "mem ! u0 = ch_slash"
    and "\<And>i. u0 \<le> i \<Longrightarrow> i < x \<Longrightarrow> mem ! i \<noteq> ch_NUL"
  shows "(\<exists>tl. cr_uri res = ch_slash # tl) \<and> ch_NUL \<notin> set (cr_uri res) \<and>
    normal_path merge_slashes (cr_uri res) \<and> length (cr_uri res) \<le> x - u0 \<and>
    (\<forall>e. cr_exten res = Some e \<longrightarrow> ch_slash \<notin> set e \<and> (\<exists>dir. cr_uri res = dir @ ch_dot # e))"
  using complex_uri_result [OF assms] by blast

subsection \<open>Agreement with a stack of segments\<close>

text \<open>The bytes of a segment that stand for themselves.\<close>

definition plain_char :: "u_char \<Rightarrow> bool" where
  "plain_char ch \<longleftrightarrow> ch \<notin> {ch_slash, ch_percent, ch_question, ch_hash}"

text \<open>The reference: segments are pushed on a stack, a dot segment does nothing and a double dot
  segment pops; popping the empty stack is an error.\<close>

fun resolve :: "ngx_str list \<Rightarrow> ngx_str list \<Rightarrow> ngx_str list option" where
  "resolve stack [] = Some stack"
| "resolve stack (w # ws) =
     (if w = [ch_dot] then resolve stack ws
      else if w = [ch_dot, ch_dot] then (case stack of [] \<Rightarrow> None | v # stack' \<Rightarrow> resolve stack' ws)
      else resolve (w # stack) ws)"

fun render :: "ngx_str list \<Rightarrow> ngx_str" where
  "render [] = []"
| "render (w # stack) = render stack @ ch_slash # w"

definition uri_text :: "ngx_str list \<Rightarrow> ngx_str \<Rightarrow> ngx_str" where
  "uri_text ws w = ch_slash # concat (map (\<lambda>w. w @ [ch_slash]) ws) @ w"

lemma nth_here: "(pre @ c # rest) ! length pre = c"
  by simp

lemma cx_scan_Break:
  "cx_step m (pre @ c # rest) (length pre) s x = Break s' x' \<Longrightarrow> length pre < lim \<Longrightarrow>
   scan (cx_step m) (pre @ c # rest) lim (length pre) s x = scan (cx_step m) (pre @ c # rest) lim (length (pre @ [c])) s' x'"
  by (simp add: scan_Break)

lemma cx_usual_plain:
  "plain_char c \<Longrightarrow> \<exists>x'. cx_usual p c x = Break (Path sw_usual) x' \<and> cx_u x' = cx_u x @ [c]"
  by (auto simp: cx_usual_def plain_char_def usual_iff cx_put_def cx_set_def)

lemma cx_scan_usual:
  "list_all plain_char w \<Longrightarrow> length (pre @ w) \<le> lim \<Longrightarrow>
   \<exists>x'. scan (cx_step m) (pre @ w @ rest) lim (length pre) (Path sw_usual) x =
        scan (cx_step m) (pre @ w @ rest) lim (length (pre @ w)) (Path sw_usual) x' \<and> cx_u x' = cx_u x @ w"
proof (induction w arbitrary: pre x)
  case (Cons c w)
  then obtain x1 where "cx_usual (length pre) c x = Break (Path sw_usual) x1" "cx_u x1 = cx_u x @ [c]"
    using cx_usual_plain [of c "length pre" x] by auto
  then have "scan (cx_step m) (pre @ c # w @ rest) lim (length pre) (Path sw_usual) x =
      scan (cx_step m) (pre @ c # w @ rest) lim (length (pre @ [c])) (Path sw_usual) x1"
    using Cons.prems by (intro cx_scan_Break) (auto simp: cx_step_def cx_path_def)
  then show ?case
    using Cons.IH [of "pre @ [c]" x1] Cons.prems \<open>cx_u x1 = cx_u x @ [c]\<close> by auto
qed auto

text \<open>The state in which a segment leaves the parser.\<close>

definition segment_state :: "ngx_str \<Rightarrow> path_state" where
  "segment_state w =
     (if w = [] then sw_slash else if w = [ch_dot] then sw_dot else if w = [ch_dot, ch_dot] then sw_dot_dot
      else sw_usual)"

lemma cx_step_segment:
  assumes "plain_char c" "s = segment_state w"
  shows "\<exists>x'. cx_path m p s c x = Break (Path (segment_state (w @ [c]))) x' \<and> cx_u x' = cx_u x @ [c]"
proof -
  have "w = [] \<or> w = [ch_dot] \<or> w = [ch_dot, ch_dot] \<or> s = sw_usual"
    using assms(2) by (auto simp: segment_state_def)
  then show ?thesis
    using assms cx_usual_plain [of c p x]
    by (elim disjE)
       (auto simp: cx_path_def segment_state_def plain_char_def usual_iff parser_step cx_put_def cx_set_def
         append_eq_Cons_conv split: if_splits)
qed

lemma cx_scan_segment:
  "list_all plain_char w \<Longrightarrow> length (pre @ w) \<le> lim \<Longrightarrow>
   \<exists>x'. scan (cx_step m) (pre @ w @ rest) lim (length pre) (Path (segment_state v)) x =
        scan (cx_step m) (pre @ w @ rest) lim (length (pre @ w)) (Path (segment_state (v @ w))) x' \<and>
        cx_u x' = cx_u x @ w"
proof (induction w arbitrary: pre x v)
  case (Cons c w)
  then obtain x1 where X: "cx_path m (length pre) (segment_state v) c x = Break (Path (segment_state (v @ [c]))) x1"
      "cx_u x1 = cx_u x @ [c]"
    using cx_step_segment [of c "segment_state v" v m "length pre" x] by auto
  then have "scan (cx_step m) (pre @ c # w @ rest) lim (length pre) (Path (segment_state v)) x =
      scan (cx_step m) (pre @ c # w @ rest) lim (length (pre @ [c])) (Path (segment_state (v @ [c]))) x1"
    using Cons.prems by (intro cx_scan_Break) (auto simp: cx_step_def)
  then show ?case
    using Cons.IH [of "pre @ [c]" "v @ [c]" x1] Cons.prems X(2) by auto
qed auto

text \<open>The slash behind a segment.\<close>

lemma cx_find_back:
  "j \<le> length s \<Longrightarrow> list_all plain_char s \<Longrightarrow>
   cx_find_slash (out @ ch_slash # s @ rest) (length out + j) = Some (length out + 1)"
proof (induction j)
  case 0
  then show ?case
    by (simp add: cx_find_slash.simps nth_append)
next
  case (Suc j)
  then have "(out @ ch_slash # s @ rest) ! (length out + Suc j) \<noteq> ch_slash"
    by (auto simp: nth_append list_all_length plain_char_def)
  then show ?case
    using Suc by (subst cx_find_slash.simps) simp
qed

lemma cx_slash_segment:
  assumes "cx_u x = render stack @ ch_slash # w" "w \<noteq> []"
    and "list_all (\<lambda>w. w \<noteq> [] \<and> list_all plain_char w) stack"
  shows "case resolve stack [w] of
      None \<Rightarrow> \<exists>x'. cx_path m p (segment_state w) ch_slash x = Return NGX_HTTP_PARSE_INVALID_REQUEST x'
    | Some stack' \<Rightarrow> \<exists>x'. cx_path m p (segment_state w) ch_slash x = Break (Path (segment_state [])) x' \<and>
        cx_u x' = render stack' @ [ch_slash]"
proof (cases "w = [ch_dot, ch_dot]")
  case True
  show ?thesis
  proof (cases stack)
    case Nil
    then show ?thesis
      using assms True by (simp add: cx_path_def segment_state_def cx_dot_dot_def usual_iff)
  next
    case (Cons s st)
    have U: "cx_u x = render st @ ch_slash # s @ [ch_slash, ch_dot, ch_dot]"
      using assms(1) True Cons by simp
    have S: "0 < length s" "list_all plain_char s"
      using assms(3) Cons by auto
    then have "length (cx_u x) - 5 = length (render st) + (length s - 1)" "\<not> length (cx_u x) < 5"
      using U by (auto simp: less_eq_Suc_le)
    moreover have "cx_find_slash (cx_u x) (length (render st) + (length s - 1)) = Some (length (render st) + 1)"
      unfolding U using S by (intro cx_find_back) simp_all
    ultimately show ?thesis
      using True Cons U by (simp add: cx_path_def segment_state_def cx_dot_dot_def usual_iff)
  qed
next
  case False
  then show ?thesis
    using assms by (auto simp: cx_path_def segment_state_def parser_step usual_iff cx_put_def cx_set_def)
qed

lemma resolve_Cons: "resolve stack (w # ws) = (case resolve stack [w] of None \<Rightarrow> None | Some stack' \<Rightarrow> resolve stack' ws)"
  by (auto split: list.splits)

lemma resolve_segments:
  "resolve stack [w] = Some stack' \<Longrightarrow> P w \<Longrightarrow> list_all P stack \<Longrightarrow> list_all P stack'"
  by (auto split: if_splits list.splits)

lemma cx_scan_segments:
  assumes "list_all (\<lambda>w. w \<noteq> [] \<and> list_all plain_char w) ws" "list_all (\<lambda>w. w \<noteq> [] \<and> list_all plain_char w) stack"
    and "cx_u x = render stack @ [ch_slash]" "length (pre @ concat (map (\<lambda>w. w @ [ch_slash]) ws)) \<le> lim"
  shows "case resolve stack ws of
      None \<Rightarrow> \<exists>x'. scan (cx_step m) (pre @ concat (map (\<lambda>w. w @ [ch_slash]) ws) @ rest) lim (length pre)
        (Path (segment_state [])) x = Returned NGX_HTTP_PARSE_INVALID_REQUEST x'
    | Some stack' \<Rightarrow> \<exists>x'. scan (cx_step m) (pre @ concat (map (\<lambda>w. w @ [ch_slash]) ws) @ rest) lim (length pre)
        (Path (segment_state [])) x =
        scan (cx_step m) (pre @ concat (map (\<lambda>w. w @ [ch_slash]) ws) @ rest) lim
          (length (pre @ concat (map (\<lambda>w. w @ [ch_slash]) ws))) (Path (segment_state [])) x' \<and>
        cx_u x' = render stack' @ [ch_slash]"
  using assms
proof (induction ws arbitrary: pre stack x)
  case Nil
  then show ?case by auto
next
  case (Cons w ws)
  let ?mem = "pre @ w @ [ch_slash] @ concat (map (\<lambda>w. w @ [ch_slash]) ws) @ rest"
  obtain x1 where A: "scan (cx_step m) ?mem lim (length pre) (Path (segment_state [])) x =
      scan (cx_step m) ?mem lim (length (pre @ w)) (Path (segment_state w)) x1" "cx_u x1 = cx_u x @ w"
    using cx_scan_segment [of w pre lim m "[ch_slash] @ concat (map (\<lambda>w. w @ [ch_slash]) ws) @ rest" "[]" x]
      Cons.prems by auto
  have N: "?mem ! length (pre @ w) = ch_slash" "length (pre @ w) < lim"
    using Cons.prems(4) by (simp_all add: nth_append)
  have B: "cx_u x1 = render stack @ ch_slash # w" "w \<noteq> []"
    using A(2) Cons.prems by auto
  note C = cx_slash_segment [OF B Cons.prems(2), of m "length (pre @ w)"]
  show ?case
  proof (cases "resolve stack [w]")
    case None
    then show ?thesis
      using A C N by (auto simp: scan_step cx_step_def resolve_Cons [of stack w ws] simp del: resolve.simps)
  next
    case (Some stack1)
    then obtain x2 where "cx_path m (length (pre @ w)) (segment_state w) ch_slash x1 = Break (Path (segment_state [])) x2"
        "cx_u x2 = render stack1 @ [ch_slash]"
      using C by auto
    moreover from this have "scan (cx_step m) ?mem lim (length (pre @ w)) (Path (segment_state w)) x1 =
        scan (cx_step m) ?mem lim (Suc (length (pre @ w))) (Path (segment_state [])) x2"
      using N by (intro scan_Break) (simp_all add: cx_step_def)
    moreover have "list_all (\<lambda>w. w \<noteq> [] \<and> list_all plain_char w) stack1"
      using resolve_segments [OF Some _ Cons.prems(2)] Cons.prems(1) by simp
    ultimately show ?thesis
      using Cons.IH [of stack1 x2 "pre @ w @ [ch_slash]"] Cons.prems A Some
      by (simp add: resolve_Cons [of stack w ws] del: resolve.simps split: option.splits)
  qed
qed

lemma cx_scan_text:
  assumes "list_all (\<lambda>w. w \<noteq> [] \<and> list_all plain_char w) ws" "list_all plain_char w"
    and "length (pre @ uri_text ws w) \<le> lim"
  shows "case resolve [] ws of
      None \<Rightarrow> \<exists>x'. scan (cx_step m) (pre @ uri_text ws w @ rest) lim (length pre) (Path sw_usual) (cx_init r) =
        Returned NGX_HTTP_PARSE_INVALID_REQUEST x'
    | Some stack \<Rightarrow> \<exists>x'. scan (cx_step m) (pre @ uri_text ws w @ rest) lim (length pre) (Path sw_usual) (cx_init r) =
        scan (cx_step m) (pre @ uri_text ws w @ rest) lim (length (pre @ uri_text ws w)) (Path (segment_state w)) x' \<and>
        cx_u x' = render stack @ ch_slash # w"
proof -
  let ?segs = "concat (map (\<lambda>w. w @ [ch_slash]) ws)"
  let ?mem = "pre @ uri_text ws w @ rest"
  have M: "?mem = (pre @ [ch_slash]) @ ?segs @ w @ rest" "?mem = (pre @ [ch_slash] @ ?segs) @ w @ rest"
    by (simp_all add: uri_text_def)
  let ?x0 = "cx_put ch_slash (cx_set (\<lambda>r. r\<lparr>uri_ext := None\<rparr>) (cx_init r))"
  have S: "segment_state [] = sw_slash" "?mem ! length pre = ch_slash" "length pre < lim"
    using assms(3) by (simp_all add: segment_state_def uri_text_def)
  then have A: "scan (cx_step m) ?mem lim (length pre) (Path sw_usual) (cx_init r) =
      scan (cx_step m) ?mem lim (length (pre @ [ch_slash])) (Path (segment_state [])) ?x0"
    by (simp add: scan_step cx_step_def cx_path_def cx_usual_def usual_iff)
  have U: "cx_u ?x0 = render [] @ [ch_slash]"
    by (simp add: cx_put_def cx_set_def cx_init_def)
  have L: "length ((pre @ [ch_slash]) @ ?segs) \<le> lim" "length ((pre @ [ch_slash] @ ?segs) @ w) \<le> lim"
    using assms(3) by (simp_all add: uri_text_def)
  note B = cx_scan_segments [OF assms(1) _ U L(1), of m "w @ rest", folded M, simplified]
  note C = cx_scan_segment [OF assms(2) L(2), of m rest "[]", folded M, simplified]
  show ?thesis
  proof (cases "resolve [] ws")
    case None
    then show ?thesis
      using A B by simp
  next
    case (Some stack)
    then obtain x1 where "scan (cx_step m) ?mem lim (length (pre @ [ch_slash])) (Path (segment_state [])) ?x0 =
        scan (cx_step m) ?mem lim (length (pre @ [ch_slash] @ ?segs)) (Path (segment_state [])) x1"
        "cx_u x1 = render stack @ [ch_slash]"
      using B by auto
    moreover obtain x2 where "scan (cx_step m) ?mem lim (length (pre @ [ch_slash] @ ?segs)) (Path (segment_state [])) x1 =
        scan (cx_step m) ?mem lim (length (pre @ uri_text ws w)) (Path (segment_state w)) x2" "cx_u x2 = cx_u x1 @ w"
      using C [of x1] by (auto simp: uri_text_def)
    ultimately show ?thesis
      using A Some by (auto intro!: exI [of _ x2])
  qed
qed





theorem complex_uri_normal_witness:
  "\<exists>res. ngx_http_parse_complex_uri (bytes ''/a/%2e./b.c'')
      (ngx_http_create_request\<lparr>uri_start := Some 0, uri_end := Some 11\<rparr>) True = Inr res \<and>
     normal_path True (cr_uri res) \<and> length (cr_uri res) \<le> 11"
proof -
  obtain res where R: "ngx_http_parse_complex_uri (bytes ''/a/%2e./b.c'')
      (ngx_http_create_request\<lparr>uri_start := Some 0, uri_end := Some 11\<rparr>) True = Inr res"
    by (simp add: ngx_http_parse_complex_uri_def scan_step scan_end cx_step_def cx_path_def parser_step usual_iff
        bytes_def cx_init_def cx_put_def cx_set_def cx_find_slash.simps Let_def)
  moreover have "bytes ''/a/%2e./b.c'' ! i \<noteq> ch_NUL" if "i < 11" for i
  proof -
    have "list_all (\<lambda>c. c \<noteq> ch_NUL) (bytes ''/a/%2e./b.c'')"
      by (simp add: bytes_def)
    then show ?thesis
      using that by (simp add: list_all_length bytes_def)
  qed
  ultimately show ?thesis
    using complex_uri_normal [OF R, of 0 11] by (simp add: bytes_def)
qed

end
