(* ===== verification/Http_Process_Uri.thy ===== *)
theory Http_Process_Uri
  imports Http_Request_Spec Http_Complex_Spec
begin

text \<open>
  \<open>ngx_http_process_request_uri\<close> of \<open>src/http/ngx_http_request.c\<close>: how the request line parser
  and the URI normalisation work together. A URI whose flags are clear is used as it stands in the
  buffer, any other one goes through \<open>ngx_http_parse_complex_uri\<close>. The lemmas show that the first
  way gives what the second one would, and that the path a request is served from is normalised
  either way.

  \<open>pnalloc_ok\<close> says whether the pool has memory for the copy. \<open>None\<close> stands for a string that is
  not assigned. The logging and the \<open>NGX_WIN32\<close> part are left out.
\<close>

subsection \<open>Definitions\<close>

datatype uri_failure = Close_request | Bad_request

record request_uri =
  ru_uri :: ngx_str
  ru_unparsed_uri :: ngx_str
  ru_valid_unparsed_uri :: bool
  ru_exten :: "ngx_str option"
  ru_args :: "ngx_str option"

text \<open>The part behind the \<open>if\<close>: \<open>unparsed_uri\<close>, \<open>exten\<close> and \<open>args\<close>.\<close>

definition pr_finish ::
  "ngx_str \<Rightarrow> ngx_http_request \<Rightarrow> ngx_str \<Rightarrow> ngx_str option \<Rightarrow> ngx_str option \<Rightarrow> request_uri"
where
  "pr_finish mem r uri exten args =
     \<lparr>ru_uri = uri,
      ru_unparsed_uri = slice mem (the (uri_start r)) (the (uri_end r)),
      ru_valid_unparsed_uri = (if space_in_uri r then False else True),
      ru_exten =
        (case uri_ext r of
           Some e \<Rightarrow>
             (case args_start r of
                Some a \<Rightarrow> Some (slice mem e (a - 1))
              | None \<Rightarrow> Some (slice mem e (the (uri_end r))))
         | None \<Rightarrow> exten),
      ru_args =
        (case args_start r of
           Some a \<Rightarrow> if the (uri_end r) > a then Some (slice mem a (the (uri_end r))) else args
         | None \<Rightarrow> args)\<rparr>"

definition ngx_http_process_request_uri ::
  "ngx_str \<Rightarrow> ngx_http_request \<Rightarrow> bool \<Rightarrow> bool \<Rightarrow> uri_failure + request_uri"
where
  "ngx_http_process_request_uri mem r merge_slashes pnalloc_ok =
     (let len = (case args_start r of
                   Some a \<Rightarrow> a - 1 - the (uri_start r)
                 | None \<Rightarrow> the (uri_end r) - the (uri_start r))
      in if complex_uri r \<or> quoted_uri r then
           if \<not> pnalloc_ok then Inl Close_request
           else (case ngx_http_parse_complex_uri mem r merge_slashes of
                   Inl rc \<Rightarrow> Inl Bad_request
                 | Inr res \<Rightarrow> Inr (pr_finish mem (cr_r res) (cr_uri res) (cr_exten res) (cr_args res)))
         else Inr (pr_finish mem r (slice mem (the (uri_start r)) (the (uri_start r) + len)) None None))"

subsection \<open>The shortcut agrees with the normalisation\<close>

text \<open>The normalisation copies a path that is already normal, and the line's pointers stay.\<close>

definition cx_copied :: "ngx_str \<Rightarrow> nat \<Rightarrow> nat \<Rightarrow> complex_state \<Rightarrow> complex_locals \<Rightarrow> bool" where
  "cx_copied mem u p st y \<longleftrightarrow>
     u \<le> p \<and> cx_u y = slice mem u p \<and>
     st = Path (if u < p \<and> mem ! (p - 1) = ch_slash then sw_slash else sw_usual)"

lemma cx_step_copied:
  assumes "path_normal mem u e" "mem ! u = ch_slash" "p < e" "e \<le> length mem" "cx_copied mem u p st y"
  shows "\<exists>st' y'. cx_step m mem p st y = Break st' y' \<and> cx_copied mem u (Suc p) st' y'"
proof -
  have C: "u \<le> p" "cx_u y = slice mem u p" "slice mem u (Suc p) = slice mem u p @ [mem ! p]"
    using assms(3-5) by (auto simp: cx_copied_def slice_Suc)
  have N: "mem ! p \<noteq> ch_percent" "mem ! p \<noteq> ch_hash" "mem ! p \<noteq> ch_question"
    using assms(1,3) C(1) by (auto simp: path_normal_def)
  show ?thesis
  proof (cases "u < p \<and> mem ! (p - 1) = ch_slash")
    case True
    moreover have "p - 1 < e \<and> u \<le> p - 1 \<and> p - 1 + 1 = p"
      using True assms(3) by auto
    ultimately have "mem ! p \<noteq> ch_slash" "mem ! p \<noteq> ch_dot"
      using assms(1,3) unfolding path_normal_def by metis+
    then show ?thesis
      using True C N assms(5) by (auto simp: cx_copied_def cx_step_def cx_path_def cx_slash_def cx_put_def cx_set_def usual_iff Let_def)
  next
    case False
    then have "st = Path sw_usual"
      using assms(5) by (auto simp: cx_copied_def)
    then show ?thesis
      using C N by (auto simp: cx_copied_def cx_step_def cx_path_def cx_usual_def cx_put_def cx_set_def usual_iff Let_def)
  qed
qed

lemma cx_scan_copied:
  assumes "path_normal mem u e" "mem ! u = ch_slash" "u \<le> e" "e \<le> lim" "lim \<le> length mem"
  shows "\<exists>st y. scan (cx_step m) mem lim u (Path sw_usual) (cx_init r) = scan (cx_step m) mem lim e st y \<and>
    cx_copied mem u e st y"
proof (rule scan_until)
  show "cx_copied mem u u (Path sw_usual) (cx_init r)"
    by (simp add: cx_copied_def cx_init_def)
qed (use assms cx_step_copied [OF assms(1,2)] in auto)

lemma complex_uri_copies:
  assumes "path_normal mem u e" "mem ! u = ch_slash" "u < e" "e \<le> x" "x \<le> length mem"
    and "e = x \<or> mem ! e = ch_question" "uri_start r = Some u" "uri_end r = Some x"
  shows "\<exists>res. ngx_http_parse_complex_uri mem r m = Inr res \<and> cr_uri res = slice mem u e"
proof -
  obtain st y where S: "scan (cx_step m) mem x u (Path sw_usual) (cx_init r) = scan (cx_step m) mem x e st y"
      "cx_copied mem u e st y"
    using cx_scan_copied [OF assms(1,2) _ assms(4,5), of m r] assms(3) by (metis less_imp_le)
  show ?thesis
  proof (cases "e = x")
    case True
    then show ?thesis
      using S assms(7,8) by (simp add: ngx_http_parse_complex_uri_def scan_end cx_finish_def cx_copied_def)
  next
    case False
    then have "e < x" "mem ! e = ch_question"
      using assms(4,6) by auto
    then show ?thesis
      using S assms(7,8)
      by (auto simp: ngx_http_parse_complex_uri_def scan_step cx_step_def cx_path_def cx_usual_def cx_slash_def
          usual_iff cx_args_def cx_finish_def cx_copied_def cx_set_def split: option.splits)
  qed
qed

lemma cx_step_same:
  "case cx_step m mem p st y of
     Break st' y' \<Rightarrow> uri_start (cx_r y') = uri_start (cx_r y) \<and> uri_end (cx_r y') = uri_end (cx_r y)
   | Goto l y' \<Rightarrow> uri_start (cx_r y') = uri_start (cx_r y) \<and> uri_end (cx_r y') = uri_end (cx_r y)
   | Return rc y' \<Rightarrow> True"
  by (cases st; cases "cx_quoted_state y")
     (auto simp: cx_step_def cx_path_def parser_step cx_put_def cx_set_def Let_def split: path_state.splits option.splits)

lemma complex_uri_same:
  assumes "ngx_http_parse_complex_uri mem r m = Inr res"
  shows "uri_start (cr_r res) = uri_start r \<and> uri_end (cr_r res) = uri_end r"
proof -
  let ?I = "\<lambda>p st y. uri_start (cx_r y) = uri_start r \<and> uri_end (cx_r y) = uri_end r"
  have "case scan (cx_step m) mem (the (uri_end r)) (the (uri_start r)) (Path sw_usual) (cx_init r) of
      Stopped p' s' r' \<Rightarrow> ?I p' s' r' \<and> \<not> p' < the (uri_end r)
    | Finished p' l r' \<Rightarrow> \<exists>s0 r0. ?I p' s0 r0 \<and> p' < the (uri_end r) \<and> cx_step m mem p' s0 r0 = Goto l r'
    | Returned rc r' \<Rightarrow> \<exists>p0 s0 r0. ?I p0 s0 r0 \<and> p0 < the (uri_end r) \<and> cx_step m mem p0 s0 r0 = Return rc r'"
  proof (rule scan_rule)
    fix p s y s' y'
    assume "?I p s y" "cx_step m mem p s y = Break s' y'"
    then show "?I (Suc p) s' y'"
      using cx_step_same [where m = m and mem = mem and p = p and st = s and y = y] by simp
  qed (simp add: cx_init_def)
  moreover have "?I p l y'" if "cx_step m mem p s y = Goto l y'" "?I p s y" for p s y l y'
    using cx_step_same [where m = m and mem = mem and p = p and st = s and y = y] that by simp
  ultimately show ?thesis
    using assms
    by (auto simp: ngx_http_parse_complex_uri_def cx_args_def cx_finish_def cx_set_def
        split: scanned.splits complex_label.splits option.splits)
qed

subsection \<open>The path a request is served from\<close>

lemma path_normal_normal_path:
  assumes "path_normal mem u e" "e \<le> length mem"
  shows "normal_path m (slice mem u e)"
proof -
  have "\<not> sublist (ch_slash # c # ws) (slice mem u e)" if "c = ch_slash \<or> c = ch_dot" for c ws
    using path_normal_slice(2) [OF assms, of _ c] that by (fastforce simp: sublist_def)
  then show ?thesis
    by (simp add: normal_path_def)
qed

text \<open>The pointers of an accepted line.\<close>

lemma accepted_uri:
  assumes "ngx_http_parse_request_line mem 0 request_line_state.sw_start ngx_http_create_request = (NGX_OK, s, r, pos)"
  obtains u e x where "uri_start r = Some u" "uri_end r = Some x" "e = path_end (args_start r) x"
    "u < e" "e \<le> x" "x \<le> length mem" "mem ! u = ch_slash"
    "args_start r \<noteq> None \<longrightarrow> path_normal mem u e \<and> mem ! e = ch_question" "args_start r = None \<longrightarrow> e = x"
    "\<not> complex_uri r \<and> \<not> quoted_uri r \<longrightarrow> path_normal mem u e"
    "\<And>i. u \<le> i \<Longrightarrow> i < x \<Longrightarrow> mem ! i \<noteq> ch_NUL"
proof -
  obtain q p where D: "p < length mem" "q \<le> p" "uri_done mem q r"
    using rl_accepted [OF assms, simplified] by blast
  obtain u x where U: "uri_start r = Some u" "uri_end r = Some x" "u < x" "x \<le> q" "mem ! u = ch_slash"
      "\<And>i. u \<le> i \<Longrightarrow> i < x \<Longrightarrow> uri_char (mem ! i)"
    using D(3) by (cases "uri_start r"; cases "uri_end r"; cases "method_end r") (auto simp: uri_done_def)
  define e where "e = path_end (args_start r) x"
  have A: "u < a \<and> a \<le> x \<and> mem ! (a - 1) = ch_question \<and> path_normal mem u (a - 1)" if "args_start r = Some a" for a
    using D(3) U that by (simp add: uri_done_def)
  have "u < e \<and> e \<le> x"
  proof (cases "args_start r")
    case (Some a)
    then have "a - 1 \<noteq> u"
      using A U(5) by auto
    then show ?thesis
      using A [OF Some] Some by (auto simp: e_def path_end_def)
  qed (use U in \<open>simp add: e_def path_end_def\<close>)
  moreover have "args_start r \<noteq> None \<longrightarrow> path_normal mem u e \<and> mem ! e = ch_question"
    using A by (auto simp: e_def path_end_def)
  moreover have "\<not> complex_uri r \<and> \<not> quoted_uri r \<longrightarrow> path_normal mem u e"
    using D(3) U by (simp add: uri_done_def e_def)
  moreover have "mem ! i \<noteq> ch_NUL" if "u \<le> i" "i < x" for i
    using U(6) [OF that] by (auto simp: uri_char_def)
  moreover have "x \<le> length mem" "args_start r = None \<longrightarrow> e = x"
    using U(4) D by (simp_all add: e_def path_end_def)
  ultimately show thesis
    using U e_def by (intro that [of u x e]) blast+
qed

text \<open>C9. For an accepted line with both flags clear, the path taken as it stands in the buffer
  is byte for byte the one \<open>ngx_http_parse_complex_uri\<close> would have written: skipping the
  normalisation changes nothing.\<close>

theorem request_uri_shortcut:
  assumes "ngx_http_parse_request_line mem 0 request_line_state.sw_start ngx_http_create_request = (NGX_OK, s, r, pos)"
    and "\<not> complex_uri r" "\<not> quoted_uri r"
  shows "\<exists>ru res. ngx_http_process_request_uri mem r merge_slashes pnalloc_ok = Inr ru \<and>
    ngx_http_parse_complex_uri mem r m = Inr res \<and> ru_uri ru = cr_uri res"
proof -
  obtain u e x where U: "uri_start r = Some u" "uri_end r = Some x" "e = path_end (args_start r) x"
      "u < e" "e \<le> x" "x \<le> length mem" "mem ! u = ch_slash" "path_normal mem u e"
      "args_start r \<noteq> None \<longrightarrow> mem ! e = ch_question" "args_start r = None \<longrightarrow> e = x"
    using accepted_uri [OF assms(1)] assms(2,3) by metis
  then obtain res where "ngx_http_parse_complex_uri mem r m = Inr res" "cr_uri res = slice mem u e"
    using complex_uri_copies [of mem u e x r m] by auto
  moreover have "u + (case args_start r of Some a \<Rightarrow> a - 1 - u | None \<Rightarrow> x - u) = e"
    using U(3,4) by (auto simp: path_end_def split: option.splits)
  ultimately show ?thesis
    using U(1,2) assms(2,3) by (simp add: ngx_http_process_request_uri_def pr_finish_def cong: option.case_cong)
qed

theorem request_uri_shortcut_witness:
  "case ngx_http_parse_request_line (bytes ''GET /a.b?c HTTP/1.0'' @ [ch_CR, ch_LF]) 0 request_line_state.sw_start
       ngx_http_create_request of (rc, s, r, pos) \<Rightarrow>
     \<exists>ru res. ngx_http_process_request_uri (bytes ''GET /a.b?c HTTP/1.0'' @ [ch_CR, ch_LF]) r True True = Inr ru \<and>
       ngx_http_parse_complex_uri (bytes ''GET /a.b?c HTTP/1.0'' @ [ch_CR, ch_LF]) r True = Inr res \<and>
       ru_uri ru = cr_uri res"
proof -
  let ?mem = "bytes ''GET /a.b?c HTTP/1.0'' @ [ch_CR, ch_LF]"
  obtain s r pos where "ngx_http_parse_request_line ?mem 0 request_line_state.sw_start ngx_http_create_request = (NGX_OK, s, r, pos)"
      "\<not> complex_uri r" "\<not> quoted_uri r"
    by (simp add: ngx_http_parse_request_line_def scan_step rl_step.simps parser_step Let_def usual_iff bytes_def
        ngx_http_create_request_def rl_done_def rl_method_code_def ngx_str3_cmp_def is_alpha_def is_digit_def)
  then show ?thesis
    using request_uri_shortcut [of ?mem s r pos True True True] by simp
qed

text \<open>C1. The path a request is served from is normalised, whichever way it was obtained: it
  starts with a slash, holds no zero byte and no \<open>/./\<close> or \<open>/../\<close>, and with \<open>merge_slashes\<close> no
  double slash. It also fits the \<open>uri.len + 1\<close> bytes allocated for it, where \<open>uri.len\<close> leaves out
  the arguments: these are only split off behind a path that needs no normalisation.\<close>

theorem request_uri_normal:
  assumes "ngx_http_parse_request_line mem 0 request_line_state.sw_start ngx_http_create_request = (NGX_OK, s, r, pos)"
    and "ngx_http_process_request_uri mem r merge_slashes pnalloc_ok = Inr ru"
  shows "(\<exists>tl. ru_uri ru = ch_slash # tl) \<and> ch_NUL \<notin> set (ru_uri ru) \<and> normal_path merge_slashes (ru_uri ru) \<and>
    ru_unparsed_uri ru = slice mem (the (uri_start r)) (the (uri_end r)) \<and>
    length (ru_uri ru) \<le> path_end (args_start r) (the (uri_end r)) - the (uri_start r)"
proof -
  obtain u e x where U: "uri_start r = Some u" "uri_end r = Some x" "e = path_end (args_start r) x"
      "u < e" "e \<le> x" "x \<le> length mem" "mem ! u = ch_slash"
      and N: "\<not> complex_uri r \<and> \<not> quoted_uri r \<longrightarrow> path_normal mem u e"
      and A: "args_start r \<noteq> None \<longrightarrow> path_normal mem u e \<and> mem ! e = ch_question" "args_start r = None \<longrightarrow> e = x"
      and Z: "\<And>i. u \<le> i \<Longrightarrow> i < x \<Longrightarrow> mem ! i \<noteq> ch_NUL"
    using accepted_uri [OF assms(1)] by metis
  have copy: "(\<exists>tl. slice mem u e = ch_slash # tl) \<and> ch_NUL \<notin> set (slice mem u e) \<and> length (slice mem u e) \<le> e - u"
  proof -
    have "slice mem u e = ch_slash # slice mem (u + 1) e"
      using U by (simp add: slice_def Cons_nth_drop_Suc [symmetric] take_Cons')
    moreover have "ch_NUL \<notin> set (slice mem u e)"
      using U Z by (auto simp: in_set_conv_nth slice_nth length_slice)
    ultimately show ?thesis
      using U by (simp add: length_slice)
  qed
  show ?thesis
  proof (cases "complex_uri r \<or> quoted_uri r")
    case True
    then obtain res where R: "ngx_http_parse_complex_uri mem r merge_slashes = Inr res"
        "ru = pr_finish mem (cr_r res) (cr_uri res) (cr_exten res) (cr_args res)"
      using assms(2) by (auto simp: ngx_http_process_request_uri_def split: if_splits sum.splits)
    have "(\<exists>tl. cr_uri res = ch_slash # tl) \<and> ch_NUL \<notin> set (cr_uri res) \<and> normal_path merge_slashes (cr_uri res) \<and>
        length (cr_uri res) \<le> e - u"
    proof (cases "args_start r")
      case None
      then show ?thesis
        using complex_uri_result [OF R(1) U(1,2) _ U(7) Z] U(4) A(2) by auto
    next
      case (Some a)
      then have "path_normal mem u e" "mem ! e = ch_question"
        using A(1) by auto
      then show ?thesis
        using complex_uri_copies [of mem u e x r merge_slashes] U R(1) copy
          path_normal_normal_path [of mem u e merge_slashes] by auto
    qed
    then show ?thesis
      using R U complex_uri_same [OF R(1)] by (simp add: pr_finish_def)
  next
    case False
    have "u + (case args_start r of Some a \<Rightarrow> a - 1 - u | None \<Rightarrow> x - u) = e"
      using U(3,4) by (auto simp: path_end_def split: option.splits)
    then have "ru = pr_finish mem r (slice mem u e) None None"
      using assms(2) False U(1,2) by (simp add: ngx_http_process_request_uri_def cong: option.case_cong)
    then show ?thesis
      using U copy N False path_normal_normal_path [of mem u e merge_slashes] by (simp add: pr_finish_def)
  qed
qed

theorem request_uri_normal_witness:
  "case ngx_http_parse_request_line (bytes ''GET //a/%2e/b HTTP/1.0'' @ [ch_CR, ch_LF]) 0 request_line_state.sw_start
       ngx_http_create_request of (rc, s, r, pos) \<Rightarrow>
     \<exists>ru. ngx_http_process_request_uri (bytes ''GET //a/%2e/b HTTP/1.0'' @ [ch_CR, ch_LF]) r True True = Inr ru \<and>
       normal_path True (ru_uri ru)"
proof -
  let ?mem = "bytes ''GET //a/%2e/b HTTP/1.0'' @ [ch_CR, ch_LF]"
  obtain s r pos ru where "ngx_http_parse_request_line ?mem 0 request_line_state.sw_start ngx_http_create_request = (NGX_OK, s, r, pos)"
      "ngx_http_process_request_uri ?mem r True True = Inr ru"
    by (simp add: ngx_http_parse_request_line_def scan_step scan_end rl_step.simps parser_step Let_def usual_iff bytes_def
        ngx_http_create_request_def rl_done_def rl_method_code_def ngx_str3_cmp_def is_alpha_def is_digit_def ngx_http_process_request_uri_def ngx_http_parse_complex_uri_def
        cx_step_def cx_path_def cx_init_def cx_put_def cx_set_def)
  then show ?thesis
    using request_uri_normal [of ?mem s r pos True True ru] by simp
qed

end
