(* ===== verification/Http_Status_Line.thy ===== *)
theory Http_Status_Line
  imports Http_Base
begin

text \<open>
  \<open>ngx_http_parse_status_line\<close> of \<open>src/http/ngx_http_parse.c\<close>, which reads the status line of an
  upstream server's response. One definition per \<open>case\<close> of its switch; the parser writes to the
  request (the version) and to the status record, so it works on the pair of them.
\<close>

subsection \<open>Definitions\<close>

datatype status_line_state =
  sw_start | sw_H | sw_HT | sw_HTT | sw_HTTP | sw_first_major_digit | sw_major_digit
| sw_first_minor_digit | sw_minor_digit | sw_status | sw_space_after_status | sw_status_text
| sw_almost_done

datatype status_line_label = L_done

record ngx_http_status =
  st_http_version :: nat
  st_code :: nat
  st_count :: nat
  st_start :: ptr
  st_end :: ptr

type_synonym status_locals = "ngx_http_request \<times> ngx_http_status"
type_synonym sl_outcome = "(status_line_state, status_line_label, status_locals) outcome"

definition sl_literal :: "u_char \<Rightarrow> status_line_state \<Rightarrow> u_char \<Rightarrow> status_locals \<Rightarrow> sl_outcome" where [parser_step]:
  "sl_literal expected next_state ch x =
     (if ch = expected then Break next_state x else Return NGX_ERROR x)"

definition sl_first_major_digit :: "u_char \<Rightarrow> status_locals \<Rightarrow> sl_outcome" where [parser_step]:
  "sl_first_major_digit ch x =
     (case x of (r, st) \<Rightarrow>
        if ch < ch_1 \<or> ch > ch_9 then Return NGX_ERROR x
        else Break sw_major_digit (r\<lparr>http_major := unat ch - 48\<rparr>, st))"

definition sl_major_digit :: "u_char \<Rightarrow> status_locals \<Rightarrow> sl_outcome" where [parser_step]:
  "sl_major_digit ch x =
     (case x of (r, st) \<Rightarrow>
        if ch = ch_dot then Break sw_first_minor_digit x
        else if ch < ch_0 \<or> ch > ch_9 then Return NGX_ERROR x
        else if http_major r > 99 then Return NGX_ERROR x
        else Break sw_major_digit (r\<lparr>http_major := (http_major r * 10 + unat ch - 48) mod 2 ^ 16\<rparr>, st))"

definition sl_first_minor_digit :: "u_char \<Rightarrow> status_locals \<Rightarrow> sl_outcome" where [parser_step]:
  "sl_first_minor_digit ch x =
     (case x of (r, st) \<Rightarrow>
        if ch < ch_0 \<or> ch > ch_9 then Return NGX_ERROR x
        else Break sw_minor_digit (r\<lparr>http_minor := unat ch - 48\<rparr>, st))"

definition sl_minor_digit :: "u_char \<Rightarrow> status_locals \<Rightarrow> sl_outcome" where [parser_step]:
  "sl_minor_digit ch x =
     (case x of (r, st) \<Rightarrow>
        if ch = ch_space then Break sw_status x
        else if ch < ch_0 \<or> ch > ch_9 then Return NGX_ERROR x
        else if http_minor r > 99 then Return NGX_ERROR x
        else Break sw_minor_digit (r\<lparr>http_minor := (http_minor r * 10 + unat ch - 48) mod 2 ^ 16\<rparr>, st))"

text \<open>\<open>code\<close> and \<open>count\<close> are 64-bit.\<close>

definition sl_status :: "nat \<Rightarrow> u_char \<Rightarrow> status_locals \<Rightarrow> sl_outcome" where [parser_step]:
  "sl_status p ch x =
     (case x of (r, st) \<Rightarrow>
        if ch = ch_space then Break sw_status x
        else if ch < ch_0 \<or> ch > ch_9 then Return NGX_ERROR x
        else
          let st = st\<lparr>st_code := (st_code st * 10 + unat ch - 48) mod 2 ^ 64, st_count := (st_count st + 1) mod 2 ^ 64\<rparr> in
          if st_count st = 3 then Break sw_space_after_status (r, st\<lparr>st_start := Some (p - 2)\<rparr>)
          else Break sw_status (r, st))"

definition sl_space_after_status :: "u_char \<Rightarrow> status_locals \<Rightarrow> sl_outcome" where [parser_step]:
  "sl_space_after_status ch x =
     (if ch = ch_space then Break sw_status_text x
      else if ch = ch_dot then Break sw_status_text x
      else if ch = ch_CR then Break sw_almost_done x
      else if ch = ch_LF then Goto L_done x
      else Return NGX_ERROR x)"

definition sl_status_text :: "u_char \<Rightarrow> status_locals \<Rightarrow> sl_outcome" where [parser_step]:
  "sl_status_text ch x =
     (if ch = ch_CR then Break sw_almost_done x
      else if ch = ch_LF then Goto L_done x
      else Break sw_status_text x)"

definition sl_almost_done :: "nat \<Rightarrow> u_char \<Rightarrow> status_locals \<Rightarrow> sl_outcome" where [parser_step]:
  "sl_almost_done p ch x =
     (case x of (r, st) \<Rightarrow>
        let x = (r, st\<lparr>st_end := Some (p - 1)\<rparr>) in
        if ch = ch_LF then Goto L_done x else Return NGX_ERROR x)"

fun sl_step :: "ngx_str \<Rightarrow> nat \<Rightarrow> status_line_state \<Rightarrow> status_locals \<Rightarrow> sl_outcome" where
  "sl_step mem p state x =
     (let ch = mem ! p in
      case state of
        sw_start \<Rightarrow> sl_literal ch_H sw_H ch x
      | sw_H \<Rightarrow> sl_literal ch_T sw_HT ch x
      | sw_HT \<Rightarrow> sl_literal ch_T sw_HTT ch x
      | sw_HTT \<Rightarrow> sl_literal ch_P sw_HTTP ch x
      | sw_HTTP \<Rightarrow> sl_literal ch_slash sw_first_major_digit ch x
      | sw_first_major_digit \<Rightarrow> sl_first_major_digit ch x
      | sw_major_digit \<Rightarrow> sl_major_digit ch x
      | sw_first_minor_digit \<Rightarrow> sl_first_minor_digit ch x
      | sw_minor_digit \<Rightarrow> sl_minor_digit ch x
      | sw_status \<Rightarrow> sl_status p ch x
      | sw_space_after_status \<Rightarrow> sl_space_after_status ch x
      | sw_status_text \<Rightarrow> sl_status_text ch x
      | sw_almost_done \<Rightarrow> sl_almost_done p ch x)"

text \<open>The code at the label \<open>done\<close>.\<close>

definition sl_done :: "nat \<Rightarrow> status_locals \<Rightarrow> int \<times> status_line_state \<times> status_locals \<times> nat" where
  "sl_done p x =
     (case x of (r, st) \<Rightarrow>
        let st = (if st_end st = None then st\<lparr>st_end := Some p\<rparr> else st);
            st = st\<lparr>st_http_version := http_major r * 1000 + http_minor r\<rparr>
        in (NGX_OK, sw_start, (r, st), p + 1))"

definition ngx_http_parse_status_line ::
  "ngx_str \<Rightarrow> nat \<Rightarrow> status_line_state \<Rightarrow> status_locals \<Rightarrow>
   int \<times> status_line_state \<times> status_locals \<times> nat"
where
  "ngx_http_parse_status_line mem pos state x =
     (case scan sl_step mem (length mem) pos state x of
        Stopped p state' x' \<Rightarrow> (NGX_AGAIN, state', x', p)
      | Finished p L_done x' \<Rightarrow> sl_done p x'
      | Returned rc x' \<Rightarrow> (rc, state, x', pos))"

declare sl_step.simps [simp del]

text \<open>A cleared status record, as \<open>ngx_pcalloc\<close> gives it.\<close>

definition fresh_status :: ngx_http_status where
  "fresh_status = \<lparr>st_http_version = 0, st_code = 0, st_count = 0, st_start = None, st_end = None\<rparr>"

subsection \<open>Input in pieces\<close>

lemma sl_return_rc: "sl_step mem p s x = Return rc x' \<Longrightarrow> rc = NGX_ERROR"
  by (cases s) (auto simp: sl_step.simps parser_step Let_def split: if_splits prod.splits)

lemma sl_done_rc: "fst (sl_done p x) \<noteq> NGX_AGAIN"
  by (simp add: sl_done_def Let_def split: prod.splits)

interpretation sl: resumable_parser sl_step "\<lambda>_ _ _ _. True" ngx_http_parse_status_line
  "\<lambda>s x. x" "\<lambda>x. x" "\<lambda>l. sl_done" "\<lambda>q x. x" "{NGX_ERROR}"
proof
  show "p < length mem \<Longrightarrow> sl_step (mem @ rest) p s x = sl_step mem p s x" for mem p s x rest
    by (simp add: sl_step.simps nth_append)
qed (auto simp: ngx_http_parse_status_line_def sl_done_rc dest: sl_return_rc
       split: scanned.splits status_line_label.splits)

text \<open>However an upstream's bytes arrive, the status line parser gives the answer it gives
  on all of them at once; after an error only the code is compared.\<close>

theorem status_line_incremental:
  "same_answer {NGX_ERROR}
     (ngx_http_parse_status_line (mem @ concat cs) 0 s x)
     (feed ngx_http_parse_status_line mem 0 s x cs)"
  by (rule sl.feed_concat) simp_all

subsection \<open>What an accepted line looks like\<close>

definition dec_value :: "ngx_str \<Rightarrow> nat" where
  "dec_value cs = foldl (\<lambda>v c. v * 10 + (unat c - 48)) 0 cs"

lemma dec_value_snoc: "dec_value (cs @ [c]) = dec_value cs * 10 + (unat c - 48)"
  by (simp add: dec_value_def)

definition is_digit_byte :: "u_char \<Rightarrow> bool" where
  "is_digit_byte c \<longleftrightarrow> ch_0 \<le> c \<and> c \<le> ch_9"

lemma dec_value_bound: "list_all is_digit_byte cs \<Longrightarrow> dec_value cs < 10 ^ length cs"
proof (induction cs rule: rev_induct)
  case (snoc c cs)
  then have "unat c - 48 < 10"
    using unat_digit(1) [of c] by (auto simp: is_digit_byte_def not_less)
  then show ?case
    using snoc by (simp add: dec_value_snoc)
qed (simp add: dec_value_def)

text \<open>The digits of the status code among the bytes from \<open>k\<close> to \<open>p\<close>; the parser skips spaces
  between them.\<close>

definition code_digits :: "ngx_str \<Rightarrow> nat \<Rightarrow> nat \<Rightarrow> ngx_str" where
  "code_digits mem k p = filter (\<lambda>c. c \<noteq> ch_space) (slice mem k p)"

definition code_run :: "ngx_str \<Rightarrow> nat \<Rightarrow> ngx_http_status \<Rightarrow> bool" where
  "code_run mem p st \<longleftrightarrow>
     (\<exists>k\<le>p. list_all is_digit_byte (code_digits mem k p) \<and> st_count st = length (code_digits mem k p) \<and>
        st_code st = dec_value (code_digits mem k p))"

definition code_done :: "ngx_str \<Rightarrow> nat \<Rightarrow> ngx_http_status \<Rightarrow> bool" where
  "code_done mem p st \<longleftrightarrow>
     (\<exists>i. st_start st = Some i \<and> i + 3 \<le> p \<and> code_run mem (i + 3) st \<and> st_count st = 3 \<and>
        (\<forall>j. i \<le> j \<longrightarrow> j < p \<longrightarrow> mem ! j \<noteq> ch_CR \<and> mem ! j \<noteq> ch_LF))"

definition sl_version :: "ngx_http_request \<Rightarrow> bool" where
  "sl_version r \<longleftrightarrow> 1 \<le> http_major r \<and> http_major r \<le> 999 \<and> http_minor r \<le> 999"

definition sl_inv :: "ngx_str \<Rightarrow> nat \<Rightarrow> status_line_state \<Rightarrow> status_locals \<Rightarrow> bool" where
  "sl_inv mem p s x \<longleftrightarrow> p \<le> length mem \<and>
     (case x of (r, st) \<Rightarrow> st_end st = None \<and>
        (case s of
           sw_major_digit \<Rightarrow> st = fresh_status \<and> 1 \<le> http_major r \<and> http_major r \<le> 999
         | sw_first_minor_digit \<Rightarrow> st = fresh_status \<and> 1 \<le> http_major r \<and> http_major r \<le> 999
         | sw_minor_digit \<Rightarrow> st = fresh_status \<and> sl_version r
         | sw_status \<Rightarrow> sl_version r \<and> code_run mem p st \<and> st_count st < 3
         | sw_space_after_status \<Rightarrow> sl_version r \<and> code_done mem p st
         | sw_status_text \<Rightarrow> sl_version r \<and> code_done mem p st
         | sw_almost_done \<Rightarrow> sl_version r \<and> (\<exists>q. p = Suc q \<and> code_done mem q st \<and> mem ! q = ch_CR)
         | _ \<Rightarrow> st = fresh_status))"

lemma code_digits_Suc:
  "k \<le> p \<Longrightarrow> p < length mem \<Longrightarrow>
   code_digits mem k (Suc p) = code_digits mem k p @ (if mem ! p = ch_space then [] else [mem ! p])"
  by (simp add: code_digits_def slice_Suc)

lemma code_run_start: "code_run mem p fresh_status"
  by (auto simp: code_run_def code_digits_def fresh_status_def dec_value_def intro!: exI [of _ p])

lemma code_run_space: "code_run mem p st \<Longrightarrow> p < length mem \<Longrightarrow> mem ! p = ch_space \<Longrightarrow> code_run mem (Suc p) st"
  by (auto simp: code_run_def code_digits_Suc intro: exI [of _ "k" for k] dest: le_SucI)

lemma code_run_end: "code_run mem p (st\<lparr>st_start := x\<rparr>) = code_run mem p st"
  by (simp add: code_run_def)

lemma code_run_digit:
  assumes "code_run mem p st" "p < length mem" "is_digit_byte (mem ! p)" "st_count st < 3"
  shows "code_run mem (Suc p)
    (st\<lparr>st_code := (st_code st * 10 + unat (mem ! p) - 48) mod 2 ^ 64, st_count := (st_count st + 1) mod 2 ^ 64\<rparr>)"
proof -
  obtain k where K: "k \<le> p" "list_all is_digit_byte (code_digits mem k p)"
      "st_count st = length (code_digits mem k p)" "st_code st = dec_value (code_digits mem k p)"
    using assms(1) by (auto simp: code_run_def)
  have "mem ! p \<noteq> ch_space"
    using assms(3) by (auto simp: is_digit_byte_def)
  then have S: "code_digits mem k (Suc p) = code_digits mem k p @ [mem ! p]"
    using code_digits_Suc [OF K(1) assms(2)] by simp
  have D: "48 \<le> unat (mem ! p)" "unat (mem ! p) \<le> 57"
    using unat_digit(1) [of "mem ! p"] assms(3) by (auto simp: is_digit_byte_def not_less)
  have "st_code st < 10 ^ length (code_digits mem k p)"
    using dec_value_bound [OF K(2)] K(4) by simp
  also have "\<dots> \<le> 10 ^ 3"
    using K(3) assms(4) by (intro power_increasing) auto
  finally have "st_code st * 10 + unat (mem ! p) - 48 < 2 ^ 64"
    using D by simp
  then show ?thesis
    using K S D assms(3,4) by (auto simp: code_run_def dec_value_snoc intro!: exI [of _ k])
qed

text \<open>The third digit: the last three bytes are digits or spaces.\<close>

lemma code_run_third:
  assumes "code_run mem p st" "st_count st = 3" "p \<le> length mem" "p - 3 \<le> j" "j < p"
  shows "3 \<le> p \<and> (mem ! j = ch_space \<or> is_digit_byte (mem ! j))"
proof -
  obtain k where K: "k \<le> p" "list_all is_digit_byte (code_digits mem k p)" "length (code_digits mem k p) = 3"
    using assms(1,2) by (auto simp: code_run_def)
  have "length (code_digits mem k p) \<le> length (slice mem k p)"
    by (simp add: code_digits_def)
  then have "k + 3 \<le> p"
    using K assms(3) by (simp add: length_slice)
  then have "slice mem k p ! (j - k) = mem ! j" "j - k < length (slice mem k p)"
    using assms(3-5) slice_nth [of "j - k" p k mem] by (auto simp: length_slice)
  then have "mem ! j \<in> set (slice mem k p)"
    by (metis nth_mem)
  then show ?thesis
    using K(2) \<open>k + 3 \<le> p\<close> by (auto simp: code_digits_def list_all_iff)
qed

lemma code_done_start:
  assumes "code_run mem (Suc p) st" "st_count st = 3" "p < length mem"
  shows "code_done mem (Suc p) (st\<lparr>st_start := Some (p - 2)\<rparr>)"
proof -
  have T: "3 \<le> Suc p \<and> (mem ! j = ch_space \<or> is_digit_byte (mem ! j))" if "Suc p - 3 \<le> j" "j < Suc p" for j
    using code_run_third [OF assms(1,2) _ that] assms(3) by simp
  have "p - 2 + 3 = Suc p"
    using T [of p] by simp
  moreover have "mem ! j \<noteq> ch_CR \<and> mem ! j \<noteq> ch_LF" if "p - 2 \<le> j" "j < Suc p" for j
    using T [of j] that by (auto simp: is_digit_byte_def)
  ultimately show ?thesis
    using assms(1,2) by (simp add: code_done_def code_run_end)
qed

lemma code_done_Suc:
  "code_done mem p st \<Longrightarrow> mem ! p \<noteq> ch_CR \<Longrightarrow> mem ! p \<noteq> ch_LF \<Longrightarrow> code_done mem (Suc p) st"
  by (auto simp: code_done_def less_Suc_eq)

lemma sl_step_inv:
  assumes "sl_inv mem p s x" "p < length mem" "sl_step mem p s x = Break s' x'"
  shows "sl_inv mem (Suc p) s' x'"
proof (cases s)
  case sw_status
  obtain r st where X: "x = (r, st)" "st_end st = None" "sl_version r" "code_run mem p st" "st_count st < 3"
    using assms(1) sw_status by (cases x) (auto simp: sl_inv_def)
  show ?thesis
  proof (cases "mem ! p = ch_space")
    case True
    then show ?thesis
      using assms(2,3) X sw_status code_run_space [of mem p st] by (auto simp: sl_inv_def sl_step.simps sl_status_def)
  next
    case False
    let ?st = "st\<lparr>st_code := (st_code st * 10 + unat (mem ! p) - 48) mod 2 ^ 64, st_count := (st_count st + 1) mod 2 ^ 64\<rparr>"
    have D: "is_digit_byte (mem ! p)"
      using assms(3) X False sw_status by (auto simp: sl_step.simps sl_status_def is_digit_byte_def Let_def split: if_splits)
    then have R: "code_run mem (Suc p) ?st"
      using code_run_digit X(4,5) assms(2) by blast
    have E: "sl_step mem p s x =
        (if st_count ?st = 3 then Break sw_space_after_status (r, ?st\<lparr>st_start := Some (p - 2)\<rparr>)
         else Break sw_status (r, ?st))"
      using D False X(1) sw_status by (auto simp: sl_step.simps sl_status_def is_digit_byte_def Let_def)
    show ?thesis
    proof (cases "st_count ?st = 3")
      case True
      then show ?thesis
        using E R X assms(2,3) code_done_start [OF R True assms(2)] by (auto simp: sl_inv_def)
    next
      case False
      then show ?thesis
        using E R X assms(2,3) by (auto simp: sl_inv_def)
    qed
  qed
next
  case sw_minor_digit
  then show ?thesis
    using assms code_run_start [of mem "Suc p"] unat_digit(1) [of "mem ! p"]
    by (auto simp: sl_inv_def sl_step.simps parser_step sl_version_def fresh_status_def Let_def split: if_splits)
qed (use assms unat_digit [of "mem ! p"] in \<open>auto simp: sl_inv_def sl_step.simps parser_step sl_version_def Let_def
        intro: code_done_Suc split: if_splits\<close>)

lemma code_run_text:
  assumes "code_run mem (i + 3) st" "st_count st = 3" "i + 3 \<le> length mem" "ch_space \<notin> set (slice mem i (i + 3))"
  shows "st_code st = dec_value (slice mem i (i + 3))"
proof -
  obtain k where K: "k \<le> i + 3" "length (code_digits mem k (i + 3)) = 3" "st_code st = dec_value (code_digits mem k (i + 3))"
    using assms(1,2) by (auto simp: code_run_def)
  have "length (code_digits mem k (i + 3)) \<le> length (slice mem k (i + 3))"
    by (simp add: code_digits_def)
  then have "k \<le> i"
    using K assms(3) by (simp add: length_slice)
  then have S: "slice mem k (i + 3) = slice mem k i @ slice mem i (i + 3)"
    using take_add [of "i - k" 3 "drop k mem"] by (simp add: slice_def)
  have F: "filter (\<lambda>c. c \<noteq> ch_space) (slice mem i (i + 3)) = slice mem i (i + 3)"
    using assms(4) by (intro filter_True) auto
  then have "length (filter (\<lambda>c. c \<noteq> ch_space) (slice mem k i)) = 0"
    using K(2) S assms(3) by (simp add: code_digits_def length_slice)
  then have "code_digits mem k (i + 3) = slice mem i (i + 3)"
    using S F by (simp add: code_digits_def)
  then show ?thesis
    using K(3) by simp
qed

lemma sl_accepted:
  assumes "ngx_http_parse_status_line mem 0 sw_start (r0, fresh_status) = (NGX_OK, s, (r, st), pos)"
  shows "\<exists>i e. st_start st = Some i \<and> st_end st = Some e \<and> i + 3 \<le> e \<and> e < pos \<and> pos \<le> length mem \<and>
    mem ! (pos - 1) = ch_LF \<and> (pos = e + 1 \<or> pos = e + 2 \<and> mem ! e = ch_CR) \<and>
    code_done mem e (st\<lparr>st_end := None\<rparr>) \<and> sl_version r \<and>
    st_http_version st = http_major r * 1000 + http_minor r \<and> s = sw_start"
proof -
  obtain p l x where F: "scan sl_step mem (length mem) 0 sw_start (r0, fresh_status) = Finished p l x"
      "sl_done p x = (NGX_OK, s, (r, st), pos)"
    using assms by (auto simp: ngx_http_parse_status_line_def split: scanned.splits status_line_label.splits
        dest: sl.scan_Returned)
  have "case scan sl_step mem (length mem) 0 sw_start (r0, fresh_status) of
      Stopped p' s' x' \<Rightarrow> sl_inv mem p' s' x' \<and> \<not> p' < length mem
    | Finished p' l x' \<Rightarrow> \<exists>s0 x0. sl_inv mem p' s0 x0 \<and> p' < length mem \<and> sl_step mem p' s0 x0 = Goto l x'
    | Returned rc x' \<Rightarrow> \<exists>p0 s0 x0. sl_inv mem p0 s0 x0 \<and> p0 < length mem \<and> sl_step mem p0 s0 x0 = Return rc x'"
  proof (rule scan_rule)
    show "sl_inv mem 0 sw_start (r0, fresh_status)"
      by (simp add: sl_inv_def fresh_status_def)
  qed (rule sl_step_inv)
  then obtain s0 x0 where I: "sl_inv mem p s0 x0" "p < length mem" "sl_step mem p s0 x0 = Goto l x"
    using F(1) by auto
  then show ?thesis
    using F(2)
    by (cases s0; cases x0)
       (auto simp: sl_inv_def sl_step.simps parser_step Let_def sl_done_def code_done_def code_run_def
         split: if_splits intro!: exI)
qed



text \<open>Spaces between the digits are skipped, yet \<open>start\<close> is set two bytes before the last digit: it
  then points behind the first digits of the code.\<close>

lemma status_line_split_code:
  "\<exists>r st. ngx_http_parse_status_line (bytes ''HTTP/1.1 4 04'' @ [ch_LF]) 0 sw_start
       (ngx_http_create_request, fresh_status) = (NGX_OK, sw_start, (r, st), 14) \<and>
     st_code st = 404 \<and> slice (bytes ''HTTP/1.1 4 04'' @ [ch_LF]) (the (st_start st)) (the (st_end st)) = bytes '' 04''"
  by (simp add: ngx_http_parse_status_line_def scan_step sl_step.simps parser_step Let_def bytes_def
      fresh_status_def sl_done_def slice_def)

subsection \<open>Printed status lines are read back\<close>

definition print_status_line :: "u_char \<Rightarrow> u_char \<Rightarrow> ngx_str \<Rightarrow> ngx_str \<Rightarrow> ngx_str" where
  "print_status_line a b code reason =
     bytes ''HTTP/'' @ [a, ch_dot, b, ch_space] @ code @ ch_space # reason @ [ch_CR, ch_LF]"

lemma digit_not: "is_digit_byte c \<Longrightarrow> c \<notin> {ch_space, ch_dot, ch_CR, ch_LF} \<and> \<not> c < ch_0 \<and> \<not> ch_9 < c"
  by (auto simp: is_digit_byte_def not_less)

lemma sl_status_text_run:
  assumes "list_all (\<lambda>c. c \<noteq> ch_CR \<and> c \<noteq> ch_LF) reason" "mem = pre @ reason @ [ch_CR, ch_LF] @ rest"
    and "st_end st = None"
  shows "scan sl_step mem (length mem) (length pre) sw_status_text (r, st) =
    Finished (length pre + length reason + 1) L_done (r, st\<lparr>st_end := Some (length pre + length reason)\<rparr>)"
proof -
  let ?q = "length pre + length reason"
  have "scan sl_step mem (length mem) (length pre) sw_status_text (r, st) =
      scan sl_step mem (length mem) ?q sw_status_text (r, st)"
  proof (rule scan_while)
    fix i
    assume "length pre \<le> i" "i < ?q"
    then have "mem ! i = reason ! (i - length pre)" "i - length pre < length reason"
      using assms(2) by (auto simp: nth_append)
    then show "sl_step mem i sw_status_text (r, st) = Break sw_status_text (r, st)"
      using assms(1) by (simp add: sl_step.simps sl_status_text_def list_all_length)
  qed (use assms(2) in auto)
  also have "\<dots> = Finished (?q + 1) L_done (r, st\<lparr>st_end := Some ?q\<rparr>)"
    using assms(2) by (simp add: scan_step sl_step.simps parser_step nth_append)
  finally show ?thesis .
qed

lemma sl_status_digit:
  assumes "is_digit_byte (mem ! p)" "st_count st < 3" "st_code st < 1000"
  shows "sl_step mem p sw_status (r, st) =
    (let st' = st\<lparr>st_code := st_code st * 10 + (unat (mem ! p) - 48), st_count := Suc (st_count st)\<rparr> in
     if st_count st = 2 then Break sw_space_after_status (r, st'\<lparr>st_start := Some (p - 2)\<rparr>) else Break sw_status (r, st'))"
proof -
  have "48 \<le> unat (mem ! p)" "unat (mem ! p) \<le> 57"
    using assms(1) unat_digit(1) [of "mem ! p"] by (auto simp: is_digit_byte_def not_less)
  then have "(st_code st * 10 + unat (mem ! p) - 48) mod 2 ^ 64 = st_code st * 10 + (unat (mem ! p) - 48)"
      "(st_count st + 1) mod 2 ^ 64 = Suc (st_count st)"
    using assms(2,3) by simp_all
  moreover have "mem ! p \<noteq> ch_space" "\<not> mem ! p < ch_0" "\<not> ch_9 < mem ! p"
    using digit_not [OF assms(1)] by auto
  ultimately show ?thesis
    by (simp add: sl_step.simps sl_status_def Let_def)
qed

lemma sl_version_run:
  assumes "\<And>i. i < 9 \<Longrightarrow> mem ! i = [ch_H, ch_T, ch_T, ch_P, ch_slash, a, ch_dot, b, ch_space] ! i"
    and "8 < lim" "ch_1 \<le> a" "a \<le> ch_9" "is_digit_byte b"
  shows "scan sl_step mem lim 0 sw_start (r, st) =
    scan sl_step mem lim 9 sw_status (r\<lparr>http_major := unat a - 48, http_minor := unat b - 48\<rparr>, st)"
proof -
  have "mem ! 0 = ch_H" "mem ! Suc 0 = ch_T" "mem ! 2 = ch_T" "mem ! 3 = ch_P" "mem ! 4 = ch_slash" "mem ! 5 = a"
      "mem ! 6 = ch_dot" "mem ! 7 = b" "mem ! 8 = ch_space"
    using assms(1) [of 0] assms(1) [of 1] assms(1) [of 2] assms(1) [of 3] assms(1) [of 4] assms(1) [of 5] assms(1) [of 6]
      assms(1) [of 7] assms(1) [of 8] by simp_all
  moreover have "\<not> a < ch_1" "\<not> ch_9 < a"
    using assms(3,4) by (auto simp: not_less)
  ultimately show ?thesis
    using assms(2) digit_not [OF assms(5)]
    by (simp add: scan_step sl_step.simps parser_step numeral_eq_Suc)
qed

lemma sl_code_run:
  assumes "mem ! 9 = x" "mem ! 10 = y" "mem ! 11 = z" "mem ! 12 = ch_space" "12 < lim" "list_all is_digit_byte [x, y, z]"
  shows "scan sl_step mem lim 9 sw_status (r, fresh_status) =
    scan sl_step mem lim 13 sw_status_text
      (r, fresh_status\<lparr>st_code := dec_value [x, y, z], st_count := 3, st_start := Some 9\<rparr>)"
proof -
  have D: "unat c - 48 \<le> 9" if "is_digit_byte c" for c
    using that unat_digit(1) [of c] by (auto simp: is_digit_byte_def not_less)
  have "sl_step mem 9 sw_status (r, fresh_status) =
      Break sw_status (r, fresh_status\<lparr>st_code := unat x - 48, st_count := 1\<rparr>)"
    using assms by (subst sl_status_digit) (simp_all add: fresh_status_def)
  moreover have "sl_step mem 10 sw_status (r, fresh_status\<lparr>st_code := unat x - 48, st_count := 1\<rparr>) =
      Break sw_status (r, fresh_status\<lparr>st_code := (unat x - 48) * 10 + (unat y - 48), st_count := 2\<rparr>)"
    using assms D [of x] by (subst sl_status_digit) (simp_all add: fresh_status_def)
  moreover have "sl_step mem 11 sw_status (r, fresh_status\<lparr>st_code := (unat x - 48) * 10 + (unat y - 48), st_count := 2\<rparr>) =
      Break sw_space_after_status
        (r, fresh_status\<lparr>st_code := dec_value [x, y, z], st_count := 3, st_start := Some 9\<rparr>)"
    using assms D [of x] D [of y] by (subst sl_status_digit) (simp_all add: fresh_status_def dec_value_def)
  moreover have "sl_step mem 12 sw_space_after_status v = Break sw_status_text v" for v
    using assms by (simp add: sl_step.simps sl_space_after_status_def)
  ultimately show ?thesis
    using assms(5) by (simp add: scan_Break)
qed

text \<open>A printed status line is read back, whatever follows it: the version, the three digit
  code, the text from the code to the end of the line, and the position behind the line feed.\<close>

theorem status_line_roundtrip:
  assumes "ch_1 \<le> a" "a \<le> ch_9" "is_digit_byte b" "list_all is_digit_byte code" "length code = 3"
    and "list_all (\<lambda>c. c \<noteq> ch_CR \<and> c \<noteq> ch_LF) reason"
    and "mem = print_status_line a b code reason @ rest"
  shows "\<exists>r st. ngx_http_parse_status_line mem 0 sw_start (r0, fresh_status) =
      (NGX_OK, sw_start, (r, st), length (print_status_line a b code reason)) \<and>
    st_code st = dec_value code \<and> st_http_version st = (unat a - 48) * 1000 + (unat b - 48) \<and>
    slice mem (the (st_start st)) (the (st_end st)) = code @ ch_space # reason"
proof -
  obtain x y z where C: "code = [x, y, z]"
    using assms(5) by (auto simp: numeral_eq_Suc length_Suc_conv)
  have M: "mem = (bytes ''HTTP/'' @ [a, ch_dot, b, ch_space, x, y, z, ch_space]) @ reason @ [ch_CR, ch_LF] @ rest"
    using assms(7) C by (simp add: print_status_line_def)
  let ?r = "r0\<lparr>http_major := unat a - 48, http_minor := unat b - 48\<rparr>"
  let ?st = "fresh_status\<lparr>st_code := dec_value code, st_count := 3, st_start := Some 9\<rparr>"
  have "scan sl_step mem (length mem) 0 sw_start (r0, fresh_status) = scan sl_step mem (length mem) 9 sw_status (?r, fresh_status)"
    by (rule sl_version_run) (use assms(1-3) in \<open>simp_all add: M bytes_def nth_append nth_Cons'\<close>)
  also have "\<dots> = scan sl_step mem (length mem) 13 sw_status_text (?r, ?st)"
    unfolding C by (rule sl_code_run) (use assms(4) C in \<open>simp_all add: M bytes_def\<close>)
  also have "\<dots> = Finished (13 + length reason + 1) L_done (?r, ?st\<lparr>st_end := Some (13 + length reason)\<rparr>)"
  proof -
    have "length (bytes ''HTTP/'' @ [a, ch_dot, b, ch_space, x, y, z, ch_space]) = 13"
      by (simp add: bytes_def)
    then show ?thesis
      using sl_status_text_run [OF assms(6) M, of ?st ?r] by (simp add: fresh_status_def)
  qed
  finally have F: "scan sl_step mem (length mem) 0 sw_start (r0, fresh_status) =
      Finished (13 + length reason + 1) L_done (?r, ?st\<lparr>st_end := Some (13 + length reason)\<rparr>)" .
  have "slice mem 9 (13 + length reason) = code @ ch_space # reason"
    using C M by (simp add: bytes_def slice_def numeral_eq_Suc)
  then show ?thesis
    using C F by (simp add: ngx_http_parse_status_line_def sl_done_def print_status_line_def bytes_def)
qed

theorem status_line_roundtrip_witness:
  "\<exists>r st. ngx_http_parse_status_line (print_status_line ch_1 ch_1 (bytes ''200'') (bytes ''OK'')) 0 sw_start
      (ngx_http_create_request, fresh_status) = (NGX_OK, sw_start, (r, st), 17) \<and> st_code st = 200"
  using status_line_roundtrip [of ch_1 ch_1 "bytes ''200''" "bytes ''OK''"
      "print_status_line ch_1 ch_1 (bytes ''200'') (bytes ''OK'')" "[]" ngx_http_create_request]
  by (auto simp: bytes_def print_status_line_def is_digit_byte_def dec_value_def)

end
