(* ===== verification/Http_Args.thy ===== *)
theory Http_Args
  imports Ngx_Strings Ngx_Escape Http_Request_Line
begin

text \<open>
  The functions of \<open>src/http/ngx_http_parse.c\<close> that take strings of a request apart:
  \<open>ngx_http_parse_unsafe_uri\<close>, \<open>ngx_http_parse_multi_header_lines\<close>,
  \<open>ngx_http_parse_set_cookie_lines\<close>, \<open>ngx_http_arg\<close> and \<open>ngx_http_split_args\<close>.

  An \<open>ngx_str_t\<close> is the list of its bytes. A header value is the memory from its first byte on
  and its length, because the comparison with a name may read behind it; \<open>None\<close> stands for a read
  outside that memory. Logging is left out, and so are the strings \<open>ngx_http_parse_unsafe_uri\<close>
  leaves behind when it fails.
\<close>

subsection \<open>\<open>ngx_http_parse_unsafe_uri\<close>\<close>

definition leading_dot_dot :: "ngx_str \<Rightarrow> bool" where
  "leading_dot_dot p \<longleftrightarrow>
     p \<noteq> [] \<and> p ! 0 = ch_dot \<and> length p > 1 \<and> p ! 1 = ch_dot \<and> (length p = 2 \<or> p ! 2 = ch_slash)"

text \<open>The test for \<open>/../\<close> and \<open>/..\<close>: \<open>len\<close> counts \<open>ch\<close> and what is left behind it, \<open>p\<close>.\<close>

definition slash_dot_dot :: "u_char \<Rightarrow> ngx_str \<Rightarrow> bool" where
  "slash_dot_dot ch p \<longleftrightarrow>
     (let len = length p + 1 in
      ch = ch_slash \<and> len > 2 \<and> p ! 0 = ch_dot \<and> p ! 1 = ch_dot \<and> (len = 3 \<or> p ! 2 = ch_slash))"

datatype unsafe_scan = Scan_unsafe | Scan_end bool | Scan_args bool ngx_str

text \<open>The first loop: the label \<open>unsafe\<close>, or \<open>quoted\<close> at the end of the loop, with the arguments
  when a question mark ended it.\<close>

fun unsafe_uri_scan :: "ngx_str \<Rightarrow> bool \<Rightarrow> unsafe_scan" where
  "unsafe_uri_scan [] quoted = Scan_end quoted"
| "unsafe_uri_scan (ch # p) quoted =
     (if ch = ch_percent then unsafe_uri_scan p True
      else if bitmap_test usual ch then unsafe_uri_scan p quoted
      else if ch = ch_question then Scan_args quoted p
      else if ch = ch_NUL then Scan_unsafe
      else if slash_dot_dot ch p then Scan_unsafe
      else unsafe_uri_scan p quoted)"

text \<open>The second loop, over the unescaped URI.\<close>

fun unsafe_uri_recheck :: "ngx_str \<Rightarrow> bool" where
  "unsafe_uri_recheck [] = True"
| "unsafe_uri_recheck (ch # p) =
     (if ch = ch_NUL then False else if slash_dot_dot ch p then False else unsafe_uri_recheck p)"

definition unsafe_uri_finish :: "bool \<Rightarrow> bool \<Rightarrow> ngx_str \<Rightarrow> ngx_str \<Rightarrow> int + ngx_str \<times> ngx_str" where
  "unsafe_uri_finish pnalloc_ok quoted uri args =
     (if quoted then
        if \<not> pnalloc_ok then Inl NGX_ERROR
        else
          let uri = fst (ngx_unescape_uri \<lparr>unescape_uri = False, unescape_redirect = False\<rparr> uri) in
          if leading_dot_dot uri then Inl NGX_ERROR
          else if unsafe_uri_recheck uri then Inr (uri, args) else Inl NGX_ERROR
      else Inr (uri, args))"

definition ngx_http_parse_unsafe_uri :: "bool \<Rightarrow> ngx_str \<Rightarrow> ngx_str \<Rightarrow> int + ngx_str \<times> ngx_str" where
  "ngx_http_parse_unsafe_uri pnalloc_ok uri args =
     (if length uri = 0 \<or> uri ! 0 = ch_question then Inl NGX_ERROR
      else if leading_dot_dot uri then Inl NGX_ERROR
      else case unsafe_uri_scan uri False of
          Scan_unsafe \<Rightarrow> Inl NGX_ERROR
        | Scan_end quoted \<Rightarrow> unsafe_uri_finish pnalloc_ok quoted uri args
        | Scan_args quoted p \<Rightarrow>
            unsafe_uri_finish pnalloc_ok quoted (take (length uri - (length p + 1)) uri) p)"

subsection \<open>\<open>ngx_http_parse_multi_header_lines\<close> and \<open>ngx_http_parse_set_cookie_lines\<close>\<close>

record header_value =
  hv_mem :: ngx_str
  hv_len :: nat

text \<open>\<open>while (start < end && *start == ' ') { start++; }\<close>, the loop to the next \<open>;\<close> and the one
  behind the label \<open>skip\<close>.\<close>

function skip_spaces :: "ngx_str \<Rightarrow> nat \<Rightarrow> nat \<Rightarrow> nat" where
  "skip_spaces mem start e = (if start < e \<and> mem ! start = ch_space then skip_spaces mem (start + 1) e else start)"
  by auto
termination by (relation "measure (\<lambda>(mem, start, e). e - start)") auto

function to_semicolon :: "ngx_str \<Rightarrow> nat \<Rightarrow> nat \<Rightarrow> nat" where
  "to_semicolon mem p e = (if p < e \<and> mem ! p \<noteq> ch_semicolon then to_semicolon mem (p + 1) e else p)"
  by auto
termination by (relation "measure (\<lambda>(mem, p, e). e - p)") auto

function skip_separator :: "ngx_str \<Rightarrow> nat \<Rightarrow> nat \<Rightarrow> nat" where
  "skip_separator mem start e =
     (if start < e then
        if mem ! start = ch_semicolon \<or> mem ! start = ch_comma then start + 1
        else skip_separator mem (start + 1) e
      else start)"
  by auto
termination by (relation "measure (\<lambda>(mem, start, e). e - start)") auto

declare skip_spaces.simps [simp del] to_semicolon.simps [simp del] skip_separator.simps [simp del]

text \<open>One pass through the \<open>while\<close> loop up to \<open>return\<close> or the label \<open>skip\<close>, with the position there;
  \<open>want\<close> is \<open>value != NULL\<close>.\<close>

datatype name_match = Found "ngx_str option" | Skip nat | Bad_read

definition match_name :: "ngx_str \<Rightarrow> nat \<Rightarrow> ngx_str \<Rightarrow> bool \<Rightarrow> nat \<Rightarrow> name_match" where
  "match_name mem e name want start =
     (case ngx_strncasecmp (drop start mem) name (length name) of
        None \<Rightarrow> Bad_read
      | Some d \<Rightarrow>
          if d \<noteq> 0 then Skip start
          else
            let start = skip_spaces mem (start + length name) e in
            if \<not> want then
              if start = e then Found None
              else (case rd mem start of
                      None \<Rightarrow> Bad_read
                    | Some c \<Rightarrow> if c = ch_comma then Found None else Skip start)
            else if start = e then Skip start
            else (case rd mem start of
                    None \<Rightarrow> Bad_read
                  | Some c \<Rightarrow>
                      if c \<noteq> ch_eq then Skip (start + 1)
                      else
                        let start = skip_spaces mem (start + 1) e in
                        Found (Some (slice mem start (to_semicolon mem start e)))))"

lemma skip_spaces_le: "start \<le> skip_spaces mem start e"
proof (induction mem start e rule: skip_spaces.induct)
  case (1 mem start e)
  then show ?case
    by (subst skip_spaces.simps) auto
qed

lemma skip_separator_le: "start \<le> skip_separator mem start e \<and> (start < e \<longrightarrow> start < skip_separator mem start e)"
proof (induction mem start e rule: skip_separator.induct)
  case (1 mem start e)
  then show ?case
    by (subst (1 2) skip_separator.simps) auto
qed

lemma match_name_Skip: "match_name mem e name want start = Skip start' \<Longrightarrow> start \<le> start'"
  using skip_spaces_le [of "start + length name" mem e]
  by (auto simp: match_name_def Let_def split: option.splits if_splits)

function value_lookup :: "ngx_str \<Rightarrow> nat \<Rightarrow> ngx_str \<Rightarrow> bool \<Rightarrow> nat \<Rightarrow> ngx_str option option option" where
  "value_lookup mem e name want start =
     (if start < e then
        case match_name mem e name want start of
          Bad_read \<Rightarrow> None
        | Found v \<Rightarrow> Some (Some v)
        | Skip start' \<Rightarrow> value_lookup mem e name want (skip_spaces mem (skip_separator mem start' e) e)
      else Some None)"
  by auto
termination
proof (relation "measure (\<lambda>(mem, e, name, want, start). e - start)")
  fix mem e name want start start'
  assume "start < e" "match_name mem e name want start = Skip start'"
  then have "start < skip_spaces mem (skip_separator mem start' e) e"
    using match_name_Skip [of mem e name want start start'] skip_separator_le [of start' mem e]
      skip_spaces_le [of "skip_separator mem start' e" mem e] by linarith
  then show "((mem, e, name, want, skip_spaces mem (skip_separator mem start' e) e), mem, e, name, want, start)
      \<in> measure (\<lambda>(mem, e, name, want, start). e - start)"
    using \<open>start < e\<close> by simp
qed simp

declare value_lookup.simps [simp del]

text \<open>The result: \<open>None\<close> for a bad read, else the index of the header with the value, or
  \<open>NGX_DECLINED\<close>.\<close>

fun multi_header_lines :: "header_value list \<Rightarrow> ngx_str \<Rightarrow> bool \<Rightarrow> nat \<Rightarrow> (int + nat \<times> ngx_str option) option" where
  "multi_header_lines [] name want i = Some (Inl NGX_DECLINED)"
| "multi_header_lines (h # headers) name want i =
     (if length name > hv_len h then multi_header_lines headers name want (i + 1)
      else case value_lookup (hv_mem h) (hv_len h) name want 0 of
          None \<Rightarrow> None
        | Some (Some v) \<Rightarrow> Some (Inr (i, v))
        | Some None \<Rightarrow> multi_header_lines headers name want (i + 1))"

definition ngx_http_parse_multi_header_lines ::
  "header_value list \<Rightarrow> ngx_str \<Rightarrow> bool \<Rightarrow> (int + nat \<times> ngx_str option) option"
where
  "ngx_http_parse_multi_header_lines headers name want = multi_header_lines headers name want 0"

text \<open>The body of the loop over the headers: \<open>continue\<close> is \<open>Some None\<close>.\<close>

definition set_cookie_value :: "ngx_str \<Rightarrow> nat \<Rightarrow> ngx_str \<Rightarrow> ngx_str option option" where
  "set_cookie_value mem e name =
     (if length name \<ge> e then Some None
      else case ngx_strncasecmp mem name (length name) of
          None \<Rightarrow> None
        | Some d \<Rightarrow>
            if d \<noteq> 0 then Some None
            else
              let start = skip_spaces mem (length name) e in
              if start = e then Some None
              else (case rd mem start of
                      None \<Rightarrow> None
                    | Some c \<Rightarrow>
                        if c \<noteq> ch_eq then Some None
                        else
                          let start = skip_spaces mem (start + 1) e in
                          Some (Some (slice mem start (to_semicolon mem start e)))))"

fun set_cookie_lines :: "header_value list \<Rightarrow> ngx_str \<Rightarrow> nat \<Rightarrow> (int + nat \<times> ngx_str) option" where
  "set_cookie_lines [] name i = Some (Inl NGX_DECLINED)"
| "set_cookie_lines (h # headers) name i =
     (case set_cookie_value (hv_mem h) (hv_len h) name of
        None \<Rightarrow> None
      | Some (Some v) \<Rightarrow> Some (Inr (i, v))
      | Some None \<Rightarrow> set_cookie_lines headers name (i + 1))"

definition ngx_http_parse_set_cookie_lines ::
  "header_value list \<Rightarrow> ngx_str \<Rightarrow> (int + nat \<times> ngx_str) option"
where
  "ngx_http_parse_set_cookie_lines headers name = set_cookie_lines headers name 0"

subsection \<open>\<open>ngx_http_arg\<close> and \<open>ngx_http_split_args\<close>\<close>

text \<open>The loop; \<open>args\<close> is \<open>r->args\<close>. The argument \<open>len - 1\<close> of the search must not wrap, that is,
  the name is not empty (see the header of the development).\<close>

function arg_loop :: "ngx_str \<Rightarrow> ngx_str \<Rightarrow> nat \<Rightarrow> (int + ngx_str) option" where
  "arg_loop args name p =
     (if p < length args then
        case ngx_strlcasestrn (drop p args) (length args - 1 - p) name (length name - 1) of
          None \<Rightarrow> None
        | Some None \<Rightarrow> Some (Inl NGX_DECLINED)
        | Some (Some i) \<Rightarrow>
            let p = p + i in
            (case rd args (p + length name) of
               None \<Rightarrow> None
             | Some c \<Rightarrow>
                 if (p = 0 \<or> args ! (p - 1) = ch_amp) \<and> c = ch_eq then
                   let start = p + length name + 1;
                       q = (case ngx_strlchr (drop p args) ch_amp of None \<Rightarrow> length args | Some j \<Rightarrow> p + j)
                   in Some (Inr (slice args start q))
                 else arg_loop args name (p + 1))
      else Some (Inl NGX_DECLINED))"
  by auto
termination by (relation "measure (\<lambda>(args, name, p). length args - p)") auto

declare arg_loop.simps [simp del]

definition ngx_http_arg :: "ngx_str \<Rightarrow> ngx_str \<Rightarrow> (int + ngx_str) option" where
  "ngx_http_arg args name =
     (if length args = 0 then Some (Inl NGX_DECLINED) else arg_loop args name 0)"

definition ngx_http_split_args :: "ngx_str \<Rightarrow> ngx_str \<times> ngx_str" where
  "ngx_http_split_args uri =
     (case ngx_strlchr uri ch_question of
        Some p \<Rightarrow> (take p uri, drop (p + 1) uri)
      | None \<Rightarrow> (uri, []))"

subsection \<open>Unsafe URIs\<close>

text \<open>A path segment \<open>..\<close>, at the end of the path or followed by a slash.\<close>

definition dot_dot_segment :: "ngx_str \<Rightarrow> bool" where
  "dot_dot_segment uri \<longleftrightarrow>
     (\<exists>a b. uri = a @ ch_dot # ch_dot # b \<and> (a = [] \<or> last a = ch_slash) \<and> (b = [] \<or> hd b = ch_slash))"

text \<open>Some slash is followed by a text with property \<open>P\<close>.\<close>

definition after_slash :: "(ngx_str \<Rightarrow> bool) \<Rightarrow> ngx_str \<Rightarrow> bool" where
  "after_slash P p \<longleftrightarrow> (\<exists>a b. p = a @ ch_slash # b \<and> P b)"

lemma after_slash_simps [simp]:
  "\<not> after_slash P []"
  "after_slash P (c # p) \<longleftrightarrow> c = ch_slash \<and> P p \<or> after_slash P p"
  by (auto simp: after_slash_def Cons_eq_append_conv)

lemma leading_dot_dot_iff:
  "leading_dot_dot p \<longleftrightarrow> (\<exists>b. p = ch_dot # ch_dot # b \<and> (b = [] \<or> hd b = ch_slash))"
proof (cases "length p < 2")
  case True
  then show ?thesis
    by (auto simp: leading_dot_dot_def)
next
  case False
  then obtain x y b where "p = x # y # b"
    by (cases p; cases "tl p") auto
  then show ?thesis
    by (cases b) (auto simp: leading_dot_dot_def)
qed

lemma slash_dot_dot_iff: "slash_dot_dot ch p \<longleftrightarrow> ch = ch_slash \<and> leading_dot_dot p"
  by (auto simp: slash_dot_dot_def leading_dot_dot_def Let_def)

lemma recheck_iff: "unsafe_uri_recheck p \<longleftrightarrow> ch_NUL \<notin> set p \<and> \<not> after_slash leading_dot_dot p"
  by (induction p) (auto simp: slash_dot_dot_iff)

lemma dot_dot_segment_iff: "dot_dot_segment p \<longleftrightarrow> leading_dot_dot p \<or> after_slash leading_dot_dot p"
proof
  assume "dot_dot_segment p"
  then obtain a b where P: "p = a @ ch_dot # ch_dot # b" "a = [] \<or> last a = ch_slash" "b = [] \<or> hd b = ch_slash"
    by (auto simp: dot_dot_segment_def)
  show "leading_dot_dot p \<or> after_slash leading_dot_dot p"
  proof (cases a rule: rev_cases)
    case Nil
    then show ?thesis
      using P by (simp add: leading_dot_dot_iff)
  next
    case (snoc a' c)
    then have "p = a' @ ch_slash # ch_dot # ch_dot # b" "leading_dot_dot (ch_dot # ch_dot # b)"
      using P by (auto simp: leading_dot_dot_iff)
    then show ?thesis
      unfolding after_slash_def by blast
  qed
next
  assume "leading_dot_dot p \<or> after_slash leading_dot_dot p"
  then show "dot_dot_segment p"
  proof
    assume "after_slash leading_dot_dot p"
    then obtain a d where "p = (a @ [ch_slash]) @ ch_dot # ch_dot # d" "d = [] \<or> hd d = ch_slash"
      by (auto simp: leading_dot_dot_iff after_slash_def)
    then show ?thesis
      unfolding dot_dot_segment_def by (intro exI [of _ "a @ [ch_slash]"] exI [of _ d]) simp
  qed (auto simp: leading_dot_dot_iff dot_dot_segment_def)
qed

text \<open>What the first loop finds: the path up to the question mark and whether it is quoted. Its
  test for a dot segment looks ahead over the question mark.\<close>

lemma unsafe_scan_end:
  "ch_question \<notin> set p \<Longrightarrow> unsafe_uri_scan p q =
    (if ch_NUL \<in> set p \<or> after_slash leading_dot_dot p then Scan_unsafe else Scan_end (q \<or> ch_percent \<in> set p))"
  by (induction p q rule: unsafe_uri_scan.induct) (auto simp: slash_dot_dot_iff usual_iff)

lemma unsafe_scan_args:
  "ch_question \<notin> set p \<Longrightarrow> unsafe_uri_scan (p @ ch_question # args) q =
    (if ch_NUL \<in> set p \<or> after_slash (\<lambda>b. leading_dot_dot (b @ ch_question # args)) p then Scan_unsafe
     else Scan_args (q \<or> ch_percent \<in> set p) args)"
  by (induction p arbitrary: q) (auto simp: slash_dot_dot_iff usual_iff)

text \<open>A segment \<open>..\<close> that a slash follows.\<close>

definition inner_dot_dot_segment :: "ngx_str \<Rightarrow> bool" where
  "inner_dot_dot_segment uri \<longleftrightarrow>
     (\<exists>a b. uri = a @ ch_dot # ch_dot # ch_slash # b \<and> (a = [] \<or> last a = ch_slash))"

lemma leading_before_question:
  "leading_dot_dot (p @ ch_question # r) \<longleftrightarrow> (\<exists>b. p = ch_dot # ch_dot # ch_slash # b)"
  by (cases p; cases "tl p"; cases "tl (tl p)") (auto simp: leading_dot_dot_iff)

lemma inner_dot_dot_segment_iff:
  "inner_dot_dot_segment p \<longleftrightarrow>
     (\<exists>b. p = ch_dot # ch_dot # ch_slash # b) \<or> after_slash (\<lambda>q. \<exists>b. q = ch_dot # ch_dot # ch_slash # b) p"
proof
  assume "inner_dot_dot_segment p"
  then obtain a b where P: "p = a @ ch_dot # ch_dot # ch_slash # b" "a = [] \<or> last a = ch_slash"
    by (auto simp: inner_dot_dot_segment_def)
  show "(\<exists>b. p = ch_dot # ch_dot # ch_slash # b) \<or> after_slash (\<lambda>q. \<exists>b. q = ch_dot # ch_dot # ch_slash # b) p"
  proof (cases a rule: rev_cases)
    case (snoc a' c)
    then have "p = a' @ ch_slash # ch_dot # ch_dot # ch_slash # b"
      using P by simp
    then show ?thesis
      unfolding after_slash_def by blast
  qed (use P in auto)
next
  assume "(\<exists>b. p = ch_dot # ch_dot # ch_slash # b) \<or> after_slash (\<lambda>q. \<exists>b. q = ch_dot # ch_dot # ch_slash # b) p"
  then show "inner_dot_dot_segment p"
  proof
    assume "after_slash (\<lambda>q. \<exists>b. q = ch_dot # ch_dot # ch_slash # b) p"
    then obtain a b where "p = (a @ [ch_slash]) @ ch_dot # ch_dot # ch_slash # b"
      by (auto simp: after_slash_def)
    then show ?thesis
      unfolding inner_dot_dot_segment_def by (intro exI [of _ "a @ [ch_slash]"] exI [of _ b]) simp
  qed (auto simp: inner_dot_dot_segment_def)
qed

lemma unsafe_finish:
  "unsafe_uri_finish True quoted uri args =
    (if \<not> quoted then Inr (uri, args)
     else let d = fst (ngx_unescape_uri plain uri) in
       if ch_NUL \<in> set d \<or> dot_dot_segment d then Inl NGX_ERROR else Inr (d, args))"
  by (auto simp: unsafe_uri_finish_def Let_def plain_def recheck_iff dot_dot_segment_iff)

text \<open>C31. Which URIs \<open>ngx_http_parse_unsafe_uri\<close> accepts and what it makes of them. Without a
  question mark: exactly those that are not empty and, both as they stand and unescaped, hold no
  zero byte and no segment \<open>..\<close>. With a question mark the arguments are split off, but a last
  segment \<open>..\<close> right before it goes through when nothing is escaped: the test looks at the byte
  behind the segment, which is neither the end nor a slash. (The comment announces the detection
  of \<open>/..\<close> as well.)\<close>

theorem unsafe_uri_spec:
  assumes "ch_question \<notin> set path"
  shows "ngx_http_parse_unsafe_uri True path args =
      (if path = [] \<or> ch_NUL \<in> set path \<or> dot_dot_segment path then Inl NGX_ERROR
       else if ch_percent \<notin> set path then Inr (path, args)
       else let d = fst (ngx_unescape_uri plain path) in
         if ch_NUL \<in> set d \<or> dot_dot_segment d then Inl NGX_ERROR else Inr (d, args)) \<and>
    ngx_http_parse_unsafe_uri True (path @ ch_question # new_args) args =
      (if path = [] \<or> ch_NUL \<in> set path \<or> inner_dot_dot_segment path then Inl NGX_ERROR
       else if ch_percent \<notin> set path then Inr (path, new_args)
       else let d = fst (ngx_unescape_uri plain path) in
         if ch_NUL \<in> set d \<or> dot_dot_segment d then Inl NGX_ERROR else Inr (d, new_args))"
proof (cases "path = []")
  case True
  then show ?thesis
    by (simp add: ngx_http_parse_unsafe_uri_def)
next
  case False
  then have "path ! 0 \<noteq> ch_question"
    using assms by (cases path) auto
  then show ?thesis
    using False assms
    by (simp add: ngx_http_parse_unsafe_uri_def unsafe_scan_end unsafe_scan_args unsafe_finish dot_dot_segment_iff
        leading_before_question inner_dot_dot_segment_iff nth_append Let_def)
qed

theorem unsafe_uri_spec_witness:
  "ngx_http_parse_unsafe_uri True (bytes ''/a/..'') [] = Inl NGX_ERROR \<and>
   ngx_http_parse_unsafe_uri True (bytes ''/a/..?x'') [] = Inr (bytes ''/a/..'', bytes ''x'')"
  using unsafe_uri_spec [of "bytes ''/a/..''" "[]" "bytes ''x''"]
  by (simp add: bytes_def dot_dot_segment_iff inner_dot_dot_segment_iff leading_dot_dot_iff)

subsection \<open>Looking up an argument\<close>

lemma split_args_parts:
  "ngx_http_split_args uri =
    (takeWhile (\<lambda>c. c \<noteq> ch_question) uri, drop 1 (dropWhile (\<lambda>c. c \<noteq> ch_question) uri))"
proof (induction uri)
  case (Cons c uri)
  then show ?case
    by (cases "ngx_strlchr uri ch_question") (auto simp: ngx_http_split_args_def)
qed (simp add: ngx_http_split_args_def)

text \<open>A parameter of that name starts at offset \<open>p\<close>.\<close>

definition parameter_at :: "ngx_str \<Rightarrow> ngx_str \<Rightarrow> nat \<Rightarrow> bool" where
  "parameter_at name args p \<longleftrightarrow>
     occurs_at name args p \<and> (p = 0 \<or> args ! (p - 1) = ch_amp) \<and>
     p + length name < length args \<and> args ! (p + length name) = ch_eq"

lemma find_None_upt: "find P [a..<b] = None \<longleftrightarrow> (\<forall>i. a \<le> i \<longrightarrow> i < b \<longrightarrow> \<not> P i)"
  by (auto simp: find_None_iff)

lemma find_Some_upt: "find P [a..<b] = Some i \<longleftrightarrow> a \<le> i \<and> i < b \<and> P i \<and> (\<forall>j. a \<le> j \<longrightarrow> j < i \<longrightarrow> \<not> P j)"
proof (induction "b - a" arbitrary: a)
  case (Suc n)
  then have "[a..<b] = a # [Suc a..<b]"
    by (simp add: upt_conv_Cons)
  then show ?case
    using Suc by (auto simp: less_eq_Suc_le) (metis le_antisym not_less_eq_eq)+
qed auto

lemma find_upt_skip:
  assumes "\<And>q. a \<le> q \<Longrightarrow> q < c \<Longrightarrow> \<not> P q" "a \<le> c"
  shows "find P [a..<b] = find P [c..<b]"
proof (cases "find P [c..<b]")
  case None
  then show ?thesis
    using assms(1) by (metis find_None_upt not_le)
next
  case (Some q)
  then have "find P [a..<b] = Some q"
    using assms by (auto simp: find_Some_upt) (metis not_le)
  then show ?thesis
    using Some by simp
qed

lemma strlchr_append: "c \<notin> set xs \<Longrightarrow> ngx_strlchr (xs @ ys) c = map_option (\<lambda>j. length xs + j) (ngx_strlchr ys c)"
  by (induction xs; cases "ngx_strlchr ys c") auto

lemma strlchr_takeWhile:
  "takeWhile (\<lambda>x. x \<noteq> c) p = (case ngx_strlchr p c of None \<Rightarrow> p | Some j \<Rightarrow> take j p)"
  by (induction p) (auto split: option.splits)

lemma tolower_amp: "ngx_tolower c = ngx_tolower ch_amp \<longleftrightarrow> c = ch_amp"
  by (auto simp: byte_eq_iff uint_ngx_tolower)

lemma occurs_no_amp:
  assumes "occurs_at name args p" "ch_amp \<notin> set name"
  shows "ch_amp \<notin> set (take (length name) (drop p args))"
proof
  assume "ch_amp \<in> set (take (length name) (drop p args))"
  then have "ngx_tolower ch_amp \<in> set (map ngx_tolower name)"
    using assms(1) unfolding occurs_at_def by (metis image_eqI set_map)
  then show False
    using assms(2) tolower_amp by force
qed

lemma parameter_value:
  assumes "parameter_at name args p" "ch_amp \<notin> set name"
  shows "slice args (p + length name + 1)
      (case ngx_strlchr (drop p args) ch_amp of None \<Rightarrow> length args | Some j \<Rightarrow> p + j) =
    takeWhile (\<lambda>c. c \<noteq> ch_amp) (drop (p + length name + 1) args)"
proof -
  let ?n = "length name" and ?rest = "drop (p + length name + 1) args"
  have P: "p + ?n < length args" "args ! (p + ?n) = ch_eq"
    using assms(1) by (auto simp: parameter_at_def)
  then have "drop p args = (take ?n (drop p args) @ [ch_eq]) @ ?rest"
    by (metis Cons_nth_drop_Suc Suc_eq_plus1 append.assoc append_Cons append_Nil append_take_drop_id drop_drop add.commute)
  moreover have "ch_amp \<notin> set (take ?n (drop p args) @ [ch_eq])"
    using occurs_no_amp assms by (auto simp: parameter_at_def)
  moreover have "length (take ?n (drop p args) @ [ch_eq]) = ?n + 1"
    using P(1) by simp
  ultimately have "ngx_strlchr (drop p args) ch_amp = map_option (\<lambda>j. ?n + 1 + j) (ngx_strlchr ?rest ch_amp)"
    by (metis strlchr_append)
  then show ?thesis
    by (auto simp: slice_def strlchr_takeWhile split: option.splits)
qed

lemma find_occurrence:
  assumes "name \<noteq> []" "ch_NUL \<notin> set name" "p < length args"
  shows "ngx_strlcasestrn (drop p args) (length args - 1 - p) name (length name - 1) = Some r \<Longrightarrow>
    case r of
      None \<Rightarrow> \<forall>q\<ge>p. q + length name < length args \<longrightarrow> \<not> occurs_at name args q
    | Some i \<Rightarrow> occurs_at name args (p + i) \<and> p + i + length name < length args \<and>
        (\<forall>q\<ge>p. q < p + i \<longrightarrow> \<not> occurs_at name args q)"
    and "ngx_strlcasestrn (drop p args) (length args - 1 - p) name (length name - 1) \<noteq> None"
proof -
  let ?N = "length args - 1 - p - (length name - 1)"
  have F: "ngx_strlcasestrn (drop p args) (length args - 1 - p) name (length name - 1) =
      Some (find (occurs_at name (drop p args)) [0..<?N])"
    using strlcasestrn_find [of name "length args - 1 - p" "drop p args"] assms by simp
  then show "ngx_strlcasestrn (drop p args) (length args - 1 - p) name (length name - 1) \<noteq> None"
    by simp
  have O: "occurs_at name (drop p args) i = occurs_at name args (p + i)" for i
    by (simp add: occurs_at_def add.commute)
  have N: "i < ?N \<longleftrightarrow> p + i + length name < length args" for i
    using assms(1,3) by (cases name) auto
  assume "ngx_strlcasestrn (drop p args) (length args - 1 - p) name (length name - 1) = Some r"
  then have R: "r = find (occurs_at name (drop p args)) [0..<?N]"
    using F by simp
  show "case r of
      None \<Rightarrow> \<forall>q\<ge>p. q + length name < length args \<longrightarrow> \<not> occurs_at name args q
    | Some i \<Rightarrow> occurs_at name args (p + i) \<and> p + i + length name < length args \<and>
        (\<forall>q\<ge>p. q < p + i \<longrightarrow> \<not> occurs_at name args q)"
  proof (cases r)
    case None
    then have A: "\<not> occurs_at name args (p + i)" if "p + i + length name < length args" for i
      using R that N by (auto simp: find_None_upt O)
    have "\<not> occurs_at name args q" if "p \<le> q" "q + length name < length args" for q
      using A [of "q - p"] that by simp
    then show ?thesis
      using None by simp
  next
    case (Some i)
    then have A: "i < ?N" "occurs_at name args (p + i)" "\<And>j. j < i \<Longrightarrow> \<not> occurs_at name args (p + j)"
      using R by (auto simp: find_Some_upt O dest: sym)
    have "\<not> occurs_at name args q" if "p \<le> q" "q < p + i" for q
      using A(3) [of "q - p"] that by simp
    then show ?thesis
      using Some A N by simp
  qed
qed

lemma arg_loop_find:
  assumes "name \<noteq> []" "ch_NUL \<notin> set name" "ch_amp \<notin> set name"
  shows "arg_loop args name p = Some
    (case find (parameter_at name args) [p..<length args] of
       None \<Rightarrow> Inl NGX_DECLINED
     | Some q \<Rightarrow> Inr (takeWhile (\<lambda>c. c \<noteq> ch_amp) (drop (q + length name + 1) args)))"
proof (induction "length args - p" arbitrary: p rule: less_induct)
  case less
  show ?case
  proof (cases "p < length args")
    case True
    obtain r where R: "ngx_strlcasestrn (drop p args) (length args - 1 - p) name (length name - 1) = Some r"
      using find_occurrence(2) [OF assms(1,2) True] by blast
    note O = find_occurrence(1) [OF assms(1,2) True R]
    show ?thesis
    proof (cases r)
      case None
      then have "find (parameter_at name args) [p..<length args] = None"
        using O by (auto simp: find_None_upt parameter_at_def)
      then show ?thesis
        using True R None by (simp add: arg_loop.simps)
    next
      case (Some i)
      have N: "\<not> parameter_at name args q" if "p \<le> q" "q < p + i" for q
        using O Some that by (simp add: parameter_at_def)
      show ?thesis
      proof (cases "parameter_at name args (p + i)")
        case P: True
        then have "find (parameter_at name args) [p..<length args] = Some (p + i)"
          using N by (auto simp: find_Some_upt parameter_at_def)
        then show ?thesis
          using True R Some O P parameter_value [OF P assms(3)]
          by (subst arg_loop.simps) (auto simp: parameter_at_def rd_def Let_def)
      next
        case False
        have B: "\<not> parameter_at name args q" if "p \<le> q" "q < p + i + 1" for q
          using N [of q] False that by (cases "q = p + i") auto
        have "find (parameter_at name args) [p..<length args] = find (parameter_at name args) [p + i + 1..<length args]"
          by (rule find_upt_skip) (use B in auto)
        moreover have "arg_loop args name p = arg_loop args name (p + i + 1)"
          using True R Some O False
          by (subst arg_loop.simps) (auto simp: parameter_at_def rd_def Let_def)
        ultimately show ?thesis
          using less [of "p + i + 1"] True by simp
      qed
    qed
  qed (simp add: arg_loop.simps)
qed

text \<open>\<open>ngx_http_arg\<close> finds the value of the first parameter with the given name, up to case:
  the first place in the arguments, at their start or behind an ampersand, where the name and
  then an equals sign stand; its value is what follows up to the next ampersand. It reads only
  inside the arguments.\<close>

theorem ngx_http_arg_first:
  assumes "name \<noteq> []" "ch_NUL \<notin> set name" "ch_amp \<notin> set name"
  shows "ngx_http_arg args name = Some
    (case find (parameter_at name args) [0..<length args] of
       None \<Rightarrow> Inl NGX_DECLINED
     | Some p \<Rightarrow> Inr (takeWhile (\<lambda>c. c \<noteq> ch_amp) (drop (p + length name + 1) args)))"
  using arg_loop_find [OF assms, of args 0] by (simp add: ngx_http_arg_def)

theorem ngx_http_arg_first_witness:
  "ngx_http_arg (bytes ''xa=1&A=b&a=2'') (bytes ''a'') = Some (Inr (bytes ''b''))"
  using ngx_http_arg_first [of "bytes ''a''" "bytes ''xa=1&A=b&a=2''"]
  by (simp add: bytes_def parameter_at_def occurs_at_def ngx_tolower_def upt_conv_Cons)

subsection \<open>Looking up a cookie\<close>

lemma strncasecmp_terminated:
  "ch_NUL \<notin> set a \<Longrightarrow> ch_NUL \<notin> set name \<Longrightarrow>
   \<exists>d. ngx_strncasecmp (a @ ch_NUL # rest) name (length name) = Some d \<and>
       (d = 0 \<longleftrightarrow> map ngx_tolower (take (length name) a) = map ngx_tolower name)"
proof (induction name arbitrary: a)
  case (Cons c name)
  show ?case
  proof (cases a)
    case Nil
    then show ?thesis
      using Cons.prems by (auto simp: ngx_tolower_def [symmetric] Let_def byte_diff_0)
  next
    case (Cons x a')
    moreover have "ngx_tolower x \<noteq> ch_NUL"
      using Cons.prems Cons ngx_tolower_0 [of x] by auto
    ultimately show ?thesis
      using Cons.IH [of a'] Cons.prems by (auto simp: ngx_tolower_def [symmetric] Let_def byte_diff_0)
  qed
qed simp

lemma skip_spaces_none: "start < e \<longrightarrow> mem ! start \<noteq> ch_space \<Longrightarrow> skip_spaces mem start e = start"
  by (simp add: skip_spaces.simps)

lemma skip_separator_run:
  "list_all (\<lambda>c. c \<noteq> ch_semicolon \<and> c \<noteq> ch_comma) v \<Longrightarrow> mem = pre @ v @ rest \<Longrightarrow> length pre + length v \<le> e \<Longrightarrow>
   skip_separator mem (length pre) e = skip_separator mem (length pre + length v) e"
proof (induction v arbitrary: pre)
  case (Cons c v)
  have "skip_separator mem (length pre) e = skip_separator mem (length (pre @ [c])) e"
    using Cons.prems by (subst skip_separator.simps) auto
  then show ?case
    using Cons.IH [of "pre @ [c]"] Cons.prems by simp
qed simp

lemma to_semicolon_run:
  "ch_semicolon \<notin> set v \<Longrightarrow> mem = pre @ v @ rest \<Longrightarrow> length pre + length v \<le> e \<Longrightarrow>
   to_semicolon mem (length pre) e = to_semicolon mem (length pre + length v) e"
proof (induction v arbitrary: pre)
  case (Cons c v)
  have "to_semicolon mem (length pre) e = to_semicolon mem (length (pre @ [c])) e"
    using Cons.prems by (subst to_semicolon.simps) auto
  then show ?case
    using Cons.IH [of "pre @ [c]"] Cons.prems by simp
qed simp

text \<open>Cookies as a client writes them: \<open>name=value\<close>, separated by a semicolon and a space.\<close>

definition cookie_ok :: "ngx_str \<times> ngx_str \<Rightarrow> bool" where
  "cookie_ok kv \<longleftrightarrow>
     (case kv of (k, v) \<Rightarrow> k \<noteq> [] \<and> set k \<inter> {ch_NUL, ch_space, ch_eq, ch_semicolon, ch_comma} = {} \<and>
        set v \<inter> {ch_NUL, ch_space, ch_semicolon, ch_comma} = {})"

fun print_cookies :: "(ngx_str \<times> ngx_str) list \<Rightarrow> ngx_str" where
  "print_cookies [] = []"
| "print_cookies [(k, v)] = k @ ch_eq # v"
| "print_cookies ((k, v) # kvs) = k @ ch_eq # v @ ch_semicolon # ch_space # print_cookies kvs"

definition name_eq :: "ngx_str \<Rightarrow> ngx_str \<Rightarrow> bool" where
  "name_eq a b \<longleftrightarrow> map ngx_tolower a = map ngx_tolower b"

definition name_ok :: "ngx_str \<Rightarrow> bool" where
  "name_ok name \<longleftrightarrow> set name \<inter> {ch_NUL, ch_space, ch_eq, ch_semicolon, ch_comma} = {}"

lemma tolower_eq_sign: "ngx_tolower c = ngx_tolower ch_eq \<longleftrightarrow> c = ch_eq"
  by (auto simp: byte_eq_iff uint_ngx_tolower)

text \<open>A name that agrees with the beginning of \<open>k=v...\<close> is a part of \<open>k\<close>.\<close>

lemma name_prefix:
  assumes "map ngx_tolower (take (length name) (k @ ch_eq # w)) = map ngx_tolower name" "ch_eq \<notin> set name"
  shows "length name < length k \<or> name_eq name k"
proof (cases "length name \<le> length k")
  case True
  then show ?thesis
    using assms(1) by (cases "length name = length k") (auto simp: name_eq_def)
next
  case False
  then have "map ngx_tolower name ! length k = ngx_tolower ch_eq"
    using assms(1) [symmetric] by (simp add: nth_append)
  then have "name ! length k = ch_eq"
    using False by (simp add: tolower_eq_sign)
  then show ?thesis
    using False assms(2) by (metis not_le nth_mem)
qed

lemma match_cookie:
  assumes "cookie_ok (k, v)" "name_ok name"
    and "mem = pre @ k @ ch_eq # v @ w" "\<exists>a rest. v @ w = a @ ch_NUL # rest \<and> ch_NUL \<notin> set a"
    and "e = length pre + length k + length v + 1 \<or> e > length pre + length k + length v + 1 \<and> w \<noteq> [] \<and> hd w = ch_semicolon"
  shows "if name_eq name k then match_name mem e name True (length pre) = Found (Some v)
    else \<exists>s. match_name mem e name True (length pre) = Skip s \<and> length pre \<le> s \<and> s \<le> length pre + length k"
proof -
  obtain a rest where A: "drop (length pre) mem = (k @ ch_eq # a) @ ch_NUL # rest" "v @ w = a @ ch_NUL # rest" "ch_NUL \<notin> set a"
    using assms(3,4) by auto
  have "ch_NUL \<notin> set (k @ ch_eq # a)" "ch_NUL \<notin> set name"
    using A(3) assms(1,2) by (auto simp: cookie_ok_def name_ok_def)
  then obtain d where D: "ngx_strncasecmp (drop (length pre) mem) name (length name) = Some d"
      "d = 0 \<longleftrightarrow> map ngx_tolower (take (length name) (k @ ch_eq # a)) = map ngx_tolower name"
    using strncasecmp_terminated A(1) by metis
  show ?thesis
  proof (cases "name_eq name k")
    case True
    then have L: "length name = length k"
      unfolding name_eq_def by (metis length_map)
    then have "d = 0"
      using D(2) True by (simp add: name_eq_def)
    moreover have "skip_spaces mem (length pre + length k) e = length pre + length k"
      using assms(3) by (intro skip_spaces_none) (simp add: nth_append)
    moreover have "rd mem (length pre + length k) = Some ch_eq" "length pre + length k \<noteq> e"
      using assms(3,5) by (auto simp: rd_def nth_append)
    moreover have "skip_spaces mem (length pre + length k + 1) e = length pre + length k + 1"
    proof (rule skip_spaces_none, rule impI)
      assume "length pre + length k + 1 < e"
      moreover have "mem ! (length pre + length k + 1) = (v @ w) ! 0"
        using assms(3) by (simp add: nth_append)
      ultimately show "mem ! (length pre + length k + 1) \<noteq> ch_space"
        using assms(1,5) by (cases v; cases w) (auto simp: cookie_ok_def)
    qed
    moreover have "to_semicolon mem (length pre + length k + 1) e = length pre + length k + 1 + length v"
    proof -
      have "to_semicolon mem (length (pre @ k @ [ch_eq])) e = to_semicolon mem (length (pre @ k @ [ch_eq]) + length v) e"
        using assms(1,3,5) by (intro to_semicolon_run [where rest = w]) (auto simp: cookie_ok_def)
      also have "\<dots> = length (pre @ k @ [ch_eq]) + length v"
        using assms(3,5) by (subst to_semicolon.simps) (auto simp: nth_append hd_conv_nth)
      finally show ?thesis
        by simp
    qed
    moreover have "slice mem (length pre + length k + 1) (length pre + length k + 1 + length v) = v"
      using slice_append [of "pre @ k @ [ch_eq]" v w] assms(3) by simp
    ultimately show ?thesis
      using True D(1) L by (simp add: match_name_def Let_def)
  next
    case False
    show ?thesis
    proof (cases "d = 0")
      case True
      then have P: "length name < length k"
        using D(2) name_prefix [of name k a] False assms(2) by (auto simp: name_ok_def)
      then have N: "mem ! (length pre + length name) = k ! length name"
        using assms(3) by (simp add: nth_append)
      have "x \<in> set k \<Longrightarrow> x \<noteq> ch_space \<and> x \<noteq> ch_eq" for x
        using assms(1) by (auto simp: cookie_ok_def)
      then have K: "k ! length name \<noteq> ch_space" "k ! length name \<noteq> ch_eq"
        using nth_mem [OF P] by blast+
      have "skip_spaces mem (length pre + length name) e = length pre + length name"
        using K N by (intro skip_spaces_none) simp
      moreover have "rd mem (length pre + length name) = Some (k ! length name)" "length pre + length name \<noteq> e"
        using assms(3,5) P N by (auto simp: rd_def)
      ultimately show ?thesis
        using False True D(1) K P by (auto simp: match_name_def Let_def)
    next
      case d: False
      then show ?thesis
        using False D(1) by (simp add: match_name_def)
    qed
  qed
qed

lemma print_cookies_no_NUL: "list_all cookie_ok kvs \<Longrightarrow> ch_NUL \<notin> set (print_cookies kvs)"
  by (induction kvs rule: print_cookies.induct) (auto simp: cookie_ok_def)

text \<open>From anywhere in the name, the label \<open>skip\<close> leads behind the cookie.\<close>

lemma skip_cookie:
  assumes "cookie_ok (k, v)" "mem = pre @ k @ ch_eq # v @ w" "length pre \<le> s" "s \<le> length pre + length k"
    and "length pre + length k + length v + 1 \<le> e"
  shows "skip_separator mem s e = skip_separator mem (length pre + length k + length v + 1) e"
proof -
  let ?j = "s - length pre"
  have M: "mem = (pre @ take ?j k) @ (drop ?j k @ ch_eq # v) @ w" "length (pre @ take ?j k) = s"
    "s + length (drop ?j k @ ch_eq # v) = length pre + length k + length v + 1"
    using assms(2-4) by auto
  have "list_all (\<lambda>c. c \<noteq> ch_semicolon \<and> c \<noteq> ch_comma) (drop ?j k @ ch_eq # v)"
    using assms(1) by (auto simp: cookie_ok_def list_all_iff dest: in_set_dropD)
  then show ?thesis
    using skip_separator_run [OF _ M(1), of e] M(2,3) assms(5) by (simp add: ac_simps)
qed

lemma value_lookup_cookies:
  "list_all cookie_ok kvs \<Longrightarrow> name_ok name \<Longrightarrow> mem = pre @ print_cookies kvs @ ch_NUL # rest \<Longrightarrow>
   e = length pre + length (print_cookies kvs) \<Longrightarrow>
   value_lookup mem e name True (length pre) =
     Some (map_option (\<lambda>kv. Some (snd kv)) (find (\<lambda>kv. name_eq name (fst kv)) kvs))"
proof (induction kvs arbitrary: pre rule: print_cookies.induct)
  case 1
  then show ?case
    by (simp add: value_lookup.simps)
next
  case (2 k v)
  have C: "cookie_ok (k, v)" and N: "name_ok name" and M: "mem = pre @ k @ ch_eq # v @ (ch_NUL # rest)"
    and E: "e = length pre + length k + length v + 1"
    using 2 by simp_all
  have "\<exists>a rest'. v @ ch_NUL # rest = a @ ch_NUL # rest' \<and> ch_NUL \<notin> set a"
    using C by (auto simp: cookie_ok_def)
  note m = match_cookie [OF C N M this disjI1, OF E]
  show ?case
  proof (cases "name_eq name k")
    case True
    then show ?thesis
      using m E by (simp add: value_lookup.simps)
  next
    case False
    then obtain s where S: "match_name mem e name True (length pre) = Skip s" "length pre \<le> s" "s \<le> length pre + length k"
      using m by auto
    have "skip_separator mem s e = e"
      using skip_cookie [OF C M S(2,3), of e] E by (simp add: skip_separator.simps)
    then have "skip_spaces mem (skip_separator mem s e) e = e"
      by (simp add: skip_spaces.simps)
    then show ?thesis
      using S(1) E False by (simp add: value_lookup.simps)
  qed
next
  case (3 k v kv' kvs)
  let ?w = "ch_semicolon # ch_space # print_cookies (kv' # kvs) @ ch_NUL # rest"
  have C: "cookie_ok (k, v)" "list_all cookie_ok (kv' # kvs)" and N: "name_ok name" and M: "mem = pre @ k @ ch_eq # v @ ?w"
    and E: "e = length pre + length k + length v + 3 + length (print_cookies (kv' # kvs))"
    using 3 by simp_all
  have "ch_NUL \<notin> set (v @ ch_semicolon # ch_space # print_cookies (kv' # kvs))"
    using C print_cookies_no_NUL [OF C(2)] by (auto simp: cookie_ok_def)
  then have "\<exists>a rest'. v @ ?w = a @ ch_NUL # rest' \<and> ch_NUL \<notin> set a"
    by (metis append.assoc append_Cons)
  note m = match_cookie [OF C(1) N M this disjI2, of e]
  show ?case
  proof (cases "name_eq name k")
    case True
    then show ?thesis
      using m E by (simp add: value_lookup.simps)
  next
    case False
    then obtain s where S: "match_name mem e name True (length pre) = Skip s" "length pre \<le> s" "s \<le> length pre + length k"
      using m E by auto
    let ?pre = "pre @ k @ ch_eq # v @ [ch_semicolon, ch_space]"
    have "mem ! (length pre + length k + length v + 1) = ch_semicolon"
      using M by (simp add: nth_append)
    then have "skip_separator mem s e = length pre + length k + length v + 2"
      using skip_cookie [OF C(1) M S(2,3), of e] E by (simp add: skip_separator.simps)
    moreover have "skip_spaces mem (length pre + length k + length v + 2) e = length ?pre"
    proof -
      obtain k' v' where K: "kv' = (k', v')"
        by (cases kv')
      have "k' \<noteq> []" "hd k' \<noteq> ch_space"
        using C(2) K by (auto simp: cookie_ok_def) (metis list.set_sel(1))
      then have "mem ! length ?pre \<noteq> ch_space"
        using M K by (cases k'; cases kvs) (auto simp: nth_append)
      moreover have "mem ! (length pre + length k + length v + 2) = ch_space"
        using M by (simp add: nth_append)
      ultimately show ?thesis
        using E by (subst skip_spaces.simps) (simp add: skip_spaces_none add.assoc)
    qed
    moreover have "value_lookup mem e name True (length ?pre) =
        Some (map_option (\<lambda>kv. Some (snd kv)) (find (\<lambda>kv. name_eq name (fst kv)) (kv' # kvs)))"
      using M E C N by (intro "3.IH") simp_all
    ultimately have "value_lookup mem e name True (length pre) =
        Some (map_option (\<lambda>kv. Some (snd kv)) (find (\<lambda>kv. name_eq name (fst kv)) (kv' # kvs)))"
      using S(1) E by (subst value_lookup.simps) simp
    then show ?thesis
      using False by simp
  qed
qed

definition cookie_header :: "(ngx_str \<times> ngx_str) list \<Rightarrow> header_value" where
  "cookie_header kvs = \<lparr>hv_mem = print_cookies kvs @ [ch_NUL], hv_len = length (print_cookies kvs)\<rparr>"

definition cookie_named :: "ngx_str \<Rightarrow> (ngx_str \<times> ngx_str) list \<Rightarrow> (ngx_str \<times> ngx_str) option" where
  "cookie_named name kvs = find (\<lambda>kv. name_eq name (fst kv)) kvs"

lemma cookie_length: "kv \<in> set kvs \<Longrightarrow> length (fst kv) \<le> length (print_cookies kvs)"
  by (induction kvs rule: print_cookies.induct) auto

lemma cookie_named_length: "cookie_named name kvs = Some kv \<Longrightarrow> length name \<le> length (print_cookies kvs)"
  using cookie_length [of kv kvs] by (auto simp: cookie_named_def name_eq_def find_Some_iff dest!: map_eq_imp_length_eq)

lemma multi_header_lines_cookies:
  "name_ok name \<Longrightarrow> list_all (list_all cookie_ok) lines \<Longrightarrow>
   multi_header_lines (map cookie_header lines) name True i = Some
    (case find (\<lambda>j. cookie_named name (lines ! j) \<noteq> None) [0..<length lines] of
       None \<Rightarrow> Inl NGX_DECLINED
     | Some j \<Rightarrow> Inr (i + j, map_option snd (cookie_named name (lines ! j))))"
proof (induction lines arbitrary: i)
  case (Cons kvs lines)
  have V: "value_lookup (hv_mem (cookie_header kvs)) (hv_len (cookie_header kvs)) name True 0 =
      Some (map_option (\<lambda>kv. Some (snd kv)) (cookie_named name kvs))"
    using value_lookup_cookies [of kvs name "hv_mem (cookie_header kvs)" "[]" "[]" "hv_len (cookie_header kvs)"] Cons.prems
    by (simp add: cookie_header_def cookie_named_def)
  have U: "[0..<length (kvs # lines)] = 0 # map Suc [0..<length lines]"
    using upt_shift by simp
  show ?case
  proof (cases "cookie_named name kvs")
    case None
    then have "multi_header_lines (map cookie_header (kvs # lines)) name True i =
        multi_header_lines (map cookie_header lines) name True (i + 1)"
      using V by simp
    then show ?thesis
      unfolding U using None Cons by (simp add: find_map_Suc split: option.splits)
  next
    case (Some kv)
    then show ?thesis
      unfolding U using V cookie_named_length [OF Some] by (simp add: cookie_header_def)
  qed
qed simp

text \<open>\<open>ngx_http_parse_multi_header_lines\<close> finds cookies: in header values that list cookies
  in the usual form and end with a zero byte, as the header parser leaves them, it returns the
  first header that holds a cookie of the given name, up to case, with the value of the first
  such cookie, reading no further than the zero byte; it declines when there is none.\<close>

theorem multi_header_cookie:
  assumes "name_ok name" "list_all (list_all cookie_ok) lines"
  shows "ngx_http_parse_multi_header_lines (map cookie_header lines) name True = Some
    (case find (\<lambda>i. cookie_named name (lines ! i) \<noteq> None) [0..<length lines] of
       None \<Rightarrow> Inl NGX_DECLINED
     | Some i \<Rightarrow> Inr (i, map_option snd (cookie_named name (lines ! i))))"
  using multi_header_lines_cookies [OF assms, of 0, unfolded add_0] by (simp add: ngx_http_parse_multi_header_lines_def)

theorem multi_header_cookie_witness:
  "ngx_http_parse_multi_header_lines
     [cookie_header [(bytes ''x'', bytes ''1'')], cookie_header [(bytes ''ab'', bytes ''2''), (bytes ''A'', bytes ''3'')]]
     (bytes ''a'') True = Some (Inr (1, Some (bytes ''3'')))"
  using multi_header_cookie [of "bytes ''a''" "[[(bytes ''x'', bytes ''1'')], [(bytes ''ab'', bytes ''2''), (bytes ''A'', bytes ''3'')]]"]
  by (simp add: bytes_def name_ok_def cookie_ok_def cookie_named_def name_eq_def ngx_tolower_def upt_conv_Cons)

end
