(* ===== verification/Http_Chunked.thy ===== *)
theory Http_Chunked
  imports Http_Base Ngx_Number
begin

text \<open>
  \<open>ngx_http_parse_chunked\<close> of \<open>src/http/ngx_http_parse.c\<close>, the parser of chunked bodies, one
  definition per \<open>case\<close> of its switch. The loop changes \<open>state\<close> and \<open>ctx->size\<close>; \<open>ctx->length\<close>, the
  least number of bytes still to come, is computed at the label \<open>data\<close>. \<open>off_t\<close> is modelled as \<open>int\<close>
  and the invariant shows that no value leaves its range.
\<close>

subsection \<open>Definitions\<close>

datatype chunked_state =
  sw_chunk_start | sw_chunk_size | sw_chunk_extension | sw_chunk_extension_almost_done
| sw_chunk_data | sw_after_data | sw_after_data_almost_done | sw_last_chunk_extension
| sw_last_chunk_extension_almost_done | sw_trailer | sw_trailer_almost_done | sw_trailer_header
| sw_trailer_header_almost_done

datatype chunked_label = L_data | L_done | L_invalid

record ngx_http_chunked =
  ck_state :: chunked_state
  ck_size :: int
  ck_length :: int

type_synonym ck_outcome = "(chunked_state, chunked_label, int) outcome"

definition ck_chunk_start :: "u_char \<Rightarrow> int \<Rightarrow> ck_outcome" where [parser_step]:
  "ck_chunk_start ch sz =
     (if ch \<ge> ch_0 \<and> ch \<le> ch_9 then Break sw_chunk_size (uint ch - 48)
      else
        let c = ch OR 0x20 in
        if c \<ge> ch_a \<and> c \<le> ch_f then Break sw_chunk_size (uint c - 97 + 10)
        else Goto L_invalid sz)"

definition ck_chunk_size :: "u_char \<Rightarrow> int \<Rightarrow> ck_outcome" where [parser_step]:
  "ck_chunk_size ch sz =
     (if sz > NGX_MAX_OFF_T_VALUE div 16 then Goto L_invalid sz
      else if ch \<ge> ch_0 \<and> ch \<le> ch_9 then Break sw_chunk_size (sz * 16 + (uint ch - 48))
      else
        let c = ch OR 0x20 in
        if c \<ge> ch_a \<and> c \<le> ch_f then Break sw_chunk_size (sz * 16 + (uint c - 97 + 10))
        else if sz = 0 then
          if ch = ch_CR then Break sw_last_chunk_extension_almost_done sz
          else if ch = ch_LF then Break sw_trailer sz
          else if ch = ch_semicolon \<or> ch = ch_space \<or> ch = ch_HT then Break sw_last_chunk_extension sz
          else Goto L_invalid sz
        else if ch = ch_CR then Break sw_chunk_extension_almost_done sz
        else if ch = ch_LF then Break sw_chunk_data sz
        else if ch = ch_semicolon \<or> ch = ch_space \<or> ch = ch_HT then Break sw_chunk_extension sz
        else Goto L_invalid sz)"

text \<open>The states that wait for the end of a line, and those that expect the line feed of one.\<close>

definition ck_extension :: "chunked_state \<Rightarrow> chunked_state \<Rightarrow> chunked_state \<Rightarrow> u_char \<Rightarrow> int \<Rightarrow> ck_outcome"
where [parser_step]:
  "ck_extension state almost_done next_state ch sz =
     (if ch = ch_CR then Break almost_done sz
      else if ch = ch_LF then Break next_state sz
      else Break state sz)"

definition ck_almost_done :: "chunked_state \<Rightarrow> u_char \<Rightarrow> int \<Rightarrow> ck_outcome" where [parser_step]:
  "ck_almost_done next_state ch sz = (if ch = ch_LF then Break next_state sz else Goto L_invalid sz)"

definition ck_trailer :: "u_char \<Rightarrow> int \<Rightarrow> ck_outcome" where [parser_step]:
  "ck_trailer ch sz =
     (if ch = ch_CR then Break sw_trailer_almost_done sz
      else if ch = ch_LF then Goto L_done sz
      else Break sw_trailer_header sz)"

definition ck_trailer_almost_done :: "u_char \<Rightarrow> int \<Rightarrow> ck_outcome" where [parser_step]:
  "ck_trailer_almost_done ch sz = (if ch = ch_LF then Goto L_done sz else Goto L_invalid sz)"

fun ck_step :: "ngx_str \<Rightarrow> nat \<Rightarrow> chunked_state \<Rightarrow> int \<Rightarrow> ck_outcome" where
  "ck_step mem p state sz =
     (let ch = mem ! p in
      case state of
        sw_chunk_start \<Rightarrow> ck_chunk_start ch sz
      | sw_chunk_size \<Rightarrow> ck_chunk_size ch sz
      | sw_chunk_extension \<Rightarrow> ck_extension sw_chunk_extension sw_chunk_extension_almost_done sw_chunk_data ch sz
      | sw_chunk_extension_almost_done \<Rightarrow> ck_almost_done sw_chunk_data ch sz
      | sw_chunk_data \<Rightarrow> Goto L_data sz
      | sw_after_data \<Rightarrow> ck_extension sw_after_data sw_after_data_almost_done sw_chunk_start ch sz
      | sw_after_data_almost_done \<Rightarrow> ck_almost_done sw_chunk_start ch sz
      | sw_last_chunk_extension \<Rightarrow>
          ck_extension sw_last_chunk_extension sw_last_chunk_extension_almost_done sw_trailer ch sz
      | sw_last_chunk_extension_almost_done \<Rightarrow> ck_almost_done sw_trailer ch sz
      | sw_trailer \<Rightarrow> ck_trailer ch sz
      | sw_trailer_almost_done \<Rightarrow> ck_trailer_almost_done ch sz
      | sw_trailer_header \<Rightarrow> ck_extension sw_trailer_header sw_trailer_header_almost_done sw_trailer ch sz
      | sw_trailer_header_almost_done \<Rightarrow> ck_almost_done sw_trailer ch sz)"

declare ck_step.simps [simp del]

definition chunked_length :: "chunked_state \<Rightarrow> int \<Rightarrow> int" where
  "chunked_length state sz =
     (case state of
        sw_chunk_start \<Rightarrow> 3
      | sw_chunk_size \<Rightarrow> 1 + (if sz \<noteq> 0 then sz + 4 else 1)
      | sw_chunk_extension \<Rightarrow> 1 + sz + 4
      | sw_chunk_extension_almost_done \<Rightarrow> 1 + sz + 4
      | sw_chunk_data \<Rightarrow> sz + 4
      | sw_after_data \<Rightarrow> 4
      | sw_after_data_almost_done \<Rightarrow> 4
      | sw_last_chunk_extension \<Rightarrow> 2
      | sw_last_chunk_extension_almost_done \<Rightarrow> 2
      | sw_trailer \<Rightarrow> 1
      | sw_trailer_almost_done \<Rightarrow> 1
      | sw_trailer_header \<Rightarrow> 2
      | sw_trailer_header_almost_done \<Rightarrow> 2)"

text \<open>The code at the label \<open>data\<close>.\<close>

definition ck_data :: "int \<Rightarrow> chunked_state \<Rightarrow> int \<Rightarrow> nat \<Rightarrow> ngx_http_chunked \<Rightarrow> int \<times> ngx_http_chunked \<times> nat" where
  "ck_data rc state sz pos ctx =
     (let ctx = ctx\<lparr>ck_state := state, ck_size := sz\<rparr> in
      if ck_size ctx > NGX_MAX_OFF_T_VALUE - 5 then (NGX_ERROR, ctx, pos)
      else (rc, ctx\<lparr>ck_length := chunked_length state (ck_size ctx)\<rparr>, pos))"

definition ngx_http_parse_chunked ::
  "ngx_str \<Rightarrow> nat \<Rightarrow> ngx_http_chunked \<Rightarrow> int \<times> ngx_http_chunked \<times> nat"
where
  "ngx_http_parse_chunked mem pos ctx =
     (let state = (if ck_state ctx = sw_chunk_data \<and> ck_size ctx = 0 then sw_after_data else ck_state ctx) in
      case scan ck_step mem (length mem) pos state (ck_size ctx) of
        Stopped p state' sz \<Rightarrow> ck_data NGX_AGAIN state' sz p ctx
      | Finished p L_data sz \<Rightarrow> ck_data NGX_OK sw_chunk_data sz p ctx
      | Finished p L_done sz \<Rightarrow> (NGX_DONE, ctx\<lparr>ck_state := sw_chunk_start, ck_size := sz\<rparr>, p + 1)
      | Finished p L_invalid sz \<Rightarrow> (NGX_ERROR, ctx\<lparr>ck_size := sz\<rparr>, pos)
      | Returned rc sz \<Rightarrow> (rc, ctx, pos))"

subsection \<open>The invariant of the loop\<close>

text \<open>The size is in the range of \<open>off_t\<close>, small enough outside of the size field to add to it,
  and positive where data follows.\<close>

definition ck_inv :: "chunked_state \<Rightarrow> int \<Rightarrow> bool" where
  "ck_inv s z \<longleftrightarrow> 0 \<le> z \<and> z \<le> NGX_MAX_OFF_T_VALUE \<and>
     (s \<noteq> sw_chunk_size \<longrightarrow> z \<le> NGX_MAX_OFF_T_VALUE div 16) \<and>
     (s \<in> {sw_chunk_extension, sw_chunk_extension_almost_done, sw_chunk_data} \<longrightarrow> 0 < z)"

lemma digit_range: "ch_0 \<le> c \<Longrightarrow> c \<le> ch_9 \<Longrightarrow> 48 \<le> uint (c::u_char) \<and> uint c \<le> 57"
  by (simp add: byte_cmp)

lemma hex_letter_range: "ch_a \<le> c \<Longrightarrow> c \<le> ch_f \<Longrightarrow> 97 \<le> uint (c::u_char) \<and> uint c \<le> 102"
  by (simp add: byte_cmp)

lemma ck_chunk_size_inv:
  assumes "0 \<le> z" "z \<le> NGX_MAX_OFF_T_VALUE" "ck_chunk_size ch z = Break s' z'"
  shows "ck_inv s' z' \<and> z \<le> NGX_MAX_OFF_T_VALUE div 16"
  using assms digit_range [of ch] hex_letter_range [of "ch OR 0x20"]
  by (auto simp: ck_chunk_size_def ck_inv_def Let_def NGX_MAX_OFF_T_VALUE_def split: if_splits)

lemma ck_step_inv:
  assumes "ck_inv s z" "ck_step mem p s z = Break s' z'"
  shows "ck_inv s' z'"
proof (cases "s = sw_chunk_size")
  case True
  then show ?thesis
    using assms ck_chunk_size_inv [of z "mem ! p" s' z'] by (simp add: ck_step.simps ck_inv_def)
next
  case False
  then show ?thesis
    using assms digit_range [of "mem ! p"] hex_letter_range [of "mem ! p OR 0x20"]
    by (cases s) (auto simp: ck_step.simps parser_step ck_inv_def Let_def NGX_MAX_OFF_T_VALUE_def split: if_splits)
qed

lemma ck_step_Goto:
  assumes "ck_step mem p s z = Goto l z'"
  shows "z' = z \<and> (l = L_data \<longrightarrow> s = sw_chunk_data) \<and> (l = L_done \<longrightarrow> s \<noteq> sw_chunk_size)"
  using assms by (cases s) (auto simp: ck_step.simps parser_step Let_def split: if_splits)

lemma ck_step_Return: "ck_step mem p s z \<noteq> Return rc z'"
  by (cases s) (auto simp: ck_step.simps parser_step Let_def)

lemma ck_step_data: "ck_step mem p sw_chunk_data z = Goto L_data z"
  by (simp add: ck_step.simps)

text \<open>The step depends on the current byte alone.\<close>

lemma ck_step_byte: "ck_step mem p s z = ck_step [mem ! p] 0 s z"
  by (simp add: ck_step.simps)

lemma ck_step_oversize: "ck_inv s z \<Longrightarrow> z > NGX_MAX_OFF_T_VALUE - 5 \<Longrightarrow> ck_step mem p s z = Goto L_invalid z"
  by (cases s) (auto simp: ck_step.simps ck_chunk_size_def ck_inv_def NGX_MAX_OFF_T_VALUE_def)

text \<open>The context between two calls: what is stored satisfies the invariant, except that the
  state \<open>sw_chunk_data\<close> stays when the caller has consumed the last byte of a chunk.\<close>

definition ck_norm :: "ngx_http_chunked \<Rightarrow> chunked_state" where
  "ck_norm ctx = (if ck_state ctx = sw_chunk_data \<and> ck_size ctx = 0 then sw_after_data else ck_state ctx)"

definition ck_wf :: "ngx_http_chunked \<Rightarrow> bool" where
  "ck_wf ctx \<longleftrightarrow> ck_inv (ck_norm ctx) (ck_size ctx) \<and> ck_size ctx \<le> NGX_MAX_OFF_T_VALUE - 5"

lemma chunked_length_range:
  "ck_inv s z \<Longrightarrow> z \<le> NGX_MAX_OFF_T_VALUE - 5 \<Longrightarrow> 0 < chunked_length s z \<and> chunked_length s z \<le> NGX_MAX_OFF_T_VALUE"
  by (cases s) (auto simp: chunked_length_def ck_inv_def NGX_MAX_OFF_T_VALUE_def)

lemma ck_scan:
  assumes "ck_inv s z" "p \<le> length mem"
  shows "case scan ck_step mem (length mem) p s z of
      Stopped p' s' z' \<Rightarrow> ck_inv s' z' \<and> p' = length mem
    | Finished p' l z' \<Rightarrow> p \<le> p' \<and> p' < length mem \<and>
        (l = L_data \<longrightarrow> ck_inv sw_chunk_data z' \<and> 0 < z') \<and> (l = L_done \<longrightarrow> ck_inv sw_chunk_start z') \<and> 0 \<le> z' \<and> z' \<le> NGX_MAX_OFF_T_VALUE
    | Returned rc z' \<Rightarrow> False"
proof -
  let ?I = "\<lambda>p' s z. ck_inv s z \<and> p \<le> p' \<and> p' \<le> length mem"
  have S: "case scan ck_step mem (length mem) p s z of
      Stopped p' s' z' \<Rightarrow> ?I p' s' z' \<and> \<not> p' < length mem
    | Finished p' l z' \<Rightarrow> \<exists>s0 z0. ?I p' s0 z0 \<and> p' < length mem \<and> ck_step mem p' s0 z0 = Goto l z'
    | Returned rc z' \<Rightarrow> \<exists>p0 s0 z0. ?I p0 s0 z0 \<and> p0 < length mem \<and> ck_step mem p0 s0 z0 = Return rc z'"
    by (rule scan_rule) (use assms in \<open>auto intro: ck_step_inv\<close>)
  show ?thesis
  proof (cases "scan ck_step mem (length mem) p s z")
    case (Finished p' l z')
    then obtain s0 z0 where "ck_inv s0 z0" "p \<le> p'" "p' < length mem" "ck_step mem p' s0 z0 = Goto l z'"
      using S by auto
    moreover from this have "z' = z0 \<and> (l = L_data \<longrightarrow> s0 = sw_chunk_data) \<and> (l = L_done \<longrightarrow> s0 \<noteq> sw_chunk_size)"
      using ck_step_Goto by blast
    ultimately show ?thesis
      using Finished by (auto simp: ck_inv_def)
  qed (use S ck_step_Return in auto)
qed

lemma parse_chunked_result:
  assumes "ck_wf ctx" "pos \<le> length mem" "ngx_http_parse_chunked mem pos ctx = (rc, ctx', pos')"
  shows "rc \<in> {NGX_OK, NGX_AGAIN, NGX_DONE, NGX_ERROR} \<and> pos \<le> pos' \<and> pos' \<le> length mem \<and>
    0 \<le> ck_size ctx' \<and> ck_size ctx' \<le> NGX_MAX_OFF_T_VALUE \<and>
    (rc \<noteq> NGX_ERROR \<longrightarrow> ck_wf ctx') \<and>
    (rc = NGX_OK \<or> rc = NGX_AGAIN \<longrightarrow> 0 < ck_length ctx' \<and> ck_length ctx' \<le> NGX_MAX_OFF_T_VALUE) \<and>
    (rc = NGX_AGAIN \<longrightarrow> pos' = length mem) \<and>
    (rc = NGX_DONE \<longrightarrow> pos < pos') \<and>
    (rc = NGX_OK \<longrightarrow> pos' < length mem \<and> ck_state ctx' = sw_chunk_data \<and> 0 < ck_size ctx')"
proof -
  have I: "ck_inv (ck_norm ctx) (ck_size ctx)"
    using assms(1) by (simp add: ck_wf_def)
  note S = ck_scan [OF I assms(2)]
  have P: "(rc, ctx', pos') =
      (case scan ck_step mem (length mem) pos (ck_norm ctx) (ck_size ctx) of
        Stopped p state' sz \<Rightarrow> ck_data NGX_AGAIN state' sz p ctx
      | Finished p L_data sz \<Rightarrow> ck_data NGX_OK sw_chunk_data sz p ctx
      | Finished p L_done sz \<Rightarrow> (NGX_DONE, ctx\<lparr>ck_state := sw_chunk_start, ck_size := sz\<rparr>, p + 1)
      | Finished p L_invalid sz \<Rightarrow> (NGX_ERROR, ctx\<lparr>ck_size := sz\<rparr>, pos)
      | Returned rc sz \<Rightarrow> (rc, ctx, pos))"
    using assms(3) by (simp add: ngx_http_parse_chunked_def ck_norm_def Let_def)
  show ?thesis
  proof (cases "scan ck_step mem (length mem) pos (ck_norm ctx) (ck_size ctx)")
    case (Stopped p s z)
    then have "ck_inv s z" "p = length mem"
      using S by auto
    then show ?thesis
      using P Stopped assms(2) chunked_length_range [of s z]
      by (auto simp: ck_data_def Let_def ck_wf_def ck_norm_def ck_inv_def split: if_splits)
  next
    case (Finished p l z)
    show ?thesis
    proof (cases l)
      case L_data
      then show ?thesis
        using P S Finished chunked_length_range [of sw_chunk_data z]
        by (auto simp: ck_data_def Let_def ck_wf_def ck_norm_def NGX_MAX_OFF_T_VALUE_def ck_inv_def split: if_splits)
    next
      case L_done
      then show ?thesis
        using P S Finished by (auto simp: ck_wf_def ck_norm_def NGX_MAX_OFF_T_VALUE_def ck_inv_def)
    next
      case L_invalid
      then show ?thesis
        using P S Finished assms(2) by auto
    qed
  qed (use S in simp)
qed

text \<open>C10. One call of \<open>ngx_http_parse_chunked\<close> keeps the context well formed: the chunk size and
  the number of bytes to wait for stay inside \<open>off_t\<close> for every input, the position stays inside
  the buffer, it says that data follows only with a byte of it in the buffer and a positive
  size, asks for more only when the buffer is used up, and asks for at least one byte.\<close>

theorem parse_chunked_wf:
  assumes "ck_wf ctx" "pos \<le> length mem" "ngx_http_parse_chunked mem pos ctx = (rc, ctx', pos')"
  shows "rc \<in> {NGX_OK, NGX_AGAIN, NGX_DONE, NGX_ERROR} \<and> pos \<le> pos' \<and> pos' \<le> length mem \<and>
    0 \<le> ck_size ctx' \<and> ck_size ctx' \<le> NGX_MAX_OFF_T_VALUE \<and>
    (rc \<noteq> NGX_ERROR \<longrightarrow> ck_wf ctx') \<and>
    (rc = NGX_OK \<or> rc = NGX_AGAIN \<longrightarrow> 0 < ck_length ctx' \<and> ck_length ctx' \<le> NGX_MAX_OFF_T_VALUE) \<and>
    (rc = NGX_AGAIN \<longrightarrow> pos' = length mem) \<and>
    (rc = NGX_OK \<longrightarrow> pos' < length mem \<and> ck_state ctx' = sw_chunk_data \<and> 0 < ck_size ctx')"
  using parse_chunked_result [OF assms] by blast

theorem parse_chunked_wf_witness:
  "\<exists>ctx' pos'. ngx_http_parse_chunked (bytes ''1f;x'' @ [ch_CR, ch_LF, ch_a]) 0
       \<lparr>ck_state = sw_chunk_start, ck_size = 0, ck_length = 0\<rparr> = (NGX_OK, ctx', pos') \<and>
     ck_size ctx' = 31 \<and> pos' < 7 \<and> 0 < ck_length ctx'"
proof -
  let ?mem = "bytes ''1f;x'' @ [ch_CR, ch_LF, ch_a]"
  let ?ctx = "\<lparr>ck_state = sw_chunk_start, ck_size = 0, ck_length = 0\<rparr>"
  have R: "ngx_http_parse_chunked ?mem 0 ?ctx = (NGX_OK, \<lparr>ck_state = sw_chunk_data, ck_size = 31, ck_length = 35\<rparr>, 6)"
    by (simp add: ngx_http_parse_chunked_def scan_step ck_step.simps parser_step Let_def bytes_def
        ck_data_def chunked_length_def NGX_MAX_OFF_T_VALUE_def)
  have W: "ck_wf ?ctx"
    by (simp add: ck_wf_def ck_norm_def ck_inv_def NGX_MAX_OFF_T_VALUE_def)
  show ?thesis
  proof (intro exI conjI)
    show "0 < ck_length \<lparr>ck_state = sw_chunk_data, ck_size = 31, ck_length = 35\<rparr>"
      using parse_chunked_wf [OF W _ R] by simp
  qed (rule R, simp_all)
qed

end
