(* ===== verification/Http_Chunked_Body.thy ===== *)
theory Http_Chunked_Body
  imports Http_Chunked
begin

text \<open>
  The chunked request body: \<open>ngx_http_request_body_chunked_filter\<close> of
  \<open>src/http/ngx_http_request_body.c\<close>, which calls \<open>ngx_http_parse_chunked\<close> on each buffer that
  arrives and passes the data of the chunks on.

  The abstract specification is a decoder that reads the body byte by byte and knows no buffers;
  the filter refines it, so that the result does not depend on how the body is cut into buffers.
  The loop \<open>for ( ;; )\<close> of the filter is a partial function; that it always returns is proved.

  The output is the list of the buffers handed to \<open>ngx_http_top_request_body_filter\<close>, which is not
  modelled. \<open>alloc n\<close> says whether the pool can provide the \<open>n\<close>-th of them.
\<close>

subsection \<open>Definitions\<close>

abbreviation (input) NGX_HTTP_BAD_REQUEST :: int where "NGX_HTTP_BAD_REQUEST \<equiv> 400"
abbreviation (input) NGX_HTTP_REQUEST_ENTITY_TOO_LARGE :: int where "NGX_HTTP_REQUEST_ENTITY_TOO_LARGE \<equiv> 413"
abbreviation (input) NGX_HTTP_INTERNAL_SERVER_ERROR :: int where "NGX_HTTP_INTERNAL_SERVER_ERROR \<equiv> 500"

record request_body =
  rb_rest :: int
  rb_chunked :: ngx_http_chunked
  content_length_n :: int

datatype out_buf = Data_buf ngx_str | Last_buf

text \<open>What happens to a buffer when a chunk has been parsed: the data it holds is taken.\<close>

definition take_chunk :: "ngx_str \<Rightarrow> nat \<Rightarrow> request_body \<Rightarrow> request_body \<times> nat" where
  "take_chunk mem pos x =
     (let sz = int (length mem) - int pos; ctx = rb_chunked x in
      if sz > ck_size ctx then
        (x\<lparr>rb_chunked := ctx\<lparr>ck_size := 0\<rparr>, content_length_n := content_length_n x + ck_size ctx\<rparr>,
         pos + nat (ck_size ctx))
      else
        (x\<lparr>rb_chunked := ctx\<lparr>ck_size := ck_size ctx - sz\<rparr>, content_length_n := content_length_n x + sz\<rparr>,
         length mem))"

partial_function (option) body_loop ::
  "(nat \<Rightarrow> bool) \<Rightarrow> int \<Rightarrow> ngx_str \<Rightarrow> nat \<Rightarrow> request_body \<Rightarrow> out_buf list \<Rightarrow>
   (int + request_body \<times> out_buf list) option"
where
  "body_loop alloc client_max_body_size mem pos x out =
     (case ngx_http_parse_chunked mem pos (rb_chunked x) of
        (rc, ctx, pos) \<Rightarrow>
          if rc = NGX_OK then
            if client_max_body_size \<noteq> 0 \<and> client_max_body_size - content_length_n x < ck_size ctx
            then Some (Inl NGX_HTTP_REQUEST_ENTITY_TOO_LARGE)
            else if \<not> alloc (length out) then Some (Inl NGX_HTTP_INTERNAL_SERVER_ERROR)
            else (case take_chunk mem pos (x\<lparr>rb_chunked := ctx\<rparr>) of
                    (x', pos') \<Rightarrow>
                      body_loop alloc client_max_body_size mem pos' x' (out @ [Data_buf (slice mem pos pos')]))
          else if rc = NGX_DONE then
            if \<not> alloc (length out) then Some (Inl NGX_HTTP_INTERNAL_SERVER_ERROR)
            else Some (Inr (x\<lparr>rb_chunked := ctx, rb_rest := 0\<rparr>, out @ [Last_buf]))
          else if rc = NGX_AGAIN then
            Some (Inr (x\<lparr>rb_chunked := ctx, rb_rest := ck_length ctx\<rparr>, out))
          else Some (Inl NGX_HTTP_BAD_REQUEST))"

fun body_chain ::
  "(nat \<Rightarrow> bool) \<Rightarrow> int \<Rightarrow> ngx_str list \<Rightarrow> request_body \<Rightarrow> out_buf list \<Rightarrow>
   (int + request_body \<times> out_buf list) option"
where
  "body_chain alloc client_max_body_size [] x out = Some (Inr (x, out))"
| "body_chain alloc client_max_body_size (buf # bufs) x out =
     (case body_loop alloc client_max_body_size buf 0 x out of
        None \<Rightarrow> None
      | Some (Inl rc) \<Rightarrow> Some (Inl rc)
      | Some (Inr (x', out')) \<Rightarrow> body_chain alloc client_max_body_size bufs x' out')"

definition ngx_http_request_body_chunked_filter ::
  "bool \<Rightarrow> (nat \<Rightarrow> bool) \<Rightarrow> int \<Rightarrow> ngx_str list \<Rightarrow> request_body \<Rightarrow>
   (int + request_body \<times> out_buf list) option"
where
  "ngx_http_request_body_chunked_filter pcalloc_ok alloc client_max_body_size bufs x =
     (if rb_rest x = -1 then
        if \<not> pcalloc_ok then Some (Inl NGX_HTTP_INTERNAL_SERVER_ERROR)
        else body_chain alloc client_max_body_size bufs
          (x\<lparr>rb_chunked := \<lparr>ck_state = sw_chunk_start, ck_size = 0, ck_length = 0\<rparr>,
             content_length_n := 0, rb_rest := 3\<rparr>) []
      else body_chain alloc client_max_body_size bufs x [])"

text \<open>\<open>ngx_http_discard_request_body_filter\<close>: the same with the data thrown away.
  \<open>b->pos\<close> is the second component of the result.\<close>

definition discard_chunk :: "ngx_str \<Rightarrow> nat \<Rightarrow> ngx_http_chunked \<Rightarrow> ngx_http_chunked \<times> nat" where
  "discard_chunk mem pos ctx =
     (let sz = int (length mem) - int pos in
      if sz > ck_size ctx then (ctx\<lparr>ck_size := 0\<rparr>, pos + nat (ck_size ctx))
      else (ctx\<lparr>ck_size := ck_size ctx - sz\<rparr>, length mem))"

partial_function (option) discard_loop ::
  "ngx_str \<Rightarrow> nat \<Rightarrow> ngx_http_chunked \<Rightarrow> (int + ngx_http_chunked \<times> int \<times> nat) option"
where
  "discard_loop mem pos ctx =
     (case ngx_http_parse_chunked mem pos ctx of
        (rc, ctx, pos) \<Rightarrow>
          if rc = NGX_OK then
            (case discard_chunk mem pos ctx of (ctx', pos') \<Rightarrow> discard_loop mem pos' ctx')
          else if rc = NGX_DONE then Some (Inr (ctx, 0, pos))
          else if rc = NGX_AGAIN then Some (Inr (ctx, ck_length ctx, pos))
          else Some (Inl NGX_HTTP_BAD_REQUEST))"

text \<open>\<open>chunked\<close> is \<open>Some ctx\<close> when the request is chunked and has a body structure; for \<open>rb == NULL\<close> a
  cleared one is allocated. \<open>content_length_n\<close> is passed and returned.\<close>

definition ngx_http_discard_request_body_filter ::
  "bool \<Rightarrow> bool \<Rightarrow> ngx_http_chunked option \<Rightarrow> ngx_str \<Rightarrow> nat \<Rightarrow> int \<Rightarrow>
   (int + ngx_http_chunked option \<times> int \<times> nat) option"
where
  "ngx_http_discard_request_body_filter pcalloc_ok is_chunked rb mem pos clen =
     (if is_chunked then
        (case rb of
           None \<Rightarrow>
             if \<not> pcalloc_ok then Some (Inl NGX_HTTP_INTERNAL_SERVER_ERROR)
             else map_option (map_sum id (apfst Some))
               (discard_loop mem pos \<lparr>ck_state = sw_chunk_start, ck_size = 0, ck_length = 0\<rparr>)
         | Some ctx \<Rightarrow> map_option (map_sum id (apfst Some)) (discard_loop mem pos ctx))
      else
        let sz = int (length mem) - int pos in
        if sz > clen then Some (Inr (rb, 0, pos + nat clen))
        else Some (Inr (rb, clen - sz, length mem)))"

subsection \<open>The decoder\<close>

text \<open>\<open>Running\<close> holds the state, the size and the number of data bytes so far for the bytes to come,
  \<open>Complete\<close> that number and the bytes behind the body; both hold the data.\<close>

datatype decoded = Running chunked_state int int ngx_str | Complete int ngx_str ngx_str | Failed int

fun emit :: "ngx_str \<Rightarrow> decoded \<Rightarrow> decoded" where
  "emit d (Running s z n out) = Running s z n (d @ out)"
| "emit d (Complete n out rest) = Complete n (d @ out) rest"
| "emit d (Failed rc) = Failed rc"

fun decode :: "int \<Rightarrow> chunked_state \<Rightarrow> int \<Rightarrow> int \<Rightarrow> ngx_str \<Rightarrow> decoded" where
  "decode mx s z n [] = Running s z n []"
| "decode mx s z n (c # cs) =
     (if s = sw_chunk_data then
        if mx \<noteq> 0 \<and> mx - n < z then Failed NGX_HTTP_REQUEST_ENTITY_TOO_LARGE
        else emit [c] (decode mx (if z = 1 then sw_after_data else sw_chunk_data) (z - 1) (n + 1) cs)
      else case ck_step [c] 0 s z of
          Break s' z' \<Rightarrow>
            if z' > NGX_MAX_OFF_T_VALUE - 5 then Failed NGX_HTTP_BAD_REQUEST else decode mx s' z' n cs
        | Goto l z' \<Rightarrow> if l = L_done then Complete n [] cs else Failed NGX_HTTP_BAD_REQUEST
        | Return rc z' \<Rightarrow> Failed NGX_HTTP_BAD_REQUEST)"

lemma emit_simps [simp]: "emit [] d = d" "emit xs (emit ys d) = emit (xs @ ys) d"
  by (cases d; simp)+

text \<open>Decoding in two parts.\<close>

lemma decode_append:
  "decode mx s z n (xs @ ys) =
    (case decode mx s z n xs of
       Running s' z' n' out \<Rightarrow> emit out (decode mx s' z' n' ys)
     | Complete n' out rest \<Rightarrow> Complete n' out (rest @ ys)
     | Failed rc \<Rightarrow> Failed rc)"
proof (induction mx s z n xs rule: decode.induct)
  case (2 mx s z n c cs)
  show ?case
  proof (cases "s = sw_chunk_data")
    case True
    then show ?thesis
      using "2.IH"(1) [OF True]
      by (cases "decode mx (if z = 1 then sw_after_data else sw_chunk_data) (z - 1) (n + 1) cs") auto
  next
    case False
    then show ?thesis
      using "2.IH"(2) [OF False] by (cases "ck_step [c] 0 s z") auto
  qed
qed simp

text \<open>The data of a chunk that is in the buffer.\<close>

lemma decode_data:
  "0 < z \<Longrightarrow> 0 < k \<Longrightarrow> int k \<le> z \<Longrightarrow> k \<le> length xs \<Longrightarrow>
   decode mx sw_chunk_data z n xs =
    (if mx \<noteq> 0 \<and> mx - n < z then Failed NGX_HTTP_REQUEST_ENTITY_TOO_LARGE
     else emit (take k xs)
       (decode mx (if z = int k then sw_after_data else sw_chunk_data) (z - int k) (n + int k) (drop k xs)))"
proof (induction k arbitrary: z n xs)
  case (Suc k)
  then obtain c cs where X: "xs = c # cs"
    by (cases xs) auto
  show ?case
  proof (cases "k = 0")
    case True
    then show ?thesis
      using X by simp
  next
    case False
    then have "1 < z"
      using Suc.prems by linarith
    then show ?thesis
      using Suc.IH [of "z - 1" cs "n + 1"] Suc.prems X False by (auto simp: algebra_simps)
  qed
qed simp

text \<open>The bytes between the data.\<close>

lemma decode_scan:
  assumes "ck_inv s z" "z \<le> NGX_MAX_OFF_T_VALUE - 5" "p \<le> length mem"
  shows "decode mx s z n (drop p mem) =
    (case scan ck_step mem (length mem) p s z of
       Stopped p' s' z' \<Rightarrow>
         if z' > NGX_MAX_OFF_T_VALUE - 5 then Failed NGX_HTTP_BAD_REQUEST else Running s' z' n []
     | Finished p' l z' \<Rightarrow>
         (case l of
            L_data \<Rightarrow> decode mx sw_chunk_data z' n (drop p' mem)
          | L_done \<Rightarrow> Complete n [] (drop (Suc p') mem)
          | L_invalid \<Rightarrow> Failed NGX_HTTP_BAD_REQUEST)
     | Returned rc z' \<Rightarrow> Failed NGX_HTTP_BAD_REQUEST)"
  using assms
proof (induction "length mem - p" arbitrary: p s z)
  case 0
  then show ?case
    by (simp add: scan_end)
next
  case (Suc k)
  then have P: "p < length mem"
    by linarith
  then have D: "drop p mem = mem ! p # drop (Suc p) mem"
    by (simp add: Cons_nth_drop_Suc)
  show ?case
  proof (cases "s = sw_chunk_data")
    case True
    then show ?thesis
      using P by (simp add: scan_step ck_step_data)
  next
    case False
    show ?thesis
    proof (cases "ck_step mem p s z")
      case (Break s' z')
      have I: "ck_inv s' z'"
        using ck_step_inv [OF Suc.prems(1) Break] .
      show ?thesis
      proof (cases "z' > NGX_MAX_OFF_T_VALUE - 5")
        case True
        then have "scan ck_step mem (length mem) (Suc p) s' z' =
            (if Suc p < length mem then Finished (Suc p) L_invalid z' else Stopped (Suc p) s' z')"
          using ck_step_oversize [OF I True] by (simp add: scan.simps)
        then show ?thesis
          using D False Break P True ck_step_byte [of mem p s z] by (simp add: scan_step)
      next
        case z': False
        then show ?thesis
          using Suc.hyps(1) [of "Suc p" s' z'] Suc.hyps(2) I D False Break P ck_step_byte [of mem p s z]
          by (simp add: scan_step)
      qed
    next
      case (Goto l z')
      moreover have "l \<noteq> L_data"
        using ck_step_Goto [OF Goto] False by auto
      ultimately show ?thesis
        using D False P ck_step_byte [of mem p s z] by (cases l) (simp_all add: scan_step)
    next
      case (Return rc z')
      then show ?thesis
        using ck_step_Return by blast
    qed
  qed
qed

subsection \<open>The filter refines the decoder\<close>

definition abs_decode :: "int \<Rightarrow> request_body \<Rightarrow> ngx_str \<Rightarrow> decoded" where
  "abs_decode mx x cs = decode mx (ck_norm (rb_chunked x)) (ck_size (rb_chunked x)) (content_length_n x) cs"

text \<open>The result \<open>r\<close> of the filter on a buffer against the decoder's, after the output \<open>out\<close>.\<close>

fun refines :: "out_buf list \<Rightarrow> decoded \<Rightarrow> int + request_body \<times> out_buf list \<Rightarrow> bool" where
  "refines out (Failed rc) r = (r = Inl rc)"
| "refines out (Running s z n d) r =
     (\<exists>x bufs. r = Inr (x, out @ map Data_buf bufs) \<and> concat bufs = d \<and> ck_wf (rb_chunked x) \<and>
        ck_norm (rb_chunked x) = s \<and> ck_size (rb_chunked x) = z \<and> content_length_n x = n \<and>
        rb_rest x = chunked_length s z)"
| "refines out (Complete n d rest) r =
     (\<exists>x bufs. r = Inr (x, out @ map Data_buf bufs @ [Last_buf]) \<and> concat bufs = d \<and> ck_wf (rb_chunked x) \<and>
        ck_state (rb_chunked x) = sw_chunk_start \<and> content_length_n x = n \<and> rb_rest x = 0)"

lemma refines_emit: "refines (out @ [Data_buf b]) d r \<Longrightarrow> refines out (emit b d) r"
proof (cases d)
  case (Running s z n o')
  assume "refines (out @ [Data_buf b]) d r"
  then obtain x bufs where "r = Inr (x, out @ map Data_buf (b # bufs))" "concat bufs = o'" "ck_wf (rb_chunked x)"
      "ck_norm (rb_chunked x) = s" "ck_size (rb_chunked x) = z" "content_length_n x = n" "rb_rest x = chunked_length s z"
    using Running by auto
  then show ?thesis
    using Running by (auto intro!: exI [of _ "b # bufs"])
next
  case (Complete n o' rest)
  assume "refines (out @ [Data_buf b]) d r"
  then obtain x bufs where "r = Inr (x, out @ map Data_buf (b # bufs) @ [Last_buf])" "concat bufs = o'" "ck_wf (rb_chunked x)"
      "ck_state (rb_chunked x) = sw_chunk_start" "content_length_n x = n" "rb_rest x = 0"
    using Complete by auto
  then show ?thesis
    using Complete by (auto intro!: exI [of _ "b # bufs"])
qed simp

text \<open>One call of the parser, against the decoder.\<close>

lemma parse_chunked_decode:
  assumes "ck_wf ctx" "pos \<le> length mem" "ngx_http_parse_chunked mem pos ctx = (rc, ctx', pos')"
  shows "decode mx (ck_norm ctx) (ck_size ctx) n (drop pos mem) =
    (if rc = NGX_OK then decode mx sw_chunk_data (ck_size ctx') n (drop pos' mem)
     else if rc = NGX_DONE then Complete n [] (drop pos' mem)
     else if rc = NGX_AGAIN then Running (ck_norm ctx') (ck_size ctx') n []
     else Failed NGX_HTTP_BAD_REQUEST)"
    and "rc = NGX_DONE \<Longrightarrow> ck_state ctx' = sw_chunk_start"
    and "rc = NGX_AGAIN \<Longrightarrow> ck_length ctx' = chunked_length (ck_norm ctx') (ck_size ctx')"
proof -
  have I: "ck_inv (ck_norm ctx) (ck_size ctx)" "ck_size ctx \<le> NGX_MAX_OFF_T_VALUE - 5"
    using assms(1) by (auto simp: ck_wf_def)
  have P: "(rc, ctx', pos') =
      (case scan ck_step mem (length mem) pos (ck_norm ctx) (ck_size ctx) of
        Stopped p state' sz \<Rightarrow> ck_data NGX_AGAIN state' sz p ctx
      | Finished p L_data sz \<Rightarrow> ck_data NGX_OK sw_chunk_data sz p ctx
      | Finished p L_done sz \<Rightarrow> (NGX_DONE, ctx\<lparr>ck_state := sw_chunk_start, ck_size := sz\<rparr>, p + 1)
      | Finished p L_invalid sz \<Rightarrow> (NGX_ERROR, ctx\<lparr>ck_size := sz\<rparr>, pos)
      | Returned rc sz \<Rightarrow> (rc, ctx, pos))"
    using assms(3) by (simp add: ngx_http_parse_chunked_def ck_norm_def Let_def)
  note D = decode_scan [OF I assms(2), of mx n]
  note S = ck_scan [OF I(1) assms(2)]
  have "decode mx (ck_norm ctx) (ck_size ctx) n (drop pos mem) =
      (if rc = NGX_OK then decode mx sw_chunk_data (ck_size ctx') n (drop pos' mem)
       else if rc = NGX_DONE then Complete n [] (drop pos' mem)
       else if rc = NGX_AGAIN then Running (ck_norm ctx') (ck_size ctx') n []
       else Failed NGX_HTTP_BAD_REQUEST) \<and>
    (rc = NGX_DONE \<longrightarrow> ck_state ctx' = sw_chunk_start) \<and>
    (rc = NGX_AGAIN \<longrightarrow> ck_length ctx' = chunked_length (ck_norm ctx') (ck_size ctx'))"
  proof (cases "scan ck_step mem (length mem) pos (ck_norm ctx) (ck_size ctx)")
    case (Stopped p s z)
    moreover have "s = sw_chunk_data \<Longrightarrow> z \<noteq> 0"
      using S Stopped by (auto simp: ck_inv_def)
    ultimately show ?thesis
      using P D by (cases "z > NGX_MAX_OFF_T_VALUE - 5") (auto simp: ck_data_def Let_def ck_norm_def)
  next
    case (Finished p l z)
    have "l = L_data \<Longrightarrow> \<not> z > NGX_MAX_OFF_T_VALUE - 5"
      using S Finished by (auto simp: ck_inv_def NGX_MAX_OFF_T_VALUE_def)
    then show ?thesis
      using P D Finished by (cases l) (auto simp: ck_data_def Let_def)
  qed (use S in simp)
  then show "decode mx (ck_norm ctx) (ck_size ctx) n (drop pos mem) =
      (if rc = NGX_OK then decode mx sw_chunk_data (ck_size ctx') n (drop pos' mem)
       else if rc = NGX_DONE then Complete n [] (drop pos' mem)
       else if rc = NGX_AGAIN then Running (ck_norm ctx') (ck_size ctx') n []
       else Failed NGX_HTTP_BAD_REQUEST)"
    and "rc = NGX_DONE \<Longrightarrow> ck_state ctx' = sw_chunk_start"
    and "rc = NGX_AGAIN \<Longrightarrow> ck_length ctx' = chunked_length (ck_norm ctx') (ck_size ctx')"
    by blast+
qed

lemma take_chunk_result:
  assumes "take_chunk mem pos x = (x', pos')" "pos < length mem" "0 < ck_size (rb_chunked x)"
    "ck_state (rb_chunked x) = sw_chunk_data" "ck_wf (rb_chunked x)"
  shows "pos < pos' \<and> pos' \<le> length mem \<and> ck_wf (rb_chunked x') \<and> rb_rest x' = rb_rest x \<and>
    decode mx sw_chunk_data (ck_size (rb_chunked x)) n (drop pos mem) =
      (if mx \<noteq> 0 \<and> mx - n < ck_size (rb_chunked x) then Failed NGX_HTTP_REQUEST_ENTITY_TOO_LARGE
       else emit (slice mem pos pos')
         (decode mx (ck_norm (rb_chunked x')) (ck_size (rb_chunked x'))
            (n + (content_length_n x' - content_length_n x)) (drop pos' mem)))"
proof -
  let ?z = "ck_size (rb_chunked x)"
  define k where "k = pos' - pos"
  have K: "pos' = pos + k" "0 < k" "int k \<le> ?z" "k \<le> length (drop pos mem)"
    "ck_size (rb_chunked x') = ?z - int k" "content_length_n x' = content_length_n x + int k"
    "ck_state (rb_chunked x') = sw_chunk_data" "rb_rest x' = rb_rest x"
    using assms by (auto simp: take_chunk_def Let_def k_def split: if_splits)
  have "ck_norm (rb_chunked x') = (if ?z = int k then sw_after_data else sw_chunk_data)"
    using K by (simp add: ck_norm_def)
  moreover have "slice mem pos pos' = take k (drop pos mem)" "drop pos' mem = drop k (drop pos mem)"
    using K by (auto simp: slice_def add.commute)
  moreover have "ck_wf (rb_chunked x')"
    using assms(3-5) K by (auto simp: ck_wf_def ck_norm_def ck_inv_def)
  ultimately show ?thesis
    using decode_data [OF assms(3) K(2-4), of mx n] K by auto
qed

lemma body_loop_refines:
  assumes "ck_wf (rb_chunked x)" "pos \<le> length mem"
  shows "\<exists>r. body_loop alloc mx mem pos x out = Some r \<and>
    (refines out (abs_decode mx x (drop pos mem)) r \<or> r = Inl NGX_HTTP_INTERNAL_SERVER_ERROR \<and> \<not> (\<forall>n. alloc n))"
  using assms
proof (induction "length mem - pos" arbitrary: pos x out rule: less_induct)
  case less
  obtain rc ctx q where P: "ngx_http_parse_chunked mem pos (rb_chunked x) = (rc, ctx, q)"
    using prod_cases3 by blast
  note R = parse_chunked_result [OF less.prems P]
  note D = parse_chunked_decode [OF less.prems P]
  show ?case
  proof (cases "rc = NGX_OK")
    case True
    let ?y = "x\<lparr>rb_chunked := ctx\<rparr>"
    have C: "q < length mem" "0 < ck_size ctx" "ck_state ctx = sw_chunk_data" "ck_wf ctx" "pos \<le> q"
      using R True by auto
    obtain x' q' where T: "take_chunk mem q ?y = (x', q')"
      by fastforce
    have K: "q < q'" "q' \<le> length mem" "ck_wf (rb_chunked x')"
      "abs_decode mx x (drop pos mem) =
        (if mx \<noteq> 0 \<and> mx - content_length_n x < ck_size ctx then Failed NGX_HTTP_REQUEST_ENTITY_TOO_LARGE
         else emit (slice mem q q') (abs_decode mx x' (drop q' mem)))"
      using take_chunk_result [OF T, where n = "content_length_n x" and mx = mx] C D(1) [of mx "content_length_n x"] True
      by (simp_all add: abs_decode_def)
    have L: "body_loop alloc mx mem pos x out =
        (if mx \<noteq> 0 \<and> mx - content_length_n x < ck_size ctx then Some (Inl NGX_HTTP_REQUEST_ENTITY_TOO_LARGE)
         else if \<not> alloc (length out) then Some (Inl NGX_HTTP_INTERNAL_SERVER_ERROR)
         else body_loop alloc mx mem q' x' (out @ [Data_buf (slice mem q q')]))"
      using P True T by (subst body_loop.simps) simp
    have "\<exists>r. body_loop alloc mx mem q' x' (out @ [Data_buf (slice mem q q')]) = Some r \<and>
        (refines (out @ [Data_buf (slice mem q q')]) (abs_decode mx x' (drop q' mem)) r \<or>
         r = Inl NGX_HTTP_INTERNAL_SERVER_ERROR \<and> \<not> (\<forall>n. alloc n))"
      using less.hyps [of q' x' "out @ [Data_buf (slice mem q q')]"] K C by simp
    then show ?thesis
      using L K(4) refines_emit by auto
  next
    case False
    then have L: "body_loop alloc mx mem pos x out =
        (if rc = NGX_DONE then
           if \<not> alloc (length out) then Some (Inl NGX_HTTP_INTERNAL_SERVER_ERROR)
           else Some (Inr (x\<lparr>rb_chunked := ctx, rb_rest := 0\<rparr>, out @ [Last_buf]))
         else if rc = NGX_AGAIN then Some (Inr (x\<lparr>rb_chunked := ctx, rb_rest := ck_length ctx\<rparr>, out))
         else Some (Inl NGX_HTTP_BAD_REQUEST))"
      using P by (subst body_loop.simps) simp
    then show ?thesis
      using D(1) [of mx "content_length_n x"] D(2,3) R False
      by (auto simp: abs_decode_def intro!: exI [of _ "[]"])
  qed
qed

definition body_start :: "request_body \<Rightarrow> request_body" where
  "body_start x =
     (if rb_rest x = -1 then
        x\<lparr>rb_chunked := \<lparr>ck_state = sw_chunk_start, ck_size = 0, ck_length = 0\<rparr>, content_length_n := 0, rb_rest := 3\<rparr>
      else x)"

lemma filter_start:
  "ngx_http_request_body_chunked_filter True alloc mx bufs x = body_chain alloc mx bufs (body_start x) []"
  by (simp add: ngx_http_request_body_chunked_filter_def body_start_def)

lemma body_start_wf: "rb_rest x = -1 \<or> ck_wf (rb_chunked x) \<Longrightarrow> ck_wf (rb_chunked (body_start x))"
  by (auto simp: body_start_def ck_wf_def ck_norm_def ck_inv_def NGX_MAX_OFF_T_VALUE_def)

lemma refines_wf: "refines out d (Inr (x, out')) \<Longrightarrow> ck_wf (rb_chunked x)"
  by (cases d) auto

lemma body_chain_returns: "ck_wf (rb_chunked x) \<Longrightarrow> body_chain alloc mx bufs x out \<noteq> None"
proof (induction bufs arbitrary: x out)
  case (Cons buf bufs)
  obtain r where R: "body_loop alloc mx buf 0 x out = Some r"
    "refines out (abs_decode mx x (drop 0 buf)) r \<or> r = Inl NGX_HTTP_INTERNAL_SERVER_ERROR"
    using body_loop_refines [OF Cons.prems, of 0 buf alloc mx out] by auto
  show ?case
  proof (cases r)
    case (Inr y)
    then obtain x' out' where "r = Inr (x', out')"
      by (cases y) auto
    then show ?thesis
      using R Cons.IH refines_wf by auto
  qed (use R in simp)
qed simp

text \<open>C38. The filter always returns: whatever the buffers hold, whatever their number, and also
  when the pool runs out of memory, its loop ends, provided the context it starts from is the
  fresh one or one it left itself.\<close>

theorem chunked_filter_returns:
  assumes "rb_rest x = -1 \<or> ck_wf (rb_chunked x)"
  shows "\<exists>r. ngx_http_request_body_chunked_filter pcalloc_ok alloc mx bufs x = Some r"
  using body_chain_returns [OF body_start_wf [OF assms], of alloc mx bufs "[]"]
  by (auto simp: ngx_http_request_body_chunked_filter_def body_start_def split: if_splits)

theorem chunked_filter_returns_witness:
  "\<exists>r. ngx_http_request_body_chunked_filter True (\<lambda>n. n < 2) 0 [bytes ''2'', [ch_LF, ch_a]]
      \<lparr>rb_rest = -1, rb_chunked = \<lparr>ck_state = sw_chunk_start, ck_size = 0, ck_length = 0\<rparr>, content_length_n = 0\<rparr> = Some r"
  by (rule chunked_filter_returns) simp

lemma refines_emit_list:
  "refines (out @ map Data_buf bufs) d r \<Longrightarrow> refines out (emit (concat bufs) d) r"
proof (induction bufs arbitrary: out)
  case (Cons b bufs)
  then show ?case
    using refines_emit [of out b "emit (concat bufs) d" r] by simp
qed simp

fun is_complete :: "decoded \<Rightarrow> bool" where
  "is_complete (Complete n d rest) = True"
| "is_complete _ = False"

lemma body_chain_refines:
  "ck_wf (rb_chunked x) \<Longrightarrow> bufs \<noteq> [] \<Longrightarrow> \<not> is_complete (abs_decode mx x (concat (butlast bufs))) \<Longrightarrow>
   \<exists>r. body_chain (\<lambda>n. True) mx bufs x out = Some r \<and> refines out (abs_decode mx x (concat bufs)) r"
proof (induction bufs arbitrary: x out)
  case (Cons buf bufs)
  obtain r where R: "body_loop (\<lambda>n. True) mx buf 0 x out = Some r" "refines out (abs_decode mx x buf) r"
    using body_loop_refines [OF Cons.prems(1), of 0 buf "\<lambda>n. True" mx out] by auto
  show ?case
  proof (cases "bufs = []")
    case True
    then show ?thesis
      using R by (auto split: sum.splits)
  next
    case False
    have A: "abs_decode mx x (buf @ ys) =
        (case abs_decode mx x buf of
           Running s' z' n' o' \<Rightarrow> emit o' (decode mx s' z' n' ys)
         | Complete n' o' rest \<Rightarrow> Complete n' o' (rest @ ys)
         | Failed rc \<Rightarrow> Failed rc)" for ys
      by (simp add: abs_decode_def decode_append)
    show ?thesis
    proof (cases "abs_decode mx x buf")
      case (Running s z n d)
      then obtain x' bs where X: "r = Inr (x', out @ map Data_buf bs)" "concat bs = d" "ck_wf (rb_chunked x')"
          "ck_norm (rb_chunked x') = s" "ck_size (rb_chunked x') = z" "content_length_n x' = n"
        using R(2) by auto
      have N: "abs_decode mx x (buf @ ys) = emit d (abs_decode mx x' ys)" for ys
        using A Running X by (simp add: abs_decode_def)
      then have "\<not> is_complete (abs_decode mx x' (concat (butlast bufs)))"
        using Cons.prems(3) False by (cases "abs_decode mx x' (concat (butlast bufs))") auto
      then obtain r' where "body_chain (\<lambda>n. True) mx bufs x' (out @ map Data_buf bs) = Some r'"
          "refines (out @ map Data_buf bs) (abs_decode mx x' (concat bufs)) r'"
        using Cons.IH [OF X(3) False, of "out @ map Data_buf bs"] by blast
      then show ?thesis
        using R(1) X(1,2) N refines_emit_list by auto
    next
      case (Complete n d rest)
      then show ?thesis
        using A Cons.prems(3) False by simp
    next
      case (Failed rc)
      then show ?thesis
        using A R by simp
    qed
  qed
qed simp

text \<open>C5. The filter refines the byte-wise decoder: with memory at hand it gives, for a body cut
  into buffers in any way, what the decoder gives for all the bytes from the state the filter
  was left in: the same error, or the same data, in order, with the same state, count and
  number of bytes to wait for, or the end of the body. (When the body ends before the last
  buffer, the filter would go on and read the next buffers as another body.)\<close>

theorem chunked_filter_refines:
  assumes "rb_rest x = -1 \<or> ck_wf (rb_chunked x)" "bufs \<noteq> []"
    and "\<not> is_complete (abs_decode mx (body_start x) (concat (butlast bufs)))"
  shows "\<exists>r. ngx_http_request_body_chunked_filter True (\<lambda>n. True) mx bufs x = Some r \<and>
    refines [] (abs_decode mx (body_start x) (concat bufs)) r"
  using body_chain_refines [OF body_start_wf [OF assms(1)] assms(2,3)] by (simp add: filter_start)

theorem chunked_filter_refines_witness:
  "\<exists>x bufs. ngx_http_request_body_chunked_filter True (\<lambda>n. True) 0 [bytes ''2'', [ch_LF, ch_a]]
      \<lparr>rb_rest = -1, rb_chunked = \<lparr>ck_state = sw_chunk_start, ck_size = 0, ck_length = 0\<rparr>, content_length_n = 0\<rparr> =
      Some (Inr (x, map Data_buf bufs)) \<and> concat bufs = [ch_a] \<and> rb_rest x = 5"
  using chunked_filter_refines [of "\<lparr>rb_rest = -1, rb_chunked = \<lparr>ck_state = sw_chunk_start, ck_size = 0, ck_length = 0\<rparr>,
      content_length_n = 0\<rparr>" "[bytes ''2'', [ch_LF, ch_a]]" 0]
  by (auto simp: body_start_def abs_decode_def bytes_def ck_norm_def ck_step.simps parser_step chunked_length_def
      NGX_MAX_OFF_T_VALUE_def Let_def)

subsection \<open>Encoded bodies are read back\<close>

abbreviation (input) CRLF :: ngx_str where "CRLF \<equiv> [ch_CR, ch_LF]"

definition no_line_break :: "ngx_str \<Rightarrow> bool" where
  "no_line_break t \<longleftrightarrow> ch_CR \<notin> set t \<and> ch_LF \<notin> set t"

text \<open>A chunk: the hexadecimal digits of its size, in any case and with leading zeros, an
  extension and the data.\<close>

record chunk =
  chunk_digits :: ngx_str
  chunk_extension :: ngx_str
  chunk_data :: ngx_str

definition chunk_ok :: "chunk \<Rightarrow> bool" where
  "chunk_ok ch \<longleftrightarrow> chunk_digits ch \<noteq> [] \<and>
     radix_value hex_digit 16 0 (chunk_digits ch) = Some (int (length (chunk_data ch))) \<and>
     int (length (chunk_data ch)) \<le> NGX_MAX_OFF_T_VALUE div 16 \<and>
     (chunk_extension ch \<noteq> [] \<longrightarrow> hd (chunk_extension ch) \<in> {ch_semicolon, ch_space, ch_HT}) \<and> no_line_break (chunk_extension ch)"

definition chunk_header :: "chunk \<Rightarrow> ngx_str" where
  "chunk_header ch = chunk_digits ch @ chunk_extension ch @ CRLF"

definition chunk_text :: "chunk \<Rightarrow> ngx_str" where
  "chunk_text ch = chunk_header ch @ chunk_data ch @ CRLF"

text \<open>The body: chunks with data, the last chunk, trailer lines and an empty line.\<close>

definition body_text :: "chunk list \<Rightarrow> chunk \<Rightarrow> ngx_str list \<Rightarrow> ngx_str" where
  "body_text chunks last_chunk trailers =
     concat (map chunk_text chunks) @ chunk_header last_chunk @ concat (map (\<lambda>t. t @ CRLF) trailers) @ CRLF"

definition body_ok :: "chunk list \<Rightarrow> chunk \<Rightarrow> ngx_str list \<Rightarrow> bool" where
  "body_ok chunks last_chunk trailers \<longleftrightarrow>
     list_all (\<lambda>ch. chunk_ok ch \<and> chunk_data ch \<noteq> []) chunks \<and> chunk_ok last_chunk \<and> chunk_data last_chunk = [] \<and>
     list_all (\<lambda>t. t \<noteq> [] \<and> no_line_break t) trailers"

definition body_data :: "chunk list \<Rightarrow> ngx_str" where
  "body_data chunks = concat (map chunk_data chunks)"

lemma digit_steps:
  assumes "hex_digit c = Some d"
  shows "ck_step [c] 0 sw_chunk_start z = Break sw_chunk_size d"
    and "z \<le> NGX_MAX_OFF_T_VALUE div 16 \<Longrightarrow> ck_step [c] 0 sw_chunk_size z = Break sw_chunk_size (z * 16 + d)"
  using assms by (auto simp: hex_digit_def ck_step.simps parser_step Let_def split: if_splits)

lemma decode_digits:
  "radix_value hex_digit 16 v ds = Some x \<Longrightarrow> 0 \<le> v \<Longrightarrow> x \<le> NGX_MAX_OFF_T_VALUE div 16 \<Longrightarrow>
   decode mx sw_chunk_size v n (ds @ rest) = decode mx sw_chunk_size x n rest"
proof (induction ds arbitrary: v)
  case (Cons c ds)
  then obtain d where D: "hex_digit c = Some d" "radix_value hex_digit 16 (v * 16 + d) ds = Some x"
    by (auto split: option.splits)
  have "0 \<le> d"
    using hex_digit_range [OF D(1)] by simp
  then have "v \<le> x" "v * 16 + d \<le> x"
    using hex_reader.value_mono [OF _ D(2)] Cons.prems(2) by auto
  then have "v \<le> NGX_MAX_OFF_T_VALUE div 16" "\<not> v * 16 + d > NGX_MAX_OFF_T_VALUE - 5"
    using Cons.prems(3) by (auto simp: NGX_MAX_OFF_T_VALUE_def)
  then show ?case
    using Cons.IH [OF D(2)] Cons.prems(2,3) \<open>0 \<le> d\<close> digit_steps(2) [OF D(1)] by simp
qed simp

lemma decode_skip:
  assumes "s \<noteq> sw_chunk_data" "z \<le> NGX_MAX_OFF_T_VALUE - 5" "\<And>c. c \<in> set e \<Longrightarrow> ck_step [c] 0 s z = Break s z"
  shows "decode mx s z n (e @ rest) = decode mx s z n rest"
  using assms by (induction e) auto

lemma decode_break:
  "s \<noteq> sw_chunk_data \<Longrightarrow> ck_step [c] 0 s z = Break s' z' \<Longrightarrow> z' \<le> NGX_MAX_OFF_T_VALUE - 5 \<Longrightarrow>
   decode mx s z n (c # cs) = decode mx s' z' n cs"
  by simp

text \<open>A line from one of the states that wait for its end.\<close>

lemma decode_line:
  assumes "no_line_break e" "z \<le> NGX_MAX_OFF_T_VALUE - 5" "s \<noteq> sw_chunk_data" "a \<noteq> sw_chunk_data"
    and "\<And>c. ck_step [c] 0 s z = ck_extension s a t c z" "\<And>c. ck_step [c] 0 a z = ck_almost_done t c z"
  shows "decode mx s z n (e @ CRLF @ rest) = decode mx t z n rest"
proof -
  have "decode mx s z n (e @ CRLF @ rest) = decode mx s z n (CRLF @ rest)"
    using assms by (intro decode_skip) (auto simp: ck_extension_def no_line_break_def)
  then show ?thesis
    using assms by (simp add: ck_extension_def ck_almost_done_def)
qed

lemma decode_header:
  assumes "chunk_ok ch"
  defines "z \<equiv> int (length (chunk_data ch))"
  shows "decode mx sw_chunk_start z0 n (chunk_header ch @ rest) =
    decode mx (if z = 0 then sw_trailer else sw_chunk_data) z n rest"
proof -
  have Z: "0 \<le> z" "z \<le> NGX_MAX_OFF_T_VALUE div 16" "z \<le> NGX_MAX_OFF_T_VALUE - 5"
    using assms by (auto simp: chunk_ok_def NGX_MAX_OFF_T_VALUE_def)
  obtain c ds where D: "chunk_digits ch = c # ds"
    using assms(1) by (cases "chunk_digits ch") (auto simp: chunk_ok_def)
  obtain d where d: "hex_digit c = Some d" "radix_value hex_digit 16 d ds = Some z"
    using assms D by (auto simp: chunk_ok_def split: option.splits)
  have "decode mx sw_chunk_start z0 n (chunk_header ch @ rest) = decode mx sw_chunk_size d n (ds @ chunk_extension ch @ CRLF @ rest)"
    using digit_steps(1) [OF d(1)] hex_digit_range [OF d(1)] D by (simp add: chunk_header_def NGX_MAX_OFF_T_VALUE_def)
  also have "\<dots> = decode mx sw_chunk_size z n (chunk_extension ch @ CRLF @ rest)"
    using hex_digit_range [OF d(1)] Z by (intro decode_digits [OF d(2)]) auto
  also have "\<dots> = decode mx (if z = 0 then sw_trailer else sw_chunk_data) z n rest"
  proof (cases "chunk_extension ch")
    case Nil
    then show ?thesis
      using Z by (simp add: ck_step.simps parser_step Let_def)
  next
    case (Cons x e)
    let ?s = "if z = 0 then sw_last_chunk_extension else sw_chunk_extension"
    have "x \<in> {ch_semicolon, ch_space, ch_HT}" "no_line_break e"
      using assms(1) Cons by (auto simp: chunk_ok_def no_line_break_def)
    then have "ck_step [x] 0 sw_chunk_size z = Break ?s z"
      using Z by (auto simp: ck_step.simps parser_step Let_def)
    then have "decode mx sw_chunk_size z n (chunk_extension ch @ CRLF @ rest) = decode mx ?s z n (e @ CRLF @ rest)"
      using Cons Z by simp
    also have "\<dots> = decode mx (if z = 0 then sw_trailer else sw_chunk_data) z n rest"
      using decode_line [OF \<open>no_line_break e\<close> Z(3), of ?s
          "if z = 0 then sw_last_chunk_extension_almost_done else sw_chunk_extension_almost_done"
          "if z = 0 then sw_trailer else sw_chunk_data" mx n rest]
      by (simp add: ck_step.simps split: if_splits)
    finally show ?thesis .
  qed
  finally show ?thesis .
qed

lemma decode_chunk:
  assumes "chunk_ok ch" "chunk_data ch \<noteq> []" "mx = 0 \<or> n + int (length (chunk_data ch)) \<le> mx"
  shows "decode mx sw_chunk_start z0 n (chunk_text ch @ rest) =
    emit (chunk_data ch) (decode mx sw_chunk_start 0 (n + int (length (chunk_data ch))) rest)"
proof -
  let ?k = "length (chunk_data ch)"
  have "decode mx sw_chunk_start z0 n (chunk_text ch @ rest) = decode mx sw_chunk_data (int ?k) n (chunk_data ch @ CRLF @ rest)"
    using decode_header [OF assms(1), of mx z0 n "chunk_data ch @ CRLF @ rest"] assms(2) by (simp add: chunk_text_def)
  also have "\<dots> = emit (chunk_data ch) (decode mx sw_after_data 0 (n + int ?k) (CRLF @ rest))"
    using assms(2,3) by (subst decode_data [where k = ?k]) auto
  also have "\<dots> = emit (chunk_data ch) (decode mx sw_chunk_start 0 (n + int ?k) rest)"
    by (simp add: ck_step.simps parser_step NGX_MAX_OFF_T_VALUE_def)
  finally show ?thesis .
qed

lemma decode_chunks:
  "list_all (\<lambda>ch. chunk_ok ch \<and> chunk_data ch \<noteq> []) chunks \<Longrightarrow> mx = 0 \<or> n + int (length (body_data chunks)) \<le> mx \<Longrightarrow>
   decode mx sw_chunk_start 0 n (concat (map chunk_text chunks) @ rest) =
     emit (body_data chunks) (decode mx sw_chunk_start 0 (n + int (length (body_data chunks))) rest)"
proof (induction chunks arbitrary: n)
  case (Cons ch chunks)
  then show ?case
    using decode_chunk [of ch mx n 0 "concat (map chunk_text chunks) @ rest"]
    by (auto simp: body_data_def add.assoc)
qed (simp add: body_data_def)

lemma decode_trailers:
  "list_all (\<lambda>t. t \<noteq> [] \<and> no_line_break t) trailers \<Longrightarrow>
   decode mx sw_trailer 0 n (concat (map (\<lambda>t. t @ CRLF) trailers) @ CRLF) = Complete n [] []"
proof (induction trailers)
  case Nil
  then show ?case
    by (simp add: ck_step.simps parser_step NGX_MAX_OFF_T_VALUE_def)
next
  case (Cons t trailers)
  then obtain c t' where T: "t = c # t'" "no_line_break t'" "c \<noteq> ch_CR" "c \<noteq> ch_LF"
    by (cases t) (auto simp: no_line_break_def)
  let ?rest = "concat (map (\<lambda>t. t @ CRLF) trailers) @ CRLF"
  have "decode mx sw_trailer 0 n (t @ CRLF @ ?rest) = decode mx sw_trailer_header 0 n (t' @ CRLF @ ?rest)"
    using T by (simp add: ck_step.simps parser_step NGX_MAX_OFF_T_VALUE_def)
  also have "\<dots> = decode mx sw_trailer 0 n ?rest"
    using T(2) by (intro decode_line [where a = sw_trailer_header_almost_done]) (auto simp: ck_step.simps NGX_MAX_OFF_T_VALUE_def)
  finally show ?case
    using Cons by simp
qed

lemma decode_body:
  assumes "body_ok chunks last_chunk trailers" "mx = 0 \<or> int (length (body_data chunks)) \<le> mx"
  shows "decode mx sw_chunk_start 0 0 (body_text chunks last_chunk trailers) =
    Complete (int (length (body_data chunks))) (body_data chunks) []"
proof -
  let ?n = "int (length (body_data chunks))" and ?t = "concat (map (\<lambda>t. t @ CRLF) trailers) @ CRLF"
  have "decode mx sw_chunk_start 0 ?n (chunk_header last_chunk @ ?t) = Complete ?n [] []"
    using decode_header [of last_chunk mx 0 ?n ?t] decode_trailers [of trailers mx ?n] assms(1) by (simp add: body_ok_def)
  then show ?thesis
    using decode_chunks [of chunks mx 0 "chunk_header last_chunk @ ?t"] assms by (simp add: body_text_def body_ok_def)
qed

text \<open>C6. A chunked body is read back however it is cut into buffers: for chunks whose size fields
  hold the lengths of their data (in digits of any case, with extensions), a last chunk and
  trailer lines, the filter hands on exactly the data, in order, then the end mark, counts the
  bytes and waits for nothing more, if the body does not exceed \<open>client_max_body_size\<close>.\<close>

theorem chunked_body_roundtrip:
  assumes "body_ok chunks last_chunk trailers" "mx = 0 \<or> int (length (body_data chunks)) \<le> mx"
    and "concat bufs = body_text chunks last_chunk trailers" "[] \<notin> set bufs" "rb_rest x = -1"
  shows "\<exists>x' out. ngx_http_request_body_chunked_filter True (\<lambda>n. True) mx bufs x =
      Some (Inr (x', map Data_buf out @ [Last_buf])) \<and>
    concat out = body_data chunks \<and> content_length_n x' = int (length (body_data chunks)) \<and> rb_rest x' = 0"
proof -
  have W: "ck_wf (rb_chunked (body_start x))"
    using assms(5) by (intro body_start_wf) simp
  have A: "abs_decode mx (body_start x) cs = decode mx sw_chunk_start 0 0 cs" for cs
    using assms(5) by (simp add: abs_decode_def body_start_def ck_norm_def)
  have D: "abs_decode mx (body_start x) (concat bufs) =
      Complete (int (length (body_data chunks))) (body_data chunks) []"
    using decode_body [OF assms(1,2)] assms(3) A by simp
  then have N: "bufs \<noteq> []"
    using A by auto
  have "\<not> is_complete (abs_decode mx (body_start x) (concat (butlast bufs)))"
  proof
    assume "is_complete (abs_decode mx (body_start x) (concat (butlast bufs)))"
    then obtain n d rest where "decode mx sw_chunk_start 0 0 (concat (butlast bufs)) = Complete n d rest"
      using A by (cases "decode mx sw_chunk_start 0 0 (concat (butlast bufs))") auto
    moreover have "concat bufs = concat (butlast bufs) @ last bufs"
      using N by (metis append_butlast_last_id concat.simps concat_append append_Nil2)
    ultimately have "last bufs = []"
      using D A by (simp add: decode_append)
    then show False
      using N assms(4) by (metis last_in_set)
  qed
  from body_chain_refines [OF W N this, of "[]"] show ?thesis
    using D by (auto simp: filter_start)
qed

theorem chunked_body_roundtrip_witness:
  "\<exists>x' out. ngx_http_request_body_chunked_filter True (\<lambda>n. True) 10
      [bytes ''02;e'' @ [ch_CR], [ch_LF] @ bytes ''h'', bytes ''i'' @ CRLF @ bytes ''0'' @ CRLF @ CRLF]
      \<lparr>rb_rest = -1, rb_chunked = \<lparr>ck_state = sw_chunk_start, ck_size = 0, ck_length = 0\<rparr>, content_length_n = 0\<rparr> =
      Some (Inr (x', map Data_buf out @ [Last_buf])) \<and> concat out = bytes ''hi''"
  using chunked_body_roundtrip [of "[\<lparr>chunk_digits = bytes ''02'', chunk_extension = bytes '';e'', chunk_data = bytes ''hi''\<rparr>]"
      "\<lparr>chunk_digits = bytes ''0'', chunk_extension = [], chunk_data = []\<rparr>" "[]" 10
      "[bytes ''02;e'' @ [ch_CR], [ch_LF] @ bytes ''h'', bytes ''i'' @ CRLF @ bytes ''0'' @ CRLF @ CRLF]"
      "\<lparr>rb_rest = -1, rb_chunked = \<lparr>ck_state = sw_chunk_start, ck_size = 0, ck_length = 0\<rparr>, content_length_n = 0\<rparr>"]
  by (auto simp: bytes_def body_ok_def chunk_ok_def body_data_def body_text_def chunk_text_def chunk_header_def
      no_line_break_def hex_digit_def NGX_MAX_OFF_T_VALUE_def)

subsection \<open>Discarding a body\<close>

lemma discard_take:
  "discard_chunk mem pos (rb_chunked x) = (rb_chunked (fst (take_chunk mem pos x)), snd (take_chunk mem pos x))"
  by (simp add: discard_chunk_def take_chunk_def Let_def)

lemma discard_loop_like:
  assumes "ck_wf (rb_chunked x)" "pos \<le> length mem"
  shows "\<exists>r. discard_loop mem pos (rb_chunked x) = Some r \<and>
    map_option (map_sum id (\<lambda>(x, out). (rb_chunked x, rb_rest x))) (body_loop (\<lambda>n. True) 0 mem pos x out) =
      Some (map_sum id (\<lambda>(ctx, len, pos). (ctx, len)) r)"
  using assms
proof (induction "length mem - pos" arbitrary: pos x out rule: less_induct)
  case less
  obtain rc ctx q where P: "ngx_http_parse_chunked mem pos (rb_chunked x) = (rc, ctx, q)"
    using prod_cases3 by blast
  note R = parse_chunked_result [OF less.prems P]
  show ?case
  proof (cases "rc = NGX_OK")
    case True
    let ?y = "x\<lparr>rb_chunked := ctx\<rparr>"
    obtain x' q' where T: "take_chunk mem q ?y = (x', q')"
      by fastforce
    have K: "q < q' \<and> q' \<le> length mem \<and> ck_wf (rb_chunked x')"
      using take_chunk_result [OF T, where n = 0 and mx = 0] R True by simp
    have "discard_loop mem pos (rb_chunked x) = discard_loop mem q' (rb_chunked x')"
      using P True T discard_take [of mem q ?y] by (subst discard_loop.simps) simp
    moreover have "body_loop (\<lambda>n. True) 0 mem pos x out =
        body_loop (\<lambda>n. True) 0 mem q' x' (out @ [Data_buf (slice mem q q')])"
      using P True T by (subst body_loop.simps) simp
    moreover have "length mem - q' < length mem - pos"
      using K R by linarith
    ultimately show ?thesis
      using less.hyps [of q' x' "out @ [Data_buf (slice mem q q')]"] K by simp
  next
    case False
    then show ?thesis
      using P by (subst discard_loop.simps, subst body_loop.simps) auto
  qed
qed

text \<open>Discarding a chunked body reads the same bytes as passing it on: on any buffer and from
  any context that a call left, the discard filter returns, with the error, the context and the
  number of bytes to wait for of the body filter without a size limit.\<close>

theorem discard_like_filter:
  assumes "ck_wf (rb_chunked x)" "pos \<le> length mem"
  shows "\<exists>r. ngx_http_discard_request_body_filter pcalloc_ok True (Some (rb_chunked x)) mem pos clen = Some r \<and>
    map_option (map_sum id (\<lambda>(x, out). (rb_chunked x, rb_rest x))) (body_loop (\<lambda>n. True) 0 mem pos x []) =
      Some (map_sum id (\<lambda>(rb, len, pos). (the rb, len)) r)"
proof -
  obtain r where R: "discard_loop mem pos (rb_chunked x) = Some r"
    "map_option (map_sum id (\<lambda>(x, out). (rb_chunked x, rb_rest x))) (body_loop (\<lambda>n. True) 0 mem pos x []) =
      Some (map_sum id (\<lambda>(ctx, len, pos). (ctx, len)) r)"
    using discard_loop_like [OF assms, of "[]"] by blast
  then show ?thesis
    by (cases r) (auto simp: ngx_http_discard_request_body_filter_def)
qed

theorem discard_like_filter_witness:
  "\<exists>r. ngx_http_discard_request_body_filter True True (Some \<lparr>ck_state = sw_chunk_data, ck_size = 3, ck_length = 7\<rparr>)
      (bytes ''ab'') 0 0 = Some r"
  using discard_like_filter [of "\<lparr>rb_rest = 7, rb_chunked = \<lparr>ck_state = sw_chunk_data, ck_size = 3, ck_length = 7\<rparr>,
      content_length_n = 0\<rparr>" 0 "bytes ''ab''" True 0]
  by (auto simp: ck_wf_def ck_norm_def ck_inv_def NGX_MAX_OFF_T_VALUE_def)

end
