(* ===== verification/Http2_Int.thy ===== *)
theory Http2_Int
  imports Ngx_Prelude
begin

text \<open>
  The integers of HPACK, which also start its strings: \<open>ngx_http_v2_write_int\<close> of
  \<open>src/http/v2/ngx_http_v2_filter_module.c\<close> and \<open>ngx_http_v2_parse_int\<close> of \<open>src/http/v2/ngx_http_v2.c\<close>.
  Of the first byte an integer takes the low \<open>k\<close> bits; the high bits say what the integer is for.
\<close>

section \<open>Integers\<close>

definition NGX_HTTP_V2_INT_OCTETS :: nat where
  "NGX_HTTP_V2_INT_OCTETS = 4"

definition ngx_http_v2_prefix :: "nat \<Rightarrow> nat" where
  "ngx_http_v2_prefix n = 2 ^ n - 1"

fun write_int_rest :: "nat \<Rightarrow> u_char list" where
  "write_int_rest v = (if v \<ge> 128 then word_of_nat (v mod 128 + 128) # write_int_rest (v div 128) else [word_of_nat v])"

declare write_int_rest.simps [simp del]

text \<open>\<open>first\<close> is what the first byte contains already.\<close>

definition ngx_http_v2_write_int :: "u_char \<Rightarrow> nat \<Rightarrow> nat \<Rightarrow> u_char list" where
  "ngx_http_v2_write_int first prefix v =
     (if v < prefix then [first OR word_of_nat v]
      else (first OR word_of_nat prefix) # write_int_rest (v - prefix))"

fun parse_int_loop :: "u_char list \<Rightarrow> nat \<Rightarrow> nat \<Rightarrow> nat \<Rightarrow> (nat \<times> nat) option" where
  "parse_int_loop [] p shift v = None"
| "parse_int_loop (octet # rest) p shift v =
     (let v = v + push_bit shift (unat (octet AND 0x7f)) in
      if octet < 128 then Some (v, p + 1) else parse_int_loop rest (p + 1) (shift + 7) v)"

text \<open>The bytes at \<open>pos\<close> are \<open>ch\<close>, whose presence the callers have tested, and those of \<open>after\<close>. The
  result is the value, the number of bytes by which \<open>pos\<close> is advanced, and \<open>h2c->state.length\<close>.\<close>

definition ngx_http_v2_parse_int ::
  "nat \<Rightarrow> u_char \<Rightarrow> u_char list \<Rightarrow> nat \<Rightarrow> int \<times> nat \<times> nat" where
  "ngx_http_v2_parse_int len ch after prefix =
     (let v = unat ch AND prefix in
      if v \<noteq> prefix then
        if len = 0 then (NGX_ERROR, 0, len) else (int v, 1, len - 1)
      else
        let buf = ch # after;
            buf = (if length buf > NGX_HTTP_V2_INT_OCTETS then take NGX_HTTP_V2_INT_OCTETS buf else buf) in
        case parse_int_loop (tl buf) 1 0 v of
          Some (v, p) \<Rightarrow> if p > len then (NGX_ERROR, 0, len) else (int v, p, len - p)
        | None \<Rightarrow>
            if length buf \<ge> len then (NGX_ERROR, 0, len)
            else if length buf = NGX_HTTP_V2_INT_OCTETS then (NGX_DECLINED, 0, len)
            else (NGX_AGAIN, 0, len))"

subsection \<open>What the loops do\<close>

lemma write_int_rest_small [simp]: "v < 128 \<Longrightarrow> write_int_rest v = [word_of_nat v]"
  by (simp add: write_int_rest.simps [of v])

lemma write_int_rest_large [simp]:
  "128 \<le> v \<Longrightarrow> write_int_rest v = word_of_nat (v mod 128 + 128) # write_int_rest (v div 128)"
  by (simp add: write_int_rest.simps [of v])

lemma unat_octet [simp]: "n < 256 \<Longrightarrow> unat (word_of_nat n :: u_char) = n"
  by (simp add: unat_of_nat take_bit_nat_eq_self)

lemma octet_low: "unat ((b :: u_char) AND 0x7f) = unat b mod 128"
proof -
  have "b AND 0x7f = take_bit 7 b"
    by (simp add: take_bit_eq_mask mask_eq_exp_minus_1)
  then have "unat (b AND 0x7f) = take_bit 7 (unat b)" by (simp add: unsigned_take_bit_eq)
  then show ?thesis by (simp add: take_bit_eq_mod)
qed

lemma octet_less_128: "(b :: u_char) < 128 \<longleftrightarrow> unat b < 128"
  by (simp add: word_less_nat_alt)

lemma parse_write_rest:
  "parse_int_loop (write_int_rest v @ rest) p shift a = Some (a + v * 2 ^ shift, p + length (write_int_rest v))"
proof (induction v arbitrary: p shift a rule: write_int_rest.induct)
  case (1 v)
  show ?case
  proof (cases "v < 128")
    case True
    then show ?thesis by (simp add: octet_low octet_less_128 push_bit_eq_mult)
  next
    case False
    have m: "v mod 128 + 128 < 256" using mod_less_divisor [of 128 v] by linarith
    have "a + v mod 128 * 2 ^ shift + v div 128 * 2 ^ (shift + 7) = a + v * 2 ^ shift"
      using arg_cong [OF mult_div_mod_eq [of 128 v], of "\<lambda>x. x * 2 ^ shift"]
      unfolding add_mult_distrib by (simp add: power_add algebra_simps del: mult_div_mod_eq)
    then show ?thesis
      using False m 1 by (simp add: octet_low octet_less_128 push_bit_eq_mult del: of_nat_add)
  qed
qed

lemma parse_cut_rest:
  "n < length (write_int_rest v) \<Longrightarrow> parse_int_loop (take n (write_int_rest v)) p shift a = None"
proof (induction v arbitrary: n p shift a rule: write_int_rest.induct)
  case (1 v)
  show ?case
  proof (cases "v < 128")
    case True
    then show ?thesis using "1.prems" by simp
  next
    case False
    have m: "v mod 128 + 128 < 256" using mod_less_divisor [of 128 v] by linarith
    show ?thesis
      using False m "1.prems" "1.IH" by (cases n) (auto simp: octet_less_128 Let_def simp del: of_nat_add)
  qed
qed

lemma write_int_rest_length: "length (write_int_rest v) \<le> Suc n \<longleftrightarrow> v < 2 ^ (7 * Suc n)"
proof (induction n arbitrary: v)
  case 0
  have "write_int_rest x \<noteq> []" for x by (subst write_int_rest.simps) simp
  then show ?case by (cases "v < 128") auto
next
  case (Suc n)
  have "v div 128 < 2 ^ (7 * Suc n) \<longleftrightarrow> v < 2 ^ (7 * Suc (Suc n))"
    by (simp add: div_less_iff_less_mult power_add)
  moreover have "v < 2 ^ (7 * Suc (Suc n))" if "v < 128"
  proof -
    have "(128::nat) = 2 ^ 7" by simp
    also have "\<dots> \<le> 2 ^ (7 * Suc (Suc n))" by (rule power_increasing) auto
    finally show ?thesis using that by simp
  qed
  ultimately show ?case using Suc [of "v div 128"] by (cases "v < 128") auto
qed

lemma parse_loop_more: "parse_int_loop xs p shift v = Some r \<Longrightarrow> parse_int_loop (xs @ ys) p shift v = Some r"
  by (induction xs p shift v rule: parse_int_loop.induct) (auto simp: Let_def split: if_splits)

lemma parse_loop_moves: "parse_int_loop xs p shift v = Some (w, q) \<Longrightarrow> p < q \<and> q \<le> p + length xs"
  by (induction xs p shift v rule: parse_int_loop.induct) (fastforce simp: Let_def split: if_splits)+

lemma parse_loop_past:
  "parse_int_loop xs p shift v = None \<Longrightarrow> parse_int_loop (xs @ ys) p shift v = Some (w, q) \<Longrightarrow> p + length xs < q"
  by (induction xs p shift v rule: parse_int_loop.induct)
    (auto simp: Let_def split: if_splits dest: parse_loop_moves)

lemma write_int_rest_pos: "0 < length (write_int_rest v)"
  by (subst write_int_rest.simps) simp

lemma prefix_mask: "n AND ngx_http_v2_prefix k = take_bit k n"
  by (simp add: ngx_http_v2_prefix_def take_bit_eq_mask mask_eq_exp_minus_1)

lemma first_octet:
  assumes "unat (first :: u_char) mod 2 ^ k = 0" "p < 2 ^ k" "k \<le> 8"
  shows "unat (first OR word_of_nat p) AND ngx_http_v2_prefix k = p"
proof -
  have "(2::nat) ^ k \<le> 2 ^ 8" using assms(3) by (intro power_increasing) auto
  then have "unat (word_of_nat p :: u_char) = p" using assms(2) by simp
  then show ?thesis
    using assms(1,2) by (simp add: prefix_mask unsigned_or_eq take_bit_or) (simp add: take_bit_eq_mod)
qed

lemma write_int_length:
  "length (ngx_http_v2_write_int first (ngx_http_v2_prefix k) v) \<le> NGX_HTTP_V2_INT_OCTETS \<longleftrightarrow>
   v < ngx_http_v2_prefix k + 2 ^ 21"
  using write_int_rest_length [of "v - ngx_http_v2_prefix k" 2]
  by (auto simp: ngx_http_v2_write_int_def NGX_HTTP_V2_INT_OCTETS_def)

lemma parse_int_small:
  assumes "unat (first :: u_char) mod 2 ^ k = 0" "k \<le> 8" "v < ngx_http_v2_prefix k"
  shows "ngx_http_v2_parse_int len (first OR word_of_nat v) rest (ngx_http_v2_prefix k) =
    (if 1 \<le> len then (int v, 1, len - 1) else (NGX_ERROR, 0, len))"
proof -
  have "v < 2 ^ k" using assms(3) by (simp add: ngx_http_v2_prefix_def)
  from first_octet [OF assms(1) this assms(2)] show ?thesis
    using assms(3) by (simp add: ngx_http_v2_parse_int_def)
qed

lemma parse_int_large:
  assumes "unat (first :: u_char) mod 2 ^ k = 0" "k \<le> 8"
  shows "ngx_http_v2_parse_int len (first OR word_of_nat (ngx_http_v2_prefix k)) after (ngx_http_v2_prefix k) =
    (case parse_int_loop (take 3 after) 1 0 (ngx_http_v2_prefix k) of
       Some (v, p) \<Rightarrow> if p \<le> len then (int v, p, len - p) else (NGX_ERROR, 0, len)
     | None \<Rightarrow> if len \<le> min 4 (Suc (length after)) then (NGX_ERROR, 0, len)
         else if 3 \<le> length after then (NGX_DECLINED, 0, len) else (NGX_AGAIN, 0, len))"
proof -
  have "ngx_http_v2_prefix k < 2 ^ k" by (simp add: ngx_http_v2_prefix_def)
  from first_octet [OF assms(1) this assms(2)] show ?thesis
    by (cases "3 < length after")
      (auto simp: ngx_http_v2_parse_int_def NGX_HTTP_V2_INT_OCTETS_def Let_def take_Cons' split: option.splits)
qed

text \<open>An integer that is complete, and one that is cut after \<open>n\<close> bytes\<close>

lemma parse_int_write:
  fixes first :: u_char
  assumes "unat first mod 2 ^ k = 0" "k \<le> 8"
    and w: "ngx_http_v2_write_int first (ngx_http_v2_prefix k) v = ch # tail"
  shows "ngx_http_v2_parse_int len ch (tail @ rest) (ngx_http_v2_prefix k) =
     (let n = length (ch # tail) in
      if n \<le> NGX_HTTP_V2_INT_OCTETS then if n \<le> len then (int v, n, len - n) else (NGX_ERROR, 0, len)
      else if len \<le> NGX_HTTP_V2_INT_OCTETS then (NGX_ERROR, 0, len) else (NGX_DECLINED, 0, len))"
proof (cases "v < ngx_http_v2_prefix k")
  case True
  then show ?thesis
    using parse_int_small [OF assms(1,2)] w
    by (auto simp: ngx_http_v2_write_int_def NGX_HTTP_V2_INT_OCTETS_def)
next
  case False
  let ?r = "write_int_rest (v - ngx_http_v2_prefix k)"
  have c: "ch = first OR word_of_nat (ngx_http_v2_prefix k)" "tail = ?r"
    using False w by (auto simp: ngx_http_v2_write_int_def)
  show ?thesis
  proof (cases "length ?r \<le> 3")
    case True
    have "take 3 (?r @ rest) = ?r @ take (3 - length ?r) rest" using True by simp
    then have "parse_int_loop (take 3 (?r @ rest)) 1 0 (ngx_http_v2_prefix k) = Some (v, Suc (length ?r))"
      using parse_write_rest [of "v - ngx_http_v2_prefix k" "take (3 - length ?r) rest" 1 0 "ngx_http_v2_prefix k"] False
      by simp
    then show ?thesis
      using parse_int_large [OF assms(1,2), of len "?r @ rest"] True by (simp add: c NGX_HTTP_V2_INT_OCTETS_def)
  next
    case False
    then have "take 3 (?r @ rest) = take 3 ?r" by simp
    then show ?thesis
      using parse_int_large [OF assms(1,2), of len "?r @ rest"] False parse_cut_rest [of 3 "v - ngx_http_v2_prefix k"]
      by (simp add: c NGX_HTTP_V2_INT_OCTETS_def)
  qed
qed

lemma parse_int_cut:
  fixes first :: u_char
  assumes "unat first mod 2 ^ k = 0" "k \<le> 8"
    and w: "ngx_http_v2_write_int first (ngx_http_v2_prefix k) v = ch # tail"
    and n: "0 < n" "n < length (ch # tail)" "n < NGX_HTTP_V2_INT_OCTETS"
  shows "ngx_http_v2_parse_int len ch (take (n - 1) tail) (ngx_http_v2_prefix k) =
    (if len \<le> n then (NGX_ERROR, 0, len) else (NGX_AGAIN, 0, len))"
proof -
  have False: "\<not> v < ngx_http_v2_prefix k"
    using w n by (auto simp: ngx_http_v2_write_int_def)
  let ?r = "write_int_rest (v - ngx_http_v2_prefix k)"
  have c: "ch = first OR word_of_nat (ngx_http_v2_prefix k)" "tail = ?r"
    using False w by (auto simp: ngx_http_v2_write_int_def)
  obtain m where m: "n = Suc m" using n by (cases n) auto
  with n c have "m < length ?r" "m < 3" by (auto simp: NGX_HTTP_V2_INT_OCTETS_def)
  then show ?thesis
    using parse_int_large [OF assms(1,2), of len "take m ?r"] parse_cut_rest [of m "v - ngx_http_v2_prefix k"]
    by (simp add: c m)
qed

text \<open>More bytes change the result only when the parser waits for them.\<close>

lemma parse_int_again:
  assumes "ngx_http_v2_parse_int len ch after prefix = (NGX_AGAIN, n, l)"
  shows "n = 0" "l = len" "length after < 3"
  using assms by (auto simp: ngx_http_v2_parse_int_def NGX_HTTP_V2_INT_OCTETS_def Let_def split: if_splits option.splits)

lemma parse_int_more:
  assumes "ngx_http_v2_parse_int len ch after prefix = (v, n, l)" "v \<noteq> NGX_AGAIN"
  shows "ngx_http_v2_parse_int len ch (after @ ys) prefix = (v, n, l)" "n \<le> Suc (length after)"
proof -
  have t: "take 3 (after @ ys) = take 3 after @ take (3 - length after) ys" by simp
  show "ngx_http_v2_parse_int len ch (after @ ys) prefix = (v, n, l)" "n \<le> Suc (length after)"
    using assms parse_loop_more [of "take 3 after" _ _ _ _ "take (3 - length after) ys"]
      parse_loop_past [of "take 3 after" 1 0 "unat ch AND prefix" "take (3 - length after) ys"]
      parse_loop_moves [of "take 3 after" 1 0 "unat ch AND prefix"]
    unfolding ngx_http_v2_parse_int_def NGX_HTTP_V2_INT_OCTETS_def Let_def
    by (auto split: if_splits option.splits)
qed

text \<open>C19. What \<open>ngx_http_v2_write_int\<close> writes behind any high bits of the first byte,
  \<open>ngx_http_v2_parse_int\<close> reads back, with the bytes it takes off the frame counted. It reads 4 bytes at most,
  enough for a value of less than \<open>2 ^ 21\<close> above the prefix; a longer integer is declined, one that does not
  fit the frame is an error, and one that has not arrived in full is waited for exactly when it can still fit.\<close>

theorem int_roundtrip:
  fixes first :: u_char
  assumes "unat first mod 2 ^ k = 0" "k \<le> 8"
    and "ngx_http_v2_write_int first (ngx_http_v2_prefix k) v = ch # tail"
  shows "ngx_http_v2_parse_int len ch (tail @ rest) (ngx_http_v2_prefix k) =
      (let n = length (ch # tail) in
       if n \<le> NGX_HTTP_V2_INT_OCTETS then if n \<le> len then (int v, n, len - n) else (NGX_ERROR, 0, len)
       else if len \<le> NGX_HTTP_V2_INT_OCTETS then (NGX_ERROR, 0, len) else (NGX_DECLINED, 0, len)) \<and>
    (length (ch # tail) \<le> NGX_HTTP_V2_INT_OCTETS \<longleftrightarrow> v < ngx_http_v2_prefix k + 2 ^ 21) \<and>
    (\<forall>n. 0 < n \<and> n < length (ch # tail) \<and> n < NGX_HTTP_V2_INT_OCTETS \<longrightarrow>
      ngx_http_v2_parse_int len ch (take (n - 1) tail) (ngx_http_v2_prefix k) =
        (if len \<le> n then (NGX_ERROR, 0, len) else (NGX_AGAIN, 0, len)))"
  using parse_int_write [OF assms] parse_int_cut [OF assms] write_int_length [of first k v] assms(3) by simp

theorem int_roundtrip_witness:
  "ngx_http_v2_write_int 0x20 (ngx_http_v2_prefix 5) 1337 = [0x3f, 0x9a, 0x0a] \<and>
   ngx_http_v2_parse_int 10 0x3f ([0x9a, 0x0a] @ [0x82]) (ngx_http_v2_prefix 5) = (1337, 3, 7) \<and>
   ngx_http_v2_parse_int 10 0x3f (take 1 [0x9a, 0x0a]) (ngx_http_v2_prefix 5) = (NGX_AGAIN, 0, 10)"
proof -
  have w: "ngx_http_v2_write_int 0x20 (ngx_http_v2_prefix 5) 1337 = [0x3f, 0x9a, 0x0a]"
    by (simp add: ngx_http_v2_write_int_def ngx_http_v2_prefix_def)
  have k: "unat (0x20 :: u_char) mod 2 ^ 5 = 0" by simp
  from int_roundtrip [OF k _ w, of 10 "[0x82]"] show ?thesis
    by (auto simp: w NGX_HTTP_V2_INT_OCTETS_def dest: spec [of _ 2])
qed

end
