(* ===== verification/Http2_Huff_States.thy ===== *)
theory Http2_Huff_States
  imports Http2_Huff_Table
begin

text \<open>
  What the tables of \<open>Http2_Huff_Table\<close> mean. The codes are the leaves of \<open>huff_tree\<close>, so none of them
  is a prefix of another; the only path that ends in no code, 30 bits of one, is the end of string
  symbol of HPACK. The states of the decoder are the inner nodes of the tree, in preorder: a state
  stands for the bits that were read since the end of the last code. Each entry of the table of the
  decoder extends these bits by four and may take a code off their front.
\<close>

section \<open>Strings of bits\<close>

definition bits :: "nat \<Rightarrow> nat \<Rightarrow> bool list" where
  "bits n v = map (bit v) (rev [0..<n])"

lemma length_bits [simp]: "length (bits n v) = n"
  by (simp add: bits_def)

lemma bits_0 [simp]: "bits 0 v = []"
  by (simp add: bits_def)

lemma bits_append: "bits (m + n) v = bits m (drop_bit n v) @ bits n v"
proof (rule nth_equalityI)
  fix i assume "i < length (bits (m + n) v)"
  then show "bits (m + n) v ! i = (bits m (drop_bit n v) @ bits n v) ! i"
    by (auto simp: bits_def rev_nth nth_append bit_drop_bit_eq intro!: arg_cong [of _ _ "bit v"])
qed simp

lemma bits_take_bit: "bits n (take_bit n v) = bits n v"
  by (simp add: bits_def bit_take_bit_iff)

lemma bits_join: "y < 2 ^ n \<Longrightarrow> bits (m + n) (x * 2 ^ n + y) = bits m x @ bits n y"
  using bits_append [of m n "x * 2 ^ n + y"] bits_take_bit [of n "x * 2 ^ n + y"]
  by (simp add: drop_bit_eq_div take_bit_eq_mod)

lemma bits_snoc: "bits (Suc n) (2 * v) = bits n v @ [False]" "bits (Suc n) (2 * v + 1) = bits n v @ [True]"
  using bits_join [of 0 1 n v] bits_join [of 1 1 n v] by (simp_all add: bits_def [of "Suc 0"] mult.commute bit_Suc_0_iff)

lemma bits_ones: "bits n (2 ^ n - 1) = replicate n True"
proof -
  have "2 ^ n - 1 = (mask n :: nat)" by (simp add: mask_eq_exp_minus_1)
  moreover have "bits n (mask n) = replicate n True"
    by (simp add: bits_def list_eq_iff_nth_eq rev_nth bit_mask_iff)
  ultimately show ?thesis by (simp only:)
qed

lemma bits_inject: "v < 2 ^ n \<Longrightarrow> w < 2 ^ n \<Longrightarrow> bits n v = bits n w \<Longrightarrow> v = w"
proof (rule bit_eqI)
  fix i assume "v < 2 ^ n" "w < 2 ^ n" and eq: "bits n v = bits n w"
  then have "take_bit n v = v" "take_bit n w = w" by (simp_all add: take_bit_nat_eq_self_iff)
  moreover have "bit v i = bit w i" if "i < n"
    using arg_cong [OF eq, of "\<lambda>bs. bs ! (n - Suc i)"] that by (simp add: bits_def rev_nth)
  ultimately show "bit v i = bit w i" by (metis bit_take_bit_iff)
qed

section \<open>The codes\<close>

definition huff_code :: "u_char \<Rightarrow> huff_encode_code" where
  "huff_code c = ngx_http_v2_huff_encode_table ! unat c"

definition code_bits :: "u_char \<Rightarrow> bool list" where
  "code_bits c = bits (unat (ec_len (huff_code c))) (unat (ec_code (huff_code c)))"

text \<open>A function given by the list of its values from \<open>i\<close> on.\<close>

fun listed :: "(u_char \<Rightarrow> 'a) \<Rightarrow> u_char \<Rightarrow> 'a list \<Rightarrow> bool" where
  "listed f i [] \<longleftrightarrow> True"
| "listed f i (x # xs) \<longleftrightarrow> f i = x \<and> listed f (i + 1) xs"

lemma listed_nth: "unat i + length xs \<le> 256 \<Longrightarrow> listed (\<lambda>c. ys ! unat c) i xs \<longleftrightarrow> (\<forall>j < length xs. ys ! (unat i + j) = xs ! j)"
proof (induction xs arbitrary: i)
  case (Cons x xs)
  show ?case
  proof (cases "xs = []")
    case False
    then have "unat (i + 1) = unat i + 1" using Cons(2) by (cases xs) (simp_all add: unat_add_lem [THEN iffD1])
    with Cons show ?thesis by (auto simp: less_Suc_eq_0_disj All_less_Suc2)
  qed simp
qed simp

lemma listed_self: "length xs = 256 \<Longrightarrow> listed (\<lambda>c. xs ! unat c) 0 xs"
  by (simp add: listed_nth)

lemma huff_codes: "listed huff_code 0 ngx_http_v2_huff_encode_table"
  using listed_self [of ngx_http_v2_huff_encode_table]
  by (simp add: huff_code_def [abs_def] ngx_http_v2_huff_encode_table_def del: listed.simps)

lemmas huff_code_eqs = huff_codes [unfolded ngx_http_v2_huff_encode_table_def, simplified]

section \<open>The tree\<close>

datatype code_tree = Lf u_char | Eos | Br code_tree code_tree

definition huff_tree :: code_tree where
  "huff_tree =
    Br (Br (Br (Br (Br (Lf 0x30) (Lf 0x31)) (Br (Lf 0x32) (Lf 0x61))) (Br (Br (Lf 0x63) (Lf 0x65))
    (Br (Lf 0x69) (Lf 0x6f)))) (Br (Br (Br (Lf 0x73) (Lf 0x74)) (Br (Br (Lf 0x20) (Lf 0x25)) (Br
    (Lf 0x2d) (Lf 0x2e)))) (Br (Br (Br (Lf 0x2f) (Lf 0x33)) (Br (Lf 0x34) (Lf 0x35))) (Br (Br (Lf
    0x36) (Lf 0x37)) (Br (Lf 0x38) (Lf 0x39)))))) (Br (Br (Br (Br (Br (Lf 0x3d) (Lf 0x41)) (Br (Lf
    0x5f) (Lf 0x62))) (Br (Br (Lf 0x64) (Lf 0x66)) (Br (Lf 0x67) (Lf 0x68)))) (Br (Br (Br (Lf 0x6c)
    (Lf 0x6d)) (Br (Lf 0x6e) (Lf 0x70))) (Br (Br (Lf 0x72) (Lf 0x75)) (Br (Br (Lf 0x3a) (Lf 0x42))
    (Br (Lf 0x43) (Lf 0x44)))))) (Br (Br (Br (Br (Br (Lf 0x45) (Lf 0x46)) (Br (Lf 0x47) (Lf 0x48)))
    (Br (Br (Lf 0x49) (Lf 0x4a)) (Br (Lf 0x4b) (Lf 0x4c)))) (Br (Br (Br (Lf 0x4d) (Lf 0x4e)) (Br
    (Lf 0x4f) (Lf 0x50))) (Br (Br (Lf 0x51) (Lf 0x52)) (Br (Lf 0x53) (Lf 0x54))))) (Br (Br (Br (Br
    (Lf 0x55) (Lf 0x56)) (Br (Lf 0x57) (Lf 0x59))) (Br (Br (Lf 0x6a) (Lf 0x6b)) (Br (Lf 0x71) (Lf
    0x76)))) (Br (Br (Br (Lf 0x77) (Lf 0x78)) (Br (Lf 0x79) (Lf 0x7a))) (Br (Br (Br (Lf 0x26) (Lf
    0x2a)) (Br (Lf 0x2c) (Lf 0x3b))) (Br (Br (Lf 0x58) (Lf 0x5a)) (Br (Br (Br (Lf 0x21) (Lf 0x22))
    (Br (Lf 0x28) (Lf 0x29))) (Br (Br (Lf 0x3f) (Br (Lf 0x27) (Lf 0x2b))) (Br (Br (Lf 0x7c) (Br (Lf
    0x23) (Lf 0x3e))) (Br (Br (Br (Lf 0x00) (Lf 0x24)) (Br (Lf 0x40) (Lf 0x5b))) (Br (Br (Lf 0x5d)
    (Lf 0x7e)) (Br (Br (Lf 0x5e) (Lf 0x7d)) (Br (Br (Lf 0x3c) (Lf 0x60)) (Br (Lf 0x7b) (Br (Br (Br
    (Br (Lf 0x5c) (Lf 0xc3)) (Br (Lf 0xd0) (Br (Lf 0x80) (Lf 0x82)))) (Br (Br (Br (Lf 0x83) (Lf
    0xa2)) (Br (Lf 0xb8) (Lf 0xc2))) (Br (Br (Lf 0xe0) (Lf 0xe2)) (Br (Br (Lf 0x99) (Lf 0xa1)) (Br
    (Lf 0xa7) (Lf 0xac)))))) (Br (Br (Br (Br (Br (Lf 0xb0) (Lf 0xb1)) (Br (Lf 0xb3) (Lf 0xd1))) (Br
    (Br (Lf 0xd8) (Lf 0xd9)) (Br (Lf 0xe3) (Lf 0xe5)))) (Br (Br (Br (Lf 0xe6) (Br (Lf 0x81) (Lf
    0x84))) (Br (Br (Lf 0x85) (Lf 0x86)) (Br (Lf 0x88) (Lf 0x92)))) (Br (Br (Br (Lf 0x9a) (Lf
    0x9c)) (Br (Lf 0xa0) (Lf 0xa3))) (Br (Br (Lf 0xa4) (Lf 0xa9)) (Br (Lf 0xaa) (Lf 0xad)))))) (Br
    (Br (Br (Br (Br (Lf 0xb2) (Lf 0xb5)) (Br (Lf 0xb9) (Lf 0xba))) (Br (Br (Lf 0xbb) (Lf 0xbd)) (Br
    (Lf 0xbe) (Lf 0xc4)))) (Br (Br (Br (Lf 0xc6) (Lf 0xe4)) (Br (Lf 0xe8) (Lf 0xe9))) (Br (Br (Br
    (Lf 0x01) (Lf 0x87)) (Br (Lf 0x89) (Lf 0x8a))) (Br (Br (Lf 0x8b) (Lf 0x8c)) (Br (Lf 0x8d) (Lf
    0x8f)))))) (Br (Br (Br (Br (Br (Lf 0x93) (Lf 0x95)) (Br (Lf 0x96) (Lf 0x97))) (Br (Br (Lf 0x98)
    (Lf 0x9b)) (Br (Lf 0x9d) (Lf 0x9e)))) (Br (Br (Br (Lf 0xa5) (Lf 0xa6)) (Br (Lf 0xa8) (Lf
    0xae))) (Br (Br (Lf 0xaf) (Lf 0xb4)) (Br (Lf 0xb6) (Lf 0xb7))))) (Br (Br (Br (Br (Lf 0xbc) (Lf
    0xbf)) (Br (Lf 0xc5) (Lf 0xe7))) (Br (Br (Lf 0xef) (Br (Lf 0x09) (Lf 0x8e))) (Br (Br (Lf 0x90)
    (Lf 0x91)) (Br (Lf 0x94) (Lf 0x9f))))) (Br (Br (Br (Br (Lf 0xab) (Lf 0xce)) (Br (Lf 0xd7) (Lf
    0xe1))) (Br (Br (Lf 0xec) (Lf 0xed)) (Br (Br (Lf 0xc7) (Lf 0xcf)) (Br (Lf 0xea) (Lf 0xeb)))))
    (Br (Br (Br (Br (Br (Lf 0xc0) (Lf 0xc1)) (Br (Lf 0xc8) (Lf 0xc9))) (Br (Br (Lf 0xca) (Lf 0xcd))
    (Br (Lf 0xd2) (Lf 0xd5)))) (Br (Br (Br (Lf 0xda) (Lf 0xdb)) (Br (Lf 0xee) (Lf 0xf0))) (Br (Br
    (Lf 0xf2) (Lf 0xf3)) (Br (Lf 0xff) (Br (Lf 0xcb) (Lf 0xcc)))))) (Br (Br (Br (Br (Br (Lf 0xd3)
    (Lf 0xd4)) (Br (Lf 0xd6) (Lf 0xdd))) (Br (Br (Lf 0xde) (Lf 0xdf)) (Br (Lf 0xf1) (Lf 0xf4))))
    (Br (Br (Br (Lf 0xf5) (Lf 0xf6)) (Br (Lf 0xf7) (Lf 0xf8))) (Br (Br (Lf 0xfa) (Lf 0xfb)) (Br (Lf
    0xfc) (Lf 0xfd))))) (Br (Br (Br (Br (Lf 0xfe) (Br (Lf 0x02) (Lf 0x03))) (Br (Br (Lf 0x04) (Lf
    0x05)) (Br (Lf 0x06) (Lf 0x07)))) (Br (Br (Br (Lf 0x08) (Lf 0x0b)) (Br (Lf 0x0c) (Lf 0x0e)))
    (Br (Br (Lf 0x0f) (Lf 0x10)) (Br (Lf 0x11) (Lf 0x12))))) (Br (Br (Br (Br (Lf 0x13) (Lf 0x14))
    (Br (Lf 0x15) (Lf 0x17))) (Br (Br (Lf 0x18) (Lf 0x19)) (Br (Lf 0x1a) (Lf 0x1b)))) (Br (Br (Br
    (Lf 0x1c) (Lf 0x1d)) (Br (Lf 0x1e) (Lf 0x1f))) (Br (Br (Lf 0x7f) (Lf 0xdc)) (Br (Lf 0xf9) (Br
    (Br (Lf 0x0a) (Lf 0x0d)) (Br (Lf 0x16) (Eos))))))))))))))))))))))))))))))"

fun walk :: "code_tree \<Rightarrow> bool list \<Rightarrow> (u_char \<times> bool list) option" where
  "walk (Lf c) bs = Some (c, bs)"
| "walk Eos bs = None"
| "walk (Br l r) [] = None"
| "walk (Br l r) (False # bs) = walk l bs"
| "walk (Br l r) (True # bs) = walk r bs"

fun leaves :: "code_tree \<Rightarrow> (u_char \<times> bool list) list" where
  "leaves (Lf c) = [(c, [])]"
| "leaves Eos = []"
| "leaves (Br l r) = map (map_prod id ((#) False)) (leaves l) @ map (map_prod id ((#) True)) (leaves r)"

fun tree_ok :: "code_tree \<Rightarrow> nat \<Rightarrow> nat \<Rightarrow> bool" where
  "tree_ok (Lf c) m v \<longleftrightarrow> unat (ec_len (huff_code c)) = m \<and> unat (ec_code (huff_code c)) = v"
| "tree_ok Eos m v \<longleftrightarrow> m = 30 \<and> v = 2 ^ 30 - 1"
| "tree_ok (Br l r) m v \<longleftrightarrow> tree_ok l (m + 1) (2 * v) \<and> tree_ok r (m + 1) (2 * v + 1)"

fun inner :: "code_tree \<Rightarrow> nat \<Rightarrow> nat \<Rightarrow> (nat \<times> nat) list \<Rightarrow> (nat \<times> nat) list" where
  "inner (Lf c) m v xs = xs"
| "inner Eos m v xs = xs"
| "inner (Br l r) m v xs = (m, v) # inner l (m + 1) (2 * v) (inner r (m + 1) (2 * v + 1) xs)"

lemma walk_append: "walk t bs = Some (c, r) \<Longrightarrow> walk t (bs @ bs') = Some (c, r @ bs')"
  by (induction t bs rule: walk.induct) auto

lemma walk_leaf: "(c, p) \<in> set (leaves t) \<Longrightarrow> walk t (p @ bs) = Some (c, bs)"
  by (induction t arbitrary: p) auto

lemma leaves_code: "tree_ok t m v \<Longrightarrow> (c, p) \<in> set (leaves t) \<Longrightarrow> code_bits c = bits m v @ p"
  by (induction t arbitrary: m v p)
    (auto simp: code_bits_def bits_snoc [unfolded One_nat_def add_Suc_right add_0_right])

lemma leaves_distinct: "distinct (map snd (leaves t))"
  by (induction t) (auto simp: distinct_map inj_on_def comp_def)

lemma huff_tree_ok: "tree_ok huff_tree 0 0"
  by (simp add: huff_tree_def huff_code_eqs)

lemma length_leaves: "length (leaves huff_tree) = 256"
  by (simp add: huff_tree_def)

lemma huff_leaf: "(c, code_bits c) \<in> set (leaves huff_tree)"
proof -
  let ?L = "leaves huff_tree"
  have code: "code_bits (fst x) = snd x" if "x \<in> set ?L" for x
    using leaves_code [OF huff_tree_ok, of "fst x" "snd x"] that by simp
  have "distinct (map fst ?L)"
    using leaves_distinct [of huff_tree] code unfolding distinct_map by (metis inj_on_def)
  then have "card (fst ` set ?L) = card (UNIV :: u_char set)"
    using length_leaves using distinct_card [of "map fst ?L"] by (simp add: card_word)
  then have "fst ` set ?L = UNIV"
    by (metis card_subset_eq finite subset_UNIV)
  then obtain p where "(c, p) \<in> set ?L" by force
  with code show ?thesis by force
qed

lemma walk_code: "walk huff_tree (code_bits c @ bs) = Some (c, bs)"
  by (rule walk_leaf [OF huff_leaf])

lemma walk_ones: "k \<le> 30 \<Longrightarrow> walk huff_tree (replicate k True) = None"
proof (rule ccontr)
  assume "k \<le> 30" "walk huff_tree (replicate k True) \<noteq> None"
  then obtain x where "walk huff_tree (replicate k True @ replicate (30 - k) True) = Some x"
    using walk_append by fastforce
  moreover have "replicate k True @ replicate (30 - k) True = replicate 30 True"
    using \<open>k \<le> 30\<close> by (simp flip: replicate_add)
  ultimately show False by (simp add: huff_tree_def numeral_eq_Suc)
qed

section \<open>The states\<close>

definition huff_prefix :: "u_char \<Rightarrow> nat \<times> nat" where
  "huff_prefix s = inner huff_tree 0 0 [] ! unat s"

definition state_bits :: "u_char \<Rightarrow> bool list" where
  "state_bits s = (case huff_prefix s of (m, v) \<Rightarrow> bits m v)"

lemma length_inner: "length (inner huff_tree 0 0 []) = 256"
  by (simp add: huff_tree_def)

lemma huff_prefixes: "listed huff_prefix 0 (inner huff_tree 0 0 [])"
  using listed_self [OF length_inner] by (simp add: huff_prefix_def [abs_def])

lemmas huff_prefix_eqs = huff_prefixes [unfolded huff_tree_def, simplified]

lemma inner_walk: "(m', v') \<in> set (inner t m v xs) \<Longrightarrow> (m', v') \<notin> set xs \<Longrightarrow>
    \<exists>q. bits m' v' = bits m v @ q \<and> walk t q = None"
proof (induction t arbitrary: m v xs)
  case (Br l r)
  note snoc = bits_snoc [of m v]
  consider "(m', v') = (m, v)"
    | "(m', v') \<in> set (inner l (m + 1) (2 * v) (inner r (m + 1) (2 * v + 1) xs))"
      "(m', v') \<notin> set (inner r (m + 1) (2 * v + 1) xs)"
    | "(m', v') \<in> set (inner r (m + 1) (2 * v + 1) xs)"
    using Br(3) by auto
  then show ?case
  proof cases
    case 1
    then show ?thesis by (intro exI [of _ "[]"]) simp
  next
    case 2
    from Br(1) [OF this] obtain q where "bits m' v' = bits m v @ False # q" "walk l q = None" using snoc by auto
    then show ?thesis by (intro exI [of _ "False # q"]) simp
  next
    case 3
    from Br(2) [OF this Br(4)] obtain q where "bits m' v' = bits m v @ True # q" "walk r q = None" using snoc by auto
    then show ?thesis by (intro exI [of _ "True # q"]) simp
  qed
qed simp_all

lemma state_no_code: "state_bits s \<noteq> code_bits c @ r"
proof
  assume "state_bits s = code_bits c @ r"
  moreover have "walk huff_tree (state_bits s) = None"
  proof -
    obtain m v where p: "huff_prefix s = (m, v)" by (cases "huff_prefix s")
    have "huff_prefix s \<in> set (inner huff_tree 0 0 [])" by (simp add: huff_prefix_def length_inner)
    then show ?thesis using inner_walk [of m v huff_tree 0 0 "[]"] by (auto simp: p state_bits_def)
  qed
  ultimately show False by (simp add: walk_code)
qed

section \<open>The table of the decoder\<close>

text \<open>\<open>entry_ok s n e\<close>: in the state \<open>s\<close>, the entry \<open>e\<close> does the right thing for the bits \<open>n\<close>.\<close>

definition entry_ok :: "u_char \<Rightarrow> nat \<Rightarrow> huff_decode_code \<Rightarrow> bool" where
  "entry_ok s n e \<longleftrightarrow>
     (case huff_prefix s of (m, v) \<Rightarrow>
      if dc_next e = s then 26 \<le> m \<and> (16 * v + n) div 2 ^ (m - 26) = 2 ^ 30 - 1
      else case huff_prefix (dc_next e) of (m', v') \<Rightarrow>
        v' < 2 ^ m' \<and> (dc_ending e \<noteq> 0 \<longleftrightarrow> v' = 2 ^ m' - 1) \<and>
        (if dc_emit e \<noteq> 0 then
           m + 4 = unat (ec_len (huff_code (dc_sym e))) + m' \<and>
           16 * v + n = unat (ec_code (huff_code (dc_sym e))) * 2 ^ m' + v'
         else m + 4 = m' \<and> 16 * v + n = v'))"

fun row_ok :: "u_char \<Rightarrow> nat \<Rightarrow> huff_decode_code list \<Rightarrow> bool" where
  "row_ok s n [] \<longleftrightarrow> n = 16"
| "row_ok s n (e # es) \<longleftrightarrow> entry_ok s n e \<and> row_ok s (n + 1) es"

fun rows_ok :: "u_char \<Rightarrow> huff_decode_code list list \<Rightarrow> bool" where
  "rows_ok s [] \<longleftrightarrow> True"
| "rows_ok s (r # rs) \<longleftrightarrow> row_ok s 0 r \<and> rows_ok (s + 1) rs"

lemmas table_check = entry_ok_def huff_prefix_eqs huff_code_eqs

lemma rows_ok_0: "rows_ok 0x00 huff_decode_codes_0"
  by (simp add: huff_decode_codes_0_def table_check)

lemma rows_ok_1: "rows_ok 0x10 huff_decode_codes_1"
  by (simp add: huff_decode_codes_1_def table_check)

lemma rows_ok_2: "rows_ok 0x20 huff_decode_codes_2"
  by (simp add: huff_decode_codes_2_def table_check)

lemma rows_ok_3: "rows_ok 0x30 huff_decode_codes_3"
  by (simp add: huff_decode_codes_3_def table_check)

lemma rows_ok_4: "rows_ok 0x40 huff_decode_codes_4"
  by (simp add: huff_decode_codes_4_def table_check)

lemma rows_ok_5: "rows_ok 0x50 huff_decode_codes_5"
  by (simp add: huff_decode_codes_5_def table_check)

lemma rows_ok_6: "rows_ok 0x60 huff_decode_codes_6"
  by (simp add: huff_decode_codes_6_def table_check)

lemma rows_ok_7: "rows_ok 0x70 huff_decode_codes_7"
  by (simp add: huff_decode_codes_7_def table_check)

lemma rows_ok_8: "rows_ok 0x80 huff_decode_codes_8"
  by (simp add: huff_decode_codes_8_def table_check)

lemma rows_ok_9: "rows_ok 0x90 huff_decode_codes_9"
  by (simp add: huff_decode_codes_9_def table_check)

lemma rows_ok_a: "rows_ok 0xa0 huff_decode_codes_a"
  by (simp add: huff_decode_codes_a_def table_check)

lemma rows_ok_b: "rows_ok 0xb0 huff_decode_codes_b"
  by (simp add: huff_decode_codes_b_def table_check)

lemma rows_ok_c: "rows_ok 0xc0 huff_decode_codes_c"
  by (simp add: huff_decode_codes_c_def table_check)

lemma rows_ok_d: "rows_ok 0xd0 huff_decode_codes_d"
  by (simp add: huff_decode_codes_d_def table_check)

lemma rows_ok_e: "rows_ok 0xe0 huff_decode_codes_e"
  by (simp add: huff_decode_codes_e_def table_check)

lemma rows_ok_f: "rows_ok 0xf0 huff_decode_codes_f"
  by (simp add: huff_decode_codes_f_def table_check)

lemma rows_ok_append: "rows_ok s (xs @ ys) \<longleftrightarrow> rows_ok s xs \<and> rows_ok (s + word_of_nat (length xs)) ys"
  by (induction xs arbitrary: s) (auto simp: add.assoc)

lemma rows_16:
  "length huff_decode_codes_0 = 16" "length huff_decode_codes_1 = 16" "length huff_decode_codes_2 = 16"
  "length huff_decode_codes_3 = 16" "length huff_decode_codes_4 = 16" "length huff_decode_codes_5 = 16"
  "length huff_decode_codes_6 = 16" "length huff_decode_codes_7 = 16" "length huff_decode_codes_8 = 16"
  "length huff_decode_codes_9 = 16" "length huff_decode_codes_a = 16" "length huff_decode_codes_b = 16"
  "length huff_decode_codes_c = 16" "length huff_decode_codes_d = 16" "length huff_decode_codes_e = 16"
  "length huff_decode_codes_f = 16"
  by (simp_all add: huff_decode_codes_0_def huff_decode_codes_1_def huff_decode_codes_2_def
    huff_decode_codes_3_def huff_decode_codes_4_def huff_decode_codes_5_def huff_decode_codes_6_def
    huff_decode_codes_7_def huff_decode_codes_8_def huff_decode_codes_9_def huff_decode_codes_a_def
    huff_decode_codes_b_def huff_decode_codes_c_def huff_decode_codes_d_def huff_decode_codes_e_def
    huff_decode_codes_f_def)

lemma length_decode_codes: "length ngx_http_v2_huff_decode_codes = 256"
  by (simp add: ngx_http_v2_huff_decode_codes_def rows_16)

lemma rows_ok_all: "rows_ok 0 ngx_http_v2_huff_decode_codes"
  using rows_ok_0 rows_ok_1 rows_ok_2 rows_ok_3 rows_ok_4 rows_ok_5 rows_ok_6 rows_ok_7 rows_ok_8 rows_ok_9
    rows_ok_a rows_ok_b rows_ok_c rows_ok_d rows_ok_e rows_ok_f
  by (simp add: ngx_http_v2_huff_decode_codes_def rows_ok_append rows_16)

lemma row_ok_nth: "row_ok s n es \<Longrightarrow> i < length es \<Longrightarrow> entry_ok s (n + i) (es ! i)"
proof (induction es arbitrary: n i)
  case (Cons e es)
  then show ?case using Cons.IH [of "n + 1" "i - 1"] by (cases i) auto
qed simp

lemma row_ok_length: "row_ok s n es \<Longrightarrow> n + length es = 16"
  by (induction es arbitrary: n) fastforce+

lemma rows_ok_nth: "rows_ok s rs \<Longrightarrow> i < length rs \<Longrightarrow> row_ok (s + word_of_nat i) 0 (rs ! i)"
proof (induction rs arbitrary: s i)
  case (Cons r rs)
  then show ?case using Cons.IH [of "s + 1" "i - 1"] by (cases i) (auto simp: ac_simps)
qed simp

lemma table_ok:
  assumes "n < 16"
  shows "entry_ok s n (ngx_http_v2_huff_decode_codes ! unat s ! n)"
proof -
  have "row_ok s 0 (ngx_http_v2_huff_decode_codes ! unat s)"
    using rows_ok_nth [OF rows_ok_all, of "unat s"] by (simp add: length_decode_codes)
  with row_ok_nth [of s 0 _ n] row_ok_length [of s 0] assms show ?thesis by simp
qed

text \<open>Every entry of the table is right: it is an error exactly on the way to the end of string symbol,
  else it adds four bits to those of the state and takes the code of the byte it emits off their
  front; \<open>ending\<close> says that the bits left over are all ones.\<close>

lemma decode_entry:
  fixes s :: u_char
  assumes "n < 16"
  defines "e \<equiv> ngx_http_v2_huff_decode_codes ! unat s ! n"
  shows "dc_next e = s \<Longrightarrow> \<exists>r. state_bits s @ bits 4 n = replicate 30 True @ r"
    "dc_next e \<noteq> s \<Longrightarrow> state_bits s @ bits 4 n = (if dc_emit e \<noteq> 0 then code_bits (dc_sym e) else []) @ state_bits (dc_next e)"
    "dc_next e \<noteq> s \<Longrightarrow> dc_ending e \<noteq> 0 \<longleftrightarrow> state_bits (dc_next e) = replicate (length (state_bits (dc_next e))) True"
proof -
  obtain m v where s: "huff_prefix s = (m, v)" by (cases "huff_prefix s")
  obtain m' v' where t: "huff_prefix (dc_next e) = (m', v')" by (cases "huff_prefix (dc_next e)")
  note ok = table_ok [OF assms(1), of s, folded e_def, unfolded entry_ok_def s t, simplified]
  have 4: "state_bits s @ bits 4 n = bits (m + 4) (16 * v + n)"
    using bits_join [of n 4 m v] assms(1) by (simp add: state_bits_def s mult.commute)
  show "\<exists>r. state_bits s @ bits 4 n = replicate 30 True @ r" if "dc_next e = s"
  proof -
    have m: "26 \<le> m" and d: "drop_bit (m - 26) (16 * v + n) = 2 ^ 30 - 1" using ok that by (simp_all add: drop_bit_eq_div)
    have "bits (30 + (m - 26)) (16 * v + n) = replicate 30 True @ bits (m - 26) (16 * v + n)"
      unfolding bits_append d by (simp only: bits_ones)
    with 4 m show ?thesis by (auto simp: add.commute)
  qed
  assume ne: "dc_next e \<noteq> s"
  then have v': "v' < 2 ^ m'" using ok by simp
  show "state_bits s @ bits 4 n = (if dc_emit e \<noteq> 0 then code_bits (dc_sym e) else []) @ state_bits (dc_next e)"
    unfolding 4 using ok ne bits_join [OF v'] by (auto simp: state_bits_def t code_bits_def)
  have "dc_ending e \<noteq> 0 \<longleftrightarrow> v' = 2 ^ m' - 1" using ok ne by simp
  also have "\<dots> \<longleftrightarrow> bits m' v' = bits m' (2 ^ m' - 1)" using bits_inject [OF v', of "2 ^ m' - 1"] by auto
  finally show "dc_ending e \<noteq> 0 \<longleftrightarrow> state_bits (dc_next e) = replicate (length (state_bits (dc_next e))) True"
    by (simp only: bits_ones) (simp add: state_bits_def t)
qed

end
