(* ===== verification/Http2_Huff.thy ===== *)
theory Http2_Huff
  imports Ngx_Strings Http2_Huff_States
begin

text \<open>
  The Huffman coding of HPACK: \<open>ngx_http_v2_huff_decode\<close> of \<open>src/http/v2/ngx_http_v2_huff_decode.c\<close> and
  \<open>ngx_http_v2_huff_encode\<close> of \<open>src/http/v2/ngx_http_v2_huff_encode.c\<close>, over the tables of
  \<open>Http2_Huff_Table\<close>.

  The decoder is called once for every piece of a string; \<open>state\<close> lives between the calls, \<open>ending\<close>
  does not. The bytes written so far are \<open>hd_dst\<close>. The encoder returns the length, 0 when the result
  would not be shorter than its source, and the bytes it has written.
\<close>

section \<open>The functions\<close>

record huff_decoder =
  hd_state :: u_char
  hd_ending :: u_char
  hd_dst :: "u_char list"

definition ngx_http_v2_huff_decode_bits :: "huff_decoder \<Rightarrow> nat \<Rightarrow> huff_decoder option" where
  "ngx_http_v2_huff_decode_bits x n =
     (let code = ngx_http_v2_huff_decode_codes ! unat (hd_state x) ! n in
      if dc_next code = hd_state x then None
      else Some \<lparr>hd_state = dc_next code, hd_ending = dc_ending code,
             hd_dst = hd_dst x @ (if dc_emit code \<noteq> 0 then [dc_sym code] else [])\<rparr>)"

fun huff_decode_loop :: "u_char list \<Rightarrow> huff_decoder \<Rightarrow> bool \<times> huff_decoder" where
  "huff_decode_loop [] x = (True, x)"
| "huff_decode_loop (ch # src) x =
     (case ngx_http_v2_huff_decode_bits x (unat (drop_bit 4 ch)) of
        None \<Rightarrow> (False, x)
      | Some x \<Rightarrow>
         (case ngx_http_v2_huff_decode_bits x (unat (ch AND 0xf)) of
            None \<Rightarrow> (False, x)
          | Some x \<Rightarrow> huff_decode_loop src x))"

definition ngx_http_v2_huff_decode ::
  "u_char \<Rightarrow> u_char list \<Rightarrow> u_char list \<Rightarrow> bool \<Rightarrow> int \<times> huff_decoder" where
  "ngx_http_v2_huff_decode state src dst last_piece =
     (let (ok, x) = huff_decode_loop src \<lparr>hd_state = state, hd_ending = 1, hd_dst = dst\<rparr> in
      if \<not> ok then (NGX_ERROR, x)
      else if last_piece then
        if hd_ending x = 0 then (NGX_ERROR, x) else (NGX_OK, x\<lparr>hd_state := 0\<rparr>)
      else (NGX_OK, x))"

text \<open>\<open>ngx_align\<close> for an alignment that is a power of 2\<close>

definition ngx_align :: "nat \<Rightarrow> nat \<Rightarrow> nat" where
  "ngx_align d a = (d + (a - 1)) div a * a"

definition ngx_http_v2_huff_encode_buf :: "64 word \<Rightarrow> u_char list" where
  "ngx_http_v2_huff_encode_buf buf =
     [ucast (drop_bit 56 buf), ucast (drop_bit 48 buf), ucast (drop_bit 40 buf), ucast (drop_bit 32 buf),
      ucast (drop_bit 24 buf), ucast (drop_bit 16 buf), ucast (drop_bit 8 buf), ucast buf]"

fun huff_encode_loop :: "huff_encode_code list \<Rightarrow> nat \<Rightarrow> u_char list \<Rightarrow> u_char list \<Rightarrow> 64 word \<Rightarrow> nat \<Rightarrow>
    u_char list \<times> (64 word \<times> nat) option" where
  "huff_encode_loop table len [] dst buf pending = (dst, Some (buf, pending))"
| "huff_encode_loop table len (c # src) dst buf pending =
     (let next = table ! unat c;
          code = ucast (ec_code next) :: 64 word;
          pending = pending + unat (ec_len next) in
      if pending < 64 then huff_encode_loop table len src dst (buf OR push_bit (64 - pending) code) pending
      else if length dst + 8 \<ge> len then (dst, None)
      else
        let pending = pending - 64;
            buf = buf OR drop_bit pending code in
        huff_encode_loop table len src (dst @ ngx_http_v2_huff_encode_buf buf)
          (if pending \<noteq> 0 then push_bit (64 - pending) code else 0) pending)"

fun huff_encode_rest :: "64 word \<Rightarrow> nat \<Rightarrow> u_char list" where
  "huff_encode_rest buf pending =
     (let pending = pending - 8 in
      ucast (drop_bit pending buf) # (if pending \<noteq> 0 then huff_encode_rest buf pending else []))"

declare huff_encode_rest.simps [simp del]

definition ngx_http_v2_huff_encode :: "u_char list \<Rightarrow> bool \<Rightarrow> nat \<times> u_char list" where
  "ngx_http_v2_huff_encode src lower =
     (let table = (if lower then ngx_http_v2_huff_encode_table_lc else ngx_http_v2_huff_encode_table) in
      case huff_encode_loop table (length src) src [] 0 0 of
        (dst, None) \<Rightarrow> (0, dst)
      | (dst, Some (buf, pending)) \<Rightarrow>
          if pending = 0 then (length dst, dst)
          else
            let buf = buf OR drop_bit pending (- 1);
                pending = ngx_align pending 8 in
            if length dst + pending div 8 \<ge> length src then (0, dst)
            else
              let dst = dst @ huff_encode_rest (drop_bit (64 - pending) buf) pending in
              (length dst, dst))"

section \<open>Bits of bytes\<close>

definition bytes_bits :: "u_char list \<Rightarrow> bool list" where
  "bytes_bits bs = concat (map (\<lambda>b. bits 8 (unat b)) bs)"

definition codes :: "u_char list \<Rightarrow> bool list" where
  "codes s = concat (map code_bits s)"

lemma bytes_bits_simps [simp]:
  "bytes_bits [] = []" "bytes_bits (b # bs) = bits 8 (unat b) @ bytes_bits bs"
  "bytes_bits (bs @ bs') = bytes_bits bs @ bytes_bits bs'"
  by (simp_all add: bytes_bits_def)

lemma codes_simps [simp]: "codes [] = []" "codes (c # s) = code_bits c @ codes s" "codes (s @ s') = codes s @ codes s'"
  by (simp_all add: codes_def)

lemma length_bytes_bits [simp]: "length (bytes_bits bs) = 8 * length bs"
  by (induction bs) auto

lemma low_nibble: "(b :: u_char) AND 0xf = take_bit 4 b"
  by (simp add: take_bit_eq_mask mask_eq_exp_minus_1)

lemma byte_nibbles: "bits 8 (unat (b :: u_char)) = bits 4 (unat (drop_bit 4 b)) @ bits 4 (unat (b AND 0xf))"
  using bits_append [of 4 4 "unat b"] bits_take_bit [of 4 "unat b"]
  by (simp add: low_nibble unsigned_drop_bit_eq unsigned_take_bit_eq take_bit_nat_eq_self)

lemma nibble_less: "unat (drop_bit 4 (b :: u_char)) < 16" "unat ((b :: u_char) AND 0xf) < 16"
  using take_bit_nat_less_exp [of 4 "unat b"] by (simp_all add: unat_drop_bit_div low_nibble unsigned_take_bit_eq)

text \<open>The codes have 5 to 30 bits.\<close>

lemma code_sizes:
  "unat (ec_code (huff_code c)) < 2 ^ unat (ec_len (huff_code c))"
  "5 \<le> unat (ec_len (huff_code c))" "unat (ec_len (huff_code c)) \<le> 30"
proof -
  have "list_all (\<lambda>e. unat (ec_code e) < 2 ^ unat (ec_len e) \<and> 5 \<le> unat (ec_len e) \<and> unat (ec_len e) \<le> 30)
      ngx_http_v2_huff_encode_table"
    by (simp add: ngx_http_v2_huff_encode_table_def)
  moreover have "length ngx_http_v2_huff_encode_table = 256" by (simp add: ngx_http_v2_huff_encode_table_def)
  ultimately have "unat (ec_code (huff_code c)) < 2 ^ unat (ec_len (huff_code c)) \<and> 5 \<le> unat (ec_len (huff_code c)) \<and>
      unat (ec_len (huff_code c)) \<le> 30"
    unfolding huff_code_def by (simp add: list_all_length)
  then show "unat (ec_code (huff_code c)) < 2 ^ unat (ec_len (huff_code c))"
    "5 \<le> unat (ec_len (huff_code c))" "unat (ec_len (huff_code c)) \<le> 30" by auto
qed

lemma length_codes: "5 * length s \<le> length (codes s)"
  by (induction s) (use code_sizes(2) in \<open>auto simp: code_bits_def add_mono\<close>)

lemma state_size: "length (state_bits s) < 30"
proof -
  have "list_all (\<lambda>p. fst p < 30) (inner huff_tree 0 0 [])" by (simp add: huff_tree_def)
  then have "fst (huff_prefix s) < 30" by (simp add: list_all_length huff_prefix_def length_inner)
  then show ?thesis by (simp add: state_bits_def case_prod_unfold)
qed

lemma state_bits_0 [simp]: "state_bits 0 = []"
  by (simp add: state_bits_def huff_prefix_def huff_tree_def)

section \<open>The decoder\<close>

text \<open>What the decoder has read is the codes of what it has written and the bits of its state; when it
  fails these bits are those of the end of string symbol.\<close>

definition all_ones :: "bool list \<Rightarrow> bool" where
  "all_ones bs \<longleftrightarrow> bs = replicate (length bs) True"

lemma decode_bits_step:
  assumes "n < 16"
  shows "ngx_http_v2_huff_decode_bits x n = None \<Longrightarrow> \<exists>r. state_bits (hd_state x) @ bits 4 n = replicate 30 True @ r"
    "ngx_http_v2_huff_decode_bits x n = Some y \<Longrightarrow> \<exists>new. hd_dst y = hd_dst x @ new \<and>
      state_bits (hd_state x) @ bits 4 n = codes new @ state_bits (hd_state y) \<and>
      (hd_ending y \<noteq> 0 \<longleftrightarrow> all_ones (state_bits (hd_state y)))"
  using decode_entry [OF assms, of "hd_state x"]
  by (auto simp: ngx_http_v2_huff_decode_bits_def Let_def all_ones_def split: if_splits)

lemma decode_loop_reads:
  assumes "huff_decode_loop src x = (ok, y)" "hd_ending x \<noteq> 0 \<longleftrightarrow> all_ones (state_bits (hd_state x))"
  shows "\<exists>new rest. hd_dst y = hd_dst x @ new \<and> state_bits (hd_state x) @ bytes_bits src = codes new @ rest \<and>
    (if ok then rest = state_bits (hd_state y) \<and> (hd_ending y \<noteq> 0 \<longleftrightarrow> all_ones rest)
     else \<exists>r. rest = replicate 30 True @ r)"
  using assms
proof (induction src x rule: huff_decode_loop.induct)
  case (1 x)
  then show ?case by (intro exI [of _ "[]"] exI [of _ "state_bits (hd_state x)"]) auto
next
  case (2 ch src x)
  note nib = nibble_less [of ch] byte_nibbles [of ch]
  show ?case
  proof (cases "ngx_http_v2_huff_decode_bits x (unat (drop_bit 4 ch))")
    case None
    from decode_bits_step(1) [OF nib(1) None] obtain r where
      "state_bits (hd_state x) @ bits 4 (unat (drop_bit 4 ch)) = replicate 30 True @ r" by blast
    then have "state_bits (hd_state x) @ bytes_bits (ch # src) =
        replicate 30 True @ r @ bits 4 (unat (ch AND 0xf)) @ bytes_bits src"
      by (simp add: nib(3) flip: append_assoc)
    with 2(2) None show ?thesis
      by (intro exI [of _ "[]"] exI [of _ "replicate 30 True @ r @ bits 4 (unat (ch AND 0xf)) @ bytes_bits src"]) auto
  next
    case high: (Some x1)
    from decode_bits_step(2) [OF nib(1) high] obtain new1 where s1: "hd_dst x1 = hd_dst x @ new1"
      "state_bits (hd_state x) @ bits 4 (unat (drop_bit 4 ch)) = codes new1 @ state_bits (hd_state x1)" by blast
    show ?thesis
    proof (cases "ngx_http_v2_huff_decode_bits x1 (unat (ch AND 0xf))")
      case None
      from decode_bits_step(1) [OF nib(2) None] obtain r where
        "state_bits (hd_state x1) @ bits 4 (unat (ch AND 0xf)) = replicate 30 True @ r" by blast
      then have "state_bits (hd_state x) @ bytes_bits (ch # src) = codes new1 @ replicate 30 True @ r @ bytes_bits src"
        using s1(2) by (simp add: nib(3)) (metis append_assoc)
      with s1(1) 2(2) high None show ?thesis
        by (intro exI [of _ new1] exI [of _ "replicate 30 True @ r @ bytes_bits src"]) auto
    next
      case low: (Some x2)
      from decode_bits_step(2) [OF nib(2) low] obtain new2 where s2: "hd_dst x2 = hd_dst x1 @ new2"
        "state_bits (hd_state x1) @ bits 4 (unat (ch AND 0xf)) = codes new2 @ state_bits (hd_state x2)"
        "hd_ending x2 \<noteq> 0 \<longleftrightarrow> all_ones (state_bits (hd_state x2))" by blast
      have "huff_decode_loop src x2 = (ok, y)" using 2(2) high low by simp
      from 2(1) [OF high low this s2(3)] obtain new rest where
        3: "hd_dst y = hd_dst x2 @ new" "state_bits (hd_state x2) @ bytes_bits src = codes new @ rest"
        "if ok then rest = state_bits (hd_state y) \<and> (hd_ending y \<noteq> 0 \<longleftrightarrow> all_ones rest) else \<exists>r. rest = replicate 30 True @ r"
        by blast
      have "state_bits (hd_state x) @ bytes_bits (ch # src) = codes (new1 @ new2 @ new) @ rest"
        using s1(2) s2(2) 3(2) by (simp add: nib(3)) (metis append_assoc)
      with s1(1) s2(1) 3(1,3) show ?thesis by (intro exI [of _ "new1 @ new2 @ new"] exI [of _ rest]) auto
    qed
  qed
qed

text \<open>The codes can be told apart.\<close>

lemma codes_unique:
  assumes "walk huff_tree rest = None" "k < 30"
  shows "codes xs @ rest = codes ys @ replicate k True \<Longrightarrow> xs = ys \<and> rest = replicate k True"
proof (induction xs arbitrary: ys)
  case Nil
  then show ?case using assms(1) walk_code by (cases ys) auto
next
  case (Cons x xs)
  then have w: "walk huff_tree (codes ys @ replicate k True) = Some (x, codes xs @ rest)"
    using walk_code [of x "codes xs @ rest"] by simp
  then obtain y zs where ys: "ys = y # zs" using walk_ones [of k] assms(2) by (cases ys) auto
  with w have "y = x" "codes xs @ rest = codes zs @ replicate k True" using walk_code by auto
  with Cons.IH [of zs] ys show ?case by simp
qed

lemma walk_state: "walk huff_tree (state_bits s) = None"
proof -
  obtain m v where p: "huff_prefix s = (m, v)" by (cases "huff_prefix s")
  have "huff_prefix s \<in> set (inner huff_tree 0 0 [])" by (simp add: huff_prefix_def length_inner)
  then show ?thesis using inner_walk [of m v huff_tree 0 0 "[]"] by (auto simp: p state_bits_def)
qed

lemma walk_eos: "walk huff_tree (replicate 30 True @ r) = None"
  by (simp add: huff_tree_def numeral_eq_Suc)

section \<open>The encoder\<close>

lemma nth_listed: "listed f i xs \<Longrightarrow> j < length xs \<Longrightarrow> xs ! j = f (i + word_of_nat j)"
proof (induction xs arbitrary: i j)
  case (Cons x xs)
  then show ?case using Cons.IH [of "i + 1" "j - 1"] by (cases j) (auto simp: ac_simps)
qed simp

lemma huff_lower: "ngx_http_v2_huff_encode_table_lc ! unat c = huff_code (ngx_tolower c)"
proof -
  have "listed (\<lambda>c. huff_code (ngx_tolower c)) 0 ngx_http_v2_huff_encode_table_lc"
    by (simp add: ngx_http_v2_huff_encode_table_lc_def ngx_tolower_def byte_cmp huff_code_eqs)
  moreover have "length ngx_http_v2_huff_encode_table_lc = 256" by (simp add: ngx_http_v2_huff_encode_table_lc_def)
  ultimately show ?thesis using nth_listed [where f = "\<lambda>c. huff_code (ngx_tolower c)" and i = 0 and j = "unat c"] by fastforce
qed

text \<open>The first bits of the buffer\<close>

definition top :: "nat \<Rightarrow> 64 word \<Rightarrow> bool list" where
  "top p w = map (bit w) (rev [64 - p..<64])"

lemma length_top [simp]: "p \<le> 64 \<Longrightarrow> length (top p w) = p"
  by (simp add: top_def)

lemma nth_top: "p \<le> 64 \<Longrightarrow> i < p \<Longrightarrow> top p w ! i = bit w (63 - i)"
  by (simp add: top_def rev_nth)

lemma nth_bits: "i < n \<Longrightarrow> bits n v ! i = bit v (n - Suc i)"
  by (simp add: bits_def rev_nth)

lemma bit_code:
  assumes "unat (c :: 32 word) < 2 ^ l"
  shows "bit (ucast c :: 64 word) i \<longleftrightarrow> i < l \<and> bit (unat c) i"
proof -
  have "take_bit l (unat c) = unat c" using assms by (simp add: take_bit_nat_eq_self)
  then have "bit (unat c) i \<longleftrightarrow> i < l \<and> bit (unat c) i" using bit_take_bit_iff [of l "unat c" i] by auto
  then show ?thesis by (auto simp: bit_ucast_iff bit_unsigned_iff dest: bit_imp_le_length)
qed

lemma top_add:
  assumes "unat c < 2 ^ l" "p + l < 64" "\<And>i. i < 64 - p \<Longrightarrow> \<not> bit buf i"
  defines "w \<equiv> buf OR push_bit (64 - (p + l)) (ucast (c :: 32 word) :: 64 word)"
  shows "top (p + l) w = top p buf @ bits l (unat c)" "i < 64 - (p + l) \<Longrightarrow> \<not> bit w i"
proof -
  show "top (p + l) w = top p buf @ bits l (unat c)"
    by (rule nth_equalityI)
      (use assms(1-3) in \<open>auto simp: w_def nth_top nth_bits nth_append bit_or_iff bit_push_bit_iff bit_code add.commute\<close>)
  show "i < 64 - (p + l) \<Longrightarrow> \<not> bit w i"
    using assms(2,3) by (simp add: w_def bit_or_iff bit_push_bit_iff)
qed

lemma top_full:
  assumes "unat c < 2 ^ l" "64 \<le> p + l" "l \<le> 30" "p < 64" "\<And>i. i < 64 - p \<Longrightarrow> \<not> bit buf i"
  defines "code \<equiv> ucast (c :: 32 word) :: 64 word" and "q \<equiv> p + l - 64"
  shows "top 64 (buf OR drop_bit q code) @ top q (if 0 < q then push_bit (64 - q) code else 0) = top p buf @ bits l (unat c)"
    "i < 64 - q \<Longrightarrow> \<not> bit (if 0 < q then push_bit (64 - q) code else 0) i"
proof -
  have q: "q < 64" using assms(3,4) by (simp add: q_def)
  show "top 64 (buf OR drop_bit q code) @ top q (if 0 < q then push_bit (64 - q) code else 0) = top p buf @ bits l (unat c)"
    by (rule nth_equalityI)
      (use assms(1-5) q in \<open>auto simp: code_def q_def nth_top nth_bits nth_append bit_or_iff bit_push_bit_iff
        bit_drop_bit_eq bit_code add.commute\<close>)
  show "i < 64 - q \<Longrightarrow> \<not> bit (if 0 < q then push_bit (64 - q) code else 0) i"
    by (simp add: bit_push_bit_iff)
qed

lemma bits_ucast: "bits 8 (unat (ucast (drop_bit k (w :: 64 word)) :: u_char)) = bits 8 (drop_bit k (unat w))"
  by (rule nth_equalityI) (auto simp: nth_bits bit_unsigned_iff bit_ucast_iff bit_drop_bit_eq)

lemma top_bits: "top 64 w = bits 64 (unat w)"
  by (simp add: top_def bits_def bit_unsigned_iff)

lemma encode_buf_bits: "bytes_bits (ngx_http_v2_huff_encode_buf buf) = top 64 buf"
proof -
  note app = bits_append [of 8 56, simplified] bits_append [of 8 48, simplified] bits_append [of 8 40, simplified]
    bits_append [of 8 32, simplified] bits_append [of 8 24, simplified] bits_append [of 8 16, simplified]
    bits_append [of 8 8, simplified]
  show ?thesis using bits_ucast [of 0 buf]
    by (simp add: ngx_http_v2_huff_encode_buf_def top_bits bits_ucast app)
qed

text \<open>The last bytes\<close>

lemma encode_rest_bits: "0 < k \<Longrightarrow> bytes_bits (huff_encode_rest w (8 * k)) = bits (8 * k) (unat w)"
proof (induction k)
  case (Suc k)
  have "bits (8 * Suc k) (unat w) = bits 8 (drop_bit (8 * k) (unat w)) @ bits (8 * k) (unat w)"
    using bits_append [of 8 "8 * k"] by simp
  with Suc show ?case
    by (subst huff_encode_rest.simps) (auto simp: bits_ucast Let_def)
qed simp

lemma encode_loop_bits:
  assumes "huff_encode_loop ngx_http_v2_huff_encode_table len src dst buf p = (dst', res)"
    "p < 64" "\<And>i. i < 64 - p \<Longrightarrow> \<not> bit buf i" "length dst \<le> len - 1"
  shows "length dst' \<le> len - 1 \<and>
    (case res of
       None \<Rightarrow> 8 * len \<le> length (bytes_bits dst @ top p buf @ codes src)
     | Some (buf', p') \<Rightarrow> p' < 64 \<and> (\<forall>i < 64 - p'. \<not> bit buf' i) \<and> bytes_bits dst' @ top p' buf' = bytes_bits dst @ top p buf @ codes src)"
  using assms
proof (induction src arbitrary: dst buf p)
  case (Cons c src)
  let ?l = "unat (ec_len (huff_code c))" and ?c = "ec_code (huff_code c)"
  note l = code_sizes [of c]
  have e: "ngx_http_v2_huff_encode_table ! unat c = huff_code c" by (simp add: huff_code_def)
  consider (short) "p + ?l < 64" | (full) "64 \<le> p + ?l" "len \<le> length dst + 8"
    | (flush) "64 \<le> p + ?l" "length dst + 8 < len" by linarith
  then show ?case
  proof cases
    case short
    note add = top_add [OF l(1) short Cons(4)]
    let ?b = "buf OR push_bit (64 - (p + ?l)) (ucast ?c)"
    have "huff_encode_loop ngx_http_v2_huff_encode_table len src dst ?b (p + ?l) = (dst', res)"
      using Cons(2) short by (simp add: e Let_def)
    then have "length dst' \<le> len - 1 \<and>
      (case res of
         None \<Rightarrow> 8 * len \<le> length (bytes_bits dst @ top (p + ?l) ?b @ codes src)
       | Some (buf', p') \<Rightarrow> p' < 64 \<and> (\<forall>i < 64 - p'. \<not> bit buf' i) \<and> bytes_bits dst' @ top p' buf' = bytes_bits dst @ top (p + ?l) ?b @ codes src)"
      using Cons.IH short add(2) Cons(5) by blast
    moreover have "bytes_bits dst @ top (p + ?l) ?b @ codes src = bytes_bits dst @ top p buf @ codes (c # src)"
      using add(1) by (simp add: code_bits_def)
    ultimately show ?thesis by (simp only:)
  next
    case full
    then have "dst' = dst" "res = None" using Cons(2) by (simp_all add: e Let_def)
    with full Cons(3,5) show ?thesis by (simp add: code_bits_def)
  next
    case flush
    note tf = top_full [OF l(1) flush(1) l(3) Cons(3) Cons(4)]
    let ?q = "p + ?l - 64"
    let ?b = "if 0 < ?q then push_bit (64 - ?q) (ucast ?c) else 0 :: 64 word"
    let ?d = "dst @ ngx_http_v2_huff_encode_buf (buf OR drop_bit ?q (ucast ?c))"
    have "huff_encode_loop ngx_http_v2_huff_encode_table len src ?d ?b ?q = (dst', res)"
      using Cons(2) flush by (simp add: e Let_def split del: if_split)
    moreover have "?q < 64" using l(3) Cons(3) by simp
    moreover have "length ?d \<le> len - 1" using flush(2) by (simp add: ngx_http_v2_huff_encode_buf_def)
    ultimately have "length dst' \<le> len - 1 \<and>
      (case res of
         None \<Rightarrow> 8 * len \<le> length (bytes_bits ?d @ top ?q ?b @ codes src)
       | Some (buf', p') \<Rightarrow> p' < 64 \<and> (\<forall>i < 64 - p'. \<not> bit buf' i) \<and> bytes_bits dst' @ top p' buf' = bytes_bits ?d @ top ?q ?b @ codes src)"
      using Cons.IH tf(2) by blast
    moreover have "bytes_bits ?d @ top ?q ?b @ codes src = bytes_bits dst @ top p buf @ codes (c # src)"
      using tf(1) by (simp add: encode_buf_bits code_bits_def)
    ultimately show ?thesis by (simp only:)
  qed
qed auto

lemma encode_loop_lower:
  "huff_encode_loop ngx_http_v2_huff_encode_table_lc len src dst buf p =
   huff_encode_loop ngx_http_v2_huff_encode_table len (map ngx_tolower src) dst buf p"
  by (induction src arbitrary: dst buf p) (simp_all add: huff_lower Let_def flip: huff_code_def)

lemma top_ones:
  assumes "p \<le> q" "q \<le> 64" "\<And>i. i < 64 - p \<Longrightarrow> \<not> bit buf i"
  shows "top q (buf OR drop_bit p (- 1)) = top p buf @ replicate (q - p) True"
  by (rule nth_equalityI) (use assms in \<open>auto simp: nth_top nth_append bit_or_iff bit_drop_bit_eq bit_mask_iff simp flip: mask_eq_exp_minus_1\<close>)

lemma top_drop: "q \<le> 64 \<Longrightarrow> bits q (unat (drop_bit (64 - q) w)) = top q w"
  by (rule nth_equalityI) (auto simp: nth_top nth_bits bit_unsigned_iff bit_drop_bit_eq)

lemma encode_rest_length: "0 < k \<Longrightarrow> length (huff_encode_rest w (8 * k)) = k"
  using arg_cong [OF encode_rest_bits, of k length w] by simp

section \<open>Properties\<close>

lemma decode_exact:
  "(\<exists>x. ngx_http_v2_huff_decode 0 src dst True = (NGX_OK, x) \<and> hd_dst x = dst @ out \<and> hd_state x = 0) \<longleftrightarrow>
   (\<exists>k < 30. bytes_bits src = codes out @ replicate k True)"
proof -
  obtain ok y where l: "huff_decode_loop src \<lparr>hd_state = 0, hd_ending = 1, hd_dst = dst\<rparr> = (ok, y)" by fastforce
  from decode_loop_reads [OF l] obtain new rest where r: "hd_dst y = dst @ new" "bytes_bits src = codes new @ rest"
    "if ok then rest = state_bits (hd_state y) \<and> (hd_ending y \<noteq> 0 \<longleftrightarrow> all_ones rest)
     else \<exists>r. rest = replicate 30 True @ r" by (auto simp: all_ones_def)
  have ending: "hd_ending y \<noteq> 0 \<longleftrightarrow> all_ones rest" if ok using r(3) that by simp
  have d: "(\<exists>x. ngx_http_v2_huff_decode 0 src dst True = (NGX_OK, x) \<and> hd_dst x = dst @ out \<and> hd_state x = 0) \<longleftrightarrow>
      ok \<and> all_ones rest \<and> new = out"
    using ending by (auto simp: ngx_http_v2_huff_decode_def l r(1))
  show ?thesis
    unfolding d
  proof
    assume "ok \<and> all_ones rest \<and> new = out"
    then show "\<exists>k < 30. bytes_bits src = codes out @ replicate k True"
      using r(2,3) state_size by (auto simp: all_ones_def)
  next
    assume "\<exists>k < 30. bytes_bits src = codes out @ replicate k True"
    then obtain k where k: "k < 30" "codes new @ rest = codes out @ replicate k True" using r(2) by auto
    have "walk huff_tree rest = None" using r(3) walk_state walk_eos by (auto split: if_splits)
    from codes_unique [OF this k] have u: "new = out" "rest = replicate k True" by auto
    moreover have "replicate k True \<noteq> replicate 30 True @ r" for r
      using k(1) by (auto dest: arg_cong [of _ _ length])
    ultimately have "ok" using r(3) by (auto split: if_splits)
    with u show "ok \<and> all_ones rest \<and> new = out" by (simp add: all_ones_def)
  qed
qed

text \<open>The pieces of a string.\<close>

lemma decode_loop_append:
  "huff_decode_loop (xs @ ys) x =
    (case huff_decode_loop xs x of (ok, y) \<Rightarrow> if ok then huff_decode_loop ys y else (False, y))"
  by (induction xs x rule: huff_decode_loop.induct) (auto split: option.splits)

lemma decode_bits_ending:
  "ngx_http_v2_huff_decode_bits (x\<lparr>hd_ending := e\<rparr>) n = ngx_http_v2_huff_decode_bits x n"
  by (simp add: ngx_http_v2_huff_decode_bits_def Let_def)

lemma decode_loop_ending:
  "ys \<noteq> [] \<Longrightarrow> huff_decode_loop ys (x\<lparr>hd_ending := 1\<rparr>) =
    (case huff_decode_loop ys x of (ok, y) \<Rightarrow> (ok, if ngx_http_v2_huff_decode_bits x (unat (drop_bit 4 (hd ys))) = None then y\<lparr>hd_ending := 1\<rparr> else y))"
  by (cases ys) (auto simp: decode_bits_ending split: option.splits)

lemma decode_pieces:
  assumes "ys \<noteq> []"
  shows "(case ngx_http_v2_huff_decode s (xs @ ys) dst last_piece of (rc, x) \<Rightarrow> (rc, hd_state x, hd_dst x)) =
    (case ngx_http_v2_huff_decode s xs dst False of (rc, x) \<Rightarrow>
       if rc = NGX_OK then case ngx_http_v2_huff_decode (hd_state x) ys (hd_dst x) last_piece of (rc, x) \<Rightarrow> (rc, hd_state x, hd_dst x)
       else (rc, hd_state x, hd_dst x))"
proof -
  obtain ok y where l: "huff_decode_loop xs \<lparr>hd_state = s, hd_ending = 1, hd_dst = dst\<rparr> = (ok, y)" by fastforce
  have y: "\<lparr>hd_state = hd_state y, hd_ending = 1, hd_dst = hd_dst y\<rparr> = y\<lparr>hd_ending := 1\<rparr>" by simp
  obtain ok2 z where l2: "huff_decode_loop ys y = (ok2, z)" by fastforce
  have "\<not> ok2" if "ngx_http_v2_huff_decode_bits y (unat (drop_bit 4 (hd ys))) = None"
    using l2 that assms by (cases ys) auto
  then obtain z' where l3: "huff_decode_loop ys \<lparr>hd_state = hd_state y, hd_ending = 1, hd_dst = hd_dst y\<rparr> = (ok2, z')"
    "hd_state z' = hd_state z" "hd_dst z' = hd_dst z" "ok2 \<Longrightarrow> z' = z"
    unfolding y by (cases "ngx_http_v2_huff_decode_bits y (unat (drop_bit 4 (hd ys))) = None")
      (auto simp: l2 decode_loop_ending [OF assms])
  show ?thesis
    using l3 by (cases ok; cases ok2) (auto simp: ngx_http_v2_huff_decode_def l decode_loop_append l2)
qed

lemma decode_bound:
  "length (hd_dst (snd (ngx_http_v2_huff_decode 0 src dst last_piece))) \<le> length dst + length src * 8 div 5"
proof -
  obtain ok y where l: "huff_decode_loop src \<lparr>hd_state = 0, hd_ending = 1, hd_dst = dst\<rparr> = (ok, y)" by fastforce
  from decode_loop_reads [OF l] obtain new rest where r: "hd_dst y = dst @ new" "bytes_bits src = codes new @ rest"
    by (auto simp: all_ones_def)
  from arg_cong [OF r(2), of length] length_codes [of new] have "5 * length new \<le> 8 * length src" by simp
  then have "length new \<le> length src * 8 div 5" by (simp add: less_eq_div_iff_mult_less_eq mult.commute)
  with r(1) show ?thesis by (simp add: ngx_http_v2_huff_decode_def l)
qed

definition huff_text :: "u_char list \<Rightarrow> bool \<Rightarrow> u_char list" where
  "huff_text src lower = (if lower then map ngx_tolower src else src)"

lemma encode_exact:
  "case ngx_http_v2_huff_encode src lower of (hlen, dst) \<Rightarrow>
     length dst \<le> length src - 1 \<and>
     hlen = (let n = (length (codes (huff_text src lower)) + 7) div 8 in if n < length src then n else 0) \<and>
     bytes_bits (take hlen dst) = take (8 * hlen) (codes (huff_text src lower) @ replicate 7 True)"
proof -
  let ?t = "if lower then ngx_http_v2_huff_encode_table_lc else ngx_http_v2_huff_encode_table"
  let ?s = "huff_text src lower"
  obtain dst res where l: "huff_encode_loop ?t (length src) src [] 0 0 = (dst, res)" by fastforce
  then have "huff_encode_loop ngx_http_v2_huff_encode_table (length src) ?s [] 0 0 = (dst, res)"
    by (simp add: huff_text_def encode_loop_lower split: if_splits)
  from encode_loop_bits [OF this] have less: "length dst \<le> length src - 1"
    "case res of None \<Rightarrow> 8 * length src \<le> length (codes ?s)
     | Some (buf, p) \<Rightarrow> p < 64 \<and> (\<forall>i < 64 - p. \<not> bit buf i) \<and> bytes_bits dst @ top p buf = codes ?s"
    by (auto simp: top_def split: option.splits)
  show ?thesis
  proof (cases res)
    case None
    then have "length src \<le> (length (codes ?s) + 7) div 8" using less(2) by simp
    with None less(1) show ?thesis by (simp add: ngx_http_v2_huff_encode_def l Let_def)
  next
    case (Some bp)
    then obtain buf p where res: "res = Some (buf, p)" by (cases bp) auto
    with less(2) have p: "p < 64" "codes ?s = bytes_bits dst @ top p buf" "\<And>i. i < 64 - p \<Longrightarrow> \<not> bit buf i" by auto
    then have n: "length (codes ?s) = 8 * length dst + p" by simp
    show ?thesis
    proof (cases "p = 0")
      case True
      have "length dst < length src \<or> dst = []" using less(1) by (cases "length src") auto
      with True n p(2) less(1) show ?thesis by (auto simp: ngx_http_v2_huff_encode_def l res top_def Let_def)
    next
      case False
      define k where "k = (p + 7) div 8"
      have k: "0 < k" "p \<le> 8 * k" "8 * k \<le> 64" "8 * k - p \<le> 7" "ngx_align p 8 = 8 * k"
        using False p(1) by (auto simp: k_def ngx_align_def)
      have nb: "(8 * length dst + p + 7) div 8 = length dst + k" unfolding k_def by simp
      define r where "r = huff_encode_rest (drop_bit (64 - 8 * k) (buf OR drop_bit p (- 1))) (8 * k)"
      have rest: "bytes_bits r = top p buf @ replicate (8 * k - p) True"
        by (simp only: r_def encode_rest_bits [OF k(1)] top_drop [OF k(3)] top_ones [OF k(2,3) p(3)])
      have len: "length r = k" unfolding r_def by (rule encode_rest_length [OF k(1)])
      have e: "ngx_http_v2_huff_encode src lower =
          (if length dst + k \<ge> length src then (0, dst) else (length dst + k, dst @ r))"
        using False len unfolding r_def by (simp add: ngx_http_v2_huff_encode_def l res Let_def k(5))
      show ?thesis
      proof (cases "length dst + k < length src")
        case True
        have "8 * (length dst + k) = length (codes ?s) + (8 * k - p)" using n k(2) by simp
        then have "take (8 * (length dst + k)) (codes ?s @ replicate 7 True) = codes ?s @ replicate (8 * k - p) True"
          using k(4) by (simp add: min_def)
        then show ?thesis using True k(1) p(1) by (simp add: e n nb len rest p(2) Let_def)
      next
        case False
        then show ?thesis using less(1) by (simp add: e n nb)
      qed
    qed
  qed
qed

text \<open>C17. \<open>ngx_http_v2_huff_decode\<close> accepts exactly the strings of Huffman codes, followed by at most
  29 bits of one: every code is read as its byte and nothing else is accepted. (HPACK allows 7 bits of
  padding.)\<close>

theorem huff_decode_exact:
  "(\<exists>x. ngx_http_v2_huff_decode 0 src dst True = (NGX_OK, x) \<and> hd_dst x = dst @ out \<and> hd_state x = 0) \<longleftrightarrow>
   (\<exists>k < 30. bytes_bits src = codes out @ replicate k True)"
  by (rule decode_exact)

text \<open>C29. \<open>ngx_http_v2_huff_encode\<close> writes the codes of its bytes, in lower case if asked, filled up
  with ones to whole bytes, when that is shorter than the source, and returns 0 exactly when it is
  not. It never writes as many bytes as the source has.\<close>

theorem huff_encode_exact:
  "case ngx_http_v2_huff_encode src lower of (hlen, dst) \<Rightarrow>
     length dst \<le> length src - 1 \<and>
     hlen = (let n = (length (codes (huff_text src lower)) + 7) div 8 in if n < length src then n else 0) \<and>
     bytes_bits (take hlen dst) = take (8 * hlen) (codes (huff_text src lower) @ replicate 7 True)"
  by (rule encode_exact)

text \<open>A Huffman string may arrive in pieces: the pieces decoded one after the other give the
  same bytes, state and result as the whole string.\<close>

theorem huff_decode_pieces:
  assumes "ys \<noteq> []"
  shows "(case ngx_http_v2_huff_decode s (xs @ ys) dst last_piece of (rc, x) \<Rightarrow> (rc, hd_state x, hd_dst x)) =
    (case ngx_http_v2_huff_decode s xs dst False of (rc, x) \<Rightarrow>
       if rc = NGX_OK then case ngx_http_v2_huff_decode (hd_state x) ys (hd_dst x) last_piece of (rc, x) \<Rightarrow> (rc, hd_state x, hd_dst x)
       else (rc, hd_state x, hd_dst x))"
  by (rule decode_pieces [OF assms])

text \<open>C30. The output of the decoder fits the buffer that \<open>ngx_http_v2_state_field_len\<close> allocates,
  \<open>len * 8 / 5 + 1\<close> bytes with the final zero, also when it fails.\<close>

theorem huff_decode_bound:
  "length (hd_dst (snd (ngx_http_v2_huff_decode 0 src dst last_piece))) \<le> length dst + length src * 8 div 5"
  by (rule decode_bound)

text \<open>What \<open>ngx_http_v2_huff_encode\<close> has encoded, \<open>ngx_http_v2_huff_decode\<close> reads back.\<close>

theorem huff_roundtrip:
  assumes "ngx_http_v2_huff_encode src lower = (hlen, enc)" "0 < hlen"
  shows "\<exists>x. ngx_http_v2_huff_decode 0 (take hlen enc) dst True = (NGX_OK, x) \<and>
    hd_dst x = dst @ (if lower then map ngx_tolower src else src)"
proof -
  let ?c = "codes (huff_text src lower)"
  have e: "bytes_bits (take hlen enc) = take (8 * hlen) (?c @ replicate 7 True)" "hlen = (length ?c + 7) div 8"
    using encode_exact [of src lower] assms by (auto simp: Let_def split: if_splits)
  then have "length ?c \<le> 8 * hlen" "8 * hlen - length ?c \<le> 7" by simp_all
  then have "bytes_bits (take hlen enc) = ?c @ replicate (8 * hlen - length ?c) True" unfolding e(1) by (simp add: min_def)
  moreover have "8 * hlen - length ?c < 30" using \<open>8 * hlen - length ?c \<le> 7\<close> by simp
  ultimately show ?thesis using decode_exact [of "take hlen enc" dst "huff_text src lower"] unfolding huff_text_def by blast
qed

section \<open>Witnesses and samples\<close>

lemma sample_string:
  "\<exists>x. ngx_http_v2_huff_decode 0 [0xa8, 0xeb, 0x10, 0x64, 0x9c, 0xbf] [] True = (NGX_OK, x) \<and>
     hd_dst x = bytes ''no-cache''"
proof -
  have "bytes_bits [0xa8, 0xeb, 0x10, 0x64, 0x9c, 0xbf] = codes (bytes ''no-cache'') @ replicate 5 True"
    by (simp add: bytes_bits_def codes_def bytes_def code_bits_def huff_code_eqs, code_simp)
  then show ?thesis using decode_exact [of "[0xa8, 0xeb, 0x10, 0x64, 0x9c, 0xbf]" "[]" "bytes ''no-cache''"] by fastforce
qed

text \<open>More than 7 bits of padding are accepted.\<close>

lemma huff_long_padding:
  "\<exists>x. ngx_http_v2_huff_decode 0 [0x07, 0xff, 0xff, 0xff] [] True = (NGX_OK, x) \<and> hd_dst x = bytes ''0''"
proof -
  have "bytes_bits [0x07, 0xff, 0xff, 0xff] = codes (bytes ''0'') @ replicate 27 True"
    by (simp add: bytes_bits_def codes_def bytes_def code_bits_def huff_code_eqs, code_simp)
  then show ?thesis using decode_exact [of "[0x07, 0xff, 0xff, 0xff]" "[]" "bytes ''0''"] by fastforce
qed

theorem huff_decode_pieces_witness:
  "\<exists>x y. ngx_http_v2_huff_decode 0 [0xa8, 0xeb, 0x10] [] False = (NGX_OK, x) \<and>
     ngx_http_v2_huff_decode (hd_state x) [0x64, 0x9c, 0xbf] (hd_dst x) True = (NGX_OK, y) \<and>
     hd_dst y = bytes ''no-cache''"
  using huff_decode_pieces [of "[0x64, 0x9c, 0xbf]" 0 "[0xa8, 0xeb, 0x10]" "[]" True] sample_string
  by (auto split: prod.splits if_splits)

theorem huff_roundtrip_witness:
  "\<exists>enc x. ngx_http_v2_huff_encode (bytes ''No-Cache'') True = (6, enc) \<and>
     ngx_http_v2_huff_decode 0 (take 6 enc) [] True = (NGX_OK, x) \<and> hd_dst x = bytes ''no-cache''"
proof -
  have l: "map ngx_tolower (bytes ''No-Cache'') = bytes ''no-cache''"
    by (simp add: bytes_def ngx_tolower_def byte_cmp)
  have "length (codes (bytes ''no-cache'')) = 43"
    by (simp add: codes_def bytes_def code_bits_def huff_code_eqs)
  then obtain enc where e: "ngx_http_v2_huff_encode (bytes ''No-Cache'') True = (6, enc)"
    using encode_exact [of "bytes ''No-Cache''" True]
    by (cases "ngx_http_v2_huff_encode (bytes ''No-Cache'') True") (simp add: huff_text_def l, simp add: bytes_def)
  from huff_roundtrip [OF this, of "[]"] show ?thesis using e by (simp add: l)
qed

end
