(* ===== verification/Http2_Field.thy ===== *)
theory Http2_Field
  imports Http2_Int Http2_Huff
begin

text \<open>
  The strings of HPACK: \<open>ngx_http_v2_string_encode\<close> of \<open>src/http/v2/ngx_http_v2_filter_module.c\<close> writes
  one; \<open>ngx_http_v2_state_field_len\<close>, \<open>ngx_http_v2_state_field_huff\<close>, \<open>ngx_http_v2_state_field_raw\<close> and
  \<open>ngx_http_v2_state_field_skip\<close> of \<open>src/http/v2/ngx_http_v2.c\<close> read one, from a header block that may be
  continued in CONTINUATION frames (\<open>ngx_http_v2_handle_continuation\<close>) and arrives in pieces
  (\<open>ngx_http_v2_state_save\<close> and the loop of \<open>ngx_http_v2_read_handler\<close>).

  The bytes from \<open>pos\<close> to \<open>end\<close> are a list. A handler returns the next position, here the bytes that are
  left, with the handler for them, or closes the connection. \<open>h2_field\<close> are the bytes from \<open>field_start\<close>
  to \<open>field_end\<close>, \<open>h2_alloc\<close> is the size of their buffer.
\<close>

section \<open>Writing a string\<close>

definition NGX_HTTP_V2_ENCODE_RAW :: u_char where "NGX_HTTP_V2_ENCODE_RAW = 0"
definition NGX_HTTP_V2_ENCODE_HUFF :: u_char where "NGX_HTTP_V2_ENCODE_HUFF = 0x80"

definition ngx_http_v2_string_encode :: "u_char list \<Rightarrow> bool \<Rightarrow> u_char list" where
  "ngx_http_v2_string_encode src lower =
     (case ngx_http_v2_huff_encode src lower of (hlen, tmp) \<Rightarrow>
      if hlen > 0 then
        ngx_http_v2_write_int NGX_HTTP_V2_ENCODE_HUFF (ngx_http_v2_prefix 7) hlen @ take hlen tmp
      else
        ngx_http_v2_write_int NGX_HTTP_V2_ENCODE_RAW (ngx_http_v2_prefix 7) (length src) @
          (if lower then map ngx_tolower src else src))"

section \<open>Frame headers\<close>

definition NGX_HTTP_V2_FRAME_HEADER_SIZE :: nat where "NGX_HTTP_V2_FRAME_HEADER_SIZE = 9"
definition NGX_HTTP_V2_CONTINUATION_FRAME :: "32 word" where "NGX_HTTP_V2_CONTINUATION_FRAME = 0x9"
definition NGX_HTTP_V2_END_HEADERS_FLAG :: u_char where "NGX_HTTP_V2_END_HEADERS_FLAG = 0x04"

definition ngx_http_v2_parse_uint32 :: "u_char list \<Rightarrow> 32 word" where
  "ngx_http_v2_parse_uint32 p =
     push_bit 24 (ucast (p ! 0)) OR push_bit 16 (ucast (p ! 1)) OR push_bit 8 (ucast (p ! 2)) OR ucast (p ! 3)"

definition ngx_http_v2_parse_length :: "32 word \<Rightarrow> nat" where
  "ngx_http_v2_parse_length head = unat (drop_bit 8 head)"

definition ngx_http_v2_parse_type :: "32 word \<Rightarrow> 32 word" where
  "ngx_http_v2_parse_type head = head AND 0xff"

definition ngx_http_v2_parse_sid :: "u_char list \<Rightarrow> 32 word" where
  "ngx_http_v2_parse_sid p = ngx_http_v2_parse_uint32 p AND 0x7fffffff"

definition ngx_http_v2_write_uint32 :: "32 word \<Rightarrow> u_char list" where
  "ngx_http_v2_write_uint32 s = [ucast (drop_bit 24 s), ucast (drop_bit 16 s), ucast (drop_bit 8 s), ucast s]"

definition ngx_http_v2_write_len_and_type :: "nat \<Rightarrow> 32 word \<Rightarrow> u_char list" where
  "ngx_http_v2_write_len_and_type l t = ngx_http_v2_write_uint32 (push_bit 8 (word_of_nat l) OR t)"

definition ngx_http_v2_write_sid :: "32 word \<Rightarrow> u_char list" where
  "ngx_http_v2_write_sid = ngx_http_v2_write_uint32"

section \<open>The states that read a string\<close>

text \<open>Of \<open>ngx_http_v2_state_t\<close> and the stream, what these states use\<close>

record h2_state =
  h2_sid :: "32 word"
  h2_length :: nat
  h2_padding :: nat
  h2_flags :: u_char
  h2_index :: bool
  h2_field_state :: u_char
  h2_field :: "u_char list"
  h2_alloc :: nat
  h2_field_rest :: nat
  h2_stream :: bool
  h2_request_length :: nat

datatype h2_error = PROTOCOL_ERROR | INTERNAL_ERROR | SIZE_ERROR | COMP_ERROR | ENHANCE_YOUR_CALM

datatype h2_handler = Field_len | Field_huff | Field_raw | Field_skip

text \<open>A handler waits for more bytes with \<open>Save\<close>, sets the handler and returns to the loop with \<open>Goto\<close>,
  or has read the whole string and calls \<open>ngx_http_v2_state_process_header\<close>.\<close>

datatype h2_next =
    Save "u_char list" h2_handler
  | Goto "u_char list" h2_handler
  | Process_header "u_char list"

definition NGX_HTTP_V2_STATE_BUFFER_SIZE :: nat where
  "NGX_HTTP_V2_STATE_BUFFER_SIZE = 16"

text \<open>\<open>ngx_http_v2_state_headers_save\<close> is the same, but for the timer that it may start.\<close>

definition ngx_http_v2_state_save ::
  "u_char list \<Rightarrow> h2_state \<Rightarrow> h2_handler \<Rightarrow> h2_error + h2_next \<times> h2_state" where
  "ngx_http_v2_state_save buf st handler =
     (if length buf > NGX_HTTP_V2_STATE_BUFFER_SIZE then Inl INTERNAL_ERROR else Inr (Save buf handler, st))"

definition end_headers :: "h2_state \<Rightarrow> bool" where
  "end_headers st \<longleftrightarrow> h2_flags st AND NGX_HTTP_V2_END_HEADERS_FLAG \<noteq> 0"

text \<open>The first lines of \<open>ngx_http_v2_handle_continuation\<close>: the padding of the frame that ends here is
  overwritten by the \<open>len\<close> bytes before it that are still unread.\<close>

definition skip_padding :: "nat \<Rightarrow> u_char list \<Rightarrow> h2_state \<Rightarrow> u_char list \<times> h2_state" where
  "skip_padding len buf st =
     (if h2_padding st \<noteq> 0 \<and> length buf > len then
        let skip = min (h2_padding st) (length buf - len) in
        (take len buf @ drop (len + skip) buf, st\<lparr>h2_padding := h2_padding st - skip\<rparr>)
      else (buf, st))"

definition ngx_http_v2_handle_continuation ::
  "u_char list \<Rightarrow> h2_state \<Rightarrow> h2_handler \<Rightarrow> h2_error + h2_next \<times> h2_state" where
  "ngx_http_v2_handle_continuation buf st handler =
     (let len = h2_length st;
          (buf, st) = skip_padding len buf st in
      if length buf < len + NGX_HTTP_V2_FRAME_HEADER_SIZE then ngx_http_v2_state_save buf st handler
      else
        let p = drop len buf;
            head = ngx_http_v2_parse_uint32 p in
        if ngx_http_v2_parse_type head \<noteq> NGX_HTTP_V2_CONTINUATION_FRAME then Inl PROTOCOL_ERROR
        else
          let st = st\<lparr>h2_flags := h2_flags st OR p ! 4\<rparr> in
          if h2_sid st \<noteq> ngx_http_v2_parse_sid (drop 5 p) then Inl PROTOCOL_ERROR
          else
            let buf = take len buf @ drop NGX_HTTP_V2_FRAME_HEADER_SIZE p;
                len = ngx_http_v2_parse_length head;
                st = st\<lparr>h2_length := h2_length st + len,
                  h2_request_length := (if h2_stream st then h2_request_length st + len else h2_request_length st)\<rparr> in
            Inr (Goto buf handler, st))"

text \<open>The three states that read the bytes of a string begin and end alike.\<close>

definition field_size :: "u_char list \<Rightarrow> h2_state \<Rightarrow> nat" where
  "field_size buf st = min (min (length buf) (h2_field_rest st)) (h2_length st)"

definition field_taken :: "nat \<Rightarrow> h2_state \<Rightarrow> h2_state" where
  "field_taken sz st = st\<lparr>h2_length := h2_length st - sz, h2_field_rest := h2_field_rest st - sz\<rparr>"

definition field_next :: "h2_handler \<Rightarrow> u_char list \<Rightarrow> h2_state \<Rightarrow> h2_error + h2_next \<times> h2_state" where
  "field_next handler buf st =
     (if h2_field_rest st = 0 then Inr (Process_header buf, st)
      else if h2_length st \<noteq> 0 then ngx_http_v2_state_save buf st handler
      else if end_headers st then Inl SIZE_ERROR
      else ngx_http_v2_handle_continuation buf st handler)"

definition ngx_http_v2_state_field_huff :: "u_char list \<Rightarrow> h2_state \<Rightarrow> h2_error + h2_next \<times> h2_state" where
  "ngx_http_v2_state_field_huff buf st =
     (let sz = field_size buf st;
          st = field_taken sz st;
          (rc, x) = ngx_http_v2_huff_decode (h2_field_state st) (take sz buf) (h2_field st) (h2_field_rest st = 0) in
      if rc \<noteq> NGX_OK then Inl COMP_ERROR
      else field_next Field_huff (drop sz buf) (st\<lparr>h2_field_state := hd_state x, h2_field := hd_dst x\<rparr>))"

definition ngx_http_v2_state_field_raw :: "u_char list \<Rightarrow> h2_state \<Rightarrow> h2_error + h2_next \<times> h2_state" where
  "ngx_http_v2_state_field_raw buf st =
     (let sz = field_size buf st;
          st = field_taken sz st in
      field_next Field_raw (drop sz buf) (st\<lparr>h2_field := h2_field st @ take sz buf\<rparr>))"

definition ngx_http_v2_state_field_skip :: "u_char list \<Rightarrow> h2_state \<Rightarrow> h2_error + h2_next \<times> h2_state" where
  "ngx_http_v2_state_field_skip buf st =
     (let sz = field_size buf st;
          st = field_taken sz st in
      field_next Field_skip (drop sz buf) st)"

text \<open>\<open>palloc\<close> tells whether an allocation succeeds; \<open>max_size\<close> is \<open>max_field_size\<close> of the configuration.\<close>

definition ngx_http_v2_state_field_len ::
  "(nat \<Rightarrow> bool) \<Rightarrow> nat \<Rightarrow> u_char list \<Rightarrow> h2_state \<Rightarrow> h2_error + h2_next \<times> h2_state" where
  "ngx_http_v2_state_field_len palloc max_size buf st =
     (if \<not> end_headers st \<and> h2_length st < NGX_HTTP_V2_INT_OCTETS then
        ngx_http_v2_handle_continuation buf st Field_len
      else if h2_length st < 1 then Inl SIZE_ERROR
      else case buf of
        [] \<Rightarrow> ngx_http_v2_state_save buf st Field_len
      | ch # after \<Rightarrow>
          let huff = (drop_bit 7 ch \<noteq> 0);
              (len, n, rest) = ngx_http_v2_parse_int (h2_length st) ch after (ngx_http_v2_prefix 7);
              st = st\<lparr>h2_length := rest\<rparr>;
              buf = drop n buf in
          if len < 0 then
            if len = NGX_AGAIN then ngx_http_v2_state_save buf st Field_len
            else if len = NGX_DECLINED then Inl COMP_ERROR
            else Inl SIZE_ERROR
          else if nat len > max_size then Inl ENHANCE_YOUR_CALM
          else
            let st = st\<lparr>h2_field_rest := nat len\<rparr> in
            if \<not> h2_stream st \<and> \<not> h2_index st then ngx_http_v2_state_field_skip buf st
            else
              let alloc = (if huff then nat len * 8 div 5 else nat len) + 1 in
              if \<not> palloc alloc then Inl INTERNAL_ERROR
              else
                let st = st\<lparr>h2_field := [], h2_alloc := alloc\<rparr> in
                if huff then ngx_http_v2_state_field_huff buf st
                else ngx_http_v2_state_field_raw buf st)"

fun h2_handle ::
  "(nat \<Rightarrow> bool) \<Rightarrow> nat \<Rightarrow> h2_handler \<Rightarrow> u_char list \<Rightarrow> h2_state \<Rightarrow> h2_error + h2_next \<times> h2_state" where
  "h2_handle palloc max_size Field_len buf st = ngx_http_v2_state_field_len palloc max_size buf st"
| "h2_handle palloc max_size Field_huff buf st = ngx_http_v2_state_field_huff buf st"
| "h2_handle palloc max_size Field_raw buf st = ngx_http_v2_state_field_raw buf st"
| "h2_handle palloc max_size Field_skip buf st = ngx_http_v2_state_field_skip buf st"

section \<open>The loop over the bytes of a piece\<close>

lemma skip_padding_length: "skip_padding len buf st = (b, s) \<Longrightarrow> length b \<le> length buf"
  by (auto simp: skip_padding_def Let_def split: if_splits)

lemma continuation_shrinks:
  "ngx_http_v2_handle_continuation buf st h = Inr (Goto b h', st') \<Longrightarrow> length b < length buf"
  by (auto simp: ngx_http_v2_handle_continuation_def ngx_http_v2_state_save_def NGX_HTTP_V2_FRAME_HEADER_SIZE_def
      Let_def split: prod.splits if_splits dest!: skip_padding_length)

lemma field_next_shrinks: "field_next h buf st = Inr (Goto b h', st') \<Longrightarrow> length b < length buf"
  by (auto simp: field_next_def ngx_http_v2_state_save_def split: if_splits dest: continuation_shrinks)

lemma field_shrinks:
  "ngx_http_v2_state_field_huff buf st = Inr (Goto b h', st') \<Longrightarrow> length b < length buf"
  "ngx_http_v2_state_field_raw buf st = Inr (Goto b h', st') \<Longrightarrow> length b < length buf"
  "ngx_http_v2_state_field_skip buf st = Inr (Goto b h', st') \<Longrightarrow> length b < length buf"
  by (auto simp: ngx_http_v2_state_field_huff_def ngx_http_v2_state_field_raw_def ngx_http_v2_state_field_skip_def
      Let_def split: prod.splits if_splits dest!: field_next_shrinks)

lemma handle_shrinks: "h2_handle palloc max_size h buf st = Inr (Goto b h', st') \<Longrightarrow> length b < length buf"
  by (cases h) (auto simp: ngx_http_v2_state_field_len_def ngx_http_v2_state_save_def Let_def
      split: list.splits prod.splits if_splits dest!: continuation_shrinks field_shrinks)

text \<open>\<open>do { p = handler(h2c, p, end) } while (p != end)\<close>: a handler that is left without bytes keeps its
  place until the next piece.\<close>

function h2_input ::
  "(nat \<Rightarrow> bool) \<Rightarrow> nat \<Rightarrow> h2_handler \<Rightarrow> u_char list \<Rightarrow> h2_state \<Rightarrow> h2_error + h2_next \<times> h2_state" where
  "h2_input palloc max_size h buf st =
     (case h2_handle palloc max_size h buf st of
        Inr (Goto b h', st') \<Rightarrow>
          if b = [] then Inr (Save [] h', st') else h2_input palloc max_size h' b st'
      | r \<Rightarrow> r)"
  by auto
termination
  by (relation "measure (\<lambda>(_, _, _, buf, _). length buf)") (auto dest: handle_shrinks)

declare h2_input.simps [simp del]

text \<open>The pieces that \<open>recv\<close> gives, each behind the bytes that were saved\<close>

fun h2_read ::
  "(nat \<Rightarrow> bool) \<Rightarrow> nat \<Rightarrow> h2_handler \<Rightarrow> u_char list \<Rightarrow> u_char list list \<Rightarrow> h2_state \<Rightarrow> h2_error + h2_next \<times> h2_state" where
  "h2_read palloc max_size h saved [] st = Inr (Save saved h, st)"
| "h2_read palloc max_size h saved (piece # pieces) st =
     (case h2_input palloc max_size h (saved @ piece) st of
        Inr (Save b h', st') \<Rightarrow> h2_read palloc max_size h' b pieces st'
      | Inr (Process_header b, st') \<Rightarrow> Inr (Process_header (b @ concat pieces), st')
      | r \<Rightarrow> r)"

section \<open>Pieces\<close>

text \<open>What a handler makes of \<open>xs @ ys\<close> when it has been called with \<open>xs\<close> alone; \<open>again\<close> is the call with
  the bytes that were saved and \<open>ys\<close>.\<close>

definition more_bytes ::
  "u_char list \<Rightarrow> (h2_handler \<Rightarrow> u_char list \<Rightarrow> h2_state \<Rightarrow> h2_error + h2_next \<times> h2_state) \<Rightarrow>
   h2_error + h2_next \<times> h2_state \<Rightarrow> h2_error + h2_next \<times> h2_state" where
  "more_bytes ys again r =
     (case r of
        Inl e \<Rightarrow> Inl e
      | Inr (Save b h, st) \<Rightarrow> again h (b @ ys) st
      | Inr (Goto b h, st) \<Rightarrow> Inr (Goto (b @ ys) h, st)
      | Inr (Process_header b, st) \<Rightarrow> Inr (Process_header (b @ ys), st))"

lemma more_bytes_simps [simp]:
  "more_bytes ys again (Inl e) = Inl e"
  "more_bytes ys again (Inr (Save b h, st)) = again h (b @ ys) st"
  "more_bytes ys again (Inr (Goto b h, st)) = Inr (Goto (b @ ys) h, st)"
  "more_bytes ys again (Inr (Process_header b, st)) = Inr (Process_header (b @ ys), st)"
  by (simp_all add: more_bytes_def)

lemma skip_padding_keeps:
  assumes "skip_padding len buf st = (b, s)"
  shows "\<exists>p. s = st\<lparr>h2_padding := p\<rparr>" "h2_length s = h2_length st" "length b > len \<Longrightarrow> h2_padding s = 0"
  using assms by (auto simp: skip_padding_def Let_def split: if_splits intro: exI [of _ "h2_padding s"])

lemma skip_padding_pieces:
  assumes "skip_padding len xs st = (b, s)"
  shows "skip_padding len (xs @ ys) st = skip_padding len (b @ ys) s"
proof (cases "h2_padding st \<noteq> 0 \<and> length xs > len")
  case False
  then show ?thesis using assms by (auto simp: skip_padding_def)
next
  case True
  define skip where "skip = min (h2_padding st) (length xs - len)"
  with True have b: "b = take len xs @ drop (len + skip) xs" "s = st\<lparr>h2_padding := h2_padding st - skip\<rparr>"
    using assms by (auto simp: skip_padding_def Let_def)
  show ?thesis
  proof (cases "h2_padding st \<le> length xs - len")
    case le: True
    then have "len + h2_padding st - length xs = 0" using True by linarith
    with le show ?thesis using True b by (simp add: skip_padding_def skip_def Let_def)
  next
    case gt: False
    then have sk: "skip = length xs - len" "b = take len xs" using True b by (auto simp: skip_def)
    have m: "min (h2_padding st) (length xs + length ys - len) =
        skip + min (h2_padding st - skip) (length ys)" using gt True sk by simp
    have "drop (len + (skip + n)) (xs @ ys) = drop n ys" for n using True sk by simp
    then show ?thesis
      using True gt b sk m by (simp add: skip_padding_def Let_def diff_diff_eq)
  qed
qed

lemma uint32_append: "4 \<le> length p \<Longrightarrow> ngx_http_v2_parse_uint32 (p @ ys) = ngx_http_v2_parse_uint32 p"
  using nth_append_left [of 0 p ys] nth_append_left [of 1 p ys] nth_append_left [of 2 p ys] nth_append_left [of 3 p ys]
  by (cases "p = []") (simp_all add: ngx_http_v2_parse_uint32_def)

lemma continuation_pieces:
  assumes "h2_length st < 8"
  shows "ngx_http_v2_handle_continuation (xs @ ys) st h =
    more_bytes ys (\<lambda>h b s. ngx_http_v2_handle_continuation b s h) (ngx_http_v2_handle_continuation xs st h)"
proof -
  obtain b s where s: "skip_padding (h2_length st) xs st = (b, s)" by fastforce
  note keep = skip_padding_keeps [OF s] and pieces = skip_padding_pieces [OF s, of ys]
  show ?thesis
  proof (cases "length b < h2_length st + NGX_HTTP_V2_FRAME_HEADER_SIZE")
    case True
    then have "ngx_http_v2_handle_continuation xs st h = Inr (Save b h, s)"
      using assms by (simp add: ngx_http_v2_handle_continuation_def s ngx_http_v2_state_save_def
          NGX_HTTP_V2_STATE_BUFFER_SIZE_def NGX_HTTP_V2_FRAME_HEADER_SIZE_def)
    then show ?thesis
      by (simp add: ngx_http_v2_handle_continuation_def keep(2) pieces)
  next
    case False
    then have "skip_padding (h2_length st) (b @ ys) s = (b @ ys, s)"
      using keep(3) by (simp add: skip_padding_def NGX_HTTP_V2_FRAME_HEADER_SIZE_def)
    then show ?thesis
      using False s pieces
      by (auto simp: ngx_http_v2_handle_continuation_def Let_def NGX_HTTP_V2_FRAME_HEADER_SIZE_def uint32_append
          ngx_http_v2_parse_sid_def nth_append)
  qed
qed

lemma saved_continuation:
  assumes "ngx_http_v2_handle_continuation buf st h = Inr (Save b h', s)"
  shows "h' = h" "\<exists>p. s = st\<lparr>h2_padding := p\<rparr>"
  using assms skip_padding_keeps(1) [of "h2_length st" buf st]
  by (auto simp: ngx_http_v2_handle_continuation_def ngx_http_v2_state_save_def Let_def
      split: prod.splits if_splits)

text \<open>The interface of the three states: what they do with the bytes they take. \<open>put\<close> gets and returns
  \<open>field_state\<close> and the bytes written.\<close>

locale field_reader =
  fixes state :: "u_char list \<Rightarrow> h2_state \<Rightarrow> h2_error + h2_next \<times> h2_state"
    and handler :: h2_handler
    and put :: "bool \<Rightarrow> u_char list \<Rightarrow> u_char \<times> u_char list \<Rightarrow> (u_char \<times> u_char list) option"
  assumes state: "state buf st =
      (let sz = field_size buf st; s = field_taken sz st in
       case put (h2_field_rest s = 0) (take sz buf) (h2_field_state st, h2_field st) of
         None \<Rightarrow> Inl COMP_ERROR
       | Some (q, f) \<Rightarrow> field_next handler (drop sz buf) (s\<lparr>h2_field_state := q, h2_field := f\<rparr>))"
    and put_nothing: "put False [] x = Some x"
    and put_append: "ys \<noteq> [] \<Longrightarrow> put l (xs @ ys) x = (case put False xs x of None \<Rightarrow> None | Some y \<Rightarrow> put l ys y)"
begin

lemma stays:
  assumes "h2_field_rest st \<noteq> 0" "h2_length st = 0" "\<not> end_headers st"
  shows "state buf st = ngx_http_v2_handle_continuation buf st handler"
proof -
  have "field_size buf st = 0" "field_taken 0 st = st" using assms by (simp_all add: field_size_def field_taken_def)
  then show ?thesis using assms by (simp add: state put_nothing field_next_def)
qed

text \<open>The frame ends before the string.\<close>

lemma partial:
  assumes "length xs < h2_field_rest st" "length xs \<le> h2_length st"
    and "put False xs (h2_field_state st, h2_field st) = Some (q, f)"
  shows "state (xs @ ys) (st\<lparr>h2_length := length xs\<rparr>) =
    field_next handler ys (st\<lparr>h2_length := 0, h2_field_rest := h2_field_rest st - length xs,
      h2_field_state := q, h2_field := f\<rparr>)"
  using assms by (simp add: state field_size_def field_taken_def)

lemma pieces:
  assumes "ys \<noteq> []"
  shows "state (xs @ ys) st = more_bytes ys (\<lambda>h. state) (state xs st)"
proof (cases "length xs < h2_field_rest st \<and> length xs < h2_length st")
  case True
  then have sz: "field_size xs st = length xs" by (simp add: field_size_def)
  define s where "s = field_taken (length xs) st"
  define n where "n = field_size ys s"
  have sz2: "field_size (xs @ ys) st = length xs + n" "field_taken (length xs + n) st = field_taken n s"
    using True by (auto simp: field_size_def field_taken_def s_def n_def)
  have ne: "take n ys \<noteq> []" using True assms by (auto simp: field_size_def field_taken_def s_def n_def)
  have r: "h2_field_rest s \<noteq> 0" "h2_length s \<noteq> 0" using True by (auto simp: s_def field_taken_def)
  have full: "state (xs @ ys) st =
      (case put (h2_field_rest (field_taken n s) = 0) (xs @ take n ys) (h2_field_state st, h2_field st) of
         None \<Rightarrow> Inl COMP_ERROR
       | Some (q, f) \<Rightarrow> field_next handler (drop n ys) ((field_taken n s)\<lparr>h2_field_state := q, h2_field := f\<rparr>))"
    by (simp add: state Let_def sz2 cong: option.case_cong)
  show ?thesis
  proof (cases "put False xs (h2_field_state st, h2_field st)")
    case None
    then show ?thesis using full r sz by (simp add: state [of xs] put_append [OF ne] flip: s_def)
  next
    case (Some y)
    obtain q f where y: "y = (q, f)" by fastforce
    have "state xs st = Inr (Save [] handler, s\<lparr>h2_field_state := q, h2_field := f\<rparr>)"
      using Some y sz r by (simp add: state [of xs] field_next_def ngx_http_v2_state_save_def flip: s_def)
    moreover have "field_size ys (s\<lparr>h2_field_state := q, h2_field := f\<rparr>) = n"
      "field_taken n (s\<lparr>h2_field_state := q, h2_field := f\<rparr>) = (field_taken n s)\<lparr>h2_field_state := q, h2_field := f\<rparr>"
      by (simp_all add: n_def field_size_def field_taken_def)
    ultimately show ?thesis
      using full Some y by (simp add: put_append [OF ne] state [of ys] Let_def cong: option.case_cong)
  qed
next
  case False
  define sz where "sz = field_size xs st"
  have sz: "sz = min (h2_field_rest st) (h2_length st)" "field_size (xs @ ys) st = sz" "sz \<le> length xs"
    using False by (auto simp: field_size_def sz_def)
  define s where "s = field_taken sz st"
  let ?p = "put (h2_field_rest s = 0) (take sz xs) (h2_field_state st, h2_field st)"
  let ?after = "\<lambda>b (q, f). field_next handler b (s\<lparr>h2_field_state := q, h2_field := f\<rparr>)"
  have full: "state (xs @ ys) st = (case ?p of None \<Rightarrow> Inl COMP_ERROR | Some y \<Rightarrow> ?after (drop sz xs @ ys) y)"
    using sz(2,3) by (simp add: state Let_def flip: s_def cong: option.case_cong)
  have one: "state xs st = (case ?p of None \<Rightarrow> Inl COMP_ERROR | Some y \<Rightarrow> ?after (drop sz xs) y)"
    by (simp add: state Let_def flip: s_def sz_def cong: option.case_cong)
  show ?thesis
  proof (cases ?p)
    case None
    then show ?thesis using full one by simp
  next
    case (Some y)
    obtain q f where y: "y = (q, f)" by fastforce
    define t where "t = s\<lparr>h2_field_state := q, h2_field := f\<rparr>"
    have t: "h2_field_rest t = h2_field_rest st - sz" "h2_length t = h2_length st - sz"
      by (simp_all add: t_def s_def field_taken_def)
    have both: "state (xs @ ys) st = field_next handler (drop sz xs @ ys) t" "state xs st = field_next handler (drop sz xs) t"
      using full one Some y by (simp_all add: t_def)
    show ?thesis
    proof (cases "h2_field_rest t = 0 \<or> end_headers t")
      case True
      then show ?thesis unfolding both using t sz by (auto simp: field_next_def)
    next
      case False
      then have st1: "h2_field_rest t \<noteq> 0" "h2_length t = 0" "\<not> end_headers t" using t sz by auto
      then have next_: "field_next handler bs t = ngx_http_v2_handle_continuation bs t handler" for bs
        by (simp add: field_next_def)
      have "state (b' @ ys) s' = ngx_http_v2_handle_continuation (b' @ ys) s' handler" "h' = handler"
        if c: "ngx_http_v2_handle_continuation (drop sz xs) t handler = Inr (Save b' h', s')" for b' h' s'
      proof -
        from saved_continuation [OF c] obtain p where "s' = t\<lparr>h2_padding := p\<rparr>" "h' = handler" by auto
        then show "state (b' @ ys) s' = ngx_http_v2_handle_continuation (b' @ ys) s' handler" "h' = handler"
          using st1 by (simp_all add: stays end_headers_def)
      qed
      then show ?thesis
        using continuation_pieces [of t "drop sz xs" ys handler] st1(2) unfolding both next_
        by (cases "ngx_http_v2_handle_continuation (drop sz xs) t handler")
          (auto simp: more_bytes_def split: h2_next.splits prod.splits)
    qed
  qed
qed

lemma saved_handler: "state xs st = Inr (Save b h, s) \<Longrightarrow> h = handler"
  by (auto simp: state field_next_def ngx_http_v2_state_save_def Let_def split: option.splits if_splits
      dest!: saved_continuation(1))

lemma more:
  assumes "ys \<noteq> []" "f handler = state"
  shows "state (xs @ ys) st = more_bytes ys f (state xs st)"
  unfolding pieces [OF assms(1)] using assms(2) saved_handler [of xs st]
  by (auto simp: more_bytes_def split: sum.splits h2_next.splits prod.splits)

end

interpretation skip_reader: field_reader ngx_http_v2_state_field_skip Field_skip "\<lambda>_ _. Some"
  by unfold_locales (simp_all add: ngx_http_v2_state_field_skip_def Let_def field_taken_def)

definition raw_put :: "bool \<Rightarrow> u_char list \<Rightarrow> u_char \<times> u_char list \<Rightarrow> (u_char \<times> u_char list) option" where
  "raw_put l b = (\<lambda>(q, f). Some (q, f @ b))"

interpretation raw_reader: field_reader ngx_http_v2_state_field_raw Field_raw raw_put
  by unfold_locales (auto simp: ngx_http_v2_state_field_raw_def raw_put_def Let_def field_taken_def)

definition huff_put :: "bool \<Rightarrow> u_char list \<Rightarrow> u_char \<times> u_char list \<Rightarrow> (u_char \<times> u_char list) option" where
  "huff_put l b = (\<lambda>(q, f). case ngx_http_v2_huff_decode q b f l of
     (rc, x) \<Rightarrow> if rc = NGX_OK then Some (hd_state x, hd_dst x) else None)"

interpretation huff_reader: field_reader ngx_http_v2_state_field_huff Field_huff huff_put
proof
  show "ngx_http_v2_state_field_huff buf st =
      (let sz = field_size buf st; s = field_taken sz st in
       case huff_put (h2_field_rest s = 0) (take sz buf) (h2_field_state st, h2_field st) of
         None \<Rightarrow> Inl COMP_ERROR
       | Some (q, f) \<Rightarrow> field_next Field_huff (drop sz buf) (s\<lparr>h2_field_state := q, h2_field := f\<rparr>))" for buf st
    by (auto simp: ngx_http_v2_state_field_huff_def huff_put_def Let_def field_taken_def split: prod.splits)
  show "huff_put False [] x = Some x" for x
    by (cases x) (simp add: huff_put_def ngx_http_v2_huff_decode_def)
  show "huff_put l (xs @ ys) x = (case huff_put False xs x of None \<Rightarrow> None | Some y \<Rightarrow> huff_put l ys y)"
    if "ys \<noteq> []" for l xs ys x
    using decode_pieces [OF that, of "fst x" xs "snd x" l]
    by (cases x) (auto simp: huff_put_def split: prod.splits if_splits)
qed

lemma h2_handle_field [simp]:
  "h2_handle palloc max_size Field_huff = ngx_http_v2_state_field_huff"
  "h2_handle palloc max_size Field_raw = ngx_http_v2_state_field_raw"
  "h2_handle palloc max_size Field_skip = ngx_http_v2_state_field_skip"
  "h2_handle palloc max_size Field_len = ngx_http_v2_state_field_len palloc max_size"
  by (auto intro!: ext)

text \<open>What follows the length of a string\<close>

definition string_start ::
  "(nat \<Rightarrow> bool) \<Rightarrow> nat \<Rightarrow> bool \<Rightarrow> int \<Rightarrow> u_char list \<Rightarrow> h2_state \<Rightarrow> h2_error + h2_next \<times> h2_state" where
  "string_start palloc max_size huff len buf st =
     (if len < 0 then if len = NGX_DECLINED then Inl COMP_ERROR else Inl SIZE_ERROR
      else if nat len > max_size then Inl ENHANCE_YOUR_CALM
      else
        let st = st\<lparr>h2_field_rest := nat len\<rparr> in
        if \<not> h2_stream st \<and> \<not> h2_index st then ngx_http_v2_state_field_skip buf st
        else
          let alloc = (if huff then nat len * 8 div 5 else nat len) + 1 in
          if \<not> palloc alloc then Inl INTERNAL_ERROR
          else
            let st = st\<lparr>h2_field := [], h2_alloc := alloc\<rparr> in
            if huff then ngx_http_v2_state_field_huff buf st
            else ngx_http_v2_state_field_raw buf st)"

lemma string_start_pieces:
  "ys \<noteq> [] \<Longrightarrow> string_start palloc max_size huff len (b @ ys) st =
     more_bytes ys (h2_handle palloc max_size) (string_start palloc max_size huff len b st)"
  using skip_reader.more [of ys "h2_handle palloc max_size"] huff_reader.more [of ys "h2_handle palloc max_size"]
    raw_reader.more [of ys "h2_handle palloc max_size"]
  by (simp add: string_start_def Let_def)

lemma field_len_long:
  assumes "end_headers st \<or> NGX_HTTP_V2_INT_OCTETS \<le> h2_length st"
  shows "ngx_http_v2_state_field_len palloc max_size buf st =
    (if h2_length st < 1 then Inl SIZE_ERROR else case buf of
      [] \<Rightarrow> Inr (Save [] Field_len, st)
    | ch # after \<Rightarrow> (case ngx_http_v2_parse_int (h2_length st) ch after (ngx_http_v2_prefix 7) of (v, n, l) \<Rightarrow>
        if v = NGX_AGAIN then Inr (Save buf Field_len, st)
        else string_start palloc max_size (drop_bit 7 ch \<noteq> 0) v (drop n buf) (st\<lparr>h2_length := l\<rparr>)))"
proof -
  have again: "ngx_http_v2_state_save (drop n (ch # after)) (st\<lparr>h2_length := l\<rparr>) Field_len = Inr (Save (ch # after) Field_len, st)"
    if "ngx_http_v2_parse_int (h2_length st) ch after (ngx_http_v2_prefix 7) = (NGX_AGAIN, n, l)" for ch after n l
    using parse_int_again [OF that] by (simp add: ngx_http_v2_state_save_def NGX_HTTP_V2_STATE_BUFFER_SIZE_def)
  show ?thesis
    using assms again unfolding ngx_http_v2_state_field_len_def string_start_def
    by (auto simp: Let_def ngx_http_v2_state_save_def split: list.split prod.split)
qed

lemma field_len_short:
  "\<not> end_headers st \<Longrightarrow> h2_length st < NGX_HTTP_V2_INT_OCTETS \<Longrightarrow>
   ngx_http_v2_state_field_len palloc max_size buf st = ngx_http_v2_handle_continuation buf st Field_len"
  by (simp add: ngx_http_v2_state_field_len_def)

lemma field_len_pieces:
  assumes "ys \<noteq> []"
  shows "ngx_http_v2_state_field_len palloc max_size (xs @ ys) st =
    more_bytes ys (h2_handle palloc max_size) (ngx_http_v2_state_field_len palloc max_size xs st)"
proof (cases "\<not> end_headers st \<and> h2_length st < NGX_HTTP_V2_INT_OCTETS")
  case True
  have "ngx_http_v2_state_field_len palloc max_size (b @ ys) s = ngx_http_v2_handle_continuation (b @ ys) s Field_len"
    "h' = Field_len" if c: "ngx_http_v2_handle_continuation xs st Field_len = Inr (Save b h', s)" for b h' s
  proof -
    from saved_continuation [OF c] obtain p where "s = st\<lparr>h2_padding := p\<rparr>" "h' = Field_len" by auto
    then show "ngx_http_v2_state_field_len palloc max_size (b @ ys) s = ngx_http_v2_handle_continuation (b @ ys) s Field_len"
      "h' = Field_len"
      using True by (simp_all add: ngx_http_v2_state_field_len_def end_headers_def)
  qed
  then show ?thesis
    using continuation_pieces [of st xs ys Field_len] True
    by (cases "ngx_http_v2_handle_continuation xs st Field_len")
      (auto simp: ngx_http_v2_state_field_len_def more_bytes_def NGX_HTTP_V2_INT_OCTETS_def
        split: h2_next.splits prod.splits)
next
  case False
  then have "end_headers st \<or> NGX_HTTP_V2_INT_OCTETS \<le> h2_length st" by auto
  note F = field_len_long [OF this]
  show ?thesis
  proof (cases "h2_length st < 1 \<or> xs = []")
    case True
    then show ?thesis using F [of palloc max_size xs] F [of palloc max_size "xs @ ys"]
      by (cases "h2_length st < 1") simp_all
  next
    case nonempty: False
    then obtain ch after where xs: "xs = ch # after" by (cases xs) auto
    obtain v n l where p: "ngx_http_v2_parse_int (h2_length st) ch after (ngx_http_v2_prefix 7) = (v, n, l)"
      by (metis prod_cases3)
    show ?thesis
    proof (cases "v = NGX_AGAIN")
      case True
      then show ?thesis using F nonempty p xs by simp
    next
      case no: False
      from parse_int_more(2) [OF p no] have "drop n (xs @ ys) = drop n xs @ ys" unfolding drop_append by (simp add: xs)
      then show ?thesis
        using F nonempty p no xs parse_int_more(1) [OF p no, of ys] string_start_pieces [OF assms] by simp
    qed
  qed
qed

lemma handle_pieces:
  assumes "ys \<noteq> []"
  shows "h2_handle palloc max_size h (xs @ ys) st =
    more_bytes ys (h2_handle palloc max_size) (h2_handle palloc max_size h xs st)"
  using field_len_pieces [OF assms] huff_reader.more [OF assms, of "h2_handle palloc max_size"]
    raw_reader.more [OF assms, of "h2_handle palloc max_size"] skip_reader.more [OF assms, of "h2_handle palloc max_size"]
  by (cases h) simp_all

text \<open>A piece may be cut anywhere.\<close>

lemma input_pieces:
  assumes "ys \<noteq> []"
  shows "h2_input palloc max_size h (xs @ ys) st =
    (case h2_input palloc max_size h xs st of
       Inr (Save b h', st') \<Rightarrow> h2_input palloc max_size h' (b @ ys) st'
     | Inr (Process_header b, st') \<Rightarrow> Inr (Process_header (b @ ys), st')
     | r \<Rightarrow> r)"
proof (induction palloc max_size h xs st rule: h2_input.induct)
  case (1 palloc max_size h xs st)
  note full = handle_pieces [OF assms, of palloc max_size h xs st]
  show ?case
  proof (cases "h2_handle palloc max_size h xs st")
    case (Inl e)
    then show ?thesis using full by (simp add: h2_input.simps [of _ _ _ "_ @ _"] h2_input.simps [of _ _ _ xs])
  next
    case (Inr r)
    obtain nx st' where r: "r = (nx, st')" by fastforce
    show ?thesis
    proof (cases nx)
      case (Save b h')
      then show ?thesis
        using full Inr r by (simp add: h2_input.simps [of _ _ h "_ @ _"] h2_input.simps [of _ _ _ xs])
          (simp add: h2_input.simps [of _ _ h'])
    next
      case (Goto b h')
      then show ?thesis
        using full Inr r 1 [OF Inr r [symmetric] Goto] assms
        by (cases "b = []") (simp_all add: h2_input.simps [of _ _ h "_ @ _"] h2_input.simps [of _ _ _ xs])
    next
      case (Process_header b)
      then show ?thesis using full Inr r by (simp add: h2_input.simps [of _ _ _ "_ @ _"] h2_input.simps [of _ _ _ xs])
    qed
  qed
qed

lemma input_stops: "h2_input palloc max_size h xs st \<noteq> Inr (Goto b h', st')"
proof (induction palloc max_size h xs st rule: h2_input.induct)
  case (1 palloc max_size h xs st)
  then show ?case
    by (subst h2_input.simps) (auto split: sum.split prod.split h2_next.split)
qed

lemma read_pieces:
  assumes "pieces \<noteq> []" "\<forall>p \<in> set pieces. p \<noteq> []"
  shows "h2_read palloc max_size h saved pieces st = h2_input palloc max_size h (saved @ concat pieces) st"
  using assms
proof (induction pieces arbitrary: h saved st)
  case (Cons p ps)
  show ?case
  proof (cases "ps = []")
    case True
    then show ?thesis using input_stops [of palloc max_size h "saved @ p" st]
      by (auto split: sum.splits prod.splits h2_next.splits)
  next
    case False
    with Cons.prems have ne: "concat ps \<noteq> []" by (cases ps) auto
    note input_pieces [OF ne, of palloc max_size h "saved @ p" st]
    with Cons False show ?thesis
      by (auto split: sum.splits prod.splits h2_next.splits)
  qed
qed simp

section \<open>Continued header blocks\<close>

text \<open>CONTINUATION frames for the rest of a header block, the last one with the flag END_HEADERS\<close>

fun continuation_frames :: "32 word \<Rightarrow> u_char list list \<Rightarrow> u_char list" where
  "continuation_frames sid [] = []"
| "continuation_frames sid (p # ps) =
     ngx_http_v2_write_len_and_type (length p) NGX_HTTP_V2_CONTINUATION_FRAME @
     [if ps = [] then NGX_HTTP_V2_END_HEADERS_FLAG else 0] @ ngx_http_v2_write_sid sid @ p @ continuation_frames sid ps"

lemma uint32_roundtrip: "ngx_http_v2_parse_uint32 (ngx_http_v2_write_uint32 s @ r) = s"
proof (rule bit_word_eqI)
  fix n assume n: "n < LENGTH(32)"
  then have "n < 8 \<or> 8 \<le> n \<and> n < 16 \<or> 16 \<le> n \<and> n < 24 \<or> 24 \<le> n" by linarith
  with n show "bit (ngx_http_v2_parse_uint32 (ngx_http_v2_write_uint32 s @ r)) n \<longleftrightarrow> bit s n"
    by (auto simp: ngx_http_v2_parse_uint32_def ngx_http_v2_write_uint32_def bit_simps)
qed

lemma length_uint32 [simp]: "length (ngx_http_v2_write_uint32 s) = 4"
  by (simp add: ngx_http_v2_write_uint32_def)

lemma frame_head:
  assumes "l < 2 ^ 24"
  shows "ngx_http_v2_parse_type (push_bit 8 (word_of_nat l) OR NGX_HTTP_V2_CONTINUATION_FRAME) = NGX_HTTP_V2_CONTINUATION_FRAME"
    "ngx_http_v2_parse_length (push_bit 8 (word_of_nat l) OR NGX_HTTP_V2_CONTINUATION_FRAME) = l"
proof -
  have "(0xff :: 32 word) = mask 8" by (simp add: mask_eq_exp_minus_1)
  then have and8: "w AND 0xff = take_bit 8 w" for w :: "32 word" by (simp add: take_bit_eq_mask)
  show "ngx_http_v2_parse_type (push_bit 8 (word_of_nat l) OR NGX_HTTP_V2_CONTINUATION_FRAME) = NGX_HTTP_V2_CONTINUATION_FRAME"
    by (simp add: ngx_http_v2_parse_type_def NGX_HTTP_V2_CONTINUATION_FRAME_def and8 take_bit_or take_bit_push_bit)
  have d: "drop_bit 8 (push_bit 8 (word_of_nat l :: 32 word)) = word_of_nat l"
  proof (rule bit_word_eqI)
    fix n
    have "bit l n \<Longrightarrow> n < 24" by (metis assms bit_take_bit_iff take_bit_nat_eq_self)
    then show "bit (drop_bit 8 (push_bit 8 (word_of_nat l :: 32 word))) n = bit (word_of_nat l :: 32 word) n"
      by (auto simp: bit_simps)
  qed
  show "ngx_http_v2_parse_length (push_bit 8 (word_of_nat l) OR NGX_HTTP_V2_CONTINUATION_FRAME) = l"
    using assms by (simp add: ngx_http_v2_parse_length_def NGX_HTTP_V2_CONTINUATION_FRAME_def d unat_of_nat
        take_bit_nat_eq_self)
qed

lemma continuation_frame:
  assumes st: "h2_length st = length left" "h2_padding st = length pad" "h2_sid st AND 0x7fffffff = h2_sid st"
    and p: "length p < 2 ^ 24"
  shows "ngx_http_v2_handle_continuation (left @ pad @
      ngx_http_v2_write_len_and_type (length p) NGX_HTTP_V2_CONTINUATION_FRAME @ [fl] @
      ngx_http_v2_write_sid (h2_sid st) @ r) st h =
    Inr (Goto (left @ r) h, st\<lparr>h2_padding := 0, h2_flags := h2_flags st OR fl, h2_length := length left + length p,
      h2_request_length := (if h2_stream st then h2_request_length st + length p else h2_request_length st)\<rparr>)"
proof -
  define head where "head = ngx_http_v2_write_len_and_type (length p) NGX_HTTP_V2_CONTINUATION_FRAME @ [fl] @
      ngx_http_v2_write_sid (h2_sid st)"
  have len: "length head = 9"
    by (simp add: head_def ngx_http_v2_write_len_and_type_def ngx_http_v2_write_sid_def)
  have skip: "skip_padding (length left) (left @ pad @ head @ r) st = (left @ head @ r, st\<lparr>h2_padding := 0\<rparr>)"
    using st len by (auto simp: skip_padding_def Let_def)
  have h: "ngx_http_v2_parse_uint32 (head @ r) = push_bit 8 (word_of_nat (length p)) OR NGX_HTTP_V2_CONTINUATION_FRAME"
    by (simp add: head_def ngx_http_v2_write_len_and_type_def uint32_roundtrip)
  have flag: "(head @ r) ! 4 = fl" by (simp add: head_def ngx_http_v2_write_len_and_type_def nth_append)
  have sid: "ngx_http_v2_parse_sid (drop 5 (head @ r)) = h2_sid st"
    using st(3) by (simp add: head_def ngx_http_v2_write_len_and_type_def ngx_http_v2_write_sid_def
        ngx_http_v2_parse_sid_def uint32_roundtrip)
  have "drop 9 (head @ r) = r" using len by simp
  have goal: "left @ pad @ ngx_http_v2_write_len_and_type (length p) NGX_HTTP_V2_CONTINUATION_FRAME @ [fl] @
      ngx_http_v2_write_sid (h2_sid st) @ r = left @ pad @ head @ r" by (simp add: head_def)
  show ?thesis
    unfolding goal using st(1) skip len h flag sid frame_head [OF p] \<open>drop 9 (head @ r) = r\<close>
    by (simp add: ngx_http_v2_handle_continuation_def NGX_HTTP_V2_FRAME_HEADER_SIZE_def Let_def)
qed

lemma continuation_frames_Nil [simp]: "continuation_frames sid ps = [] \<longleftrightarrow> ps = []"
  by (cases ps) simp_all

lemma end_headers_or: "end_headers (st\<lparr>h2_flags := h2_flags st OR fl\<rparr>) \<longleftrightarrow> end_headers st \<or> fl AND NGX_HTTP_V2_END_HEADERS_FLAG \<noteq> 0"
  by (simp add: end_headers_def bit.conj_disj_distrib2 or_eq_0_iff)

text \<open>What the state knows of the frames that come: \<open>n\<close> bytes are left of this one, behind them padding,
  and it is the last one exactly when no payloads follow.\<close>

definition awaits :: "h2_state \<Rightarrow> nat \<Rightarrow> nat \<Rightarrow> 32 word \<Rightarrow> u_char list list \<Rightarrow> bool" where
  "awaits st n padding sid ps \<longleftrightarrow>
     h2_length st = n \<and> h2_padding st = padding \<and> h2_sid st = sid \<and> sid AND 0x7fffffff = sid \<and>
     (end_headers st \<longleftrightarrow> ps = []) \<and> (\<forall>p \<in> set ps. length p < 2 ^ 24)"

lemma continuation_next:
  assumes "awaits st (length left) (length pad) sid (p # ps)"
  shows "\<exists>s. ngx_http_v2_handle_continuation (left @ pad @ continuation_frames sid (p # ps) @ rest) st h =
      Inr (Goto (left @ p @ continuation_frames sid ps @ rest) h, s) \<and>
    awaits s (length left + length p) 0 sid ps \<and>
    (\<exists>pd fl len req. s = st\<lparr>h2_padding := pd, h2_flags := fl, h2_length := len, h2_request_length := req\<rparr>)"
proof -
  let ?fl = "if ps = [] then NGX_HTTP_V2_END_HEADERS_FLAG else 0"
  define s where "s = st\<lparr>h2_padding := 0, h2_flags := h2_flags st OR ?fl, h2_length := length left + length p,
      h2_request_length := (if h2_stream st then h2_request_length st + length p else h2_request_length st)\<rparr>"
  have "ngx_http_v2_handle_continuation (left @ pad @ continuation_frames sid (p # ps) @ rest) st h =
      Inr (Goto (left @ p @ continuation_frames sid ps @ rest) h, s)"
    using continuation_frame [of st left pad p ?fl "p @ continuation_frames sid ps @ rest" h] assms
    by (simp add: awaits_def s_def)
  moreover have "end_headers s \<longleftrightarrow> ps = []"
    using assms end_headers_or [of st ?fl] by (auto simp: awaits_def s_def end_headers_def NGX_HTTP_V2_END_HEADERS_FLAG_def)
  then have "awaits s (length left + length p) 0 sid ps" using assms by (simp add: awaits_def s_def)
  ultimately show ?thesis unfolding s_def by blast
qed

lemma input_goto:
  "h2_handle palloc max_size h buf st = Inr (Goto b h', s) \<Longrightarrow> b \<noteq> [] \<Longrightarrow>
   h2_input palloc max_size h buf st = h2_input palloc max_size h' b s"
  by (subst h2_input.simps) simp

lemma input_same:
  "h2_handle palloc max_size h buf st = h2_handle palloc max_size h' b s \<Longrightarrow>
   h2_input palloc max_size h buf st = h2_input palloc max_size h' b s"
  by (simp add: h2_input.simps)

lemma length_last_concat: "ps \<noteq> [] \<Longrightarrow> length (last ps) \<le> length (concat ps)"
  by (induction ps) auto

lemma prefix_split:
  assumes "xs @ ys = e @ zs" "length xs < length e"
  obtains e' where "e = xs @ e'" "ys = e' @ zs" "e' \<noteq> []"
  using assms by (auto simp: append_eq_append_conv2)

context field_reader
begin

lemma frames:
  assumes "h2_handle palloc max_size handler = state"
    and "put True e (h2_field_state st, h2_field st) = Some (q, f)"
    and "xs @ concat ps = e @ behind" "ps = [] \<or> length behind < length (last ps)"
    and "awaits st (length xs) (length pad) sid ps" "h2_field_rest st = length e"
  shows "\<exists>s. h2_input palloc max_size handler (xs @ pad @ continuation_frames sid ps @ rest) st =
      Inr (Process_header (behind @ (if ps = [] then pad @ rest else rest)), s) \<and>
    h2_field s = f \<and> h2_field_state s = q \<and> h2_alloc s = h2_alloc st"
  using assms(2-)
proof (induction ps arbitrary: xs pad e st)
  case Nil
  then have sz: "field_size (e @ behind @ pad @ rest) st = length e" by (simp add: field_size_def awaits_def)
  have "state (e @ behind @ pad @ rest) st =
      Inr (Process_header (behind @ pad @ rest), (field_taken (length e) st)\<lparr>h2_field_state := q, h2_field := f\<rparr>)"
    using Nil by (simp add: state sz Let_def field_next_def field_taken_def)
  then show ?case
    using Nil by (subst h2_input.simps) (simp add: assms(1) field_taken_def)
next
  case (Cons p ps)
  have "length xs + length (concat (p # ps)) = length e + length behind"
    using arg_cong [OF Cons.prems(2), of length] by simp
  moreover have "length (last (p # ps)) \<le> length (concat (p # ps))" by (rule length_last_concat) simp
  moreover have "length behind < length (last (p # ps))" using Cons.prems(3) by blast
  ultimately have less: "length xs < length e" by linarith
  from prefix_split [OF Cons.prems(2) this] obtain e' where e: "e = xs @ e'" "concat (p # ps) = e' @ behind" "e' \<noteq> []"
    by blast
  from Cons.prems(1) obtain q1 f1 where p1: "put False xs (h2_field_state st, h2_field st) = Some (q1, f1)"
    "put True e' (q1, f1) = Some (q, f)"
    unfolding e(1) put_append [OF e(3)] by (auto split: option.splits)
  define s where "s = st\<lparr>h2_length := 0, h2_field_rest := length e', h2_field_state := q1, h2_field := f1\<rparr>"
  have aw: "awaits s 0 (length pad) sid (p # ps)"
    using Cons.prems(4) by (simp add: s_def awaits_def end_headers_def)
  from continuation_next [of s "[]" pad sid p ps rest handler] aw obtain s' pd fl len req where s':
    "ngx_http_v2_handle_continuation (pad @ continuation_frames sid (p # ps) @ rest) s handler =
      Inr (Goto (p @ continuation_frames sid ps @ rest) handler, s')"
    "awaits s' (length p) 0 sid ps" and upd: "s' = s\<lparr>h2_padding := pd, h2_flags := fl, h2_length := len, h2_request_length := req\<rparr>"
    by auto
  have keep: "h2_field_rest s' = length e'" "h2_field_state s' = q1" "h2_field s' = f1" "h2_alloc s' = h2_alloc st"
    by (simp_all add: upd s_def)
  have "st\<lparr>h2_length := length xs\<rparr> = st" using Cons.prems(4) by (simp add: awaits_def)
  then have "state (xs @ pad @ continuation_frames sid (p # ps) @ rest) st =
      field_next handler (pad @ continuation_frames sid (p # ps) @ rest) s"
    using partial [of xs st q1 f1] less p1(1) Cons.prems(4,5) e(1) by (simp add: s_def awaits_def)
  also have "\<dots> = ngx_http_v2_handle_continuation (pad @ continuation_frames sid (p # ps) @ rest) s handler"
    using aw e(3) by (simp add: field_next_def awaits_def) (simp add: s_def)
  finally have h: "h2_handle palloc max_size handler (xs @ pad @ continuation_frames sid (p # ps) @ rest) st =
      Inr (Goto (p @ continuation_frames sid ps @ rest) handler, s')"
    using s'(1) assms(1) by simp
  have "p @ continuation_frames sid ps @ rest \<noteq> []" using e by (cases ps) auto
  note in_ = input_goto [OF h this]
  have "\<exists>s. h2_input palloc max_size handler (p @ [] @ continuation_frames sid ps @ rest) s' =
      Inr (Process_header (behind @ (if ps = [] then [] @ rest else rest)), s) \<and>
    h2_field s = f \<and> h2_field_state s = q \<and> h2_alloc s = h2_alloc s'"
    using Cons.prems(3) p1(2) e(2) s'(2) keep by (intro Cons.IH [of e']) (auto split: if_splits)
  then show ?case unfolding in_ using keep by (cases "ps = []") simp_all
qed

end

lemma huff_bit:
  assumes "first = NGX_HTTP_V2_ENCODE_HUFF \<or> first = NGX_HTTP_V2_ENCODE_RAW"
    and "ngx_http_v2_write_int first (ngx_http_v2_prefix 7) v = ch # tail"
  shows "drop_bit 7 ch \<noteq> 0 \<longleftrightarrow> first = NGX_HTTP_V2_ENCODE_HUFF"
proof -
  obtain m where ch: "ch = first OR word_of_nat m" and m: "m < 128"
  proof (cases "v < 127")
    case True
    then show ?thesis using assms(2) that [of v] by (auto simp: ngx_http_v2_write_int_def ngx_http_v2_prefix_def)
  next
    case False
    then show ?thesis using assms(2) that [of 127] by (auto simp: ngx_http_v2_write_int_def ngx_http_v2_prefix_def)
  qed
  have "unat (drop_bit 7 (word_of_nat m :: u_char)) = 0" 
    unfolding unat_drop_bit_eq using m by (simp add: drop_bit_eq_div)
  then have "drop_bit 7 (word_of_nat m :: u_char) = 0" by (simp add: unat_eq_0)
  then show ?thesis
    using assms(1) by (auto simp: ch drop_bit_or or_eq_0_iff NGX_HTTP_V2_ENCODE_HUFF_def NGX_HTTP_V2_ENCODE_RAW_def)
qed

lemma suffix_split:
  assumes "xs @ ys = w @ zs" "length w \<le> length xs"
  obtains us where "xs = w @ us" "us @ ys = zs"
  using assms by (auto simp: append_eq_append_conv2)

text \<open>The frame holds the whole length of the string.\<close>

lemma len_here:
  assumes first: "first = NGX_HTTP_V2_ENCODE_HUFF \<and> put = huff_put \<or> first = NGX_HTTP_V2_ENCODE_RAW \<and> put = raw_put"
    and w: "ngx_http_v2_write_int first (ngx_http_v2_prefix 7) (length e) = ch # tail"
    and small: "length e < 127 + 2 ^ 21" "length e \<le> max_size" and palloc: "\<forall>n. palloc n"
    and put: "put True e (h2_field_state st, []) = Some (q, f)"
    and block: "us @ concat ps = e @ behind" "ps = [] \<or> length behind < length (last ps)"
    and aw: "awaits st (length ((ch # tail) @ us)) (length pad) sid ps" and keep: "h2_stream st \<or> h2_index st"
    and here: "ps = [] \<or> 4 \<le> length ((ch # tail) @ us)"
  shows "\<exists>s. h2_input palloc max_size Field_len (((ch # tail) @ us) @ pad @ continuation_frames sid ps @ rest) st =
      Inr (Process_header (behind @ (if ps = [] then pad @ rest else rest)), s) \<and>
    h2_field s = f \<and> h2_field_state s = q \<and>
    h2_alloc s = (if first = NGX_HTTP_V2_ENCODE_HUFF then length e * 8 div 5 else length e) + 1"
proof -
  define R where "R = pad @ continuation_frames sid ps @ rest"
  define huff where "huff \<longleftrightarrow> first = NGX_HTTP_V2_ENCODE_HUFF"
  define st' where "st' = st\<lparr>h2_length := length us, h2_field_rest := length e, h2_field := [],
      h2_alloc := (if huff then length e * 8 div 5 else length e) + 1\<rparr>"
  have zero: "unat first mod 2 ^ 7 = 0"
    using first by (auto simp: NGX_HTTP_V2_ENCODE_HUFF_def NGX_HTTP_V2_ENCODE_RAW_def)
  have "length (ch # tail) \<le> NGX_HTTP_V2_INT_OCTETS"
    using write_int_length [of first 7 "length e"] small(1) unfolding w by (simp add: ngx_http_v2_prefix_def)
  then have parse: "ngx_http_v2_parse_int (h2_length st) ch (tail @ us @ R) (ngx_http_v2_prefix 7) =
      (int (length e), length (ch # tail), length us)"
    using parse_int_write [OF zero _ w, of "h2_length st" "us @ R"] aw by (simp add: awaits_def Let_def)
  have long: "end_headers st \<or> NGX_HTTP_V2_INT_OCTETS \<le> h2_length st"
    using aw here by (auto simp: awaits_def NGX_HTTP_V2_INT_OCTETS_def)
  have bit7: "drop_bit 7 ch \<noteq> 0 \<longleftrightarrow> huff" using huff_bit [OF _ w] first by (auto simp: huff_def)
  have "h2_handle palloc max_size Field_len (ch # tail @ us @ R) st =
      string_start palloc max_size huff (int (length e)) (us @ R) (st\<lparr>h2_length := length us\<rparr>)"
    using aw parse by (simp add: field_len_long [OF long] bit7 awaits_def)
  also have "\<dots> = (if huff then ngx_http_v2_state_field_huff (us @ R) st' else ngx_http_v2_state_field_raw (us @ R) st')"
    using small(2) palloc keep by (auto simp: string_start_def Let_def st'_def)
  also have "\<dots> = h2_handle palloc max_size (if huff then Field_huff else Field_raw) (us @ R) st'" by simp
  finally have in_: "h2_input palloc max_size Field_len (ch # tail @ us @ R) st =
      h2_input palloc max_size (if huff then Field_huff else Field_raw) (us @ R) st'" by (rule input_same)
  have aw': "awaits st' (length us) (length pad) sid ps" "h2_field_rest st' = length e"
    using aw by (auto simp: awaits_def st'_def end_headers_def)
  have put': "put True e (h2_field_state st', h2_field st') = Some (q, f)" using put by (simp add: st'_def)
  have "\<exists>s. h2_input palloc max_size (if huff then Field_huff else Field_raw) (us @ R) st' =
      Inr (Process_header (behind @ (if ps = [] then pad @ rest else rest)), s) \<and>
    h2_field s = f \<and> h2_field_state s = q \<and> h2_alloc s = h2_alloc st'"
  proof (cases huff)
    case True
    then have "put = huff_put" using first by (auto simp: huff_def NGX_HTTP_V2_ENCODE_HUFF_def NGX_HTTP_V2_ENCODE_RAW_def)
    with True show ?thesis
      using huff_reader.frames [OF _ _ block aw', of palloc max_size q f rest] put' by (simp add: R_def)
  next
    case False
    then have "put = raw_put" using first by (auto simp: huff_def)
    with False show ?thesis
      using raw_reader.frames [OF _ _ block aw', of palloc max_size q f rest] put' by (simp add: R_def)
  qed
  then show ?thesis using in_ by (simp add: R_def st'_def huff_def)
qed

lemma len_frames:
  assumes first: "first = NGX_HTTP_V2_ENCODE_HUFF \<and> put = huff_put \<or> first = NGX_HTTP_V2_ENCODE_RAW \<and> put = raw_put"
    and w: "ngx_http_v2_write_int first (ngx_http_v2_prefix 7) (length e) = ch # tail"
    and small: "length e < 127 + 2 ^ 21" "length e \<le> max_size" and palloc: "\<forall>n. palloc n"
    and put: "put True e (h2_field_state st, []) = Some (q, f)"
    and block: "xs @ concat ps = (ch # tail) @ e @ behind" "ps = [] \<or> length behind < length (last ps)"
    and aw: "awaits st (length xs) (length pad) sid ps" and keep: "h2_stream st \<or> h2_index st"
  shows "\<exists>s. h2_input palloc max_size Field_len (xs @ pad @ continuation_frames sid ps @ rest) st =
      Inr (Process_header (behind @ (if ps = [] then pad @ rest else rest)), s) \<and>
    h2_field s = f \<and> h2_field_state s = q \<and>
    h2_alloc s = (if first = NGX_HTTP_V2_ENCODE_HUFF then length e * 8 div 5 else length e) + 1"
  using put block aw keep
proof (induction ps arbitrary: xs pad st)
  case (Cons p ps)
  note input = Cons
  show ?case
  proof (cases "length xs < 4")
    case True
    from continuation_next [OF Cons.prems(4)] obtain s pd fl len req where s:
      "ngx_http_v2_handle_continuation (xs @ pad @ continuation_frames sid (p # ps) @ rest) st Field_len =
        Inr (Goto (xs @ p @ continuation_frames sid ps @ rest) Field_len, s)"
      "awaits s (length xs + length p) 0 sid ps" and upd: "s = st\<lparr>h2_padding := pd, h2_flags := fl, h2_length := len, h2_request_length := req\<rparr>"
      by blast
    have "h2_handle palloc max_size Field_len (xs @ pad @ continuation_frames sid (p # ps) @ rest) st =
        Inr (Goto (xs @ p @ continuation_frames sid ps @ rest) Field_len, s)"
      using s(1) True Cons.prems(4) by (simp add: field_len_short awaits_def NGX_HTTP_V2_INT_OCTETS_def)
    moreover have "xs @ p @ continuation_frames sid ps @ rest \<noteq> []"
      using Cons.prems(2) by (cases ps) auto
    ultimately have in_: "h2_input palloc max_size Field_len (xs @ pad @ continuation_frames sid (p # ps) @ rest) st =
        h2_input palloc max_size Field_len (xs @ p @ continuation_frames sid ps @ rest) s"
      by (rule input_goto)
    have "\<exists>s'. h2_input palloc max_size Field_len ((xs @ p) @ [] @ continuation_frames sid ps @ rest) s =
        Inr (Process_header (behind @ (if ps = [] then [] @ rest else rest)), s') \<and>
      h2_field s' = f \<and> h2_field_state s' = q \<and>
      h2_alloc s' = (if first = NGX_HTTP_V2_ENCODE_HUFF then length e * 8 div 5 else length e) + 1"
      using Cons.prems s(2) upd by (intro Cons.IH) (auto split: if_splits)
    then show ?thesis unfolding in_ by (cases "ps = []") simp_all
  next
    case False
    have "length (ch # tail) \<le> length xs"
      using False write_int_length [of first 7 "length e"] small(1) unfolding w
      by (simp add: ngx_http_v2_prefix_def NGX_HTTP_V2_INT_OCTETS_def)
    with Cons.prems(2) obtain us where "xs = (ch # tail) @ us" "us @ concat (p # ps) = e @ behind"
      by (rule suffix_split)
    with Cons.prems False show ?thesis
      using len_here [OF first w small palloc Cons.prems(1), of us "p # ps" behind pad sid rest] by simp
  qed
next
  case Nil
  then have "xs = (ch # tail) @ e @ behind" by simp
  with Nil show ?case
    using len_here [OF first w small palloc Nil(1), of "e @ behind" "[]" behind pad sid rest] by simp
qed

text \<open>The two forms of a string\<close>

lemma huff_form:
  assumes "ngx_http_v2_huff_encode src lower = (hlen, tmp)" "0 < hlen"
  shows "huff_put True (take hlen tmp) (0, []) = Some (0, if lower then map ngx_tolower src else src)"
    "length (take hlen tmp) = hlen" "hlen < length src"
    "length (if lower then map ngx_tolower src else src) \<le> hlen * 8 div 5"
proof -
  let ?c = "codes (huff_text src lower)"
  have e: "bytes_bits (take hlen tmp) = take (8 * hlen) (?c @ replicate 7 True)" "hlen = (length ?c + 7) div 8"
    using encode_exact [of src lower] assms by (auto simp: Let_def split: if_splits)
  show "hlen < length src"
    using encode_exact [of src lower] assms by (auto simp: Let_def split: if_splits)
  have c: "length ?c \<le> 8 * hlen" "8 * hlen - length ?c \<le> 7" using e(2) by simp_all
  then have bits: "bytes_bits (take hlen tmp) = ?c @ replicate (8 * hlen - length ?c) True"
    unfolding e(1) by (simp add: min_def)
  from arg_cong [OF this, of length] c show len: "length (take hlen tmp) = hlen" by simp
  have "8 * hlen - length ?c < 30" using c(2) by simp
  with bits obtain x where x: "ngx_http_v2_huff_decode 0 (take hlen tmp) [] True = (NGX_OK, x)"
    "hd_dst x = huff_text src lower" "hd_state x = 0"
    using decode_exact [of "take hlen tmp" "[]" "huff_text src lower"] by auto
  then show "huff_put True (take hlen tmp) (0, []) = Some (0, if lower then map ngx_tolower src else src)"
    by (simp add: huff_put_def huff_text_def)
  show "length (if lower then map ngx_tolower src else src) \<le> hlen * 8 div 5"
    using decode_bound [of "take hlen tmp" "[]" True] x(1,2) len by (simp add: huff_text_def)
qed

lemma string_forms:
  obtains first e ch tail put where
    "ngx_http_v2_string_encode src lower = (ch # tail) @ e"
    "ngx_http_v2_write_int first (ngx_http_v2_prefix 7) (length e) = ch # tail"
    "first = NGX_HTTP_V2_ENCODE_HUFF \<and> put = huff_put \<or> first = NGX_HTTP_V2_ENCODE_RAW \<and> put = raw_put"
    "put True e (0, []) = Some (0, if lower then map ngx_tolower src else src)"
    "length e \<le> length src"
    "length (if lower then map ngx_tolower src else src) \<le>
      (if first = NGX_HTTP_V2_ENCODE_HUFF then length e * 8 div 5 else length e)"
proof -
  obtain hlen tmp where h: "ngx_http_v2_huff_encode src lower = (hlen, tmp)" by fastforce
  have cons: "\<exists>ch tail. ngx_http_v2_write_int first p v = ch # tail" for first p v
    by (auto simp: ngx_http_v2_write_int_def)
  show ?thesis
  proof (cases "0 < hlen")
    case True
    note form = huff_form [OF h True]
    obtain ch tail where w: "ngx_http_v2_write_int NGX_HTTP_V2_ENCODE_HUFF (ngx_http_v2_prefix 7) hlen = ch # tail"
      using cons by blast
    show ?thesis
      using True h w form by (intro that [of ch tail "take hlen tmp" NGX_HTTP_V2_ENCODE_HUFF huff_put])
        (simp_all add: ngx_http_v2_string_encode_def)
  next
    case False
    let ?e = "if lower then map ngx_tolower src else src"
    obtain ch tail where w: "ngx_http_v2_write_int NGX_HTTP_V2_ENCODE_RAW (ngx_http_v2_prefix 7) (length src) = ch # tail"
      using cons by blast
    show ?thesis
      using False h w by (intro that [of ch tail ?e NGX_HTTP_V2_ENCODE_RAW raw_put])
        (simp_all add: ngx_http_v2_string_encode_def raw_put_def NGX_HTTP_V2_ENCODE_RAW_def NGX_HTTP_V2_ENCODE_HUFF_def)
  qed
qed

text \<open>What is saved fits the buffer.\<close>

lemma continuation_fits:
  "h2_length st < 8 \<Longrightarrow> ngx_http_v2_handle_continuation buf st h \<noteq> Inl INTERNAL_ERROR"
  by (auto simp: ngx_http_v2_handle_continuation_def ngx_http_v2_state_save_def NGX_HTTP_V2_STATE_BUFFER_SIZE_def
      NGX_HTTP_V2_FRAME_HEADER_SIZE_def Let_def split: prod.splits)

context field_reader
begin

lemma fits: "state buf st \<noteq> Inl INTERNAL_ERROR"
proof (cases "h2_field_rest (field_taken (field_size buf st) st) = 0 \<or> h2_length (field_taken (field_size buf st) st) = 0")
  case True
  then show ?thesis
    by (auto simp: state Let_def field_next_def continuation_fits split: option.splits)
next
  case False
  then have "drop (field_size buf st) buf = []" by (auto simp: field_size_def field_taken_def)
  then show ?thesis
    using False by (auto simp: state Let_def field_next_def ngx_http_v2_state_save_def split: option.splits)
qed

end

lemma handle_fits:
  assumes "\<forall>n. palloc n"
  shows "h2_handle palloc max_size h buf st \<noteq> Inl INTERNAL_ERROR"
proof (cases "h = Field_len")
  case True
  have "string_start palloc max_size huff len b s \<noteq> Inl INTERNAL_ERROR" for huff len b s
    using assms by (auto simp: string_start_def Let_def huff_reader.fits raw_reader.fits skip_reader.fits)
  then have "ngx_http_v2_state_field_len palloc max_size buf st \<noteq> Inl INTERNAL_ERROR"
    if "end_headers st \<or> NGX_HTTP_V2_INT_OCTETS \<le> h2_length st"
    unfolding field_len_long [OF that] by (auto split: list.split prod.split)
  then show ?thesis
    using True field_len_short [of st palloc max_size buf] continuation_fits [of st buf Field_len]
    by (force simp: NGX_HTTP_V2_INT_OCTETS_def)
next
  case False
  then show ?thesis by (cases h) (simp_all add: huff_reader.fits raw_reader.fits skip_reader.fits)
qed

lemma input_fits: "\<forall>n. palloc n \<Longrightarrow> h2_input palloc max_size h buf st \<noteq> Inl INTERNAL_ERROR"
proof (induction palloc max_size h buf st rule: h2_input.induct)
  case (1 palloc max_size h buf st)
  have "h2_input palloc max_size h' b s \<noteq> Inl INTERNAL_ERROR"
    if "h2_handle palloc max_size h buf st = Inr (Goto b h', s)" "b \<noteq> []" for b h' s
    by (rule "1.IH" [OF that(1) refl refl that(2) "1.prems"])
  then show ?case
    using handle_fits [OF "1.prems", of max_size h buf st]
    by (subst h2_input.simps) (auto split: sum.split prod.split h2_next.split)
qed

section \<open>Properties\<close>

text \<open>C18. The states that read a string do not see how the connection cuts the bytes they read, in or
  between frames: reading goes on as if it had not stopped. The bytes that are saved for the next piece
  always fit the buffer of the state, so the only internal error is a failed allocation.\<close>

theorem h2_read_pieces:
  assumes "pieces \<noteq> []" "\<forall>p \<in> set pieces. p \<noteq> []"
  shows "h2_read palloc max_size h saved pieces st = h2_input palloc max_size h (saved @ concat pieces) st \<and>
    ((\<forall>n. palloc n) \<longrightarrow> h2_read palloc max_size h saved pieces st \<noteq> Inl INTERNAL_ERROR)"
  using read_pieces [OF assms] input_fits by simp

text \<open>C15. A string that \<open>ngx_http_v2_string_encode\<close> has written is read back, whether it was worth
  compressing or not. It may be spread over the header block's first frame and any number of CONTINUATION
  frames, cut also inside its length, with padding behind the first frame, and the connection may cut these
  bytes into any pieces. The text fits the buffer that was allocated for it, with its final zero, and the
  bytes behind the string are left for the next state.\<close>

theorem h2_string_roundtrip:
  assumes "p # ps = payloads" "concat payloads = ngx_http_v2_string_encode src lower @ behind"
    and "ps = [] \<or> length behind < length (last ps)"
    and "length src < 127 + 2 ^ 21" "length src \<le> max_size" "\<forall>n. palloc n"
    and "h2_field_state st = 0" "h2_stream st \<or> h2_index st"
    and "awaits st (length p) (length pad) sid ps"
    and "concat pieces = p @ pad @ continuation_frames sid ps @ rest" "\<forall>piece \<in> set pieces. piece \<noteq> []"
  shows "\<exists>s. h2_read palloc max_size Field_len [] pieces st =
      Inr (Process_header (behind @ (if ps = [] then pad @ rest else rest)), s) \<and>
    h2_field s = (if lower then map ngx_tolower src else src) \<and> h2_field_state s = 0 \<and>
    length (h2_field s) < h2_alloc s"
proof -
  obtain first e ch tail put where f: "ngx_http_v2_string_encode src lower = (ch # tail) @ e"
    "ngx_http_v2_write_int first (ngx_http_v2_prefix 7) (length e) = ch # tail"
    "first = NGX_HTTP_V2_ENCODE_HUFF \<and> put = huff_put \<or> first = NGX_HTTP_V2_ENCODE_RAW \<and> put = raw_put"
    "put True e (0, []) = Some (0, if lower then map ngx_tolower src else src)"
    "length e \<le> length src"
    "length (if lower then map ngx_tolower src else src) \<le>
      (if first = NGX_HTTP_V2_ENCODE_HUFF then length e * 8 div 5 else length e)" by (rule string_forms)
  have block: "p @ concat ps = (ch # tail) @ e @ behind" using assms(1,2) f(1) by auto
  have "length e < 127 + 2 ^ 21" "length e \<le> max_size" "put True e (h2_field_state st, []) =
      Some (0, if lower then map ngx_tolower src else src)" using assms f by auto
  from len_frames [OF f(3,2) this(1,2) assms(6) this(3) block assms(3) assms(9,8), of rest]
  obtain s where s: "h2_input palloc max_size Field_len (p @ pad @ continuation_frames sid ps @ rest) st =
      Inr (Process_header (behind @ (if ps = [] then pad @ rest else rest)), s)"
    "h2_field s = (if lower then map ngx_tolower src else src)" "h2_field_state s = 0"
    "h2_alloc s = (if first = NGX_HTTP_V2_ENCODE_HUFF then length e * 8 div 5 else length e) + 1" by blast
  have "concat pieces \<noteq> []" using block assms(10) by (cases ps) auto
  then have "pieces \<noteq> []" by auto
  from read_pieces [OF this assms(11)] s f(6) show ?thesis by (simp add: assms(10))
qed

section \<open>Concrete inputs\<close>

definition sample_state :: "nat \<Rightarrow> u_char \<Rightarrow> h2_state" where
  "sample_state len flags = \<lparr>h2_sid = 1, h2_length = len, h2_padding = 0, h2_flags = flags, h2_index = False,
     h2_field_state = 0, h2_field = [], h2_alloc = 0, h2_field_rest = 0, h2_stream = True, h2_request_length = 0\<rparr>"

theorem h2_read_pieces_witness:
  "\<exists>s. h2_read (\<lambda>_. True) 4096 Field_len [] [[0x03], [0x61, 0x62], [0x63, 0x82]] (sample_state 5 4) =
     Inr (Process_header [0x82], s) \<and> h2_field s = [0x61, 0x62, 0x63]"
proof -
  have "h2_input (\<lambda>_. True) 4096 Field_len [0x03, 0x61, 0x62, 0x63, 0x82] (sample_state 5 4) =
      Inr (Process_header [0x82], (sample_state 1 4)\<lparr>h2_field := [0x61, 0x62, 0x63], h2_alloc := 4\<rparr>)"
    by (subst h2_input.simps)
      (simp add: field_len_long sample_state_def end_headers_def NGX_HTTP_V2_END_HEADERS_FLAG_def
        ngx_http_v2_parse_int_def ngx_http_v2_prefix_def string_start_def ngx_http_v2_state_field_raw_def
        field_size_def field_taken_def field_next_def)
  then show ?thesis
    using h2_read_pieces [of "[[0x03], [0x61, 0x62], [0x63, 0x82]]" "\<lambda>_. True" 4096 Field_len "[]" "sample_state 5 4"]
    by simp
qed

theorem h2_string_roundtrip_witness:
  "\<exists>tmp s. ngx_http_v2_string_encode (bytes ''No-Cache'') True = 0x86 # tmp \<and> length tmp = 6 \<and>
     h2_read (\<lambda>_. True) 4096 Field_len [] [[0x86], take 7 (continuation_frames 1 [tmp]), drop 7 (continuation_frames 1 [tmp])]
       (sample_state 1 0) = Inr (Process_header [], s) \<and> h2_field s = bytes ''no-cache''"
proof -
  have l: "map ngx_tolower (bytes ''No-Cache'') = bytes ''no-cache''"
    by (simp add: bytes_def ngx_tolower_def byte_cmp)
  have "length (codes (bytes ''no-cache'')) = 43"
    by (simp add: codes_def bytes_def code_bits_def huff_code_eqs)
  then obtain enc where e: "ngx_http_v2_huff_encode (bytes ''No-Cache'') True = (6, enc)"
    using encode_exact [of "bytes ''No-Cache''" True]
    by (cases "ngx_http_v2_huff_encode (bytes ''No-Cache'') True") (simp add: huff_text_def l, simp add: bytes_def)
  define tmp where "tmp = take 6 enc"
  have len: "length tmp = 6" using huff_form(2) [OF e] by (simp add: tmp_def)
  have s: "ngx_http_v2_string_encode (bytes ''No-Cache'') True = 0x86 # tmp"
    by (simp add: ngx_http_v2_string_encode_def e tmp_def ngx_http_v2_write_int_def ngx_http_v2_prefix_def
        NGX_HTTP_V2_ENCODE_HUFF_def)
  have aw: "awaits (sample_state 1 0) (length [0x86 :: u_char]) (length ([] :: u_char list)) 1 [tmp]"
    using len by (simp add: awaits_def sample_state_def end_headers_def)
  have len9: "length (continuation_frames 1 [tmp]) = 15"
    using len by (simp add: ngx_http_v2_write_len_and_type_def ngx_http_v2_write_sid_def)
  let ?pieces = "[[0x86], take 7 (continuation_frames 1 [tmp]), drop 7 (continuation_frames 1 [tmp])]"
  have p: "concat ?pieces = [0x86] @ [] @ continuation_frames 1 [tmp] @ []" "\<forall>piece \<in> set ?pieces. piece \<noteq> []"
    using len9 by (simp_all add: append_take_drop_id del: continuation_frames.simps)
  have c: "concat [[0x86], tmp] = ngx_http_v2_string_encode (bytes ''No-Cache'') True @ []" by (simp add: s)
  have n: "[tmp] = [] \<or> length ([] :: u_char list) < length (last [tmp])" using len by simp
  have m: "length (bytes ''No-Cache'') < 127 + 2 ^ 21" "length (bytes ''No-Cache'') \<le> 4096" by (simp_all add: bytes_def)
  have "h2_field_state (sample_state 1 0) = 0" "h2_stream (sample_state 1 0) \<or> h2_index (sample_state 1 0)"
    by (simp_all add: sample_state_def)
  from h2_string_roundtrip [OF refl c n m _ this aw p, of "\<lambda>_. True"] show ?thesis
    using s len by (simp add: l del: continuation_frames.simps h2_read.simps) blast
qed

end
