(* ===== verification/Http2_Table.thy ===== *)
theory Http2_Table
  imports Ngx_Prelude "HOL-Library.Monad_Syntax"
begin

text \<open>
  The header tables of HPACK, \<open>src/http/v2/ngx_http_v2_table.c\<close>: the static table and the dynamic one.

  The dynamic table keeps the bytes of its headers in a ring of 4096 bytes, \<open>hp_storage\<close>, and pointers
  to the headers in an array \<open>hp_entries\<close> that is used as a ring as well, from the counter \<open>deleted\<close> to
  the counter \<open>added\<close>. A header that was dropped is used again for a new one, in the order of the
  counter \<open>reused\<close>. Pointers to headers are indices of \<open>hp_heap\<close>, pointers into the storage are offsets;
  a read or write outside of an object, or of a slot that was not written yet, is \<open>None\<close>. \<open>palloc n\<close>
  tells whether an allocation of \<open>n\<close> bytes succeeds, and \<open>fresh\<close> is what the new storage contains.

  \<open>hpack_ok t xs\<close> says that the table holds the headers \<open>xs\<close>, the newest first; the operations of the
  file refine those of a bounded queue.
\<close>

section \<open>The state\<close>

definition NGX_HTTP_V2_TABLE_SIZE :: nat where
  "NGX_HTTP_V2_TABLE_SIZE = 4096"

record ngx_http_v2_header =
  hh_name :: ngx_str
  hh_value :: ngx_str

record hpack_entry =
  he_name_len :: nat
  he_name_data :: nat
  he_value_len :: nat
  he_value_data :: nat

record ngx_http_v2_hpack =
  hp_entries :: "nat option list"
  hp_added :: nat
  hp_deleted :: nat
  hp_reused :: nat
  hp_allocated :: nat
  hp_size :: nat
  hp_free :: nat
  hp_storage :: "u_char list"
  hp_pos :: nat
  hp_heap :: "hpack_entry list"

definition static_header :: "string \<Rightarrow> string \<Rightarrow> ngx_http_v2_header" where
  "static_header name val = \<lparr>hh_name = bytes name, hh_value = bytes val\<rparr>"

definition ngx_http_v2_static_table :: "ngx_http_v2_header list" where
  "ngx_http_v2_static_table = [
     static_header '':authority'' '''',
     static_header '':method'' ''GET'',
     static_header '':method'' ''POST'',
     static_header '':path'' ''/'',
     static_header '':path'' ''/index.html'',
     static_header '':scheme'' ''http'',
     static_header '':scheme'' ''https'',
     static_header '':status'' ''200'',
     static_header '':status'' ''204'',
     static_header '':status'' ''206'',
     static_header '':status'' ''304'',
     static_header '':status'' ''400'',
     static_header '':status'' ''404'',
     static_header '':status'' ''500'',
     static_header ''accept-charset'' '''',
     static_header ''accept-encoding'' ''gzip, deflate'',
     static_header ''accept-language'' '''',
     static_header ''accept-ranges'' '''',
     static_header ''accept'' '''',
     static_header ''access-control-allow-origin'' '''',
     static_header ''age'' '''',
     static_header ''allow'' '''',
     static_header ''authorization'' '''',
     static_header ''cache-control'' '''',
     static_header ''content-disposition'' '''',
     static_header ''content-encoding'' '''',
     static_header ''content-language'' '''',
     static_header ''content-length'' '''',
     static_header ''content-location'' '''',
     static_header ''content-range'' '''',
     static_header ''content-type'' '''',
     static_header ''cookie'' '''',
     static_header ''date'' '''',
     static_header ''etag'' '''',
     static_header ''expect'' '''',
     static_header ''expires'' '''',
     static_header ''from'' '''',
     static_header ''host'' '''',
     static_header ''if-match'' '''',
     static_header ''if-modified-since'' '''',
     static_header ''if-none-match'' '''',
     static_header ''if-range'' '''',
     static_header ''if-unmodified-since'' '''',
     static_header ''last-modified'' '''',
     static_header ''link'' '''',
     static_header ''location'' '''',
     static_header ''max-forwards'' '''',
     static_header ''proxy-authenticate'' '''',
     static_header ''proxy-authorization'' '''',
     static_header ''range'' '''',
     static_header ''referer'' '''',
     static_header ''refresh'' '''',
     static_header ''retry-after'' '''',
     static_header ''server'' '''',
     static_header ''set-cookie'' '''',
     static_header ''strict-transport-security'' '''',
     static_header ''transfer-encoding'' '''',
     static_header ''user-agent'' '''',
     static_header ''vary'' '''',
     static_header ''via'' '''',
     static_header ''www-authenticate'' '''']"

definition NGX_HTTP_V2_STATIC_TABLE_ENTRIES :: nat where
  "NGX_HTTP_V2_STATIC_TABLE_ENTRIES = length ngx_http_v2_static_table"

section \<open>The storage and the array of entries\<close>

definition rd_slice :: "u_char list \<Rightarrow> nat \<Rightarrow> nat \<Rightarrow> ngx_str option" where
  "rd_slice m off n = (if off + n \<le> length m then Some (take n (drop off m)) else None)"

text \<open>\<open>ngx_cpymem\<close>: the new contents and the address behind what was written\<close>

definition ngx_cpymem :: "u_char list \<Rightarrow> nat \<Rightarrow> ngx_str \<Rightarrow> (u_char list \<times> nat) option" where
  "ngx_cpymem m off src =
     (if off + length src \<le> length m
      then Some (take off m @ src @ drop (off + length src) m, off + length src) else None)"

definition hpack_read :: "ngx_http_v2_hpack \<Rightarrow> nat \<Rightarrow> nat \<Rightarrow> ngx_str option" where
  "hpack_read t data len =
     (let rest = NGX_HTTP_V2_TABLE_SIZE - data in
      if len > rest then do {
        p \<leftarrow> rd_slice (hp_storage t) data rest;
        q \<leftarrow> rd_slice (hp_storage t) 0 (len - rest);
        Some (p @ q)
      }
      else rd_slice (hp_storage t) data len)"

definition hpack_copy :: "nat \<Rightarrow> ngx_str \<Rightarrow> ngx_http_v2_hpack \<Rightarrow> ngx_http_v2_hpack option" where
  "hpack_copy avail data t =
     (if avail \<ge> length data then do {
        (m, pos) \<leftarrow> ngx_cpymem (hp_storage t) (hp_pos t) data;
        Some (t\<lparr>hp_storage := m, hp_pos := pos\<rparr>)
      }
      else do {
        (m, _) \<leftarrow> ngx_cpymem (hp_storage t) (hp_pos t) (take avail data);
        (m, pos) \<leftarrow> ngx_cpymem m 0 (drop avail data);
        Some (t\<lparr>hp_storage := m, hp_pos := pos\<rparr>)
      })"

definition entry_address :: "nat \<Rightarrow> ngx_http_v2_hpack \<Rightarrow> nat option" where
  "entry_address i t =
     (if hp_allocated t = 0 then None
      else let k = i mod hp_allocated t in
        if k < length (hp_entries t) then hp_entries t ! k else None)"

definition rd_entry :: "nat \<Rightarrow> ngx_http_v2_hpack \<Rightarrow> hpack_entry option" where
  "rd_entry i t =
     do {
       a \<leftarrow> entry_address i t;
       if a < length (hp_heap t) then Some (hp_heap t ! a) else None
     }"

section \<open>The operations\<close>

definition ngx_http_v2_get_indexed_header ::
  "(nat \<Rightarrow> bool) \<Rightarrow> nat \<Rightarrow> bool \<Rightarrow> ngx_http_v2_header \<Rightarrow> ngx_http_v2_hpack \<Rightarrow> (int \<times> ngx_http_v2_header) option" where
  "ngx_http_v2_get_indexed_header palloc index name_only h t =
     (if index = 0 then Some (NGX_ERROR, h)
      else
        let index = index - 1 in
        if index < NGX_HTTP_V2_STATIC_TABLE_ENTRIES then Some (NGX_OK, ngx_http_v2_static_table ! index)
        else
          let index = index - NGX_HTTP_V2_STATIC_TABLE_ENTRIES in
          if index < hp_added t - hp_deleted t then do {
            entry \<leftarrow> rd_entry (hp_added t - index - 1) t;
            if \<not> palloc (he_name_len entry + 1) then Some (NGX_ERROR, h)
            else do {
              name \<leftarrow> hpack_read t (he_name_data entry) (he_name_len entry);
              let h = h\<lparr>hh_name := name\<rparr>;
              if name_only then Some (NGX_OK, h)
              else if \<not> palloc (he_value_len entry + 1) then Some (NGX_ERROR, h)
              else do {
                val \<leftarrow> hpack_read t (he_value_data entry) (he_value_len entry);
                Some (NGX_OK, h\<lparr>hh_value := val\<rparr>)
              }
            }
          }
          else Some (NGX_ERROR, h))"

text \<open>The body of the loops that drop the oldest entry\<close>

definition drop_entry :: "ngx_http_v2_hpack \<Rightarrow> ngx_http_v2_hpack option" where
  "drop_entry t =
     do {
       entry \<leftarrow> rd_entry (hp_deleted t) t;
       Some (t\<lparr>hp_deleted := hp_deleted t + 1,
         hp_free := hp_free t + (32 + he_name_len entry + he_value_len entry)\<rparr>)
     }"

partial_function (option) account_loop :: "nat \<Rightarrow> ngx_http_v2_hpack \<Rightarrow> ngx_http_v2_hpack option" where
  "account_loop sz t =
     do {
       t \<leftarrow> drop_entry t;
       if sz > hp_free t then account_loop sz t else Some t
     }"

definition ngx_http_v2_table_account :: "nat \<Rightarrow> ngx_http_v2_hpack \<Rightarrow> (int \<times> ngx_http_v2_hpack) option" where
  "ngx_http_v2_table_account sz t =
     (let sz = sz + 32 in
      if sz \<le> hp_free t then Some (NGX_OK, t\<lparr>hp_free := hp_free t - sz\<rparr>)
      else if sz > hp_size t then Some (NGX_DECLINED, t\<lparr>hp_deleted := hp_added t, hp_free := hp_size t\<rparr>)
      else do {
        t \<leftarrow> account_loop sz t;
        Some (NGX_OK, t\<lparr>hp_free := hp_free t - sz\<rparr>)
      })"

text \<open>The first header: \<open>h2c->hpack.entries\<close> is \<open>NULL\<close>. The result is whether both allocations succeed.\<close>

definition hpack_setup :: "(nat \<Rightarrow> bool) \<Rightarrow> u_char list \<Rightarrow> ngx_http_v2_hpack \<Rightarrow> bool \<times> ngx_http_v2_hpack" where
  "hpack_setup palloc fresh t =
     (if hp_entries t = [] then
        let t = t\<lparr>hp_allocated := 64, hp_size := NGX_HTTP_V2_TABLE_SIZE, hp_free := NGX_HTTP_V2_TABLE_SIZE\<rparr> in
        if \<not> palloc (8 * hp_allocated t) then (False, t)
        else let t = t\<lparr>hp_entries := replicate (hp_allocated t) None\<rparr> in
        if \<not> palloc (hp_free t) then (False, t)
        else (True, t\<lparr>hp_storage := fresh, hp_pos := 0\<rparr>)
      else (True, t))"

text \<open>A header structure for the new entry\<close>

definition entry_alloc :: "(nat \<Rightarrow> bool) \<Rightarrow> ngx_http_v2_hpack \<Rightarrow> (nat option \<times> ngx_http_v2_hpack) option" where
  "entry_alloc palloc t =
     (if hp_reused t = hp_deleted t then
        if \<not> palloc 32 then Some (None, t)
        else Some (Some (length (hp_heap t)), t\<lparr>hp_heap := hp_heap t @ [\<lparr>he_name_len = 0, he_name_data = 0, he_value_len = 0, he_value_data = 0\<rparr>]\<rparr>)
      else do {
        a \<leftarrow> entry_address (hp_reused t) t;
        Some (Some a, t\<lparr>hp_reused := hp_reused t + 1\<rparr>)
      })"

text \<open>The copy of the name and of the value into the storage\<close>

definition entry_store :: "nat \<Rightarrow> ngx_http_v2_header \<Rightarrow> ngx_http_v2_hpack \<Rightarrow> ngx_http_v2_hpack option" where
  "entry_store a h t =
     do {
       let avail = NGX_HTTP_V2_TABLE_SIZE - hp_pos t;
       let name_data = hp_pos t;
       t \<leftarrow> hpack_copy avail (hh_name h) t;
       let avail = (if avail \<ge> length (hh_name h) then avail else NGX_HTTP_V2_TABLE_SIZE);
       let avail = avail - length (hh_name h);
       let val_data = hp_pos t;
       t \<leftarrow> hpack_copy avail (hh_value h) t;
       if a < length (hp_heap t) then
         Some (t\<lparr>hp_heap := (hp_heap t)[a :=
           \<lparr>he_name_len = length (hh_name h), he_name_data = name_data,
            he_value_len = length (hh_value h), he_value_data = val_data\<rparr>]\<rparr>)
       else None
     }"

text \<open>The array of entries is full: a larger one, with the entries in order\<close>

definition entries_grow :: "ngx_http_v2_hpack \<Rightarrow> ngx_http_v2_hpack" where
  "entries_grow t =
     (let index = hp_deleted t mod hp_allocated t in
      t\<lparr>hp_entries := drop index (hp_entries t) @ take index (hp_entries t) @ replicate 64 None,
        hp_added := hp_allocated t, hp_deleted := 0, hp_reused := 0, hp_allocated := hp_allocated t + 64\<rparr>)"

definition entry_push :: "nat \<Rightarrow> ngx_http_v2_hpack \<Rightarrow> ngx_http_v2_hpack option" where
  "entry_push a t =
     (let k = hp_added t mod hp_allocated t in
      if k < length (hp_entries t) then Some (t\<lparr>hp_entries := (hp_entries t)[k := Some a], hp_added := hp_added t + 1\<rparr>)
      else None)"

definition ngx_http_v2_add_header ::
  "(nat \<Rightarrow> bool) \<Rightarrow> u_char list \<Rightarrow> ngx_http_v2_header \<Rightarrow> ngx_http_v2_hpack \<Rightarrow> (int \<times> ngx_http_v2_hpack) option" where
  "ngx_http_v2_add_header palloc fresh h t =
     (case hpack_setup palloc fresh t of (ok, t) \<Rightarrow>
      if \<not> ok then Some (NGX_ERROR, t)
      else do {
        (rc, t) \<leftarrow> ngx_http_v2_table_account (length (hh_name h) + length (hh_value h)) t;
        if rc \<noteq> NGX_OK then Some (NGX_OK, t)
        else do {
          (entry, t) \<leftarrow> entry_alloc palloc t;
          case entry of
            None \<Rightarrow> Some (NGX_ERROR, t)
          | Some a \<Rightarrow> do {
              t \<leftarrow> entry_store a h t;
              if hp_allocated t = hp_added t - hp_deleted t then
                if \<not> palloc (8 * (hp_allocated t + 64)) then Some (NGX_ERROR, t)
                else do { t \<leftarrow> entry_push a (entries_grow t); Some (NGX_OK, t) }
              else do { t \<leftarrow> entry_push a t; Some (NGX_OK, t) }
            }
        }
      })"

partial_function (option) size_loop :: "int \<Rightarrow> ngx_http_v2_hpack \<Rightarrow> ngx_http_v2_hpack option" where
  "size_loop needed t =
     (if needed > int (hp_free t) then do { t \<leftarrow> drop_entry t; size_loop needed t } else Some t)"

definition ngx_http_v2_table_size :: "nat \<Rightarrow> ngx_http_v2_hpack \<Rightarrow> (int \<times> ngx_http_v2_hpack) option" where
  "ngx_http_v2_table_size sz t =
     (if sz > NGX_HTTP_V2_TABLE_SIZE then Some (NGX_ERROR, t)
      else do {
        let needed = int (hp_size t) - int sz;
        t \<leftarrow> size_loop needed t;
        Some (NGX_OK, t\<lparr>hp_size := sz, hp_free := nat (int (hp_free t) - needed)\<rparr>)
      })"

section \<open>The storage as a ring\<close>

text \<open>Positions in the stream of all bytes written; the byte at \<open>p\<close> is kept at \<open>p mod 4096\<close>.\<close>

abbreviation TS :: nat where "TS \<equiv> 4096"

lemmas table_size_def = NGX_HTTP_V2_TABLE_SIZE_def

definition ring :: "u_char list \<Rightarrow> nat \<Rightarrow> nat \<Rightarrow> ngx_str" where
  "ring m p n = map (\<lambda>i. m ! ((p + i) mod TS)) [0..<n]"

definition offset_ok :: "nat \<Rightarrow> nat \<Rightarrow> bool" where
  "offset_ok off p \<longleftrightarrow> off \<le> TS \<and> off mod TS = p mod TS"

lemma length_ring [simp]: "length (ring m p n) = n"
  by (simp add: ring_def)

lemma ring_index:
  assumes "offset_ok off p" "off + i < 2 * TS"
  shows "(p + i) mod TS = (if off + i < TS then off + i else off + i - TS)"
proof -
  have "off mod TS = p mod TS" using assms(1) by (simp add: offset_ok_def)
  then have "(p + i) mod TS = (off + i) mod TS" by (rule mod_add_cong [OF sym refl])
  then show ?thesis using assms(2) by (auto simp: le_mod_geq not_less)
qed

lemma mod_apart: "x < y \<Longrightarrow> y < x + n \<Longrightarrow> x mod n \<noteq> y mod (n :: nat)"
proof
  assume less: "x < y" "y < x + n" and "x mod n = y mod n"
  then have "y mod n = x mod n" "x \<le> y" by simp_all
  then have "n dvd y - x" using mod_eq_dvd_iff_nat by blast
  with less show False by (auto dest: dvd_imp_le)
qed

lemma mod_below_twice: "x < 2 * n \<Longrightarrow> x mod n = (if x < n then x else x - (n :: nat))"
  by (cases "x < n") (auto simp: le_mod_geq)

lemma hpack_read_ring:
  assumes "length (hp_storage t) = TS" "offset_ok off p" "n \<le> TS"
  shows "hpack_read t off n = Some (ring (hp_storage t) p n)"
proof -
  have off: "off \<le> TS" using assms(2) by (simp add: offset_ok_def)
  have i: "(p + i) mod TS = (if off + i < TS then off + i else off + i - TS)" if "i < n" for i
    using ring_index [OF assms(2), of i] off that assms(3) by simp
  show ?thesis
  proof (cases "TS - off < n")
    case True
    then have "take (TS - off) (drop off (hp_storage t)) @ take (n - (TS - off)) (hp_storage t) = ring (hp_storage t) p n"
      using off assms(1,3) i by (intro nth_equalityI) (auto simp: ring_def nth_append add.commute)
    then show ?thesis using True off assms(1,3) by (simp add: hpack_read_def table_size_def rd_slice_def)
  next
    case False
    then have "take n (drop off (hp_storage t)) = ring (hp_storage t) p n"
      using off assms(1,3) i by (intro nth_equalityI) (auto simp: ring_def)
    then show ?thesis using False off assms(1,3) by (simp add: hpack_read_def table_size_def rd_slice_def)
  qed
qed

text \<open>Writing a string at the end of the stream\<close>

definition ring_written :: "u_char list \<Rightarrow> nat \<Rightarrow> ngx_str \<Rightarrow> u_char list \<Rightarrow> bool" where
  "ring_written m p data m' \<longleftrightarrow> length m' = TS \<and> ring m' p (length data) = data \<and>
     (\<forall>q n. p + length data \<le> q + TS \<longrightarrow> q + n \<le> p \<longrightarrow> ring m' q n = ring m q n)"

lemma ring_writtenI:
  assumes "length m' = TS" "\<And>d. d < length data \<Longrightarrow> m' ! ((p + d) mod TS) = data ! d"
    "\<And>k. k < TS \<Longrightarrow> (\<And>d. d < length data \<Longrightarrow> k \<noteq> (p + d) mod TS) \<Longrightarrow> m' ! k = m ! k"
  shows "ring_written m p data m'"
  unfolding ring_written_def
proof (intro conjI allI impI)
  show "ring m' p (length data) = data" using assms(2) by (intro nth_equalityI) (auto simp: ring_def)
  fix q n assume q: "p + length data \<le> q + TS" "q + n \<le> p"
  have "m' ! ((q + i) mod TS) = m ! ((q + i) mod TS)" if "i < n" for i
  proof (rule assms(3))
    fix d assume "d < length data"
    then show "(q + i) mod TS \<noteq> (p + d) mod TS" using q that by (intro mod_apart) auto
  qed simp
  then show "ring m' q n = ring m q n" by (simp add: ring_def)
qed (rule assms(1))

lemma copy_ring:
  assumes m: "length (hp_storage t) = TS" and p: "offset_ok (hp_pos t) p" and d: "length data \<le> TS"
    and a: "length data \<le> avail \<and> hp_pos t + length data \<le> TS \<or> avail < length data \<and> avail = TS - hp_pos t"
  shows "\<exists>m' pos. hpack_copy avail data t = Some (t\<lparr>hp_storage := m', hp_pos := pos\<rparr>) \<and>
    pos = (if length data \<le> avail then hp_pos t + length data else length data - avail) \<and>
    offset_ok pos (p + length data) \<and> ring_written (hp_storage t) p data m'"
proof -
  let ?m = "hp_storage t" and ?o = "hp_pos t"
  have o: "?o \<le> TS" using p by (simp add: offset_ok_def)
  note idx = ring_index [OF p]
  have "?o mod TS = p mod TS" using p by (simp add: offset_ok_def)
  then have shift: "(?o + length data) mod TS = (p + length data) mod TS" by (rule mod_add_cong [OF _ refl])
  show ?thesis
  proof (cases "length data \<le> avail")
    case True
    with a have le: "?o + length data \<le> TS" by auto
    have pos: "offset_ok (?o + length data) (p + length data)" using shift le by (simp add: offset_ok_def)
    let ?w = "take ?o ?m @ data @ drop (?o + length data) ?m"
    have "ring_written ?m p data ?w"
    proof (rule ring_writtenI)
      show "length ?w = TS" using le m by simp
      show "?w ! ((p + d) mod TS) = data ! d" if "d < length data" for d
        using idx [of d] that le m by (simp add: nth_append)
      show "?w ! k = ?m ! k" if "k < TS" "\<And>d. d < length data \<Longrightarrow> k \<noteq> (p + d) mod TS" for k
      proof -
        have "k \<noteq> ?o + d" if "d < length data" for d
          using \<open>\<And>d. d < length data \<Longrightarrow> k \<noteq> (p + d) mod TS\<close> [OF that] idx [of d] that le by simp
        from this [of "k - ?o"] have "k < ?o \<or> ?o + length data \<le> k" by fastforce
        then show ?thesis using le m that(1) by (auto simp: nth_append)
      qed
    qed
    with True le m show ?thesis by (intro exI [of _ ?w] exI [of _ "?o + length data"]) (simp add: hpack_copy_def ngx_cpymem_def pos)
  next
    case False
    with a have av: "avail = TS - ?o" "avail < length data" by auto
    let ?w = "drop avail data @ drop (length data - avail) (take ?o ?m @ take avail data)"
    have len: "?o + avail = TS" "length (take avail data) = avail" "length data - avail \<le> ?o" using av o d by auto
    have "length data - avail = ?o + length data - TS" using len(1) av(2) by simp
    moreover have "(?o + length data - TS) mod TS = (?o + length data) mod TS"
      using len(1) av(2) by (subst le_mod_geq [of TS "?o + length data"]) auto
    ultimately have pos: "offset_ok (length data - avail) (p + length data)"
      using shift d by (simp add: offset_ok_def)
    have w: "?w ! k = (if k < length data - avail then data ! (avail + k) else if k < ?o then ?m ! k else data ! (k - ?o))"
      if "k < TS" for k using that len m av by (auto simp: nth_append)
    have "ring_written ?m p data ?w"
    proof (rule ring_writtenI)
      show "length ?w = TS" using len m by simp
      show "?w ! ((p + d) mod TS) = data ! d" if "d < length data" for d
      proof (cases "?o + d < TS")
        case True
        then show ?thesis using idx [of d] len w [of "?o + d"] by simp
      next
        case False
        then have "avail + (?o + d - TS) = d" "?o + d - TS < length data - avail" "?o + d - TS < TS"
          using len that d by auto
        then show ?thesis using False idx [of d] that d len w [of "?o + d - TS"] by simp
      qed
      show "?w ! k = ?m ! k" if "k < TS" "\<And>d. d < length data \<Longrightarrow> k \<noteq> (p + d) mod TS" for k
      proof -
        have "\<not> k < length data - avail"
        proof
          assume k: "k < length data - avail"
          have "?o + (avail + k) - TS = k" using len(1) by simp
          then have "(p + (avail + k)) mod TS = k" using idx [of "avail + k"] len k by auto
          then show False using that(2) [of "avail + k"] k by linarith
        qed
        moreover have "k < ?o"
        proof (rule ccontr)
          assume "\<not> k < ?o"
          then have k: "?o + (k - ?o) = k" "k - ?o < length data" using that(1) len(1) av(2) by auto
          then have "(p + (k - ?o)) mod TS = k" using idx [of "k - ?o"] that(1) by simp
          then show False using that(2) [OF k(2)] by simp
        qed
        ultimately show ?thesis using w [OF that(1)] by simp
      qed
    qed
    moreover have "ngx_cpymem ?m ?o (take avail data) = Some (take ?o ?m @ take avail data, TS)"
      using len m by (simp add: ngx_cpymem_def)
    moreover have "ngx_cpymem (take ?o ?m @ take avail data) 0 (drop avail data) = Some (?w, length data - avail)"
      using len m by (simp add: ngx_cpymem_def)
    ultimately show ?thesis using False by (intro exI [of _ ?w] exI [of _ "length data - avail"]) (simp add: hpack_copy_def pos)
  qed
qed

section \<open>The headers in the table\<close>

text \<open>The specification: a queue of headers, the newest first, with a limit on the sum of their sizes. What
  does not fit is dropped from the old end.\<close>

definition header_size :: "ngx_http_v2_header \<Rightarrow> nat" where
  "header_size h = 32 + length (hh_name h) + length (hh_value h)"

abbreviation headers_size :: "ngx_http_v2_header list \<Rightarrow> nat" where
  "headers_size xs \<equiv> sum_list (map header_size xs)"

fun fit :: "nat \<Rightarrow> ngx_http_v2_header list \<Rightarrow> ngx_http_v2_header list" where
  "fit limit [] = []"
| "fit limit (x # xs) = (if header_size x \<le> limit then x # fit (limit - header_size x) xs else [])"

definition table_insert :: "nat \<Rightarrow> ngx_http_v2_header \<Rightarrow> ngx_http_v2_header list \<Rightarrow> ngx_http_v2_header list" where
  "table_insert limit h xs = (if header_size h > limit then [] else h # fit (limit - header_size h) xs)"

lemma fit_all: "headers_size xs \<le> limit \<Longrightarrow> fit limit xs = xs"
  by (induction xs arbitrary: limit) auto

lemma fit_snoc: "limit < headers_size (xs @ [y]) \<Longrightarrow> fit limit (xs @ [y]) = fit limit xs"
  by (induction xs arbitrary: limit) (auto simp: less_diff_conv add.commute)

lemma fit_size: "headers_size (fit limit xs) \<le> limit"
proof (induction xs arbitrary: limit)
  case (Cons x xs)
  show ?case using Cons [of "limit - header_size x"] by auto
qed simp

text \<open>\<open>entries_at t c p xs\<close>: the entries below the counter \<open>c\<close> are the headers \<open>xs\<close>, and their bytes end
  at the position \<open>p\<close> of the ring.\<close>

fun entries_at :: "ngx_http_v2_hpack \<Rightarrow> nat \<Rightarrow> nat \<Rightarrow> ngx_http_v2_header list \<Rightarrow> bool" where
  "entries_at t c p [] \<longleftrightarrow> True"
| "entries_at t c p (h # hs) \<longleftrightarrow>
     (\<exists>e q. rd_entry (c - 1) t = Some e \<and> he_name_len e = length (hh_name h) \<and> he_value_len e = length (hh_value h) \<and>
        p = q + length (hh_name h) + length (hh_value h) \<and>
        offset_ok (he_name_data e) q \<and> offset_ok (he_value_data e) (q + length (hh_name h)) \<and>
        ring (hp_storage t) q (length (hh_name h)) = hh_name h \<and>
        ring (hp_storage t) (q + length (hh_name h)) (length (hh_value h)) = hh_value h \<and>
        entries_at t (c - 1) q hs)"

definition slots_ok :: "ngx_http_v2_hpack \<Rightarrow> bool" where
  "slots_ok t \<longleftrightarrow>
     length (hp_entries t) = hp_allocated t \<and> 0 < hp_allocated t \<and>
     hp_reused t \<le> hp_deleted t \<and> hp_deleted t \<le> hp_added t \<and> hp_added t \<le> hp_reused t + hp_allocated t \<and>
     (\<forall>i \<in> {hp_reused t..<hp_added t}. \<exists>a < length (hp_heap t). entry_address i t = Some a) \<and>
     inj_on (\<lambda>i. entry_address i t) {hp_reused t..<hp_added t}"

definition live_ok :: "ngx_http_v2_hpack \<Rightarrow> ngx_http_v2_header list \<Rightarrow> bool" where
  "live_ok t xs \<longleftrightarrow> slots_ok t \<and> hp_added t - hp_deleted t = length xs \<and> length (hp_storage t) = TS \<and>
     (\<exists>p. offset_ok (hp_pos t) p \<and> entries_at t (hp_added t) p xs)"

definition hpack_ok :: "ngx_http_v2_hpack \<Rightarrow> ngx_http_v2_header list \<Rightarrow> bool" where
  "hpack_ok t xs \<longleftrightarrow> hp_free t + headers_size xs = hp_size t \<and> hp_size t \<le> TS \<and>
     (if hp_entries t = [] then xs = [] \<and> hp_added t = 0 \<and> hp_deleted t = 0 \<and> hp_reused t = 0 else live_ok t xs)"

lemma entries_at_cong:
  assumes "entries_at t c p xs" "\<And>j. j < length xs \<Longrightarrow> rd_entry (c' - 1 - j) t' = rd_entry (c - 1 - j) t"
    "\<And>q n. p \<le> q + headers_size xs \<Longrightarrow> q + n \<le> p \<Longrightarrow> ring (hp_storage t') q n = ring (hp_storage t) q n"
  shows "entries_at t' c' p xs"
  using assms
proof (induction xs arbitrary: c c' p)
  case (Cons h hs)
  from Cons(2) obtain e q where q: "rd_entry (c - 1) t = Some e" "he_name_len e = length (hh_name h)"
    "he_value_len e = length (hh_value h)" "p = q + length (hh_name h) + length (hh_value h)"
    "offset_ok (he_name_data e) q" "offset_ok (he_value_data e) (q + length (hh_name h))"
    "ring (hp_storage t) q (length (hh_name h)) = hh_name h"
    "ring (hp_storage t) (q + length (hh_name h)) (length (hh_value h)) = hh_value h"
    "entries_at t (c - 1) q hs" by auto
  have "entries_at t' (c' - 1) q hs"
  proof (rule Cons.IH [OF q(9)])
    show "rd_entry (c' - 1 - 1 - j) t' = rd_entry (c - 1 - 1 - j) t" if "j < length hs" for j
      using Cons(3) [of "Suc j"] that by simp
    show "ring (hp_storage t') r n = ring (hp_storage t) r n" if "q \<le> r + headers_size hs" "r + n \<le> q" for r n
      using Cons(4) [of r n] that q(4) by (simp add: header_size_def [of h])
  qed
  moreover have "ring (hp_storage t') q (length (hh_name h)) = hh_name h"
    "ring (hp_storage t') (q + length (hh_name h)) (length (hh_value h)) = hh_value h"
    using Cons(4) [of q "length (hh_name h)"] Cons(4) [of "q + length (hh_name h)" "length (hh_value h)"] q(4,7,8)
    by (simp_all add: header_size_def [of h])
  moreover have "rd_entry (c' - 1) t' = Some e" using Cons(3) [of 0] q(1) by simp
  ultimately show ?case using q by (intro entries_at.simps(2) [THEN iffD2] exI [of _ e] exI [of _ q]) simp
qed simp

lemma entries_at_append: "entries_at t c p (xs @ ys) \<Longrightarrow> entries_at t c p xs"
proof (induction xs arbitrary: c p)
  case (Cons x xs)
  then show ?case by (simp, metis)
qed simp

lemma entries_at_nth:
  assumes "entries_at t c p xs" "length (hp_storage t) = TS" "headers_size xs \<le> TS" "j < length xs"
  shows "\<exists>e. rd_entry (c - 1 - j) t = Some e \<and> he_name_len e = length (hh_name (xs ! j)) \<and>
    he_value_len e = length (hh_value (xs ! j)) \<and>
    hpack_read t (he_name_data e) (he_name_len e) = Some (hh_name (xs ! j)) \<and>
    hpack_read t (he_value_data e) (he_value_len e) = Some (hh_value (xs ! j))"
  using assms(1,3,4)
proof (induction xs arbitrary: c p j)
  case (Cons h hs)
  show ?case
  proof (cases j)
    case 0
    with Cons(2,3) show ?thesis by (auto simp: hpack_read_ring [OF assms(2)] header_size_def)
  next
    case (Suc i)
    with Cons(2) obtain q where "entries_at t (c - 1) q hs" by auto
    with Cons.IH [of "c - 1" q i] Cons(3,4) Suc show ?thesis by (simp add: header_size_def)
  qed
qed simp

section \<open>The operations on the table\<close>

lemma slot_reads:
  assumes "slots_ok t" "i \<in> {hp_reused t..<hp_added t}"
  obtains a where "entry_address i t = Some a" "a < length (hp_heap t)" "rd_entry i t = Some (hp_heap t ! a)"
proof -
  from assms obtain a where "entry_address i t = Some a" "a < length (hp_heap t)" unfolding slots_ok_def by blast
  with that show thesis by (simp add: rd_entry_def)
qed

lemma entry_upd [simp]:
  "entry_address i (t\<lparr>hp_deleted := n\<rparr>) = entry_address i t" "rd_entry i (t\<lparr>hp_deleted := n\<rparr>) = rd_entry i t"
  "entry_address i (t\<lparr>hp_free := n\<rparr>) = entry_address i t" "rd_entry i (t\<lparr>hp_free := n\<rparr>) = rd_entry i t"
  "entry_address i (t\<lparr>hp_size := n\<rparr>) = entry_address i t" "rd_entry i (t\<lparr>hp_size := n\<rparr>) = rd_entry i t"
  "entry_address i (t\<lparr>hp_reused := n\<rparr>) = entry_address i t" "rd_entry i (t\<lparr>hp_reused := n\<rparr>) = rd_entry i t"
  "entry_address i (t\<lparr>hp_added := n\<rparr>) = entry_address i t" "rd_entry i (t\<lparr>hp_added := n\<rparr>) = rd_entry i t"
  "entry_address i (t\<lparr>hp_storage := m\<rparr>) = entry_address i t" "rd_entry i (t\<lparr>hp_storage := m\<rparr>) = rd_entry i t"
  "entry_address i (t\<lparr>hp_pos := n\<rparr>) = entry_address i t" "rd_entry i (t\<lparr>hp_pos := n\<rparr>) = rd_entry i t"
  "entry_address i (t\<lparr>hp_heap := hs\<rparr>) = entry_address i t"
  by (simp_all add: rd_entry_def entry_address_def Let_def cong: if_cong)

lemma rd_entry_eq: "entry_address i t' = entry_address j t \<Longrightarrow> hp_heap t' = hp_heap t \<Longrightarrow> rd_entry i t' = rd_entry j t"
  by (simp add: rd_entry_def cong: if_cong)

lemma live_slots: "slots_ok t \<Longrightarrow> i \<in> {hp_deleted t..<hp_added t} \<Longrightarrow> i \<in> {hp_reused t..<hp_added t}"
  by (auto simp: slots_ok_def)

text \<open>Dropping the oldest header.\<close>

lemma drop_entry_ok:
  assumes "live_ok t (xs @ [y])"
  shows "\<exists>t'. drop_entry t = Some t' \<and> live_ok t' xs \<and> hp_free t' = hp_free t + header_size y \<and>
    hp_size t' = hp_size t \<and> hp_entries t' = hp_entries t"
proof -
  from assms obtain p where p: "slots_ok t" "hp_added t - hp_deleted t = Suc (length xs)" "length (hp_storage t) = TS"
    "offset_ok (hp_pos t) p" "entries_at t (hp_added t) p (xs @ [y])" by (auto simp: live_ok_def)
  have "hp_added t - 1 - length xs = hp_deleted t" using p(2) by simp
  moreover have "\<exists>e. rd_entry (c - 1 - length xs) t = Some e \<and> he_name_len e = length (hh_name y) \<and>
      he_value_len e = length (hh_value y)" if "entries_at t c p (xs @ [y])" for c p
    using that by (induction xs arbitrary: c p) fastforce+
  ultimately obtain e where e: "rd_entry (hp_deleted t) t = Some e" "he_name_len e = length (hh_name y)"
    "he_value_len e = length (hh_value y)" using p(5) by metis
  let ?t = "t\<lparr>hp_deleted := hp_deleted t + 1, hp_free := hp_free t + header_size y\<rparr>"
  have "drop_entry t = Some ?t" using e by (simp add: drop_entry_def header_size_def)
  moreover have "entries_at ?t (hp_added ?t) p xs"
    using entries_at_append [OF p(5)] by (rule entries_at_cong) simp_all
  moreover have "slots_ok ?t" using p(1,2) by (simp add: slots_ok_def inj_on_subset)
  ultimately show ?thesis using p(2-4) by (auto simp: live_ok_def)
qed

text \<open>The loops that drop headers until the rest fits.\<close>

definition dropped_to :: "nat \<Rightarrow> ngx_http_v2_header list \<Rightarrow> ngx_http_v2_hpack \<Rightarrow> ngx_http_v2_hpack \<Rightarrow> bool" where
  "dropped_to limit xs t t' \<longleftrightarrow> live_ok t' (fit limit xs) \<and> hp_size t' = hp_size t \<and> hp_entries t' = hp_entries t \<and>
     hp_free t' + headers_size (fit limit xs) = hp_free t + headers_size xs"

lemma dropped_snoc:
  assumes "limit < headers_size (xs @ [y])" "dropped_to limit xs t1 t'" "hp_free t1 = hp_free t + header_size y"
    "hp_size t1 = hp_size t" "hp_entries t1 = hp_entries t"
  shows "dropped_to limit (xs @ [y]) t t'"
  using assms by (simp add: dropped_to_def fit_snoc)

lemma account_loop_ok:
  assumes "live_ok t xs" "hp_free t < sz" "sz \<le> hp_free t + headers_size xs"
  shows "\<exists>t'. account_loop sz t = Some t' \<and> dropped_to (hp_free t + headers_size xs - sz) xs t t'"
  using assms
proof (induction xs arbitrary: t rule: rev_induct)
  case (snoc y xs)
  from drop_entry_ok [OF snoc(2)] obtain t1 where 1: "drop_entry t = Some t1" "live_ok t1 xs"
    "hp_free t1 = hp_free t + header_size y" "hp_size t1 = hp_size t" "hp_entries t1 = hp_entries t" by blast
  let ?l = "hp_free t + headers_size (xs @ [y]) - sz"
  have l: "?l = hp_free t1 + headers_size xs - sz" "?l < headers_size (xs @ [y])" using 1(3) snoc(3,4) by auto
  have "\<exists>t'. account_loop sz t = Some t' \<and> dropped_to ?l xs t1 t'"
  proof (cases "sz > hp_free t1")
    case True
    from snoc(1) [OF 1(2) True] snoc(4) 1(3) obtain t' where "account_loop sz t1 = Some t'" "dropped_to ?l xs t1 t'"
      unfolding l(1) by auto
    with True show ?thesis by (subst account_loop.simps) (auto simp: 1(1))
  next
    case False
    then have "dropped_to ?l xs t1 t1" using 1(2) l(1) fit_all [of xs ?l] by (simp add: dropped_to_def)
    with False show ?thesis by (subst account_loop.simps) (simp add: 1(1))
  qed
  with dropped_snoc [OF l(2) _ 1(3-5)] show ?case by blast
qed simp

lemma size_loop_ok:
  assumes "live_ok t xs" "needed \<le> int (hp_free t + headers_size xs)"
  shows "\<exists>t'. size_loop needed t = Some t' \<and> dropped_to (nat (int (hp_free t + headers_size xs) - needed)) xs t t'"
  using assms
proof (induction xs arbitrary: t rule: rev_induct)
  case Nil
  then show ?case by (subst size_loop.simps) (simp add: dropped_to_def)
next
  case (snoc y xs)
  let ?l = "nat (int (hp_free t + headers_size (xs @ [y])) - needed)"
  show ?case
  proof (cases "needed > int (hp_free t)")
    case True
    from drop_entry_ok [OF snoc(2)] obtain t1 where 1: "drop_entry t = Some t1" "live_ok t1 xs"
      "hp_free t1 = hp_free t + header_size y" "hp_size t1 = hp_size t" "hp_entries t1 = hp_entries t" by blast
    have l: "?l = nat (int (hp_free t1 + headers_size xs) - needed)" "?l < headers_size (xs @ [y])"
      using 1(3) snoc(3) True by auto
    from snoc(1) [OF 1(2)] snoc(3) 1(3) obtain t' where "size_loop needed t1 = Some t'" "dropped_to ?l xs t1 t'"
      unfolding l(1) by auto
    with True dropped_snoc [OF l(2) _ 1(3-5)] show ?thesis by (subst size_loop.simps) (auto simp: 1(1))
  next
    case False
    then have "headers_size (xs @ [y]) \<le> ?l" using snoc(3) by auto
    from fit_all [OF this] False snoc(2) show ?thesis by (subst size_loop.simps) (simp add: dropped_to_def)
  qed
qed

text \<open>A structure for a new header: it is not one of those in the table.\<close>

definition unused_address :: "nat \<Rightarrow> ngx_http_v2_hpack \<Rightarrow> bool" where
  "unused_address a t \<longleftrightarrow> a < length (hp_heap t) \<and> (\<forall>i \<in> {hp_reused t..<hp_added t}. entry_address i t \<noteq> Some a)"

lemma entry_alloc_ok:
  assumes "live_ok t xs"
  shows "entry_alloc palloc t = Some (None, t) \<and> \<not> palloc 32 \<or>
    (\<exists>a t'. entry_alloc palloc t = Some (Some a, t') \<and> live_ok t' xs \<and> unused_address a t' \<and>
      hp_free t' = hp_free t \<and> hp_size t' = hp_size t \<and> hp_entries t' = hp_entries t \<and>
      (length xs < hp_allocated t' \<longrightarrow> hp_added t' < hp_reused t' + hp_allocated t') \<and>
      (length xs = hp_allocated t' \<longrightarrow> hp_reused t' = hp_deleted t'))"
proof -
  from assms obtain p where p: "slots_ok t" "hp_added t - hp_deleted t = length xs" "length (hp_storage t) = TS"
    "offset_ok (hp_pos t) p" "entries_at t (hp_added t) p xs" by (auto simp: live_ok_def)
  note slots = p(1) [unfolded slots_ok_def]
  show ?thesis
  proof (cases "hp_reused t = hp_deleted t")
    case True
    let ?t = "t\<lparr>hp_heap := hp_heap t @ [\<lparr>he_name_len = 0, he_name_data = 0, he_value_len = 0, he_value_data = 0\<rparr>]\<rparr>"
    have old: "rd_entry i ?t = rd_entry i t" if "i \<in> {hp_reused t..<hp_added t}" for i
    proof -
      from slot_reads [OF p(1) that] obtain a where "entry_address i t = Some a" "a < length (hp_heap t)" .
      then show ?thesis by (simp add: rd_entry_def nth_append)
    qed
    have "entries_at ?t (hp_added ?t) p xs"
      by (rule entries_at_cong [OF p(5)]) (use p(2) True in \<open>auto intro!: old\<close>)
    moreover have "slots_ok ?t" using slots by (simp add: slots_ok_def) (meson less_SucI)
    ultimately have "live_ok ?t xs" using p(2-4) unfolding live_ok_def by auto
    moreover have "entry_address i t \<noteq> Some (length (hp_heap t))" if "i \<in> {hp_reused t..<hp_added t}" for i
    proof -
      from slot_reads [OF p(1) that] obtain a where "entry_address i t = Some a" "a < length (hp_heap t)" .
      then show ?thesis by simp
    qed
    then have "unused_address (length (hp_heap t)) ?t" by (simp add: unused_address_def)
    moreover have "length xs < hp_allocated t \<longrightarrow> hp_added t < hp_reused t + hp_allocated t" using True p(2) slots by linarith
    ultimately show ?thesis using True by (cases "palloc 32") (auto simp: entry_alloc_def)
  next
    case False
    then have less: "hp_reused t < hp_deleted t" "hp_reused t \<in> {hp_reused t..<hp_added t}" using slots by auto
    from slot_reads [OF p(1) less(2)] obtain a where a: "entry_address (hp_reused t) t = Some a" "a < length (hp_heap t)" .
    let ?t = "t\<lparr>hp_reused := hp_reused t + 1\<rparr>"
    have sub: "{hp_reused t + 1..<hp_added t} \<subseteq> {hp_reused t..<hp_added t}" by auto
    have inj: "inj_on (\<lambda>i. entry_address i t) {hp_reused t..<hp_added t}" using slots by blast
    have "entries_at ?t (hp_added ?t) p xs" by (rule entries_at_cong [OF p(5)]) simp_all
    moreover have "slots_ok ?t" using slots less(1) inj_on_subset [OF inj sub] by (simp add: slots_ok_def)
    ultimately have "live_ok ?t xs" using p(2-4) unfolding live_ok_def by auto
    moreover have "entry_address i t \<noteq> Some a" if "i \<in> {hp_reused t + 1..<hp_added t}" for i
    proof
      assume "entry_address i t = Some a"
      then have "i = hp_reused t" using inj_onD [OF inj _ _ less(2), of i] a(1) sub that by auto
      with that show False by simp
    qed
    then have "unused_address a ?t" using a(2) by (simp add: unused_address_def)
    moreover have "hp_added t < hp_reused t + 1 + hp_allocated t" "length xs < hp_allocated t" using less(1) p(2) slots by linarith+
    ultimately show ?thesis using False a(1) by (auto simp: entry_alloc_def)
  qed
qed

text \<open>The copy of a header into the storage.\<close>

lemma entry_store_ok:
  assumes m: "length (hp_storage t) = TS" and p: "offset_ok (hp_pos t) p" and a: "a < length (hp_heap t)"
    and h: "length (hh_name h) + length (hh_value h) \<le> TS"
  shows "\<exists>e m' pos. entry_store a h t = Some (t\<lparr>hp_storage := m', hp_pos := pos, hp_heap := (hp_heap t)[a := e]\<rparr>) \<and>
    he_name_len e = length (hh_name h) \<and> he_value_len e = length (hh_value h) \<and>
    offset_ok (he_name_data e) p \<and> offset_ok (he_value_data e) (p + length (hh_name h)) \<and>
    ring m' p (length (hh_name h)) = hh_name h \<and> ring m' (p + length (hh_name h)) (length (hh_value h)) = hh_value h \<and>
    length m' = TS \<and> offset_ok pos (p + length (hh_name h) + length (hh_value h)) \<and>
    (\<forall>q n. p + length (hh_name h) + length (hh_value h) \<le> q + TS \<longrightarrow> q + n \<le> p \<longrightarrow> ring m' q n = ring (hp_storage t) q n)"
proof -
  let ?n = "hh_name h" and ?v = "hh_value h"
  have o: "hp_pos t \<le> TS" using p by (simp add: offset_ok_def)
  define avail where "avail = TS - hp_pos t"
  define pos1 where "pos1 = (if length ?n \<le> avail then hp_pos t + length ?n else length ?n - avail)"
  have "length ?n \<le> avail \<and> hp_pos t + length ?n \<le> TS \<or> avail < length ?n \<and> avail = TS - hp_pos t"
    using o by (auto simp: avail_def)
  from copy_ring [OF m p _ this] h obtain m1 where
    1: "hpack_copy avail ?n t = Some (t\<lparr>hp_storage := m1, hp_pos := pos1\<rparr>)" "ring_written (hp_storage t) p ?n m1"
      "offset_ok pos1 (p + length ?n)"
    unfolding pos1_def by auto
  let ?t1 = "t\<lparr>hp_storage := m1, hp_pos := pos1\<rparr>"
  define avail2 where "avail2 = (if length ?n \<le> avail then avail else TS) - length ?n"
  have t1: "length (hp_storage ?t1) = TS" "offset_ok (hp_pos ?t1) (p + length ?n)"
    using 1(2,3) by (simp_all add: ring_written_def)
  have "length ?v \<le> avail2 \<and> hp_pos ?t1 + length ?v \<le> TS \<or> avail2 < length ?v \<and> avail2 = TS - hp_pos ?t1"
    using o h by (auto simp: avail_def avail2_def pos1_def)
  from copy_ring [OF t1 _ this] h obtain m2 pos2 where
    2: "hpack_copy avail2 ?v ?t1 = Some (?t1\<lparr>hp_storage := m2, hp_pos := pos2\<rparr>)" "ring_written m1 (p + length ?n) ?v m2"
      "offset_ok pos2 (p + length ?n + length ?v)" by auto
  have frame1: "ring m1 q n = ring (hp_storage t) q n" if "p + length ?n \<le> q + TS" "q + n \<le> p" for q n
    using 1(2) that by (simp add: ring_written_def)
  have frame2: "ring m2 q n = ring m1 q n" if "p + length ?n + length ?v \<le> q + TS" "q + n \<le> p + length ?n" for q n
    using 2(2) that by (simp add: ring_written_def)
  have "ring m2 p (length ?n) = ?n"
    using frame2 [of p "length ?n"] 1(2) h by (simp add: ring_written_def)
  moreover have "ring m2 q n = ring (hp_storage t) q n" if "p + length ?n + length ?v \<le> q + TS" "q + n \<le> p" for q n
    using frame1 [of q n] frame2 [of q n] that by simp
  moreover have "length m2 = TS" "ring m2 (p + length ?n) (length ?v) = ?v" using 2(2) by (simp_all add: ring_written_def)
  moreover have "entry_store a h t = Some (t\<lparr>hp_storage := m2, hp_pos := pos2, hp_heap := (hp_heap t)[a :=
      \<lparr>he_name_len = length ?n, he_name_data = hp_pos t, he_value_len = length ?v, he_value_data = pos1\<rparr>]\<rparr>)"
    using 1(1) 2(1) a
    by (cases "length ?n \<le> avail") (simp_all add: entry_store_def table_size_def Let_def avail2_def flip: avail_def)
  ultimately show ?thesis
    using p 1(3) 2(3) by fastforce
qed

text \<open>The new header is in the storage and its structure is filled; it is not in the array yet.\<close>

definition header_at :: "hpack_entry \<Rightarrow> u_char list \<Rightarrow> nat \<Rightarrow> ngx_http_v2_header \<Rightarrow> bool" where
  "header_at e m p h \<longleftrightarrow> he_name_len e = length (hh_name h) \<and> he_value_len e = length (hh_value h) \<and>
     offset_ok (he_name_data e) p \<and> offset_ok (he_value_data e) (p + length (hh_name h)) \<and>
     ring m p (length (hh_name h)) = hh_name h \<and> ring m (p + length (hh_name h)) (length (hh_value h)) = hh_value h"

definition ready :: "nat \<Rightarrow> ngx_http_v2_header \<Rightarrow> ngx_http_v2_header list \<Rightarrow> ngx_http_v2_hpack \<Rightarrow> bool" where
  "ready a h xs t \<longleftrightarrow> slots_ok t \<and> unused_address a t \<and> hp_added t - hp_deleted t = length xs \<and>
     length (hp_storage t) = TS \<and>
     (\<exists>p. entries_at t (hp_added t) p xs \<and> offset_ok (hp_pos t) (p + length (hh_name h) + length (hh_value h)) \<and>
       header_at (hp_heap t ! a) (hp_storage t) p h)"

lemma store_ready:
  assumes t: "live_ok t xs" and a: "unused_address a t" and h: "header_size h + headers_size xs \<le> TS"
  shows "\<exists>t'. entry_store a h t = Some t' \<and> ready a h xs t' \<and> hp_free t' = hp_free t \<and> hp_size t' = hp_size t \<and>
    hp_entries t' = hp_entries t \<and> hp_allocated t' = hp_allocated t \<and> hp_added t' = hp_added t \<and>
    hp_deleted t' = hp_deleted t \<and> hp_reused t' = hp_reused t"
proof -
  from t obtain p where p: "slots_ok t" "hp_added t - hp_deleted t = length xs" "length (hp_storage t) = TS"
    "offset_ok (hp_pos t) p" "entries_at t (hp_added t) p xs" by (auto simp: live_ok_def)
  have len: "length (hh_name h) + length (hh_value h) \<le> TS" using h by (simp add: header_size_def)
  have al: "a < length (hp_heap t)" using a by (simp add: unused_address_def)
  from entry_store_ok [OF p(3,4) al len] obtain e m' pos where
    s: "entry_store a h t = Some (t\<lparr>hp_storage := m', hp_pos := pos, hp_heap := (hp_heap t)[a := e]\<rparr>)"
    and e: "header_at e m' p h" and m': "length m' = TS" "offset_ok pos (p + length (hh_name h) + length (hh_value h))"
    and frame: "\<And>q n. p + length (hh_name h) + length (hh_value h) \<le> q + TS \<Longrightarrow> q + n \<le> p \<Longrightarrow>
      ring m' q n = ring (hp_storage t) q n"
    unfolding header_at_def by blast
  let ?t = "t\<lparr>hp_storage := m', hp_pos := pos, hp_heap := (hp_heap t)[a := e]\<rparr>"
  have rd: "rd_entry i ?t = rd_entry i t" if "i \<in> {hp_reused t..<hp_added t}" for i
  proof -
    from slot_reads [OF p(1) that] obtain b where "entry_address i t = Some b" "b < length (hp_heap t)" .
    moreover from this a that have "b \<noteq> a" by (auto simp: unused_address_def)
    ultimately show ?thesis by (simp add: rd_entry_def)
  qed
  have sl: "slots_ok ?t" using p(1) by (simp add: slots_ok_def)
  have "entries_at ?t (hp_added ?t) p xs"
  proof (rule entries_at_cong [OF p(5)])
    fix j assume "j < length xs"
    then have "hp_added t - 1 - j \<in> {hp_deleted t..<hp_added t}" using p(2) by auto
    from rd [OF live_slots [OF p(1) this]] show "rd_entry (hp_added ?t - 1 - j) ?t = rd_entry (hp_added t - 1 - j) t" by simp
  next
    fix q n assume "p \<le> q + headers_size xs" "q + n \<le> p"
    then show "ring (hp_storage ?t) q n = ring (hp_storage t) q n" using frame [of q n] h by (simp add: header_size_def [of h])
  qed
  moreover have "unused_address a ?t" using a by (simp add: unused_address_def)
  ultimately have "ready a h xs ?t" using sl e m' p(2) al unfolding ready_def by auto
  with s show ?thesis by auto
qed

lemma grow_ready:
  assumes r: "ready a h xs t" and full: "hp_allocated t = hp_added t - hp_deleted t" "hp_reused t = hp_deleted t"
  shows "ready a h xs (entries_grow t)"
proof -
  let ?t = "entries_grow t" and ?K = "hp_allocated t" and ?i = "hp_deleted t mod hp_allocated t"
  from r obtain p where p: "slots_ok t" "unused_address a t" "hp_added t - hp_deleted t = length xs" "length (hp_storage t) = TS"
    "entries_at t (hp_added t) p xs" "offset_ok (hp_pos t) (p + length (hh_name h) + length (hh_value h))"
    "header_at (hp_heap t ! a) (hp_storage t) p h" by (auto simp: ready_def)
  note slots = p(1) [unfolded slots_ok_def]
  have K: "0 < ?K" "length (hp_entries t) = ?K" "hp_added t = hp_deleted t + ?K" using slots full(1) by auto
  have i: "?i < ?K" using K(1) by simp
  have adr: "entry_address j ?t = entry_address (hp_deleted t + j) t" if "j < ?K" for j
  proof -
    have "(hp_deleted t + j) mod ?K = (?i + j) mod ?K" by (rule mod_add_left_eq [symmetric])
    also have "\<dots> = (if ?i + j < ?K then ?i + j else ?i + j - ?K)"
      by (rule mod_below_twice) (use i that in linarith)
    finally have "hp_entries t ! ((hp_deleted t + j) mod ?K) =
        (drop ?i (hp_entries t) @ take ?i (hp_entries t) @ replicate 64 None) ! j"
      using that K(2) i by (auto simp: nth_append ac_simps)
    then show ?thesis using that K by (simp add: entry_address_def entries_grow_def Let_def)
  qed
  have rd: "rd_entry j ?t = rd_entry (hp_deleted t + j) t" if "j < ?K" for j
    by (rule rd_entry_eq [OF adr [OF that]]) (simp add: entries_grow_def Let_def)
  have f: "hp_added ?t = ?K" "hp_deleted ?t = 0" "hp_reused ?t = 0" "hp_allocated ?t = ?K + 64" "hp_heap ?t = hp_heap t"
    "hp_storage ?t = hp_storage t" "hp_pos ?t = hp_pos t" "length (hp_entries ?t) = ?K + 64"
    using K(2) i by (simp_all add: entries_grow_def Let_def)
  have inj: "inj_on (\<lambda>j. entry_address j ?t) {0..<?K}"
  proof (rule inj_onI)
    fix j k assume jk: "j \<in> {0..<?K}" "k \<in> {0..<?K}" "entry_address j ?t = entry_address k ?t"
    have "inj_on (\<lambda>j. entry_address j t) {hp_reused t..<hp_added t}" using slots by blast
    from inj_onD [OF this, of "hp_deleted t + j" "hp_deleted t + k"] jk adr K(3) full(2) show "j = k" by simp
  qed
  have "\<exists>b < length (hp_heap t). entry_address j ?t = Some b" if "j < ?K" for j
    using slots adr [OF that] that K(3) full(2) by simp
  then have "slots_ok ?t" unfolding slots_ok_def f using K(1) inj by simp
  moreover have "unused_address a ?t" using p(2) adr K(3) full(2) unfolding unused_address_def f by simp
  moreover have "entries_at ?t ?K p xs"
  proof (rule entries_at_cong [OF p(5)])
    fix j assume "j < length xs"
    then have j: "?K - 1 - j < ?K" "hp_deleted t + (?K - 1 - j) = hp_added t - 1 - j" using p(3) full(1) K(3) by linarith+
    from rd [OF j(1)] show "rd_entry (?K - 1 - j) ?t = rd_entry (hp_added t - 1 - j) t" unfolding j(2) .
  qed (simp add: f)
  moreover have "?K - 0 = length xs" using p(3) full(1) by simp
  ultimately show ?thesis using p(4,6,7) unfolding ready_def f by blast
qed

lemma push_ready:
  assumes r: "ready a h xs t" and room: "hp_added t < hp_reused t + hp_allocated t"
  shows "\<exists>t'. entry_push a t = Some t' \<and> live_ok t' (h # xs) \<and> hp_free t' = hp_free t \<and> hp_size t' = hp_size t \<and>
    hp_entries t' \<noteq> []"
proof -
  from r obtain p where p: "slots_ok t" "unused_address a t" "hp_added t - hp_deleted t = length xs" "length (hp_storage t) = TS"
    "entries_at t (hp_added t) p xs" "offset_ok (hp_pos t) (p + length (hh_name h) + length (hh_value h))"
    "header_at (hp_heap t ! a) (hp_storage t) p h" by (auto simp: ready_def)
  note slots = p(1) [unfolded slots_ok_def]
  let ?k = "hp_added t mod hp_allocated t"
  let ?t = "t\<lparr>hp_entries := (hp_entries t)[?k := Some a], hp_added := hp_added t + 1\<rparr>"
  have k: "?k < length (hp_entries t)" using slots by simp
  have al: "a < length (hp_heap t)" using p(2) by (simp add: unused_address_def)
  have new: "entry_address (hp_added t) ?t = Some a" using k slots by (simp add: entry_address_def)
  have old: "entry_address i ?t = entry_address i t" if "i \<in> {hp_reused t..<hp_added t}" for i
  proof -
    have "i mod hp_allocated t \<noteq> ?k" using that room by (intro mod_apart) auto
    then show ?thesis by (simp add: entry_address_def Let_def cong: if_cong)
  qed
  have in_cases: "i \<in> {hp_reused t..<hp_added t} \<or> i = hp_added t" if "i \<in> {hp_reused t..<hp_added t + 1}" for i
    using that by auto
  have "\<exists>b < length (hp_heap t). entry_address i ?t = Some b" if "i \<in> {hp_reused t..<hp_added t + 1}" for i
    using in_cases [OF that] slots old [of i] new al by auto
  moreover have "inj_on (\<lambda>i. entry_address i ?t) {hp_reused t..<hp_added t + 1}"
  proof (rule inj_onI)
    fix i j assume ij: "i \<in> {hp_reused t..<hp_added t + 1}" "j \<in> {hp_reused t..<hp_added t + 1}"
      "entry_address i ?t = entry_address j ?t"
    have inj: "inj_on (\<lambda>j. entry_address j t) {hp_reused t..<hp_added t}" using slots by blast
    have free: "entry_address i t \<noteq> Some a" if "i \<in> {hp_reused t..<hp_added t}" for i
      using p(2) that by (simp add: unused_address_def)
    show "i = j"
      using in_cases [OF ij(1)] in_cases [OF ij(2)] ij(3) old new free [of i] free [of j] inj_onD [OF inj, of i j] by auto
  qed
  ultimately have "slots_ok ?t" using slots room by (simp add: slots_ok_def)
  moreover have "entries_at ?t (hp_added t + 1) (p + length (hh_name h) + length (hh_value h)) (h # xs)"
  proof -
    have "rd_entry (hp_added t) ?t = Some (hp_heap t ! a)" using new al by (simp add: rd_entry_def)
    moreover have "entries_at ?t (hp_added t) p xs"
    proof (rule entries_at_cong [OF p(5)])
      fix j assume "j < length xs"
      then have "hp_added t - 1 - j \<in> {hp_deleted t..<hp_added t}" using p(3) by auto
      from old [OF live_slots [OF p(1) this]] show "rd_entry (hp_added t - 1 - j) ?t = rd_entry (hp_added t - 1 - j) t"
        by (rule rd_entry_eq) simp
    qed simp
    ultimately show ?thesis using p(7) by (auto simp: header_at_def)
  qed
  moreover have "hp_added t + 1 - hp_deleted t = length (h # xs)" using p(3) slots by (simp add: Suc_diff_le)
  ultimately have "live_ok ?t (h # xs)" using p(4,6) unfolding live_ok_def by auto
  then show ?thesis using k by (auto simp: entry_push_def)
qed

section \<open>Properties\<close>

lemma live_drop_all: "live_ok t xs \<Longrightarrow> live_ok (t\<lparr>hp_deleted := hp_added t, hp_free := n\<rparr>) []"
  by (auto simp: live_ok_def slots_ok_def inj_on_def)

lemma live_free: "live_ok (t\<lparr>hp_free := n\<rparr>) xs \<longleftrightarrow> live_ok t xs" "live_ok (t\<lparr>hp_size := n\<rparr>) xs \<longleftrightarrow> live_ok t xs"
proof -
  have e: "entries_at (t\<lparr>hp_free := n\<rparr>) c p xs = entries_at t c p xs" "entries_at (t\<lparr>hp_size := n\<rparr>) c p xs = entries_at t c p xs" for c p
    by (induction xs arbitrary: c p) auto
  show "live_ok (t\<lparr>hp_free := n\<rparr>) xs \<longleftrightarrow> live_ok t xs" "live_ok (t\<lparr>hp_size := n\<rparr>) xs \<longleftrightarrow> live_ok t xs"
    by (simp_all add: live_ok_def slots_ok_def e)
qed

lemma table_account_ok:
  assumes "live_ok t xs" "hp_free t + headers_size xs = hp_size t"
  shows "\<exists>t'. (if header_size h \<le> hp_size t then
      ngx_http_v2_table_account (length (hh_name h) + length (hh_value h)) t = Some (NGX_OK, t') \<and>
      live_ok t' (fit (hp_size t - header_size h) xs) \<and>
      hp_free t' + header_size h + headers_size (fit (hp_size t - header_size h) xs) = hp_size t
    else ngx_http_v2_table_account (length (hh_name h) + length (hh_value h)) t = Some (NGX_DECLINED, t') \<and>
      live_ok t' [] \<and> hp_free t' = hp_size t) \<and> hp_size t' = hp_size t \<and> hp_entries t' = hp_entries t"
proof -
  have sz: "length (hh_name h) + length (hh_value h) + 32 = header_size h" by (simp add: header_size_def)
  consider (free) "header_size h \<le> hp_free t" | (declined) "hp_size t < header_size h"
    | (loop) "hp_free t < header_size h" "header_size h \<le> hp_size t" by linarith
  then show ?thesis
  proof cases
    case free
    moreover from this have "fit (hp_size t - header_size h) xs = xs" using assms(2) by (intro fit_all) simp
    ultimately show ?thesis using assms by (auto simp: ngx_http_v2_table_account_def sz live_free)
  next
    case declined
    with assms live_drop_all show ?thesis by (auto simp: ngx_http_v2_table_account_def sz)
  next
    case loop
    have "header_size h \<le> hp_free t + headers_size xs" using loop(2) assms(2) by simp
    from account_loop_ok [OF assms(1) loop(1) this] obtain t' where
      t': "account_loop (header_size h) t = Some t'" "dropped_to (hp_size t - header_size h) xs t t'"
      unfolding assms(2) by blast
    have "header_size h \<le> hp_free t'"
      using t'(2) assms(2) loop(2) fit_size [of "hp_size t - header_size h" xs] unfolding dropped_to_def by linarith
    with t' loop assms(2) show ?thesis
      by (auto simp: ngx_http_v2_table_account_def sz live_free dropped_to_def)
  qed
qed

lemma hpack_setup_ok:
  assumes "hpack_ok t xs" "length fresh = TS"
  defines "limit \<equiv> if hp_entries t = [] then TS else hp_size t"
  shows "hpack_setup palloc fresh t = (False, t') \<Longrightarrow> \<not> (\<forall>n. palloc n)"
    "hpack_setup palloc fresh t = (True, t') \<Longrightarrow> live_ok t' xs \<and> hp_free t' + headers_size xs = limit \<and>
      hp_size t' = limit \<and> hp_entries t' \<noteq> [] \<and> limit \<le> TS"
proof -
  show "hpack_setup palloc fresh t = (False, t') \<Longrightarrow> \<not> (\<forall>n. palloc n)"
    by (auto simp: hpack_setup_def Let_def split: if_splits)
  assume s: "hpack_setup palloc fresh t = (True, t')"
  show "live_ok t' xs \<and> hp_free t' + headers_size xs = limit \<and> hp_size t' = limit \<and> hp_entries t' \<noteq> [] \<and> limit \<le> TS"
  proof (cases "hp_entries t = []")
    case True
    with s assms(1,2) show ?thesis
      by (auto simp: hpack_ok_def hpack_setup_def Let_def limit_def live_ok_def slots_ok_def offset_ok_def table_size_def
        split: if_splits intro: exI [of _ 0])
  next
    case False
    with s assms(1) show ?thesis by (auto simp: hpack_ok_def hpack_setup_def limit_def)
  qed
qed

lemma hpack_add_ok:
  assumes "hpack_ok t xs" "length fresh = 4096"
  shows "\<exists>rc t'. ngx_http_v2_add_header palloc fresh h t = Some (rc, t') \<and> ((\<forall>n. palloc n) \<longrightarrow> rc = NGX_OK) \<and>
    (rc = NGX_OK \<longrightarrow> (let limit = if hp_entries t = [] then 4096 else hp_size t in
       hp_size t' = limit \<and> hpack_ok t' (table_insert limit h xs)))"
proof -
  let ?l = "if hp_entries t = [] then TS else hp_size t"
  obtain ok t1 where s: "hpack_setup palloc fresh t = (ok, t1)" by fastforce
  show ?thesis
  proof (cases ok)
    case False
    with s hpack_setup_ok(1) [OF assms] show ?thesis by (auto simp: ngx_http_v2_add_header_def)
  next
    case True
    with s have s: "hpack_setup palloc fresh t = (True, t1)" by simp
    from hpack_setup_ok(2) [OF assms s] have 1: "live_ok t1 xs" "hp_free t1 + headers_size xs = hp_size t1" "hp_size t1 = ?l"
      "hp_entries t1 \<noteq> []" "?l \<le> TS" by auto
    note add = ngx_http_v2_add_header_def [of palloc fresh h t, unfolded s prod.case, simplified]
    show ?thesis
    proof (cases "header_size h \<le> ?l")
      case False
      with table_account_ok [OF 1(1,2), of h] 1(3) obtain t2 where
        "ngx_http_v2_table_account (length (hh_name h) + length (hh_value h)) t1 = Some (NGX_DECLINED, t2)"
        "live_ok t2 []" "hp_free t2 = ?l" "hp_size t2 = ?l" "hp_entries t2 = hp_entries t1" by auto
      with False 1(4,5) show ?thesis
        by (intro exI [of _ NGX_OK] exI [of _ t2]) (simp add: add table_insert_def hpack_ok_def)
    next
      case fits: True
      with table_account_ok [OF 1(1,2), of h] 1(3) obtain t2 where
        2: "ngx_http_v2_table_account (length (hh_name h) + length (hh_value h)) t1 = Some (NGX_OK, t2)"
          "live_ok t2 (fit (?l - header_size h) xs)" "hp_free t2 + header_size h + headers_size (fit (?l - header_size h) xs) = ?l"
          "hp_size t2 = ?l" "hp_entries t2 = hp_entries t1" by auto
      let ?xs = "fit (?l - header_size h) xs"
      have ins: "table_insert ?l h xs = h # ?xs" using fits by (simp add: table_insert_def)
      consider (none) "entry_alloc palloc t2 = Some (None, t2)" "\<not> palloc 32"
        | (some) a t3 where "entry_alloc palloc t2 = Some (Some a, t3)" "live_ok t3 ?xs" "unused_address a t3"
          "hp_free t3 = hp_free t2" "hp_size t3 = hp_size t2" "hp_entries t3 = hp_entries t2"
          "length ?xs < hp_allocated t3 \<longrightarrow> hp_added t3 < hp_reused t3 + hp_allocated t3"
          "length ?xs = hp_allocated t3 \<longrightarrow> hp_reused t3 = hp_deleted t3"
        using entry_alloc_ok [OF 2(2), of palloc] by blast
      then show ?thesis
      proof cases
        case none
        then show ?thesis by (auto simp: add 2(1))
      next
        case some
        have "header_size h + headers_size ?xs \<le> TS" using 2(3) 1(5) by linarith
        from store_ready [OF some(2,3) this] obtain t4 where
          4: "entry_store a h t3 = Some t4" "ready a h ?xs t4" "hp_free t4 = hp_free t3" "hp_size t4 = hp_size t3"
            "hp_entries t4 = hp_entries t3" "hp_allocated t4 = hp_allocated t3" "hp_added t4 = hp_added t3"
            "hp_deleted t4 = hp_deleted t3" "hp_reused t4 = hp_reused t3" by blast
        have live: "hp_added t4 - hp_deleted t4 = length ?xs" using 4(2) by (auto simp: ready_def)
        have fin: "hpack_ok t5 (table_insert ?l h xs) \<and> hp_size t5 = ?l"
          if "live_ok t5 (h # ?xs)" "hp_free t5 = hp_free t4" "hp_size t5 = hp_size t4" "hp_entries t5 \<noteq> []" for t5
          using that 4(3,4) some(4,5) 2(3,4) 1(5) unfolding ins hpack_ok_def by simp
        show ?thesis
        proof (cases "hp_allocated t4 = hp_added t4 - hp_deleted t4")
          case True
          then have r: "hp_reused t4 = hp_deleted t4" using live some(8) 4(6-9) by simp
          have "hp_added (entries_grow t4) < hp_reused (entries_grow t4) + hp_allocated (entries_grow t4)"
            by (simp add: entries_grow_def Let_def)
          from push_ready [OF grow_ready [OF 4(2) True r] this] obtain t5 where
            5: "entry_push a (entries_grow t4) = Some t5" "live_ok t5 (h # ?xs)" "hp_free t5 = hp_free (entries_grow t4)"
              "hp_size t5 = hp_size (entries_grow t4)" "hp_entries t5 \<noteq> []" by blast
          from 5(3,4) have "hp_free t5 = hp_free t4" "hp_size t5 = hp_size t4" by (simp_all add: entries_grow_def Let_def)
          from fin [OF 5(2) this 5(5)] True 5(1) show ?thesis
            by (cases "palloc (8 * (hp_allocated t4 + 64))") (auto simp: add 2(1) some(1) 4(1))
        next
          case False
          have "hp_reused t4 \<le> hp_deleted t4" "hp_added t4 \<le> hp_reused t4 + hp_allocated t4"
            using 4(2) by (auto simp: ready_def slots_ok_def)
          then have "length ?xs < hp_allocated t4" using False live by linarith
          then have "hp_added t4 < hp_reused t4 + hp_allocated t4" using some(7) 4(6-9) by simp
          from push_ready [OF 4(2) this] obtain t5 where
            5: "entry_push a t4 = Some t5" "live_ok t5 (h # ?xs)" "hp_free t5 = hp_free t4" "hp_size t5 = hp_size t4"
              "hp_entries t5 \<noteq> []" by blast
          from fin [OF 5(2-5)] False 5(1) show ?thesis by (auto simp: add 2(1) some(1) 4(1))
        qed
      qed
    qed
  qed
qed

text \<open>C16. \<open>ngx_http_v2_add_header\<close> puts a header in front of the dynamic table and drops the oldest ones
  until the sizes fit the limit; a header that is larger than the limit only empties the table.
  Nothing outside the storage, the array and the structures is touched, the loop that drops headers
  ends, and the bytes of the headers that stay are never overwritten. The first header sets the limit
  to 4096, whatever the client has asked for.\<close>

theorem hpack_add_refines:
  assumes "hpack_ok t xs" "length fresh = 4096"
  shows "\<exists>rc t'. ngx_http_v2_add_header palloc fresh h t = Some (rc, t') \<and> ((\<forall>n. palloc n) \<longrightarrow> rc = NGX_OK) \<and>
    (rc = NGX_OK \<longrightarrow> (let limit = if hp_entries t = [] then 4096 else hp_size t in
       hp_size t' = limit \<and> hpack_ok t' (table_insert limit h xs)))"
  by (rule hpack_add_ok [OF assms])

text \<open>C28. \<open>ngx_http_v2_table_size\<close> sets the limit of the dynamic table and drops the oldest headers
  until the rest fits; a limit above 4096 is refused.\<close>

theorem hpack_size_refines:
  assumes "hpack_ok t xs"
  shows "if sz \<le> 4096 then \<exists>t'. ngx_http_v2_table_size sz t = Some (NGX_OK, t') \<and> hp_size t' = sz \<and> hpack_ok t' (fit sz xs)
    else ngx_http_v2_table_size sz t = Some (NGX_ERROR, t)"
proof (cases "sz \<le> 4096")
  case False
  then show ?thesis by (simp add: ngx_http_v2_table_size_def table_size_def)
next
  case True
  let ?n = "int (hp_size t) - int sz"
  have sum: "hp_free t + headers_size xs = hp_size t" using assms by (simp add: hpack_ok_def)
  show ?thesis
  proof (cases "hp_entries t = []")
    case nil: True
    then have t: "xs = []" "hp_free t = hp_size t" "hp_added t = 0" "hp_deleted t = 0" "hp_reused t = 0"
      using assms by (auto simp: hpack_ok_def)
    have "size_loop ?n t = Some t" by (subst size_loop.simps) (simp add: t(2))
    then show ?thesis using True nil t by (auto simp: ngx_http_v2_table_size_def table_size_def hpack_ok_def)
  next
    case False
    then have live: "live_ok t xs" using assms by (simp add: hpack_ok_def)
    have "?n \<le> int (hp_free t + headers_size xs)" using sum by linarith
    from size_loop_ok [OF live this] obtain t' where
      t': "size_loop ?n t = Some t'" "live_ok t' (fit sz xs)" "hp_entries t' = hp_entries t"
        "hp_free t' + headers_size (fit sz xs) = hp_size t"
      unfolding sum dropped_to_def by auto
    have "nat (int (hp_free t') - ?n) + headers_size (fit sz xs) = sz"
      using t'(4) fit_size [of sz xs] by linarith
    then show ?thesis using True False t'
      by (auto simp: ngx_http_v2_table_size_def table_size_def hpack_ok_def live_free)
  qed
qed

text \<open>C27. \<open>ngx_http_v2_get_indexed_header\<close>: the indices 1 to 61 are those of the static table, the
  following ones count the headers of the dynamic table from the newest on, and all others are
  errors. Only the name is set if only the name is asked for, from the dynamic table.\<close>

theorem hpack_get_refines:
  assumes "hpack_ok t xs" "\<And>n. palloc n"
  shows "ngx_http_v2_get_indexed_header palloc index name_only h t = Some
    (if index = 0 \<or> 61 + length xs < index then (NGX_ERROR, h)
     else if index \<le> 61 then (NGX_OK, ngx_http_v2_static_table ! (index - 1))
     else (NGX_OK, if name_only then h\<lparr>hh_name := hh_name (xs ! (index - 62))\<rparr> else xs ! (index - 62)))"
proof -
  have static: "NGX_HTTP_V2_STATIC_TABLE_ENTRIES = 61"
    by (simp add: NGX_HTTP_V2_STATIC_TABLE_ENTRIES_def ngx_http_v2_static_table_def)
  have len: "hp_added t - hp_deleted t = length xs"
    using assms(1) by (auto simp: hpack_ok_def live_ok_def split: if_splits)
  consider "index = 0 \<or> 61 + length xs < index" | "0 < index" "index \<le> 61" | "61 < index" "index \<le> 61 + length xs" by linarith
  then show ?thesis
  proof cases
    case 1
    then show ?thesis by (auto simp: ngx_http_v2_get_indexed_header_def static len Let_def)
  next
    case 2
    then show ?thesis by (simp add: ngx_http_v2_get_indexed_header_def static Let_def)
  next
    case 3
    define j where "j = index - 62"
    have j: "j < length xs" "index - 1 - 61 = j" "index \<noteq> 0" "\<not> index - 1 < 61" using 3 by (auto simp: j_def)
    then have "live_ok t xs" "headers_size xs \<le> TS" using assms(1) by (auto simp: hpack_ok_def split: if_splits)
    then obtain p where "entries_at t (hp_added t) p xs" "length (hp_storage t) = TS" by (auto simp: live_ok_def)
    from entries_at_nth [OF this \<open>headers_size xs \<le> TS\<close> j(1)] obtain e where
      e: "rd_entry (hp_added t - j - 1) t = Some e"
        "hpack_read t (he_name_data e) (he_name_len e) = Some (hh_name (xs ! j))"
        "hpack_read t (he_value_data e) (he_value_len e) = Some (hh_value (xs ! j))"
      by (auto simp: diff_right_commute)
    have "ngx_http_v2_get_indexed_header palloc index name_only h t =
        Some (NGX_OK, if name_only then h\<lparr>hh_name := hh_name (xs ! j)\<rparr> else xs ! j)"
      using j e assms(2) by (simp add: ngx_http_v2_get_indexed_header_def static Let_def len)
    then show ?thesis using 3 by (simp add: j_def)
  qed
qed

section \<open>Witnesses\<close>

definition empty_hpack :: ngx_http_v2_hpack where
  "empty_hpack = \<lparr>hp_entries = [], hp_added = 0, hp_deleted = 0, hp_reused = 0, hp_allocated = 0, hp_size = 0,
     hp_free = 0, hp_storage = [], hp_pos = 0, hp_heap = []\<rparr>"

lemma empty_hpack_ok: "hpack_ok empty_hpack []"
  by (simp add: hpack_ok_def empty_hpack_def)

text \<open>A table that holds the header of the first example of HPACK.\<close>

definition custom_header :: ngx_http_v2_header where
  "custom_header = static_header ''custom-key'' ''custom-header''"

lemma custom_header_size: "header_size custom_header = 55"
  by (simp add: custom_header_def static_header_def header_size_def bytes_def)

lemma sample_hpack: "\<exists>t. hpack_ok t [custom_header] \<and> hp_size t = 4096"
proof -
  obtain t where "hpack_ok t (table_insert 4096 custom_header [])" "hp_size t = 4096"
    using hpack_add_ok [OF empty_hpack_ok, of "replicate 4096 0" "\<lambda>_. True" custom_header] by (auto simp: empty_hpack_def)
  then show ?thesis by (auto simp: table_insert_def custom_header_size)
qed

theorem hpack_add_refines_witness:
  "\<exists>t'. ngx_http_v2_add_header (\<lambda>_. True) (replicate 4096 0) custom_header empty_hpack = Some (NGX_OK, t') \<and>
     hpack_ok t' [custom_header]"
  using hpack_add_refines [OF empty_hpack_ok, of "replicate 4096 0" "\<lambda>_. True" custom_header]
  by (auto simp: empty_hpack_def table_insert_def custom_header_size)

theorem hpack_size_refines_witness:
  "\<exists>t t'. hpack_ok t [custom_header] \<and> ngx_http_v2_table_size 54 t = Some (NGX_OK, t') \<and> hpack_ok t' []"
proof -
  obtain t where t: "hpack_ok t [custom_header]" using sample_hpack by blast
  from hpack_size_refines [OF t, of 54] t show ?thesis by (auto simp: custom_header_size)
qed

theorem hpack_get_refines_witness:
  "\<exists>t. hpack_ok t [custom_header] \<and>
     ngx_http_v2_get_indexed_header (\<lambda>_. True) 62 False (static_header [] []) t = Some (NGX_OK, custom_header)"
proof -
  obtain t where t: "hpack_ok t [custom_header]" using sample_hpack by blast
  from hpack_get_refines [OF t, of "\<lambda>_. True" 62 False "static_header [] []"] t show ?thesis by auto
qed

end
