(* ===== verification/Ngx_Queue.thy ===== *)
theory Ngx_Queue
  imports Ngx_Prelude "HOL-Library.Monad_Syntax" "HOL-Library.Multiset"
begin

text \<open>
  The intrusive doubly linked queues of \<open>src/core/ngx_queue.h\<close> and \<open>src/core/ngx_queue.c\<close>.

  Memory is a partial map from addresses to queue links; an operation on an address that holds
  none is \<open>None\<close>. A queue with head \<open>h\<close> represents the list of the addresses of its elements:
  \<open>queue s h xs\<close> says that the ring of \<open>next\<close> pointers from \<open>h\<close> runs through \<open>xs\<close> back to \<open>h\<close>,
  and the \<open>prev\<close> pointers run through it backwards. The operations are shown to refine the
  operations on that list. \<open>NGX_DEBUG\<close> is not defined.
\<close>

section \<open>The operations\<close>

record ngx_queue =
  q_prev :: nat
  q_next :: nat

type_synonym queue_store = "nat \<rightharpoonup> ngx_queue"

definition ngx_queue_next :: "nat \<Rightarrow> queue_store \<Rightarrow> nat option" where
  "ngx_queue_next q s = map_option q_next (s q)"

definition ngx_queue_prev :: "nat \<Rightarrow> queue_store \<Rightarrow> nat option" where
  "ngx_queue_prev q s = map_option q_prev (s q)"

definition ngx_queue_head :: "nat \<Rightarrow> queue_store \<Rightarrow> nat option" where
  "ngx_queue_head h s = map_option q_next (s h)"

definition ngx_queue_last :: "nat \<Rightarrow> queue_store \<Rightarrow> nat option" where
  "ngx_queue_last h s = map_option q_prev (s h)"

text \<open>\<open>(q)->next = v\<close> and \<open>(q)->prev = v\<close>\<close>

definition set_next :: "nat \<Rightarrow> nat \<Rightarrow> queue_store \<Rightarrow> queue_store option" where
  "set_next q v s = map_option (\<lambda>n. s(q \<mapsto> n\<lparr>q_next := v\<rparr>)) (s q)"

definition set_prev :: "nat \<Rightarrow> nat \<Rightarrow> queue_store \<Rightarrow> queue_store option" where
  "set_prev q v s = map_option (\<lambda>n. s(q \<mapsto> n\<lparr>q_prev := v\<rparr>)) (s q)"

definition ngx_queue_init :: "nat \<Rightarrow> queue_store \<Rightarrow> queue_store option" where
  "ngx_queue_init q s = do { s \<leftarrow> set_prev q q s; set_next q q s }"

definition ngx_queue_empty :: "nat \<Rightarrow> queue_store \<Rightarrow> bool option" where
  "ngx_queue_empty h s = do { p \<leftarrow> ngx_queue_prev h s; Some (h = p) }"

definition ngx_queue_insert_head :: "nat \<Rightarrow> nat \<Rightarrow> queue_store \<Rightarrow> queue_store option" where
  "ngx_queue_insert_head h x s =
     do {
       n \<leftarrow> ngx_queue_next h s;
       s \<leftarrow> set_next x n s;
       n \<leftarrow> ngx_queue_next x s;
       s \<leftarrow> set_prev n x s;
       s \<leftarrow> set_prev x h s;
       set_next h x s
     }"

definition ngx_queue_insert_tail :: "nat \<Rightarrow> nat \<Rightarrow> queue_store \<Rightarrow> queue_store option" where
  "ngx_queue_insert_tail h x s =
     do {
       p \<leftarrow> ngx_queue_prev h s;
       s \<leftarrow> set_prev x p s;
       p \<leftarrow> ngx_queue_prev x s;
       s \<leftarrow> set_next p x s;
       s \<leftarrow> set_next x h s;
       set_prev h x s
     }"

definition ngx_queue_remove :: "nat \<Rightarrow> queue_store \<Rightarrow> queue_store option" where
  "ngx_queue_remove x s =
     do {
       n \<leftarrow> ngx_queue_next x s;
       p \<leftarrow> ngx_queue_prev x s;
       s \<leftarrow> set_prev n p s;
       p \<leftarrow> ngx_queue_prev x s;
       n \<leftarrow> ngx_queue_next x s;
       set_next p n s
     }"

definition ngx_queue_split :: "nat \<Rightarrow> nat \<Rightarrow> nat \<Rightarrow> queue_store \<Rightarrow> queue_store option" where
  "ngx_queue_split h q n s =
     do {
       p \<leftarrow> ngx_queue_prev h s;
       s \<leftarrow> set_prev n p s;
       p \<leftarrow> ngx_queue_prev n s;
       s \<leftarrow> set_next p n s;
       s \<leftarrow> set_next n q s;
       p \<leftarrow> ngx_queue_prev q s;
       s \<leftarrow> set_prev h p s;
       p \<leftarrow> ngx_queue_prev h s;
       s \<leftarrow> set_next p h s;
       set_prev q n s
     }"

definition ngx_queue_add :: "nat \<Rightarrow> nat \<Rightarrow> queue_store \<Rightarrow> queue_store option" where
  "ngx_queue_add h n s =
     do {
       p \<leftarrow> ngx_queue_prev h s;
       x \<leftarrow> ngx_queue_next n s;
       s \<leftarrow> set_next p x s;
       x \<leftarrow> ngx_queue_next n s;
       p \<leftarrow> ngx_queue_prev h s;
       s \<leftarrow> set_prev x p s;
       p \<leftarrow> ngx_queue_prev n s;
       s \<leftarrow> set_prev h p s;
       p \<leftarrow> ngx_queue_prev h s;
       set_next p h s
     }"

partial_function (option) middle_loop :: "nat \<Rightarrow> queue_store \<Rightarrow> nat \<Rightarrow> nat \<Rightarrow> nat option" where
  "middle_loop queue s middle next =
     do {
       middle \<leftarrow> ngx_queue_next middle s;
       next \<leftarrow> ngx_queue_next next s;
       l \<leftarrow> ngx_queue_last queue s;
       if next = l then Some middle
       else do {
         next \<leftarrow> ngx_queue_next next s;
         if next = l then Some middle else middle_loop queue s middle next
       }
     }"

definition ngx_queue_middle :: "nat \<Rightarrow> queue_store \<Rightarrow> nat option" where
  "ngx_queue_middle queue s =
     do {
       middle \<leftarrow> ngx_queue_head queue s;
       l \<leftarrow> ngx_queue_last queue s;
       if middle = l then Some middle
       else do {
         next \<leftarrow> ngx_queue_head queue s;
         middle_loop queue s middle next
       }
     }"

text \<open>The loop \<open>do ... while (prev != ngx_queue_sentinel(queue))\<close>: where to insert \<open>q\<close>.\<close>

partial_function (option) sort_place ::
  "(nat \<Rightarrow> nat \<Rightarrow> int) \<Rightarrow> nat \<Rightarrow> queue_store \<Rightarrow> nat \<Rightarrow> nat \<Rightarrow> nat option"
where
  "sort_place cmp queue s q prev =
     (if cmp prev q \<le> 0 then Some prev
      else do {
        prev \<leftarrow> ngx_queue_prev prev s;
        if prev \<noteq> queue then sort_place cmp queue s q prev else Some prev
      })"

partial_function (option) sort_loop ::
  "(nat \<Rightarrow> nat \<Rightarrow> int) \<Rightarrow> nat \<Rightarrow> nat \<Rightarrow> queue_store \<Rightarrow> queue_store option"
where
  "sort_loop cmp queue q s =
     (if q \<noteq> queue then do {
        prev \<leftarrow> ngx_queue_prev q s;
        next \<leftarrow> ngx_queue_next q s;
        s \<leftarrow> ngx_queue_remove q s;
        prev \<leftarrow> sort_place cmp queue s q prev;
        s \<leftarrow> ngx_queue_insert_head prev q s;
        sort_loop cmp queue next s
      }
      else Some s)"

definition ngx_queue_sort :: "(nat \<Rightarrow> nat \<Rightarrow> int) \<Rightarrow> nat \<Rightarrow> queue_store \<Rightarrow> queue_store option" where
  "ngx_queue_sort cmp queue s =
     do {
       q \<leftarrow> ngx_queue_head queue s;
       l \<leftarrow> ngx_queue_last queue s;
       if q = l then Some s
       else do {
         q \<leftarrow> ngx_queue_next q s;
         sort_loop cmp queue q s
       }
     }"


section \<open>The represented list\<close>

text \<open>The two pointer maps of a store.\<close>

definition nx :: "queue_store \<Rightarrow> nat \<rightharpoonup> nat" where "nx s q = map_option q_next (s q)"

definition pv :: "queue_store \<Rightarrow> nat \<rightharpoonup> nat" where "pv s q = map_option q_prev (s q)"

text \<open>\<open>dll n p a xs b\<close>: from \<open>a\<close> the pointers lead through \<open>xs\<close> to \<open>b\<close> and back.\<close>

fun dll :: "(nat \<rightharpoonup> nat) \<Rightarrow> (nat \<rightharpoonup> nat) \<Rightarrow> nat \<Rightarrow> nat list \<Rightarrow> nat \<Rightarrow> bool" where
  "dll n p a [] b \<longleftrightarrow> n a = Some b \<and> p b = Some a"
| "dll n p a (x # xs) b \<longleftrightarrow> n a = Some x \<and> p x = Some a \<and> dll n p x xs b"

definition queue :: "queue_store \<Rightarrow> nat \<Rightarrow> nat list \<Rightarrow> bool" where
  "queue s h xs \<longleftrightarrow> distinct (h # xs) \<and> dll (nx s) (pv s) h xs h"

text \<open>An operation that succeeds and leaves the memory outside \<open>A\<close> as it was.\<close>

definition frame :: "nat set \<Rightarrow> queue_store \<Rightarrow> queue_store \<Rightarrow> bool" where
  "frame A s s' \<longleftrightarrow> dom s' = dom s \<and> (\<forall>a. a \<notin> A \<longrightarrow> s' a = s a)"

lemma frame_refl [simp]: "frame A s s"
  by (simp add: frame_def)

lemma frame_Un: "frame A s s' \<Longrightarrow> frame B s' s'' \<Longrightarrow> frame (A \<union> B) s s''"
  by (simp add: frame_def)

lemma frame_mono: "frame A s s' \<Longrightarrow> A \<subseteq> B \<Longrightarrow> frame B s s'"
  by (auto simp: frame_def)

text \<open>The assignments, as updates of the pointer maps.\<close>

lemma set_next_nx:
  "q \<in> dom s \<Longrightarrow> \<exists>s'. set_next q v s = Some s' \<and> nx s' = (nx s)(q \<mapsto> v) \<and> pv s' = pv s \<and> frame {q} s s'"
  by (rule exI [of _ "s(q \<mapsto> the (s q)\<lparr>q_next := v\<rparr>)"])
    (auto simp: set_next_def nx_def pv_def frame_def)

lemma set_prev_pv:
  "q \<in> dom s \<Longrightarrow> \<exists>s'. set_prev q v s = Some s' \<and> pv s' = (pv s)(q \<mapsto> v) \<and> nx s' = nx s \<and> frame {q} s s'"
  by (rule exI [of _ "s(q \<mapsto> the (s q)\<lparr>q_prev := v\<rparr>)"])
    (auto simp: set_prev_def nx_def pv_def frame_def)

lemma nx_dom [simp]: "dom (nx s) = dom s"
  by (auto simp: nx_def)

lemma pv_dom [simp]: "dom (pv s) = dom s"
  by (auto simp: pv_def)

lemmas queue_reads = nx_def [symmetric] pv_def [symmetric]

lemma queue_next_nx: "ngx_queue_next q s = nx s q" "ngx_queue_head q s = nx s q"
  and queue_prev_pv: "ngx_queue_prev q s = pv s q" "ngx_queue_last q s = pv s q"
  by (simp_all add: ngx_queue_next_def ngx_queue_head_def ngx_queue_prev_def ngx_queue_last_def nx_def pv_def)

subsection \<open>Segments\<close>

lemma dll_append: "dll n p a (xs @ y # ys) b \<longleftrightarrow> dll n p a xs y \<and> dll n p y ys b"
  by (induction xs arbitrary: a) auto

lemma dll_upd [simp]:
  "q \<notin> set (a # xs) \<Longrightarrow> dll (n(q := v)) p a xs b = dll n p a xs b"
  "q \<notin> set (b # xs) \<Longrightarrow> dll n (p(q := v)) a xs b = dll n p a xs b"
  by (induction xs arbitrary: a) auto

lemma dll_first: "dll n p a xs b \<Longrightarrow> n a = Some (hd (xs @ [b]))"
  by (cases xs) auto

lemma dll_last: "dll n p a xs b \<Longrightarrow> p b = Some (last (a # xs))"
  by (induction xs arbitrary: a) auto

lemma dll_dom: "dll n p a xs b \<Longrightarrow> set (a # xs) \<subseteq> dom n \<and> set (xs @ [b]) \<subseteq> dom p"
  by (induction xs arbitrary: a) auto

text \<open>Linking a new cell behind the last cell of \<open>us\<close>, and unlinking one.\<close>

lemma dll_insert:
  assumes "dll n p a (us @ vs) b" "distinct (us @ vs)" "a \<notin> set (us @ vs)" "b \<notin> set (us @ vs)"
    and "q \<notin> set (a # b # us @ vs)" "x = last (a # us)" "y = hd (vs @ [b])"
  shows "dll (n(q \<mapsto> y, x \<mapsto> q)) (p(y \<mapsto> q, q \<mapsto> x)) a (us @ q # vs) b"
  using assms
proof (induction us arbitrary: a)
  case Nil
  show ?case
  proof (cases vs)
    case (Cons v vs')
    from Nil.prems have "x = a" "y = v" "v \<noteq> a" "v \<noteq> b" "q \<noteq> a" "q \<noteq> b" "q \<noteq> v" "v \<notin> set vs'" "a \<notin> set vs'"
      "q \<notin> set vs'" "p v = Some a" "dll n p v vs' b"
      by (auto simp: Cons)
    then show ?thesis
      unfolding Cons by (simp del: fun_upd_apply add: fun_upd_same fun_upd_other)
  qed (use Nil.prems in simp)
next
  case (Cons u us)
  have "x \<in> set (u # us)" using Cons.prems(6) by (simp add: last_in_set del: last.simps) auto
  moreover have "y \<in> set (b # vs)" using Cons.prems(7) by (cases vs) auto
  ultimately show ?case
    using Cons.IH [of u] Cons.prems by auto
qed

lemma dll_remove:
  assumes "dll n p a (us @ q # vs) b" "distinct (us @ q # vs)" "a \<notin> set (us @ q # vs)" "b \<notin> set (us @ q # vs)"
    and "x = last (a # us)" "y = hd (vs @ [b])"
  shows "n q = Some y \<and> p q = Some x \<and> dll (n(x \<mapsto> y)) (p(y \<mapsto> x)) a (us @ vs) b"
  using assms
proof (induction us arbitrary: a)
  case Nil
  show ?case
  proof (cases vs)
    case (Cons v vs')
    from Nil.prems have "x = a" "y = v" "v \<noteq> a" "v \<noteq> b" "q \<noteq> a" "q \<noteq> b" "q \<noteq> v" "v \<notin> set vs'" "a \<notin> set vs'"
      "n q = Some v" "p q = Some a" "dll n p v vs' b"
      by (auto simp: Cons)
    then show ?thesis
      unfolding Cons by (simp del: fun_upd_apply add: fun_upd_same fun_upd_other)
  qed (use Nil.prems in simp)
next
  case (Cons u us)
  have "x \<in> set (u # us)" using Cons.prems(5) by (simp add: last_in_set del: last.simps) auto
  moreover have "y \<in> set (b # vs)" using Cons.prems(6) by (cases vs) auto
  ultimately show ?case
    using Cons.IH [of u] Cons.prems by auto
qed


section \<open>The operations on the represented list\<close>

text \<open>A cell outside the queue.\<close>

definition fresh :: "queue_store \<Rightarrow> nat \<Rightarrow> nat list \<Rightarrow> nat \<Rightarrow> bool" where
  "fresh s h xs x \<longleftrightarrow> x \<in> dom s \<and> x \<notin> set (h # xs)"

lemma queue_dom: "queue s h xs \<Longrightarrow> set (h # xs) \<subseteq> dom s"
  using dll_dom [of "nx s" "pv s" h xs h] by (auto simp: queue_def)

lemma bind_Some: "m = Some a \<Longrightarrow> m \<bind> f = f a"
  by simp

text \<open>Inserting behind an arbitrary element, or behind the head itself.\<close>

lemma insert_after:
  assumes "queue s h (us @ vs)" "fresh s h (us @ vs) q" "x = last (h # us)"
  shows "\<exists>s'. ngx_queue_insert_head x q s = Some s' \<and> queue s' h (us @ q # vs) \<and> frame (set (q # h # us @ vs)) s s'"
proof -
  define y where "y = hd (vs @ [h])"
  have D: "distinct (us @ vs)" "h \<notin> set (us @ vs)" "dll (nx s) (pv s) h (us @ vs) h" "q \<in> dom s" "q \<notin> set (h # us @ vs)"
    using assms(1,2) by (auto simp: queue_def fresh_def)
  have X: "x \<in> set (h # us)" and Y: "y \<in> set (h # vs)"
    using assms(3) last_in_set [of "h # us"] by (simp, cases vs, auto simp: y_def)
  have XY: "x \<in> dom s" "y \<in> dom s" "x \<noteq> q" "y \<noteq> q"
    using X Y D(5) queue_dom [OF assms(1)] by auto
  have nx: "nx s x = Some y"
  proof (cases us rule: rev_cases)
    case Nil
    then show ?thesis using dll_first [OF D(3)] assms(3) by (simp add: y_def)
  next
    case (snoc us' u)
    then show ?thesis using D(3) dll_first [of "nx s" "pv s" u vs h] assms(3) by (simp add: dll_append y_def)
  qed
  obtain s1 where s1: "set_next q y s = Some s1" "nx s1 = (nx s)(q \<mapsto> y)" "pv s1 = pv s" "frame {q} s s1"
    using set_next_nx [OF D(4)] by blast
  obtain s2 where s2: "set_prev y q s1 = Some s2" "pv s2 = (pv s1)(y \<mapsto> q)" "nx s2 = nx s1" "frame {y} s1 s2"
    using set_prev_pv [of y s1 q] XY s1(4) by (auto simp: frame_def)
  obtain s3 where s3: "set_prev q x s2 = Some s3" "pv s3 = (pv s2)(q \<mapsto> x)" "nx s3 = nx s2" "frame {q} s2 s3"
    using set_prev_pv [of q s2 x] D(4) s1(4) s2(4) by (auto simp: frame_def)
  obtain s4 where s4: "set_next x q s3 = Some s4" "nx s4 = (nx s3)(x \<mapsto> q)" "pv s4 = pv s3" "frame {x} s3 s4"
    using set_next_nx [of x s3 q] XY s1(4) s2(4) s3(4) by (auto simp: frame_def)
  have "ngx_queue_insert_head x q s = Some s4"
    using nx s1(1,2) s2(1) s3(1) s4(1) by (simp add: ngx_queue_insert_head_def queue_next_nx)
  moreover have "dll (nx s4) (pv s4) h (us @ q # vs) h"
    unfolding s4(2,3) s3(2,3) s2(2,3) s1(2,3) by (rule dll_insert [OF D(3,1,2,2) _ assms(3) y_def]) (use D(5) in auto)
  then have "queue s4 h (us @ q # vs)"
    using D by (auto simp: queue_def)
  moreover have "frame (set (q # h # us @ vs)) s s4"
    using X Y by (intro frame_mono [OF frame_Un [OF frame_Un [OF frame_Un [OF s1(4) s2(4)] s3(4)] s4(4)]]) auto
  ultimately show ?thesis by blast
qed


lemma insert_tail:
  assumes "queue s h xs" "fresh s h xs q"
  shows "\<exists>s'. ngx_queue_insert_tail h q s = Some s' \<and> queue s' h (xs @ [q]) \<and> frame (set (q # h # xs)) s s'"
proof -
  define x where "x = last (h # xs)"
  have D: "distinct xs" "h \<notin> set xs" "dll (nx s) (pv s) h xs h" "q \<in> dom s" "q \<notin> set (h # xs)"
    using assms by (auto simp: queue_def fresh_def)
  have X: "x \<in> set (h # xs)"
    unfolding x_def by (rule last_in_set) simp
  have XY: "x \<in> dom s" "h \<in> dom s" "x \<noteq> q" "h \<noteq> q"
    using X D(5) queue_dom [OF assms(1)] by auto
  have pv: "pv s h = Some x"
    using dll_last [OF D(3)] by (simp add: x_def)
  obtain s1 where s1: "set_prev q x s = Some s1" "pv s1 = (pv s)(q \<mapsto> x)" "nx s1 = nx s" "frame {q} s s1"
    using set_prev_pv [OF D(4)] by blast
  obtain s2 where s2: "set_next x q s1 = Some s2" "nx s2 = (nx s1)(x \<mapsto> q)" "pv s2 = pv s1" "frame {x} s1 s2"
    using set_next_nx [of x s1 q] XY s1(4) by (auto simp: frame_def)
  obtain s3 where s3: "set_next q h s2 = Some s3" "nx s3 = (nx s2)(q \<mapsto> h)" "pv s3 = pv s2" "frame {q} s2 s3"
    using set_next_nx [of q s2 h] D(4) s1(4) s2(4) by (auto simp: frame_def)
  obtain s4 where s4: "set_prev h q s3 = Some s4" "pv s4 = (pv s3)(h \<mapsto> q)" "nx s4 = nx s3" "frame {h} s3 s4"
    using set_prev_pv [of h s3 q] XY s1(4) s2(4) s3(4) by (auto simp: frame_def)
  have "ngx_queue_insert_tail h q s = Some s4"
    using pv s1(1,2) s2(1) s3(1) s4(1) by (simp add: ngx_queue_insert_tail_def queue_prev_pv)
  moreover have "dll (nx s4) (pv s4) h (xs @ [q]) h"
  proof -
    have "dll ((nx s)(q \<mapsto> h, x \<mapsto> q)) ((pv s)(h \<mapsto> q, q \<mapsto> x)) h (xs @ [q]) h"
      using dll_insert [of "nx s" "pv s" h xs "[]" h q x h] D x_def by simp
    moreover have "nx s4 = (nx s)(q \<mapsto> h, x \<mapsto> q)" "pv s4 = (pv s)(h \<mapsto> q, q \<mapsto> x)"
      unfolding s4(2,3) s3(2,3) s2(2,3) s1(2,3) using XY(3,4) by (simp_all add: fun_upd_twist)
    ultimately show ?thesis by simp
  qed
  then have "queue s4 h (xs @ [q])"
    using D by (auto simp: queue_def)
  moreover have "frame (set (q # h # xs)) s s4"
    using X by (intro frame_mono [OF frame_Un [OF frame_Un [OF frame_Un [OF s1(4) s2(4)] s3(4)] s4(4)]]) auto
  ultimately show ?thesis by blast
qed

lemma remove_element:
  assumes "queue s h (us @ q # vs)"
  shows "\<exists>s'. ngx_queue_remove q s = Some s' \<and> queue s' h (us @ vs) \<and> fresh s' h (us @ vs) q \<and>
    frame (set (h # us @ vs)) s s'"
proof -
  define x where "x = last (h # us)"
  define y where "y = hd (vs @ [h])"
  have D: "distinct (us @ q # vs)" "h \<notin> set (us @ q # vs)" "dll (nx s) (pv s) h (us @ q # vs) h"
    using assms by (auto simp: queue_def)
  have X: "x \<in> set (h # us)" and Y: "y \<in> set (h # vs)"
    unfolding x_def by (rule last_in_set, simp, cases vs, auto simp: y_def)
  have XY: "x \<in> dom s" "y \<in> dom s" "q \<in> dom s" "x \<noteq> q" "y \<noteq> q"
    using X Y D queue_dom [OF assms(1)] by auto
  have R: "nx s q = Some y" "pv s q = Some x" "dll ((nx s)(x \<mapsto> y)) ((pv s)(y \<mapsto> x)) h (us @ vs) h"
    using dll_remove [OF D(3,1,2,2) x_def y_def] by simp_all
  obtain s1 where s1: "set_prev y x s = Some s1" "pv s1 = (pv s)(y \<mapsto> x)" "nx s1 = nx s" "frame {y} s s1"
    using set_prev_pv [OF XY(2)] by blast
  obtain s2 where s2: "set_next x y s1 = Some s2" "nx s2 = (nx s1)(x \<mapsto> y)" "pv s2 = pv s1" "frame {x} s1 s2"
    using set_next_nx [of x s1 y] XY s1(4) by (auto simp: frame_def)
  have "ngx_queue_remove q s = Some s2"
    using R s1 s2(1) XY by (simp add: ngx_queue_remove_def queue_next_nx queue_prev_pv)
  moreover have "queue s2 h (us @ vs)"
    using R(3) D s1 s2 by (auto simp: queue_def)
  moreover have "fresh s2 h (us @ vs) q"
    using D XY(3) s1(4) s2(4) by (auto simp: fresh_def frame_def)
  moreover have "frame (set (h # us @ vs)) s s2"
    using X Y by (intro frame_mono [OF frame_Un [OF s1(4) s2(4)]]) auto
  ultimately show ?thesis by blast
qed

subsection \<open>Sorting\<close>

text \<open>Insertion from the back: in front of the longest suffix of elements greater than \<open>q\<close>.\<close>

definition insert_back :: "(nat \<Rightarrow> nat \<Rightarrow> int) \<Rightarrow> nat list \<Rightarrow> nat \<Rightarrow> nat list" where
  "insert_back cmp xs q =
     rev (dropWhile (\<lambda>v. cmp v q > 0) (rev xs)) @ q # rev (takeWhile (\<lambda>v. cmp v q > 0) (rev xs))"

lemma sort_place_last:
  assumes "queue s h (xs @ ys)" "xs \<noteq> []"
  shows "sort_place cmp h s q (last xs) = Some (last (h # rev (dropWhile (\<lambda>v. cmp v q > 0) (rev xs))))"
  using assms
proof (induction xs arbitrary: ys rule: rev_induct)
  case (snoc x xs)
  show ?case
  proof (cases "cmp x q \<le> 0")
    case True
    then show ?thesis by (simp add: sort_place.simps [of cmp h s q x])
  next
    case False
    have "dll (nx s) (pv s) h xs x" "h \<notin> set xs"
      using snoc.prems(1) by (auto simp: queue_def dll_append)
    from dll_last [OF this(1)] have P: "pv s x = Some (last (h # xs))" .
    show ?thesis
    proof (cases "xs = []")
      case True
      with False P show ?thesis by (simp add: sort_place.simps [of cmp h s q x] queue_prev_pv)
    next
      case xs: False
      then have "last xs \<noteq> h"
        using \<open>h \<notin> set xs\<close> last_in_set [OF xs] by metis
      with False P xs snoc.IH [of "x # ys"] snoc.prems(1) show ?thesis
        by (simp add: sort_place.simps [of cmp h s q x] queue_prev_pv)
    qed
  qed
qed simp

lemma sort_loop_inserts:
  assumes "queue s h (xs @ ys)" "xs \<noteq> []"
  shows "\<exists>s'. sort_loop cmp h (hd (ys @ [h])) s = Some s' \<and> queue s' h (foldl (insert_back cmp) xs ys) \<and>
    frame (set (h # xs @ ys)) s s'"
  using assms
proof (induction ys arbitrary: xs s)
  case Nil
  then show ?case by (simp add: sort_loop.simps)
next
  case (Cons q ys)
  let ?us = "rev (dropWhile (\<lambda>v. cmp v q > 0) (rev xs))"
  let ?vs = "rev (takeWhile (\<lambda>v. cmp v q > 0) (rev xs))"
  have split: "?us @ ?vs = xs"
    by (metis rev_append rev_rev_ident takeWhile_dropWhile_id)
  have Q: "nx s q = Some (hd (ys @ [h]))" "pv s q = Some (last xs)" "q \<noteq> h"
  proof -
    have D: "dll (nx s) (pv s) h xs q" "dll (nx s) (pv s) q ys h" "q \<noteq> h"
      using Cons.prems(1) by (auto simp: queue_def dll_append)
    then show "nx s q = Some (hd (ys @ [h]))" "pv s q = Some (last xs)" "q \<noteq> h"
      using dll_first [OF D(2)] dll_last [OF D(1)] Cons.prems(2) by simp_all
  qed
  obtain s1 where s1: "ngx_queue_remove q s = Some s1" "queue s1 h (xs @ ys)" "fresh s1 h (xs @ ys) q"
      "frame (set (h # xs @ ys)) s s1"
    using remove_element [OF Cons.prems(1)] by blast
  have place: "sort_place cmp h s1 q (last xs) = Some (last (h # ?us))"
    by (rule sort_place_last [OF s1(2) Cons.prems(2)])
  have "queue s1 h (?us @ (?vs @ ys))" "fresh s1 h (?us @ (?vs @ ys)) q"
    using s1(2,3) split by (simp_all add: append_assoc [symmetric] del: append_assoc)
  from insert_after [OF this refl] obtain s2 where
    s2: "ngx_queue_insert_head (last (h # ?us)) q s1 = Some s2" "queue s2 h (?us @ q # ?vs @ ys)"
      "frame (set (q # h # ?us @ ?vs @ ys)) s1 s2"
    by blast
  have "queue s2 h (insert_back cmp xs q @ ys)" "insert_back cmp xs q \<noteq> []"
    using s2(2) by (simp_all add: insert_back_def)
  from Cons.IH [OF this] obtain s3 where
    s3: "sort_loop cmp h (hd (ys @ [h])) s2 = Some s3" "queue s3 h (foldl (insert_back cmp) (insert_back cmp xs q) ys)"
      "frame (set (h # insert_back cmp xs q @ ys)) s2 s3"
    by blast
  have sets: "set (insert_back cmp xs q) = insert q (set xs)" "set (?us @ ?vs @ ys) = set (xs @ ys)"
    using arg_cong [OF split, of set] by (auto simp: insert_back_def)
  have "sort_loop cmp h (hd ((q # ys) @ [h])) s = Some s3"
    using Q s1(1) place s2(1) s3(1) by (simp add: sort_loop.simps [of cmp h q] queue_next_nx queue_prev_pv)
  moreover have "frame (set (h # xs @ q # ys)) s s3"
    using sets by (intro frame_mono [OF frame_Un [OF frame_Un [OF s1(4) s2(3)] s3(3)]]) auto
  ultimately show ?case
    using s3(2) by auto
qed


lemma insert_back_filter:
  assumes "\<And>a b c. cmp a b \<le> 0 \<Longrightarrow> cmp b c \<le> 0 \<Longrightarrow> cmp a c \<le> 0"
  shows "filter (\<lambda>a. cmp x a \<le> 0 \<and> cmp a x \<le> 0) (insert_back cmp xs q) =
    filter (\<lambda>a. cmp x a \<le> 0 \<and> cmp a x \<le> 0) (xs @ [q])"
proof -
  let ?us = "rev (dropWhile (\<lambda>v. cmp v q > 0) (rev xs))"
  let ?vs = "rev (takeWhile (\<lambda>v. cmp v q > 0) (rev xs))"
  have split: "xs = ?us @ ?vs"
    by (metis rev_append rev_rev_ident takeWhile_dropWhile_id)
  have "cmp v q > 0" if "v \<in> set ?vs" for v
    using that by (auto dest: set_takeWhileD)
  then have "filter (\<lambda>a. cmp x a \<le> 0 \<and> cmp a x \<le> 0) ?vs = []" if "cmp x q \<le> 0"
    using assms [of _ x q] that by (fastforce simp: filter_empty_conv)
  then have "filter (\<lambda>a. cmp x a \<le> 0 \<and> cmp a x \<le> 0) (?us @ q # ?vs) =
      filter (\<lambda>a. cmp x a \<le> 0 \<and> cmp a x \<le> 0) (?us @ ?vs @ [q])"
    by auto
  then show ?thesis
    unfolding insert_back_def by (subst (3) split) simp
qed

lemma insert_back_mset: "mset (insert_back cmp xs q) = add_mset q (mset xs)"
proof -
  have "mset (insert_back cmp xs q) =
      add_mset q (mset (takeWhile (\<lambda>v. cmp v q > 0) (rev xs) @ dropWhile (\<lambda>v. cmp v q > 0) (rev xs)))"
    by (simp add: insert_back_def del: takeWhile_dropWhile_id)
  then show ?thesis by simp
qed

lemma insert_back_sorted:
  assumes "\<And>a b c. cmp a b \<le> 0 \<Longrightarrow> cmp b c \<le> 0 \<Longrightarrow> cmp a c \<le> 0" "\<And>a b. cmp a b \<le> 0 \<or> cmp b a \<le> 0"
    and "sorted_wrt (\<lambda>a b. cmp a b \<le> 0) xs"
  shows "sorted_wrt (\<lambda>a b. cmp a b \<le> 0) (insert_back cmp xs q)"
proof -
  let ?us = "rev (dropWhile (\<lambda>v. cmp v q > 0) (rev xs))"
  let ?vs = "rev (takeWhile (\<lambda>v. cmp v q > 0) (rev xs))"
  have split: "xs = ?us @ ?vs"
    by (metis rev_append rev_rev_ident takeWhile_dropWhile_id)
  have S: "sorted_wrt (\<lambda>a b. cmp a b \<le> 0) (?us @ ?vs)"
    using assms(3) split by simp
  have V: "cmp q v \<le> 0" if "v \<in> set ?vs" for v
    using that assms(2) [of q v] by (auto dest: set_takeWhileD)
  have U: "cmp u q \<le> 0" if "u \<in> set ?us" for u
  proof (cases "dropWhile (\<lambda>v. cmp v q > 0) (rev xs)")
    case Nil
    with that show ?thesis by simp
  next
    case (Cons w ws)
    have "\<not> cmp w q > 0"
      using hd_dropWhile [of "\<lambda>v. cmp v q > 0" "rev xs"] Cons by simp
    moreover have "u = w \<or> cmp u w \<le> 0"
      using S that Cons by (auto simp: sorted_wrt_append)
    ultimately show ?thesis
      using assms(1) [of u w q] by auto
  qed
  show ?thesis
    unfolding insert_back_def using S U V by (simp add: sorted_wrt_append)
qed

lemma insertion_sort:
  assumes "\<And>a b c. cmp a b \<le> 0 \<Longrightarrow> cmp b c \<le> 0 \<Longrightarrow> cmp a c \<le> 0" "\<And>a b. cmp a b \<le> 0 \<or> cmp b a \<le> 0"
    and "sorted_wrt (\<lambda>a b. cmp a b \<le> 0) xs"
  shows "sorted_wrt (\<lambda>a b. cmp a b \<le> 0) (foldl (insert_back cmp) xs ys) \<and>
    mset (foldl (insert_back cmp) xs ys) = mset (xs @ ys) \<and>
    filter (\<lambda>a. cmp x a \<le> 0 \<and> cmp a x \<le> 0) (foldl (insert_back cmp) xs ys) =
    filter (\<lambda>a. cmp x a \<le> 0 \<and> cmp a x \<le> 0) (xs @ ys)"
  using assms(3)
proof (induction ys arbitrary: xs)
  case (Cons q ys)
  have F: "filter (\<lambda>a. cmp x a \<le> 0 \<and> cmp a x \<le> 0) (insert_back cmp xs q) =
      filter (\<lambda>a. cmp x a \<le> 0 \<and> cmp a x \<le> 0) (xs @ [q])"
    by (rule insert_back_filter [of cmp x xs q, OF assms(1)])
  have "sorted_wrt (\<lambda>a b. cmp a b \<le> 0) (insert_back cmp xs q)"
    by (rule insert_back_sorted [of cmp xs q, OF assms(1,2) Cons.prems])
  from Cons.IH [OF this] F show ?case
    by (simp add: insert_back_mset)
qed simp

lemma sort_inserts:
  assumes "queue s h xs"
  shows "\<exists>s'. ngx_queue_sort cmp h s = Some s' \<and>
    queue s' h (case xs of [] \<Rightarrow> [] | x # ys \<Rightarrow> foldl (insert_back cmp) [x] ys) \<and> frame (set (h # xs)) s s'"
proof -
  have D: "dll (nx s) (pv s) h xs h" "distinct (h # xs)"
    using assms by (auto simp: queue_def)
  have H: "nx s h = Some (hd (xs @ [h]))" "pv s h = Some (last (h # xs))"
    by (rule dll_first [OF D(1)], rule dll_last [OF D(1)])
  show ?thesis
  proof (cases xs)
    case Nil
    with H assms show ?thesis by (auto simp: ngx_queue_sort_def queue_next_nx queue_prev_pv)
  next
    case (Cons x ys)
    show ?thesis
    proof (cases ys)
      case Nil
      with H Cons assms show ?thesis by (auto simp: ngx_queue_sort_def queue_next_nx queue_prev_pv)
    next
      case ys: (Cons y zs)
      have "x \<noteq> last ys" "nx s x = Some (hd (ys @ [h]))"
        using D Cons ys last_in_set [of ys] by auto
      with H Cons ys sort_loop_inserts [of s h "[x]" ys cmp] assms show ?thesis
        by (auto simp: ngx_queue_sort_def queue_next_nx queue_prev_pv)
    qed
  qed
qed

text \<open>C20. \<open>ngx_queue_sort\<close> is the stable sort its comment promises: for every comparison that is a
  total preorder it returns, the ring is again well linked in both directions and goes through a
  permutation of the elements that is sorted and in which equal elements keep their order; no cell
  outside the queue is touched.\<close>

theorem queue_sort_stable:
  assumes "queue s h xs"
    and "\<And>a b c. cmp a b \<le> 0 \<Longrightarrow> cmp b c \<le> 0 \<Longrightarrow> cmp a c \<le> 0" "\<And>a b. cmp a b \<le> 0 \<or> cmp b a \<le> 0"
  shows "\<exists>s' ys. ngx_queue_sort cmp h s = Some s' \<and> queue s' h ys \<and> mset ys = mset xs \<and>
    sorted_wrt (\<lambda>a b. cmp a b \<le> 0) ys \<and>
    (\<forall>x. filter (\<lambda>a. cmp x a \<le> 0 \<and> cmp a x \<le> 0) ys = filter (\<lambda>a. cmp x a \<le> 0 \<and> cmp a x \<le> 0) xs) \<and>
    (\<forall>a. a \<notin> set (h # xs) \<longrightarrow> s' a = s a)"
proof -
  let ?ys = "case xs of [] \<Rightarrow> [] | x # ys \<Rightarrow> foldl (insert_back cmp) [x] ys"
  obtain s' where S: "ngx_queue_sort cmp h s = Some s'" "queue s' h ?ys" "frame (set (h # xs)) s s'"
    using sort_inserts [OF assms(1)] by blast
  have "mset ?ys = mset xs \<and> sorted_wrt (\<lambda>a b. cmp a b \<le> 0) ?ys \<and>
    (\<forall>x. filter (\<lambda>a. cmp x a \<le> 0 \<and> cmp a x \<le> 0) ?ys = filter (\<lambda>a. cmp x a \<le> 0 \<and> cmp a x \<le> 0) xs)"
  proof (cases xs)
    case (Cons x ys)
    have "sorted_wrt (\<lambda>a b. cmp a b \<le> 0) [x]" by simp
    have "sorted_wrt (\<lambda>a b. cmp a b \<le> 0) (foldl (insert_back cmp) [x] ys) \<and>
        mset (foldl (insert_back cmp) [x] ys) = mset ([x] @ ys) \<and>
        filter (\<lambda>a. cmp z a \<le> 0 \<and> cmp a z \<le> 0) (foldl (insert_back cmp) [x] ys) =
        filter (\<lambda>a. cmp z a \<le> 0 \<and> cmp a z \<le> 0) ([x] @ ys)" for z
      by (rule insertion_sort [of cmp "[x]", OF assms(2,3)]) (simp_all only: sorted_wrt1)
    with Cons show ?thesis by simp
  qed simp
  with S show ?thesis by (auto simp: frame_def)
qed

text \<open>A store with one head and three cells, to try the theorems on.\<close>

definition sample_queue :: queue_store where
  "sample_queue = [1 \<mapsto> \<lparr>q_prev = 4, q_next = 2\<rparr>, 2 \<mapsto> \<lparr>q_prev = 1, q_next = 3\<rparr>,
     3 \<mapsto> \<lparr>q_prev = 2, q_next = 4\<rparr>, 4 \<mapsto> \<lparr>q_prev = 3, q_next = 1\<rparr>, 7 \<mapsto> \<lparr>q_prev = 0, q_next = 0\<rparr>]"

lemma sample_queue: "queue sample_queue 1 [2, 3, 4]" "fresh sample_queue 1 [2, 3, 4] 7"
  by (simp_all add: sample_queue_def queue_def fresh_def nx_def pv_def)

theorem queue_sort_stable_witness:
  "\<exists>s' ys. ngx_queue_sort (\<lambda>a b. int b - int a) 1 sample_queue = Some s' \<and> queue s' 1 ys \<and>
     mset ys = {#2, 3, 4#} \<and> sorted_wrt (\<lambda>a b. int b - int a \<le> 0) ys"
proof -
  have "\<exists>s' ys. ngx_queue_sort (\<lambda>a b. int b - int a) 1 sample_queue = Some s' \<and> queue s' 1 ys \<and> mset ys = mset [2, 3, 4] \<and>
    sorted_wrt (\<lambda>a b. int b - int a \<le> 0) ys \<and>
    (\<forall>x. filter (\<lambda>a. int a - int x \<le> 0 \<and> int x - int a \<le> 0) ys = filter (\<lambda>a. int a - int x \<le> 0 \<and> int x - int a \<le> 0) [2, 3, 4]) \<and>
    (\<forall>a. a \<notin> set [1, 2, 3, 4] \<longrightarrow> s' a = sample_queue a)"
    by (rule queue_sort_stable [OF sample_queue(1)]) auto
  then show ?thesis by (elim exE conjE) (intro exI conjI; simp)
qed


subsection \<open>The middle\<close>

lemma dll_nth: "dll n p a xs b \<Longrightarrow> Suc i < length xs \<Longrightarrow> n (xs ! i) = Some (xs ! Suc i)"
proof (induction xs arbitrary: a i)
  case (Cons x xs)
  show ?case
  proof (cases i)
    case 0
    with Cons.prems show ?thesis by (cases xs) auto
  next
    case (Suc j)
    with Cons show ?thesis by auto
  qed
qed simp

lemma middle_loop_half:
  assumes "queue s h xs" "2 * i + 1 < length xs"
  shows "middle_loop h s (xs ! i) (xs ! (2 * i)) = Some (xs ! (length xs div 2))"
  using assms(2)
proof (induction "length xs - 2 * i" arbitrary: i rule: less_induct)
  case less
  have D: "dll (nx s) (pv s) h xs h" "distinct xs" "xs \<noteq> []"
    using assms(1) less.prems by (auto simp: queue_def)
  have last: "pv s h = Some (xs ! (length xs - 1))"
    using dll_last [OF D(1)] D(3) by (simp add: last_conv_nth)
  have steps: "nx s (xs ! i) = Some (xs ! (i + 1))" "nx s (xs ! (2 * i)) = Some (xs ! (2 * i + 1))"
    using dll_nth [OF D(1), of i] dll_nth [OF D(1), of "2 * i"] less.prems by simp_all
  have same: "xs ! j = xs ! (length xs - 1) \<longleftrightarrow> j = length xs - 1" if "j < length xs" for j
    using that D(2) less.prems by (intro nth_eq_iff_index_eq) auto
  show ?case
  proof (cases "2 * i + 1 = length xs - 1")
    case True
    then have "length xs div 2 = i + 1" by linarith
    with True steps last show ?thesis
      by (simp add: middle_loop.simps [of h s "xs ! i"] queue_next_nx queue_prev_pv)
  next
    case False
    then have S: "nx s (xs ! (2 * i + 1)) = Some (xs ! (2 * i + 2))" "2 * i + 2 < length xs"
      using dll_nth [OF D(1), of "2 * i + 1"] less.prems by simp_all
    show ?thesis
    proof (cases "2 * i + 2 = length xs - 1")
      case True
      then have "length xs div 2 = i + 1" by linarith
      with True False S steps last same [of "2 * i + 1"] less.prems show ?thesis
        by (simp add: middle_loop.simps [of h s "xs ! i"] queue_next_nx queue_prev_pv)
    next
      case More: False
      then have "middle_loop h s (xs ! (i + 1)) (xs ! (2 * (i + 1))) = Some (xs ! (length xs div 2))"
        using S(2) by (intro less.hyps) auto
      with False More S steps last same [of "2 * i + 1"] same [of "2 * i + 2"] less.prems show ?thesis
        by (simp add: middle_loop.simps [of h s "xs ! i"] queue_next_nx queue_prev_pv)
    qed
  qed
qed

lemma queue_middle_half:
  assumes "queue s h xs" "xs \<noteq> []"
  shows "ngx_queue_middle h s = Some (xs ! (length xs div 2))"
proof -
  have D: "dll (nx s) (pv s) h xs h" "distinct xs"
    using assms(1) by (auto simp: queue_def)
  have H: "nx s h = Some (xs ! 0)" "pv s h = Some (xs ! (length xs - 1))"
    using dll_first [OF D(1)] dll_last [OF D(1)] assms(2) by (simp_all add: hd_append hd_conv_nth last_conv_nth)
  show ?thesis
  proof (cases "length xs = 1")
    case True
    with H show ?thesis by (simp add: ngx_queue_middle_def queue_next_nx queue_prev_pv)
  next
    case False
    with assms(2) have L: "1 < length xs" by (cases xs) auto
    then have "xs ! 0 \<noteq> xs ! (length xs - 1)"
      using D(2) by (subst nth_eq_iff_index_eq) auto
    with H middle_loop_half [OF assms(1), of 0] L show ?thesis
      by (simp add: ngx_queue_middle_def queue_next_nx queue_prev_pv)
  qed
qed

subsection \<open>Splitting and joining\<close>

text \<open>The end of a segment moves to another cell.\<close>

lemma dll_redirect:
  assumes "dll n p a xs b" "distinct (a # xs)" "c \<notin> set xs" "l = last (a # xs)"
  shows "dll (n(l \<mapsto> c)) (p(c \<mapsto> l)) a xs c"
  using assms
proof (induction xs arbitrary: a)
  case (Cons x xs)
  have "l \<in> set (x # xs)" using Cons.prems(4) by (simp add: last_in_set del: last.simps) auto
  with Cons.IH [of x] Cons.prems show ?case by auto
qed simp

lemma split_queue:
  assumes "queue s h (us @ q # vs)" "fresh s h (us @ q # vs) n"
  shows "\<exists>s'. ngx_queue_split h q n s = Some s' \<and> queue s' h us \<and> queue s' n (q # vs) \<and>
    frame (set (n # h # us @ q # vs)) s s'"
proof -
  define x where "x = last (h # us)"
  define z where "z = last (q # vs)"
  have D: "distinct (h # us @ q # vs)" "dll (nx s) (pv s) h us q" "dll (nx s) (pv s) q vs h" "n \<in> dom s"
      "n \<notin> set (h # us @ q # vs)"
    using assms by (auto simp: queue_def fresh_def dll_append)
  have X: "x \<in> set (h # us)" and Z: "z \<in> set (q # vs)"
    unfolding x_def z_def by (rule last_in_set, simp)+
  have R: "pv s h = Some z" "pv s q = Some x"
    using dll_last [OF D(3)] dll_last [OF D(2)] by (simp_all add: x_def z_def)
  have ne: "x \<noteq> z" "x \<noteq> n" "z \<noteq> n" "h \<noteq> n" "q \<noteq> n" "q \<noteq> h" "x \<noteq> q" "z \<noteq> h"
    using X Z D(1,5) by auto
  have dom: "x \<in> dom s" "z \<in> dom s" "h \<in> dom s" "q \<in> dom s"
    using X Z queue_dom [OF assms(1)] by auto
  obtain s1 where s1: "set_prev n z s = Some s1" "pv s1 = (pv s)(n \<mapsto> z)" "nx s1 = nx s" "frame {n} s s1"
    using set_prev_pv [OF D(4)] by blast
  obtain s2 where s2: "set_next z n s1 = Some s2" "nx s2 = (nx s1)(z \<mapsto> n)" "pv s2 = pv s1" "frame {z} s1 s2"
    using set_next_nx [of z s1 n] dom s1(4) by (auto simp: frame_def)
  obtain s3 where s3: "set_next n q s2 = Some s3" "nx s3 = (nx s2)(n \<mapsto> q)" "pv s3 = pv s2" "frame {n} s2 s3"
    using set_next_nx [of n s2 q] D(4) s1(4) s2(4) by (auto simp: frame_def)
  obtain s4 where s4: "set_prev h x s3 = Some s4" "pv s4 = (pv s3)(h \<mapsto> x)" "nx s4 = nx s3" "frame {h} s3 s4"
    using set_prev_pv [of h s3 x] dom s1(4) s2(4) s3(4) by (auto simp: frame_def)
  obtain s5 where s5: "set_next x h s4 = Some s5" "nx s5 = (nx s4)(x \<mapsto> h)" "pv s5 = pv s4" "frame {x} s4 s5"
    using set_next_nx [of x s4 h] dom s1(4) s2(4) s3(4) s4(4) by (auto simp: frame_def)
  obtain s6 where s6: "set_prev q n s5 = Some s6" "pv s6 = (pv s5)(q \<mapsto> n)" "nx s6 = nx s5" "frame {q} s5 s6"
    using set_prev_pv [of q s5 n] dom s1(4) s2(4) s3(4) s4(4) s5(4) by (auto simp: frame_def)
  have "ngx_queue_split h q n s = Some s6"
    using R ne s1 s2 s3 s4 s5(1) s6(1) by (simp add: ngx_queue_split_def queue_prev_pv)
  moreover have N: "nx s6 = (nx s)(z \<mapsto> n, n \<mapsto> q, x \<mapsto> h)" "pv s6 = (pv s)(n \<mapsto> z, h \<mapsto> x, q \<mapsto> n)"
    unfolding s6(2,3) s5(2,3) s4(2,3) s3(2,3) s2(2,3) s1(2,3) by simp_all
  have "dll (nx s6) (pv s6) h us h"
  proof -
    have "dll ((nx s)(z \<mapsto> n, n \<mapsto> q)) ((pv s)(n \<mapsto> z)) h us q"
      using D ne Z by (subst dll_upd; auto)+
    then have "dll ((nx s)(z \<mapsto> n, n \<mapsto> q, x \<mapsto> h)) ((pv s)(n \<mapsto> z, h \<mapsto> x)) h us h"
      using D(1) x_def by (intro dll_redirect) auto
    then show ?thesis
      unfolding N using D(1) by (subst dll_upd(2)) auto
  qed
  then have "queue s6 h us"
    using D(1) by (auto simp: queue_def)
  moreover have "dll (nx s6) (pv s6) n (q # vs) n"
  proof -
    have "dll ((nx s)(z \<mapsto> n)) ((pv s)(n \<mapsto> z)) q vs n"
      using D(1,5) by (intro dll_redirect [OF D(3) _ _ z_def]) auto
    then have "dll ((nx s)(z \<mapsto> n, n \<mapsto> q, x \<mapsto> h)) ((pv s)(n \<mapsto> z, h \<mapsto> x, q \<mapsto> n)) q vs n"
      using D(1,5) X ne by (subst dll_upd; auto)+
    then show ?thesis
      unfolding N using ne D by auto
  qed
  then have "queue s6 n (q # vs)"
    using D(1,5) by (auto simp: queue_def)
  moreover have "frame (set (n # h # us @ q # vs)) s s6"
    using X Z by (intro frame_mono [OF frame_Un [OF frame_Un [OF frame_Un [OF frame_Un [OF frame_Un
      [OF s1(4) s2(4)] s3(4)] s4(4)] s5(4)] s6(4)]]) auto
  ultimately show ?thesis by blast
qed


lemma add_queue:
  assumes "queue s h xs" "queue s n ys" "set (h # xs) \<inter> set (n # ys) = {}"
  shows "\<exists>s'. ngx_queue_add h n s = Some s' \<and> queue s' h (xs @ ys) \<and> frame (set (n # h # xs @ ys)) s s'"
proof -
  define x where "x = last (h # xs)"
  define y where "y = hd (ys @ [n])"
  define w where "w = last (n # ys)"
  have D: "distinct (h # xs)" "distinct (n # ys)" "dll (nx s) (pv s) h xs h" "dll (nx s) (pv s) n ys n"
    using assms(1,2) by (auto simp: queue_def)
  have X: "x \<in> set (h # xs)" and W: "w \<in> set (n # ys)" and Y: "y \<in> set (n # ys)"
    unfolding x_def w_def by (rule last_in_set, simp, rule last_in_set, simp, cases ys, auto simp: y_def)
  have R: "pv s h = Some x" "nx s n = Some y" "pv s n = Some w"
    using dll_last [OF D(3)] dll_first [OF D(4)] dll_last [OF D(4)] by (simp_all add: x_def y_def w_def)
  have ne: "x \<noteq> n" "y \<noteq> h" "w \<noteq> h" "h \<noteq> n" "w \<noteq> x"
    using X Y W assms(3) by auto
  have dom: "x \<in> dom s" "y \<in> dom s" "w \<in> dom s" "h \<in> dom s"
    using X Y W queue_dom [OF assms(1)] queue_dom [OF assms(2)] by auto
  define w' where "w' = (if ys = [] then x else w)"
  have w': "w' \<in> dom s" "w' \<in> set (h # xs @ ys)"
    using dom X last_in_set [of ys] by (auto simp: w'_def w_def)
  obtain s1 where s1: "set_next x y s = Some s1" "nx s1 = (nx s)(x \<mapsto> y)" "pv s1 = pv s" "frame {x} s s1"
    using set_next_nx [OF dom(1)] by blast
  obtain s2 where s2: "set_prev y x s1 = Some s2" "pv s2 = (pv s1)(y \<mapsto> x)" "nx s2 = nx s1" "frame {y} s1 s2"
    using set_prev_pv [of y s1 x] dom s1(4) by (auto simp: frame_def)
  obtain s3 where s3: "set_prev h w' s2 = Some s3" "pv s3 = (pv s2)(h \<mapsto> w')" "nx s3 = nx s2" "frame {h} s2 s3"
    using set_prev_pv [of h s2 w'] dom s1(4) s2(4) by (auto simp: frame_def)
  obtain s4 where s4: "set_next w' h s3 = Some s4" "nx s4 = (nx s3)(w' \<mapsto> h)" "pv s4 = pv s3" "frame {w'} s3 s4"
    using set_next_nx [of w' s3 h] w' s1(4) s2(4) s3(4) by (auto simp: frame_def)
  have "pv s2 n = Some w'"
    using R(3) s1(3) s2(2) D(2) by (cases ys) (auto simp: w'_def y_def)
  then have "ngx_queue_add h n s = Some s4"
    using R ne s1 s2 s3 s4(1) by (simp add: ngx_queue_add_def queue_next_nx queue_prev_pv)
  moreover have N: "nx s4 = (nx s)(x \<mapsto> y, w' \<mapsto> h)" "pv s4 = (pv s)(y \<mapsto> x, h \<mapsto> w')"
    unfolding s4(2,3) s3(2,3) s2(2,3) s1(2,3) by simp_all
  have "dll (nx s4) (pv s4) h (xs @ ys) h"
  proof (cases ys)
    case Nil
    then have "nx s4 = (nx s)(x \<mapsto> h)" "pv s4 = (pv s)(n \<mapsto> x, h \<mapsto> x)"
      unfolding N by (simp_all add: w'_def y_def)
    moreover have "dll ((nx s)(x \<mapsto> h)) ((pv s)(n \<mapsto> x, h \<mapsto> x)) h xs h"
    proof (rule dll_redirect)
      show "dll (nx s) ((pv s)(n \<mapsto> x)) h xs h"
        using D(3) assms(3) by (subst dll_upd(2)) auto
    qed (use D(1) x_def in auto)
    ultimately show ?thesis using Nil by simp
  next
    case (Cons y' ys')
    then have Y': "y' = y" "w' = last (y # ys')" "dll (nx s) (pv s) y ys' n"
      using D(4) by (auto simp: y_def w'_def w_def)
    have "dll ((nx s)(x \<mapsto> y)) ((pv s)(y \<mapsto> x)) h xs y"
      using D(1,3) assms(3) Cons Y'(1) x_def by (intro dll_redirect) auto
    then have "dll ((nx s)(x \<mapsto> y, w' \<mapsto> h)) ((pv s)(y \<mapsto> x, h \<mapsto> w')) h xs y"
      using D(1) assms(3) Cons Y'(1,2) w'(2) last_in_set [of "y # ys'"] by (subst dll_upd; auto)+
    moreover have "dll ((nx s)(x \<mapsto> y, w' \<mapsto> h)) ((pv s)(y \<mapsto> x, h \<mapsto> w')) y ys' h"
    proof (rule dll_redirect [OF _ _ _ Y'(2)])
      show "dll ((nx s)(x \<mapsto> y)) ((pv s)(y \<mapsto> x)) y ys' n"
        using Y'(3) D(2) X assms(3) Cons Y'(1) by (subst dll_upd; auto)+
    qed (use D(2) assms(3) Cons Y'(1) in auto)
    ultimately show ?thesis
      unfolding N Cons using Y'(1) by (simp only: dll_append)
  qed
  then have "queue s4 h (xs @ ys)"
    using D(1,2) assms(3) by (auto simp: queue_def)
  moreover have "frame (set (n # h # xs @ ys)) s s4"
    using X Y w'(2) by (intro frame_mono [OF frame_Un [OF frame_Un [OF frame_Un [OF s1(4) s2(4)] s3(4)] s4(4)]]) auto
  ultimately show ?thesis by blast
qed

lemma init_queue: "q \<in> dom s \<Longrightarrow> \<exists>s'. ngx_queue_init q s = Some s' \<and> queue s' q [] \<and> frame {q} s s'"
  by (auto simp: ngx_queue_init_def set_prev_def set_next_def queue_def nx_def pv_def frame_def)

lemma queue_empty_iff: "queue s h xs \<Longrightarrow> ngx_queue_empty h s = Some (xs = [])"
  using dll_last [of "nx s" "pv s" h xs h] last_in_set [of xs]
  by (auto simp: ngx_queue_empty_def queue_def queue_prev_pv)



text \<open>Splitting and joining are inverse: \<open>ngx_queue_add\<close> appends a disjoint queue, an empty one as
  well, and undoes \<open>ngx_queue_split\<close>.\<close>

theorem queue_split_add:
  assumes "queue s h (us @ q # vs)" "fresh s h (us @ q # vs) n"
  shows "\<exists>s'. ngx_queue_split h q n s \<bind> ngx_queue_add h n = Some s' \<and> queue s' h (us @ q # vs)"
proof -
  obtain s' where S: "ngx_queue_split h q n s = Some s'" "queue s' h us" "queue s' n (q # vs)"
    using split_queue [OF assms] by blast
  have "set (h # us) \<inter> set (n # q # vs) = {}"
    using assms by (auto simp: queue_def fresh_def)
  from add_queue [OF S(2,3) this] S(1) show ?thesis by auto
qed

theorem queue_split_add_witness:
  "\<exists>s'. ngx_queue_split 1 3 7 sample_queue \<bind> ngx_queue_add 1 7 = Some s' \<and> queue s' 1 [2, 3, 4]"
  using queue_split_add [of sample_queue 1 "[2]" 3 "[4]" 7] sample_queue by simp

text \<open>\<open>ngx_queue_middle\<close> stops after one walk, at the element with the index \<open>n div 2\<close> of \<open>n\<close>: the
  middle one of an odd number, the first of the second half otherwise. Only cells of the queue are
  read.\<close>

theorem queue_middle:
  assumes "queue s h xs" "xs \<noteq> []"
  shows "ngx_queue_middle h s = Some (xs ! (length xs div 2))"
  using assms by (rule queue_middle_half)

theorem queue_middle_witness: "ngx_queue_middle 1 sample_queue = Some 3"
  using queue_middle [OF sample_queue(1)] by simp

end
