(* ===== verification/Ngx_Rbtree.thy ===== *)
theory Ngx_Rbtree
  imports Ngx_Prelude "HOL-Library.Monad_Syntax" "HOL-Library.Tree"
begin

text \<open>
  The red-black trees of \<open>src/core/ngx_rbtree.c\<close>, on an explicit memory.

  Nodes live at addresses; \<open>rbt_mem\<close> maps an address to the fields of its node, the address 0 is
  \<open>NULL\<close> and never holds one. Following a pointer to an address without a node is \<open>None\<close>. The
  sentinel is a node of the memory that stands for all leaves, as in the source. The second half
  of the theory relates memory to trees: \<open>focus t C T\<close> says that the memory holds the tree \<open>T\<close> under
  the path \<open>C\<close> to the root, with correct parent pointers.
\<close>

section \<open>Memory\<close>

record ngx_rbtree_node =
  rb_key :: "64 word"
  rb_left :: nat
  rb_right :: nat
  rb_parent :: nat
  rb_color :: u_char
  rb_data :: u_char

record ngx_rbtree =
  rbt_root :: nat
  rbt_sentinel :: nat
  rbt_mem :: "nat \<rightharpoonup> ngx_rbtree_node"

definition rd_key :: "nat \<Rightarrow> ngx_rbtree \<Rightarrow> 64 word option" where
  "rd_key p t = map_option rb_key (rbt_mem t p)"

definition rd_left :: "nat \<Rightarrow> ngx_rbtree \<Rightarrow> nat option" where
  "rd_left p t = map_option rb_left (rbt_mem t p)"

definition rd_right :: "nat \<Rightarrow> ngx_rbtree \<Rightarrow> nat option" where
  "rd_right p t = map_option rb_right (rbt_mem t p)"

definition rd_parent :: "nat \<Rightarrow> ngx_rbtree \<Rightarrow> nat option" where
  "rd_parent p t = map_option rb_parent (rbt_mem t p)"

definition rd_color :: "nat \<Rightarrow> ngx_rbtree \<Rightarrow> u_char option" where
  "rd_color p t = map_option rb_color (rbt_mem t p)"

definition upd_node :: "nat \<Rightarrow> (ngx_rbtree_node \<Rightarrow> ngx_rbtree_node) \<Rightarrow> ngx_rbtree \<Rightarrow> ngx_rbtree option" where
  "upd_node p f t = map_option (\<lambda>n. t\<lparr>rbt_mem := (rbt_mem t)(p \<mapsto> f n)\<rparr>) (rbt_mem t p)"

definition wr_key :: "nat \<Rightarrow> 64 word \<Rightarrow> ngx_rbtree \<Rightarrow> ngx_rbtree option" where
  "wr_key p v = upd_node p (\<lambda>n. n\<lparr>rb_key := v\<rparr>)"

definition wr_left :: "nat \<Rightarrow> nat \<Rightarrow> ngx_rbtree \<Rightarrow> ngx_rbtree option" where
  "wr_left p v = upd_node p (\<lambda>n. n\<lparr>rb_left := v\<rparr>)"

definition wr_right :: "nat \<Rightarrow> nat \<Rightarrow> ngx_rbtree \<Rightarrow> ngx_rbtree option" where
  "wr_right p v = upd_node p (\<lambda>n. n\<lparr>rb_right := v\<rparr>)"

definition wr_parent :: "nat \<Rightarrow> nat \<Rightarrow> ngx_rbtree \<Rightarrow> ngx_rbtree option" where
  "wr_parent p v = upd_node p (\<lambda>n. n\<lparr>rb_parent := v\<rparr>)"

definition wr_color :: "nat \<Rightarrow> u_char \<Rightarrow> ngx_rbtree \<Rightarrow> ngx_rbtree option" where
  "wr_color p v = upd_node p (\<lambda>n. n\<lparr>rb_color := v\<rparr>)"

definition ngx_rbt_red :: "nat \<Rightarrow> ngx_rbtree \<Rightarrow> ngx_rbtree option" where
  "ngx_rbt_red p = wr_color p 1"

definition ngx_rbt_black :: "nat \<Rightarrow> ngx_rbtree \<Rightarrow> ngx_rbtree option" where
  "ngx_rbt_black p = wr_color p 0"

definition ngx_rbt_is_red :: "nat \<Rightarrow> ngx_rbtree \<Rightarrow> bool option" where
  "ngx_rbt_is_red p t = map_option (\<lambda>c. c \<noteq> 0) (rd_color p t)"

definition ngx_rbt_copy_color :: "nat \<Rightarrow> nat \<Rightarrow> ngx_rbtree \<Rightarrow> ngx_rbtree option" where
  "ngx_rbt_copy_color p q t = do { c \<leftarrow> rd_color q t; wr_color p c t }"

definition rd_grand :: "nat \<Rightarrow> ngx_rbtree \<Rightarrow> nat option" where
  "rd_grand node t = do { p \<leftarrow> rd_parent node t; rd_parent p t }"

section \<open>The operations\<close>

definition ngx_rbtree_init :: "nat \<Rightarrow> ngx_rbtree \<Rightarrow> ngx_rbtree option" where
  "ngx_rbtree_init s t =
     do { t \<leftarrow> ngx_rbt_black s t; Some (t\<lparr>rbt_root := s, rbt_sentinel := s\<rparr>) }"

text \<open>The child pointer of the parent, or the root, that leads to \<open>node\<close>. The tests are in the order
  of each rotation.\<close>

definition relink_left_first :: "nat \<Rightarrow> nat \<Rightarrow> ngx_rbtree \<Rightarrow> ngx_rbtree option" where
  "relink_left_first node temp t =
     (if node = rbt_root t then Some (t\<lparr>rbt_root := temp\<rparr>)
      else do {
        p \<leftarrow> rd_parent node t;
        l \<leftarrow> rd_left p t;
        if node = l then wr_left p temp t else wr_right p temp t
      })"

definition relink_right_first :: "nat \<Rightarrow> nat \<Rightarrow> ngx_rbtree \<Rightarrow> ngx_rbtree option" where
  "relink_right_first node temp t =
     (if node = rbt_root t then Some (t\<lparr>rbt_root := temp\<rparr>)
      else do {
        p \<leftarrow> rd_parent node t;
        r \<leftarrow> rd_right p t;
        if node = r then wr_right p temp t else wr_left p temp t
      })"

definition ngx_rbtree_left_rotate :: "nat \<Rightarrow> ngx_rbtree \<Rightarrow> ngx_rbtree option" where
  "ngx_rbtree_left_rotate node t =
     do {
       temp \<leftarrow> rd_right node t;
       l \<leftarrow> rd_left temp t;
       t \<leftarrow> wr_right node l t;
       l \<leftarrow> rd_left temp t;
       t \<leftarrow> (if l \<noteq> rbt_sentinel t then wr_parent l node t else Some t);
       p \<leftarrow> rd_parent node t;
       t \<leftarrow> wr_parent temp p t;
       t \<leftarrow> relink_left_first node temp t;
       t \<leftarrow> wr_left temp node t;
       wr_parent node temp t
     }"

definition ngx_rbtree_right_rotate :: "nat \<Rightarrow> ngx_rbtree \<Rightarrow> ngx_rbtree option" where
  "ngx_rbtree_right_rotate node t =
     do {
       temp \<leftarrow> rd_left node t;
       r \<leftarrow> rd_right temp t;
       t \<leftarrow> wr_left node r t;
       r \<leftarrow> rd_right temp t;
       t \<leftarrow> (if r \<noteq> rbt_sentinel t then wr_parent r node t else Some t);
       p \<leftarrow> rd_parent node t;
       t \<leftarrow> wr_parent temp p t;
       t \<leftarrow> relink_right_first node temp t;
       t \<leftarrow> wr_right temp node t;
       wr_parent node temp t
     }"

text \<open>The descent of \<open>ngx_rbtree_insert_value\<close> and \<open>ngx_rbtree_insert_timer_value\<close>, which differ in
  the comparison \<open>lt\<close> of two keys: the parent of the new node, and whether it goes left.\<close>

partial_function (option) insert_place ::
  "(64 word \<Rightarrow> 64 word \<Rightarrow> bool) \<Rightarrow> nat \<Rightarrow> nat \<Rightarrow> nat \<Rightarrow> ngx_rbtree \<Rightarrow> (nat \<times> bool) option"
where
  "insert_place lt temp node sentinel t =
     do {
       k \<leftarrow> rd_key node t;
       k' \<leftarrow> rd_key temp t;
       p \<leftarrow> (if lt k k' then rd_left temp t else rd_right temp t);
       if p = sentinel then Some (temp, lt k k') else insert_place lt p node sentinel t
     }"

definition insert_at ::
  "(64 word \<Rightarrow> 64 word \<Rightarrow> bool) \<Rightarrow> nat \<Rightarrow> nat \<Rightarrow> nat \<Rightarrow> ngx_rbtree \<Rightarrow> ngx_rbtree option"
where
  "insert_at lt temp node sentinel t =
     do {
       x \<leftarrow> insert_place lt temp node sentinel t;
       t \<leftarrow> (if snd x then wr_left (fst x) node t else wr_right (fst x) node t);
       t \<leftarrow> wr_parent node (fst x) t;
       t \<leftarrow> wr_left node sentinel t;
       t \<leftarrow> wr_right node sentinel t;
       ngx_rbt_red node t
     }"

definition ngx_rbtree_insert_value :: "nat \<Rightarrow> nat \<Rightarrow> nat \<Rightarrow> ngx_rbtree \<Rightarrow> ngx_rbtree option" where
  "ngx_rbtree_insert_value = insert_at (\<lambda>a b. a < b)"

definition timer_less :: "64 word \<Rightarrow> 64 word \<Rightarrow> bool" where
  "timer_less a b \<longleftrightarrow> sint (a - b) < 0"

definition ngx_rbtree_insert_timer_value :: "nat \<Rightarrow> nat \<Rightarrow> nat \<Rightarrow> ngx_rbtree \<Rightarrow> ngx_rbtree option" where
  "ngx_rbtree_insert_timer_value = insert_at timer_less"

text \<open>The end of each branch without a red uncle: colours, then a rotation at the grandparent.\<close>

definition insert_turn_right :: "nat \<Rightarrow> ngx_rbtree \<Rightarrow> (nat \<times> ngx_rbtree) option" where
  "insert_turn_right node t =
     do {
       p \<leftarrow> rd_parent node t;
       t \<leftarrow> ngx_rbt_black p t;
       g \<leftarrow> rd_grand node t;
       t \<leftarrow> ngx_rbt_red g t;
       g \<leftarrow> rd_grand node t;
       t \<leftarrow> ngx_rbtree_right_rotate g t;
       Some (node, t)
     }"

definition insert_turn_left :: "nat \<Rightarrow> ngx_rbtree \<Rightarrow> (nat \<times> ngx_rbtree) option" where
  "insert_turn_left node t =
     do {
       p \<leftarrow> rd_parent node t;
       t \<leftarrow> ngx_rbt_black p t;
       g \<leftarrow> rd_grand node t;
       t \<leftarrow> ngx_rbt_red g t;
       g \<leftarrow> rd_grand node t;
       t \<leftarrow> ngx_rbtree_left_rotate g t;
       Some (node, t)
     }"

text \<open>The two branches of the loop that re-balances after an insertion.\<close>

definition insert_step_left :: "nat \<Rightarrow> ngx_rbtree \<Rightarrow> (nat \<times> ngx_rbtree) option" where
  "insert_step_left node t =
     do {
       g \<leftarrow> rd_grand node t;
       temp \<leftarrow> rd_right g t;
       red \<leftarrow> ngx_rbt_is_red temp t;
       if red then do {
         p \<leftarrow> rd_parent node t;
         t \<leftarrow> ngx_rbt_black p t;
         t \<leftarrow> ngx_rbt_black temp t;
         g \<leftarrow> rd_grand node t;
         t \<leftarrow> ngx_rbt_red g t;
         g \<leftarrow> rd_grand node t;
         Some (g, t)
       } else do {
         p \<leftarrow> rd_parent node t;
         r \<leftarrow> rd_right p t;
         x \<leftarrow> (if node = r then do { t \<leftarrow> ngx_rbtree_left_rotate p t; Some (p, t) } else Some (node, t));
         insert_turn_right (fst x) (snd x)
       }
     }"

definition insert_step_right :: "nat \<Rightarrow> ngx_rbtree \<Rightarrow> (nat \<times> ngx_rbtree) option" where
  "insert_step_right node t =
     do {
       g \<leftarrow> rd_grand node t;
       temp \<leftarrow> rd_left g t;
       red \<leftarrow> ngx_rbt_is_red temp t;
       if red then do {
         p \<leftarrow> rd_parent node t;
         t \<leftarrow> ngx_rbt_black p t;
         t \<leftarrow> ngx_rbt_black temp t;
         g \<leftarrow> rd_grand node t;
         t \<leftarrow> ngx_rbt_red g t;
         g \<leftarrow> rd_grand node t;
         Some (g, t)
       } else do {
         p \<leftarrow> rd_parent node t;
         l \<leftarrow> rd_left p t;
         x \<leftarrow> (if node = l then do { t \<leftarrow> ngx_rbtree_right_rotate p t; Some (p, t) } else Some (node, t));
         insert_turn_left (fst x) (snd x)
       }
     }"

definition insert_step :: "nat \<Rightarrow> ngx_rbtree \<Rightarrow> (nat \<times> ngx_rbtree) option" where
  "insert_step node t =
     do {
       p \<leftarrow> rd_parent node t;
       g \<leftarrow> rd_grand node t;
       l \<leftarrow> rd_left g t;
       if p = l then insert_step_left node t else insert_step_right node t
     }"

partial_function (option) insert_loop :: "nat \<Rightarrow> ngx_rbtree \<Rightarrow> ngx_rbtree option" where
  "insert_loop node t =
     (if node = rbt_root t then Some t
      else do {
        p \<leftarrow> rd_parent node t;
        red \<leftarrow> ngx_rbt_is_red p t;
        if red then do { x \<leftarrow> insert_step node t; insert_loop (fst x) (snd x) }
        else Some t
      })"

text \<open>\<open>ins\<close> is the function \<open>tree->insert\<close>.\<close>

definition ngx_rbtree_insert ::
  "(nat \<Rightarrow> nat \<Rightarrow> nat \<Rightarrow> ngx_rbtree \<Rightarrow> ngx_rbtree option) \<Rightarrow> nat \<Rightarrow> ngx_rbtree \<Rightarrow> ngx_rbtree option"
where
  "ngx_rbtree_insert ins node t =
     (if rbt_root t = rbt_sentinel t then do {
        t \<leftarrow> wr_parent node 0 t;
        t \<leftarrow> wr_left node (rbt_sentinel t) t;
        t \<leftarrow> wr_right node (rbt_sentinel t) t;
        t \<leftarrow> ngx_rbt_black node t;
        Some (t\<lparr>rbt_root := node\<rparr>)
      }
      else do {
        t \<leftarrow> ins (rbt_root t) node (rbt_sentinel t) t;
        t \<leftarrow> insert_loop node t;
        ngx_rbt_black (rbt_root t) t
      })"

partial_function (option) ngx_rbtree_min :: "nat \<Rightarrow> nat \<Rightarrow> ngx_rbtree \<Rightarrow> nat option" where
  "ngx_rbtree_min node sentinel t =
     do {
       l \<leftarrow> rd_left node t;
       if l \<noteq> sentinel then ngx_rbtree_min l sentinel t else Some node
     }"

text \<open>Deletion: the node to unlink, with the child that takes its place.\<close>

definition delete_subst :: "nat \<Rightarrow> ngx_rbtree \<Rightarrow> (nat \<times> nat) option" where
  "delete_subst node t =
     do {
       l \<leftarrow> rd_left node t;
       r \<leftarrow> rd_right node t;
       if l = rbt_sentinel t then Some (node, r)
       else if r = rbt_sentinel t then Some (node, l)
       else do {
         subst \<leftarrow> ngx_rbtree_min r (rbt_sentinel t) t;
         l \<leftarrow> rd_left subst t;
         temp \<leftarrow> (if l \<noteq> rbt_sentinel t then Some l else rd_right subst t);
         Some (subst, temp)
       }
     }"

definition clear_node :: "nat \<Rightarrow> ngx_rbtree \<Rightarrow> ngx_rbtree option" where
  "clear_node node t =
     do {
       t \<leftarrow> wr_left node 0 t;
       t \<leftarrow> wr_right node 0 t;
       t \<leftarrow> wr_parent node 0 t;
       wr_key node 0 t
     }"

text \<open>\<open>subst\<close> takes the place of \<open>node\<close>.\<close>

definition delete_replace :: "nat \<Rightarrow> nat \<Rightarrow> ngx_rbtree \<Rightarrow> ngx_rbtree option" where
  "delete_replace node subst t =
     do {
       l \<leftarrow> rd_left node t;
       t \<leftarrow> wr_left subst l t;
       r \<leftarrow> rd_right node t;
       t \<leftarrow> wr_right subst r t;
       p \<leftarrow> rd_parent node t;
       t \<leftarrow> wr_parent subst p t;
       t \<leftarrow> ngx_rbt_copy_color subst node t;
       t \<leftarrow> relink_left_first node subst t;
       l \<leftarrow> rd_left subst t;
       t \<leftarrow> (if l \<noteq> rbt_sentinel t then wr_parent l subst t else Some t);
       r \<leftarrow> rd_right subst t;
       if r \<noteq> rbt_sentinel t then wr_parent r subst t else Some t
     }"

definition delete_unlink :: "nat \<Rightarrow> nat \<Rightarrow> nat \<Rightarrow> ngx_rbtree \<Rightarrow> ngx_rbtree option" where
  "delete_unlink node subst temp t =
     do {
       p \<leftarrow> rd_parent subst t;
       l \<leftarrow> rd_left p t;
       t \<leftarrow> (if subst = l then wr_left p temp t else wr_right p temp t);
       p \<leftarrow> rd_parent subst t;
       if subst = node then wr_parent temp p t
       else do {
         t \<leftarrow> (if p = node then wr_parent temp subst t else wr_parent temp p t);
         delete_replace node subst t
       }
     }"

text \<open>The two branches of the loop that re-balances after a deletion. \<open>near\<close> and \<open>far\<close> are the
  children of the sibling \<open>w\<close>, \<open>near\<close> the one beside \<open>temp\<close>.\<close>

definition delete_red_left :: "nat \<Rightarrow> nat \<Rightarrow> ngx_rbtree \<Rightarrow> (nat \<times> ngx_rbtree) option" where
  "delete_red_left temp w t =
     do {
       t \<leftarrow> ngx_rbt_black w t;
       p \<leftarrow> rd_parent temp t;
       t \<leftarrow> ngx_rbt_red p t;
       p \<leftarrow> rd_parent temp t;
       t \<leftarrow> ngx_rbtree_left_rotate p t;
       p \<leftarrow> rd_parent temp t;
       w \<leftarrow> rd_right p t;
       Some (w, t)
     }"

definition delete_inner_left :: "nat \<Rightarrow> nat \<Rightarrow> ngx_rbtree \<Rightarrow> (nat \<times> ngx_rbtree) option" where
  "delete_inner_left temp w t =
     do {
       c \<leftarrow> rd_left w t;
       t \<leftarrow> ngx_rbt_black c t;
       t \<leftarrow> ngx_rbt_red w t;
       t \<leftarrow> ngx_rbtree_right_rotate w t;
       p \<leftarrow> rd_parent temp t;
       w \<leftarrow> rd_right p t;
       Some (w, t)
     }"

definition delete_turn_left :: "nat \<Rightarrow> nat \<Rightarrow> ngx_rbtree \<Rightarrow> ngx_rbtree option" where
  "delete_turn_left temp w t =
     do {
       p \<leftarrow> rd_parent temp t;
       t \<leftarrow> ngx_rbt_copy_color w p t;
       p \<leftarrow> rd_parent temp t;
       t \<leftarrow> ngx_rbt_black p t;
       c \<leftarrow> rd_right w t;
       t \<leftarrow> ngx_rbt_black c t;
       p \<leftarrow> rd_parent temp t;
       ngx_rbtree_left_rotate p t
     }"

definition delete_black_left :: "nat \<Rightarrow> nat \<Rightarrow> ngx_rbtree \<Rightarrow> (nat \<times> ngx_rbtree) option" where
  "delete_black_left temp w t =
     do {
       near \<leftarrow> rd_left w t;
       near_red \<leftarrow> ngx_rbt_is_red near t;
       far \<leftarrow> rd_right w t;
       far_red \<leftarrow> ngx_rbt_is_red far t;
       if \<not> near_red \<and> \<not> far_red then do {
         t \<leftarrow> ngx_rbt_red w t;
         p \<leftarrow> rd_parent temp t;
         Some (p, t)
       } else do {
         x \<leftarrow> (if \<not> far_red then delete_inner_left temp w t else Some (w, t));
         t \<leftarrow> delete_turn_left temp (fst x) (snd x);
         Some (rbt_root t, t)
       }
     }"

definition delete_step_left :: "nat \<Rightarrow> ngx_rbtree \<Rightarrow> (nat \<times> ngx_rbtree) option" where
  "delete_step_left temp t =
     do {
       p \<leftarrow> rd_parent temp t;
       w \<leftarrow> rd_right p t;
       red \<leftarrow> ngx_rbt_is_red w t;
       x \<leftarrow> (if red then delete_red_left temp w t else Some (w, t));
       delete_black_left temp (fst x) (snd x)
     }"

definition delete_red_right :: "nat \<Rightarrow> nat \<Rightarrow> ngx_rbtree \<Rightarrow> (nat \<times> ngx_rbtree) option" where
  "delete_red_right temp w t =
     do {
       t \<leftarrow> ngx_rbt_black w t;
       p \<leftarrow> rd_parent temp t;
       t \<leftarrow> ngx_rbt_red p t;
       p \<leftarrow> rd_parent temp t;
       t \<leftarrow> ngx_rbtree_right_rotate p t;
       p \<leftarrow> rd_parent temp t;
       w \<leftarrow> rd_left p t;
       Some (w, t)
     }"

definition delete_inner_right :: "nat \<Rightarrow> nat \<Rightarrow> ngx_rbtree \<Rightarrow> (nat \<times> ngx_rbtree) option" where
  "delete_inner_right temp w t =
     do {
       c \<leftarrow> rd_right w t;
       t \<leftarrow> ngx_rbt_black c t;
       t \<leftarrow> ngx_rbt_red w t;
       t \<leftarrow> ngx_rbtree_left_rotate w t;
       p \<leftarrow> rd_parent temp t;
       w \<leftarrow> rd_left p t;
       Some (w, t)
     }"

definition delete_turn_right :: "nat \<Rightarrow> nat \<Rightarrow> ngx_rbtree \<Rightarrow> ngx_rbtree option" where
  "delete_turn_right temp w t =
     do {
       p \<leftarrow> rd_parent temp t;
       t \<leftarrow> ngx_rbt_copy_color w p t;
       p \<leftarrow> rd_parent temp t;
       t \<leftarrow> ngx_rbt_black p t;
       c \<leftarrow> rd_left w t;
       t \<leftarrow> ngx_rbt_black c t;
       p \<leftarrow> rd_parent temp t;
       ngx_rbtree_right_rotate p t
     }"

definition delete_black_right :: "nat \<Rightarrow> nat \<Rightarrow> ngx_rbtree \<Rightarrow> (nat \<times> ngx_rbtree) option" where
  "delete_black_right temp w t =
     do {
       near \<leftarrow> rd_right w t;
       near_red \<leftarrow> ngx_rbt_is_red near t;
       far \<leftarrow> rd_left w t;
       far_red \<leftarrow> ngx_rbt_is_red far t;
       if \<not> near_red \<and> \<not> far_red then do {
         t \<leftarrow> ngx_rbt_red w t;
         p \<leftarrow> rd_parent temp t;
         Some (p, t)
       } else do {
         x \<leftarrow> (if \<not> far_red then delete_inner_right temp w t else Some (w, t));
         t \<leftarrow> delete_turn_right temp (fst x) (snd x);
         Some (rbt_root t, t)
       }
     }"

definition delete_step_right :: "nat \<Rightarrow> ngx_rbtree \<Rightarrow> (nat \<times> ngx_rbtree) option" where
  "delete_step_right temp t =
     do {
       p \<leftarrow> rd_parent temp t;
       w \<leftarrow> rd_left p t;
       red \<leftarrow> ngx_rbt_is_red w t;
       x \<leftarrow> (if red then delete_red_right temp w t else Some (w, t));
       delete_black_right temp (fst x) (snd x)
     }"

partial_function (option) delete_loop :: "nat \<Rightarrow> ngx_rbtree \<Rightarrow> (nat \<times> ngx_rbtree) option" where
  "delete_loop temp t =
     (if temp = rbt_root t then Some (temp, t)
      else do {
        red \<leftarrow> ngx_rbt_is_red temp t;
        if red then Some (temp, t)
        else do {
          p \<leftarrow> rd_parent temp t;
          l \<leftarrow> rd_left p t;
          x \<leftarrow> (if temp = l then delete_step_left temp t else delete_step_right temp t);
          delete_loop (fst x) (snd x)
        }
      })"

definition ngx_rbtree_delete :: "nat \<Rightarrow> ngx_rbtree \<Rightarrow> ngx_rbtree option" where
  "ngx_rbtree_delete node t =
     do {
       x \<leftarrow> delete_subst node t;
       let subst = fst x; temp = snd x in
       if subst = rbt_root t then do {
         t \<leftarrow> ngx_rbt_black temp (t\<lparr>rbt_root := temp\<rparr>);
         clear_node node t
       } else do {
         red \<leftarrow> ngx_rbt_is_red subst t;
         t \<leftarrow> delete_unlink node subst temp t;
         t \<leftarrow> clear_node node t;
         if red then Some t
         else do { x \<leftarrow> delete_loop temp t; ngx_rbt_black (fst x) (snd x) }
       }
     }"

text \<open>The loop of \<open>ngx_rbtree_next\<close> over the parents; the result 0 is \<open>NULL\<close>.\<close>

partial_function (option) next_up :: "nat \<Rightarrow> nat \<Rightarrow> ngx_rbtree \<Rightarrow> nat option" where
  "next_up root node t =
     do {
       parent \<leftarrow> rd_parent node t;
       if node = root then Some 0
       else do {
         l \<leftarrow> rd_left parent t;
         if node = l then Some parent else next_up root parent t
       }
     }"

definition ngx_rbtree_next :: "nat \<Rightarrow> ngx_rbtree \<Rightarrow> nat option" where
  "ngx_rbtree_next node t =
     do {
       r \<leftarrow> rd_right node t;
       if r \<noteq> rbt_sentinel t then ngx_rbtree_min r (rbt_sentinel t) t
       else next_up (rbt_root t) node t
     }"


section \<open>Memory and trees\<close>

text \<open>A node as the tree sees it: its address, whether it is red, its key.\<close>

type_synonym info = "nat \<times> bool \<times> 64 word"
type_synonym rbtree = "info tree"

text \<open>A step of the path to the root: the hole is the left child of \<open>i\<close> with the right sibling
  \<open>sib\<close>, or the right child.\<close>

datatype step = Lf info rbtree | Rt rbtree info

fun addr :: "nat \<Rightarrow> rbtree \<Rightarrow> nat" where
  "addr s \<langle>\<rangle> = s"
| "addr s \<langle>l, (a, red, k), r\<rangle> = a"

definition node_ok ::
  "(nat \<rightharpoonup> ngx_rbtree_node) \<Rightarrow> nat \<Rightarrow> nat \<Rightarrow> nat \<Rightarrow> nat \<Rightarrow> bool \<Rightarrow> 64 word \<Rightarrow> bool"
where
  "node_ok m a par l r red k \<longleftrightarrow>
     (\<exists>n. m a = Some n \<and> rb_parent n = par \<and> rb_left n = l \<and> rb_right n = r \<and> (red \<longleftrightarrow> rb_color n \<noteq> 0) \<and> rb_key n = k)"

fun shape :: "(nat \<rightharpoonup> ngx_rbtree_node) \<Rightarrow> nat \<Rightarrow> nat \<Rightarrow> rbtree \<Rightarrow> bool" where
  "shape m s par \<langle>\<rangle> \<longleftrightarrow> True"
| "shape m s par \<langle>l, (a, red, k), r\<rangle> \<longleftrightarrow>
     node_ok m a par (addr s l) (addr s r) red k \<and> shape m s a l \<and> shape m s a r"

fun ctx :: "(nat \<rightharpoonup> ngx_rbtree_node) \<Rightarrow> nat \<Rightarrow> nat \<Rightarrow> nat \<Rightarrow> nat \<Rightarrow> step list \<Rightarrow> bool" where
  "ctx m s root p par [] \<longleftrightarrow> root = p"
| "ctx m s root p par (Lf (a, red, k) sib # C) \<longleftrightarrow>
     par = a \<and> shape m s a sib \<and> (\<exists>par'. node_ok m a par' p (addr s sib) red k \<and> ctx m s root a par' C)"
| "ctx m s root p par (Rt sib (a, red, k) # C) \<longleftrightarrow>
     par = a \<and> shape m s a sib \<and> (\<exists>par'. node_ok m a par' (addr s sib) p red k \<and> ctx m s root a par' C)"

definition adrs :: "rbtree \<Rightarrow> nat list" where
  "adrs T = map fst (inorder T)"

fun cadrs :: "step list \<Rightarrow> nat list" where
  "cadrs [] = []"
| "cadrs (Lf i sib # C) = fst i # adrs sib @ cadrs C"
| "cadrs (Rt sib i # C) = fst i # adrs sib @ cadrs C"

definition focus :: "ngx_rbtree \<Rightarrow> step list \<Rightarrow> rbtree \<Rightarrow> bool" where
  "focus t C T \<longleftrightarrow>
     (\<exists>par. shape (rbt_mem t) (rbt_sentinel t) par T \<and>
        ctx (rbt_mem t) (rbt_sentinel t) (rbt_root t) (addr (rbt_sentinel t) T) par C) \<and>
     distinct (adrs T @ cadrs C) \<and> rbt_sentinel t \<notin> set (adrs T @ cadrs C) \<and>
     (\<exists>n. rbt_mem t (rbt_sentinel t) = Some n \<and> rb_color n = 0)"

text \<open>What an operation leaves alone: the sentinel, the nodes that exist, the memory outside \<open>A\<close>.\<close>

definition keeps :: "nat set \<Rightarrow> ngx_rbtree \<Rightarrow> ngx_rbtree \<Rightarrow> bool" where
  "keeps A t t' \<longleftrightarrow> rbt_sentinel t' = rbt_sentinel t \<and> dom (rbt_mem t') = dom (rbt_mem t) \<and>
     (\<forall>a. a \<notin> A \<longrightarrow> rbt_mem t' a = rbt_mem t a)"

lemma keeps_refl [simp]: "keeps A t t"
  by (simp add: keeps_def)

lemma keeps_trans: "keeps A t t' \<Longrightarrow> keeps A t' t'' \<Longrightarrow> keeps A t t''"
  by (simp add: keeps_def)

lemma keeps_mono: "keeps A t t' \<Longrightarrow> A \<subseteq> B \<Longrightarrow> keeps B t t'"
  by (auto simp: keeps_def)

lemma adrs_simps [simp]: "adrs \<langle>\<rangle> = []" "adrs \<langle>l, i, r\<rangle> = adrs l @ fst i # adrs r"
  by (simp_all add: adrs_def)

text \<open>Moving the focus.\<close>

lemma focus_Lf: "focus t (Lf i sib # C) T \<longleftrightarrow> focus t C \<langle>T, i, sib\<rangle>"
  by (cases i) (auto simp: focus_def)

lemma focus_Rt: "focus t (Rt sib i # C) T \<longleftrightarrow> focus t C \<langle>sib, i, T\<rangle>"
  by (cases i) (auto simp: focus_def)

text \<open>Updates outside the tree or the path.\<close>

lemma node_ok_upd [simp]: "b \<noteq> a \<Longrightarrow> node_ok (m(b := v)) a par l r red k = node_ok m a par l r red k"
  by (simp add: node_ok_def)

lemma shape_upd [simp]: "b \<notin> set (adrs T) \<Longrightarrow> shape (m(b := v)) s par T = shape m s par T"
  by (induction T arbitrary: par) auto

lemma ctx_upd [simp]: "b \<notin> set (cadrs C) \<Longrightarrow> ctx (m(b := v)) s root p par C = ctx m s root p par C"
  by (induction m s root p par C rule: ctx.induct) auto

section \<open>The mirror image\<close>

text \<open>Every operation on one side is the image of the one on the other side under the exchange of
  left and right.\<close>

definition mir_node :: "ngx_rbtree_node \<Rightarrow> ngx_rbtree_node" where
  "mir_node n = n\<lparr>rb_left := rb_right n, rb_right := rb_left n\<rparr>"

definition mir :: "ngx_rbtree \<Rightarrow> ngx_rbtree" where
  "mir t = t\<lparr>rbt_mem := map_option mir_node \<circ> rbt_mem t\<rparr>"

fun mir_step :: "step \<Rightarrow> step" where
  "mir_step (Lf i sib) = Rt (mirror sib) i"
| "mir_step (Rt sib i) = Lf i (mirror sib)"

lemma mir_node_mir [simp]: "mir_node (mir_node n) = n"
  by (simp add: mir_node_def)

lemma mir_mir [simp]: "mir (mir t) = t"
  by (simp add: mir_def o_def option.map_comp option.map_ident)

lemma mir_step_mir [simp]: "mir_step (mir_step f) = f"
  by (cases f) simp_all

lemma map_mir_step [simp]: "map mir_step (map mir_step C) = C"
  by (induction C) simp_all

lemma mir_fields [simp]: "rbt_root (mir t) = rbt_root t" "rbt_sentinel (mir t) = rbt_sentinel t"
  by (simp_all add: mir_def)

lemma mir_root [simp]: "mir (t\<lparr>rbt_root := p\<rparr>) = (mir t)\<lparr>rbt_root := p\<rparr>"
  by (simp add: mir_def)

lemma mir_reads [simp]:
  "rd_left p (mir t) = rd_right p t" "rd_right p (mir t) = rd_left p t" "rd_parent p (mir t) = rd_parent p t"
  "rd_color p (mir t) = rd_color p t" "rd_key p (mir t) = rd_key p t" "rd_grand p (mir t) = rd_grand p t"
  "ngx_rbt_is_red p (mir t) = ngx_rbt_is_red p t"
  by (simp_all add: rd_left_def rd_right_def rd_parent_def rd_color_def rd_key_def rd_grand_def ngx_rbt_is_red_def
      mir_def option.map_comp o_def mir_node_def)

lemma upd_node_mir:
  "upd_node p f (mir t) = map_option mir (upd_node p (mir_node \<circ> f \<circ> mir_node) t)"
  by (cases "rbt_mem t p") (auto simp: upd_node_def mir_def fun_eq_iff)

lemma mir_writes [simp]:
  "wr_left p v (mir t) = map_option mir (wr_right p v t)" "wr_right p v (mir t) = map_option mir (wr_left p v t)"
  "wr_parent p v (mir t) = map_option mir (wr_parent p v t)" "wr_color p c (mir t) = map_option mir (wr_color p c t)"
  "wr_key p k (mir t) = map_option mir (wr_key p k t)"
  "ngx_rbt_red p (mir t) = map_option mir (ngx_rbt_red p t)" "ngx_rbt_black p (mir t) = map_option mir (ngx_rbt_black p t)"
  by (simp_all add: wr_left_def wr_right_def wr_parent_def wr_color_def wr_key_def ngx_rbt_red_def ngx_rbt_black_def
      upd_node_mir o_def mir_node_def)

lemma map_bind_mir: "map_option mir m \<bind> f = m \<bind> (\<lambda>t. f (mir t))"
  by (cases m) simp_all

lemma bind_map_mir: "map_option g (m \<bind> f) = m \<bind> (\<lambda>x. map_option g (f x))"
  by (cases m) simp_all

lemma relink_mir:
  "relink_right_first node temp (mir t) = map_option mir (relink_left_first node temp t)"
  "relink_left_first node temp (mir t) = map_option mir (relink_right_first node temp t)"
  by (simp_all add: relink_left_first_def relink_right_first_def bind_map_mir if_distrib [of "map_option mir"]
      cong: if_cong)

lemma rotate_mir:
  "ngx_rbtree_right_rotate node (mir t) = map_option mir (ngx_rbtree_left_rotate node t)"
  "ngx_rbtree_left_rotate node (mir t) = map_option mir (ngx_rbtree_right_rotate node t)"
proof -
  have if_mir: "(if b then wr_parent p q (mir t) else Some (mir t)) = map_option mir (if b then wr_parent p q t else Some t)"
    for b p q t by simp
  show "ngx_rbtree_right_rotate node (mir t) = map_option mir (ngx_rbtree_left_rotate node t)"
    by (simp add: ngx_rbtree_left_rotate_def ngx_rbtree_right_rotate_def bind_map_mir map_bind_mir relink_mir if_mir)
  show "ngx_rbtree_left_rotate node (mir t) = map_option mir (ngx_rbtree_right_rotate node t)"
    by (simp add: ngx_rbtree_left_rotate_def ngx_rbtree_right_rotate_def bind_map_mir map_bind_mir relink_mir if_mir)
qed

lemma node_ok_mir: "node_ok (\<lambda>x. map_option mir_node (m x)) a par l r red k = node_ok m a par r l red k"
  by (cases "m a") (auto simp: node_ok_def mir_node_def)

lemma addr_mirror [simp]: "addr s (mirror T) = addr s T"
  by (cases "(s, T)" rule: addr.cases) auto

lemma inorder_mirror [simp]: "inorder (mirror T) = rev (inorder T)"
  by (induction T) simp_all

lemma adrs_mirror [simp]: "adrs (mirror T) = rev (adrs T)"
  by (simp add: adrs_def rev_map)

lemma shape_mir: "shape (\<lambda>x. map_option mir_node (m x)) s par (mirror T) = shape m s par T"
  by (induction m s par T rule: shape.induct) (auto simp: node_ok_mir)

lemma ctx_mir: "ctx (\<lambda>x. map_option mir_node (m x)) s root p par (map mir_step C) = ctx m s root p par C"
  by (induction m s root p par C rule: ctx.induct) (auto simp: node_ok_mir shape_mir)

lemma set_cadrs_mir [simp]: "set (cadrs (map mir_step C)) = set (cadrs C)"
  by (induction C rule: cadrs.induct) auto

lemma distinct_cadrs_mir [simp]: "distinct (cadrs (map mir_step C)) = distinct (cadrs C)"
  by (induction C rule: cadrs.induct) auto

lemma focus_mir: "focus (mir t) (map mir_step C) (mirror T) = focus t C T"
  by (auto simp: focus_def mir_def shape_mir ctx_mir mir_node_def o_def)

lemma mir_node_inject [simp]: "mir_node a = mir_node b \<longleftrightarrow> a = b"
  by (metis mir_node_mir)

lemma keeps_mir: "keeps A (mir t) (mir t') = keeps A t t'"
proof -
  have "map_option mir_node x = map_option mir_node y \<longleftrightarrow> x = y" for x y
    by (cases x; cases y) simp_all
  then show ?thesis by (simp add: keeps_def mir_def dom_def)
qed

section \<open>Rotations\<close>

lemma ctx_root: "ctx m s root p par C \<Longrightarrow> root \<in> insert p (set (cadrs C))"
  by (induction m s root p par C rule: ctx.induct) auto

lemmas memory_simps = rd_left_def rd_right_def rd_parent_def rd_color_def rd_key_def rd_grand_def
  wr_left_def wr_right_def wr_parent_def wr_color_def wr_key_def upd_node_def

lemma addr_sentinel: "s \<notin> set (adrs T) \<Longrightarrow> addr s T = s \<longleftrightarrow> T = \<langle>\<rangle>"
  by (cases "(s, T)" rule: addr.cases) auto

lemma addr_in: "addr s T \<in> insert s (set (adrs T))"
  by (cases "(s, T)" rule: addr.cases) auto

text \<open>Reading and writing one node.\<close>

lemma node_reads:
  assumes "node_ok (rbt_mem t) a par l r red k"
  shows "rd_left a t = Some l" "rd_right a t = Some r" "rd_parent a t = Some par" "rd_key a t = Some k"
    "ngx_rbt_is_red a t = Some red"
  using assms by (auto simp: node_ok_def memory_simps ngx_rbt_is_red_def)

lemma node_writes:
  assumes "node_ok (rbt_mem t) a par l r red k"
  shows "\<exists>t'. wr_left a v t = Some t' \<and> keeps {a} t t' \<and> rbt_root t' = rbt_root t \<and> node_ok (rbt_mem t') a par v r red k"
    "\<exists>t'. wr_right a v t = Some t' \<and> keeps {a} t t' \<and> rbt_root t' = rbt_root t \<and> node_ok (rbt_mem t') a par l v red k"
    "\<exists>t'. wr_parent a v t = Some t' \<and> keeps {a} t t' \<and> rbt_root t' = rbt_root t \<and> node_ok (rbt_mem t') a v l r red k"
    "\<exists>t'. wr_color a c t = Some t' \<and> keeps {a} t t' \<and> rbt_root t' = rbt_root t \<and> node_ok (rbt_mem t') a par l r (c \<noteq> 0) k"
  using assms by (auto simp: node_ok_def memory_simps keeps_def)

text \<open>What an operation keeps of the parts of the memory it does not touch.\<close>

lemma node_keeps: "keeps A t t' \<Longrightarrow> a \<notin> A \<Longrightarrow>
    node_ok (rbt_mem t') a par l r red k = node_ok (rbt_mem t) a par l r red k"
  by (simp add: keeps_def node_ok_def)

lemma shape_keeps: "keeps A t t' \<Longrightarrow> A \<inter> set (adrs T) = {} \<Longrightarrow>
    shape (rbt_mem t') s par T = shape (rbt_mem t) s par T"
  by (induction "rbt_mem t" s par T rule: shape.induct) (auto simp: node_keeps)

lemma ctx_keeps: "keeps A t t' \<Longrightarrow> A \<inter> set (cadrs C) = {} \<Longrightarrow>
    ctx (rbt_mem t') s root p par C = ctx (rbt_mem t) s root p par C"
  by (induction "rbt_mem t" s root p par C rule: ctx.induct) (simp_all add: node_keeps shape_keeps Int_Un_distrib)

lemma sentinel_keeps: "keeps A t t' \<Longrightarrow> rbt_sentinel t \<notin> A \<Longrightarrow>
    rbt_sentinel t' = rbt_sentinel t \<and> rbt_mem t' (rbt_sentinel t) = rbt_mem t (rbt_sentinel t)"
  by (simp add: keeps_def)

lemmas part_keeps = node_keeps shape_keeps ctx_keeps

text \<open>The parent of the subtree that a rotation moves.\<close>

lemma set_parent_ok:
  assumes "shape (rbt_mem t) s par T" "s \<notin> set (adrs T)" "distinct (adrs T)"
  shows "\<exists>t'. (if addr s T \<noteq> s then wr_parent (addr s T) v t else Some t) = Some t' \<and>
    keeps (set (adrs T)) t t' \<and> rbt_root t' = rbt_root t \<and> shape (rbt_mem t') s v T"
proof (cases "(s, T)" rule: addr.cases)
  case (2 s' l a red k r)
  with assms have "node_ok (rbt_mem t) a par (addr s l) (addr s r) red k" by simp
  from node_writes(3) [OF this, of v] obtain t'
    where W: "wr_parent a v t = Some t'" "keeps {a} t t'" "rbt_root t' = rbt_root t"
      "node_ok (rbt_mem t') a v (addr s l) (addr s r) red k" by blast
  with 2 assms show ?thesis
    by (auto simp: shape_keeps [OF W(2)] elim: keeps_mono)
qed simp

text \<open>The pointer from above.\<close>

lemma relink_ok:
  assumes "ctx (rbt_mem t) s (rbt_root t) p par C" "rd_parent p t = Some par"
    "p \<noteq> s" "p \<notin> set (cadrs C)" "distinct (cadrs C)"
  shows "\<exists>t'. relink_left_first p q t = Some t' \<and> keeps (set (cadrs C)) t t' \<and>
    ctx (rbt_mem t') s (rbt_root t') q par C"
proof (cases C)
  case Nil
  with assms show ?thesis by (auto simp: relink_left_first_def keeps_def)
next
  case (Cons f C')
  obtain a red k sib where "f = Lf (a, red, k) sib \<or> f = Rt sib (a, red, k)"
    by (cases f) auto
  then show ?thesis
  proof
    assume C: "f = Lf (a, red, k) sib"
    with assms Cons obtain gp where n: "node_ok (rbt_mem t) a gp p (addr s sib) red k" and par: "par = a"
      and c: "ctx (rbt_mem t) s (rbt_root t) a gp C'" "shape (rbt_mem t) s a sib" by auto
    have d: "a \<notin> set (adrs sib)" "a \<notin> set (cadrs C')" "p \<noteq> rbt_root t"
      using ctx_root [OF c(1)] assms Cons C by auto
    from node_writes(1) [OF n, of q] obtain t' where W: "wr_left a q t = Some t'" "keeps {a} t t'"
      "rbt_root t' = rbt_root t" "node_ok (rbt_mem t') a gp q (addr s sib) red k" by blast
    have "relink_left_first p q t = Some t'"
      using assms(2) d by (simp add: relink_left_first_def par node_reads [OF n] W)
    moreover have "ctx (rbt_mem t') s (rbt_root t') q par C"
      using c d W(4) by (auto simp: Cons C par part_keeps [OF W(2)] W(3))
    ultimately show ?thesis using keeps_mono [OF W(2)] by (auto simp: Cons C)
  next
    assume C: "f = Rt sib (a, red, k)"
    with assms Cons obtain gp where n: "node_ok (rbt_mem t) a gp (addr s sib) p red k" and par: "par = a"
      and c: "ctx (rbt_mem t) s (rbt_root t) a gp C'" "shape (rbt_mem t) s a sib" by auto
    have d: "a \<notin> set (adrs sib)" "a \<notin> set (cadrs C')" "p \<noteq> rbt_root t" "p \<noteq> addr s sib"
      using ctx_root [OF c(1)] addr_in [of s sib] assms Cons C by auto
    from node_writes(2) [OF n, of q] obtain t' where W: "wr_right a q t = Some t'" "keeps {a} t t'"
      "rbt_root t' = rbt_root t" "node_ok (rbt_mem t') a gp (addr s sib) q red k" by blast
    have "relink_left_first p q t = Some t'"
      using assms(2) d by (simp add: relink_left_first_def par node_reads [OF n] W)
    moreover have "ctx (rbt_mem t') s (rbt_root t') q par C"
      using c d W(4) by (auto simp: Cons C par part_keeps [OF W(2)] W(3))
    ultimately show ?thesis using keeps_mono [OF W(2)] by (auto simp: Cons C)
  qed
qed

lemma left_rotate_focus:
  assumes "focus t C \<langle>A, (x, rx, kx), \<langle>B, (y, ry, ky), D\<rangle>\<rangle>"
  shows "\<exists>t'. ngx_rbtree_left_rotate x t = Some t' \<and> focus t' C \<langle>\<langle>A, (x, rx, kx), B\<rangle>, (y, ry, ky), D\<rangle> \<and>
    keeps (set (x # y # adrs B @ cadrs C)) t t'"
proof -
  define s where "s = rbt_sentinel t"
  from assms obtain par n where nx: "node_ok (rbt_mem t) x par (addr s A) y rx kx"
    and ny: "node_ok (rbt_mem t) y x (addr s B) (addr s D) ry ky"
    and sh: "shape (rbt_mem t) s x A" "shape (rbt_mem t) s y B" "shape (rbt_mem t) s y D"
    and c: "ctx (rbt_mem t) s (rbt_root t) x par C" and n: "rbt_mem t s = Some n" "rb_color n = 0"
    unfolding focus_def s_def by auto
  from assms have d: "distinct (x # y # adrs A @ adrs B @ adrs D @ cadrs C)"
    and s: "s \<notin> set (x # y # adrs A @ adrs B @ adrs D @ cadrs C)"
    unfolding focus_def s_def by auto
  from node_writes(2) [OF nx, of "addr s B"] obtain t1 where W1: "wr_right x (addr s B) t = Some t1" "keeps {x} t t1"
    "rbt_root t1 = rbt_root t" "node_ok (rbt_mem t1) x par (addr s A) (addr s B) rx kx" by blast
  have ny1: "node_ok (rbt_mem t1) y x (addr s B) (addr s D) ry ky"
    using ny d by (simp add: part_keeps [OF W1(2)])
  have s1: "rbt_sentinel t1 = s" using W1(2) by (simp add: keeps_def s_def)
  have "shape (rbt_mem t1) s y B" using sh d by (simp add: part_keeps [OF W1(2)])
  from set_parent_ok [OF this, of x] s d obtain t2 where
    W2: "(if addr s B \<noteq> s then wr_parent (addr s B) x t1 else Some t1) = Some t2" "keeps (set (adrs B)) t1 t2"
      "rbt_root t2 = rbt_root t1" "shape (rbt_mem t2) s x B" by auto
  have nx2: "node_ok (rbt_mem t2) x par (addr s A) (addr s B) rx kx" 
    and ny2: "node_ok (rbt_mem t2) y x (addr s B) (addr s D) ry ky"
    using W1(4) ny1 d by (simp_all add: part_keeps [OF W2(2)])
  from node_writes(3) [OF ny2, of par] obtain t3 where W3: "wr_parent y par t2 = Some t3" "keeps {y} t2 t3"
    "rbt_root t3 = rbt_root t2" "node_ok (rbt_mem t3) y par (addr s B) (addr s D) ry ky" by blast
  have nx3: "node_ok (rbt_mem t3) x par (addr s A) (addr s B) rx kx"
    using nx2 d by (simp add: part_keeps [OF W3(2)])
  have k3: "keeps (set (x # y # adrs B)) t t3"
    using W1(2) W2(2) W3(2) by (auto simp: keeps_def)
  have "ctx (rbt_mem t3) s (rbt_root t3) x par C"
    using c d by (simp add: part_keeps [OF k3] W1(3) W2(3) W3(3) Int_Un_distrib)
  from relink_ok [OF this node_reads(3) [OF nx3], of y] s d obtain t4 where
    W4: "relink_left_first x y t3 = Some t4" "keeps (set (cadrs C)) t3 t4" "ctx (rbt_mem t4) s (rbt_root t4) y par C" by auto
  have nx4: "node_ok (rbt_mem t4) x par (addr s A) (addr s B) rx kx" 
    and ny4: "node_ok (rbt_mem t4) y par (addr s B) (addr s D) ry ky"
    using nx3 W3(4) d by (simp_all add: part_keeps [OF W4(2)])
  from node_writes(1) [OF ny4, of x] obtain t5 where W5: "wr_left y x t4 = Some t5" "keeps {y} t4 t5"
    "rbt_root t5 = rbt_root t4" "node_ok (rbt_mem t5) y par x (addr s D) ry ky" by blast
  have nx5: "node_ok (rbt_mem t5) x par (addr s A) (addr s B) rx kx"
    using nx4 d by (simp add: part_keeps [OF W5(2)])
  from node_writes(3) [OF nx5, of y] obtain t6 where W6: "wr_parent x y t5 = Some t6" "keeps {x} t5 t6"
    "rbt_root t6 = rbt_root t5" "node_ok (rbt_mem t6) x y (addr s A) (addr s B) rx kx" by blast
  have "ngx_rbtree_left_rotate x t = Some t6"
    unfolding ngx_rbtree_left_rotate_def
    by (simp only: node_reads [OF nx] node_reads [OF ny] node_reads [OF ny1] node_reads [OF nx2] W1(1) W3(1) W4(1) W5(1) W6(1)
        W2(1) s1 Option.bind.simps)
  moreover have K: "keeps (set (x # y # adrs B @ cadrs C)) t t6"
    using k3 W4(2) W5(2) W6(2) by (auto simp: keeps_def)
  moreover have "focus t6 C \<langle>\<langle>A, (x, rx, kx), B\<rangle>, (y, ry, ky), D\<rangle>"
  proof -
    have "shape (rbt_mem t6) s x A" "shape (rbt_mem t6) s y D" "rbt_sentinel t6 = s" "rbt_mem t6 s = Some n"
      using sh n s d by (simp_all add: part_keeps [OF K] sentinel_keeps [OF K, folded s_def] Int_Un_distrib Int_commute)
    moreover have "shape (rbt_mem t6) s x B" "ctx (rbt_mem t6) s (rbt_root t6) y par C" "node_ok (rbt_mem t6) y par x (addr s D) ry ky"
      using W2(4) W4(3) W5(4) d
      by (simp_all add: part_keeps [OF W6(2)] part_keeps [OF W5(2)] part_keeps [OF W4(2)] part_keeps [OF W3(2)]
          W5(3) W6(3) Int_Un_distrib Int_commute)
    ultimately show ?thesis
      using W6(4) n s d unfolding focus_def by (auto simp: Int_commute)
  qed
  ultimately show ?thesis by blast
qed

lemma right_rotate_focus:
  assumes "focus t C \<langle>\<langle>A, (x, rx, kx), B\<rangle>, (y, ry, ky), D\<rangle>"
  shows "\<exists>t'. ngx_rbtree_right_rotate y t = Some t' \<and> focus t' C \<langle>A, (x, rx, kx), \<langle>B, (y, ry, ky), D\<rangle>\<rangle> \<and>
    keeps (set (x # y # adrs B @ cadrs C)) t t'"
proof -
  have "focus (mir t) (map mir_step C) \<langle>mirror D, (y, ry, ky), \<langle>mirror B, (x, rx, kx), mirror A\<rangle>\<rangle>"
    using assms focus_mir [of t C "\<langle>\<langle>A, (x, rx, kx), B\<rangle>, (y, ry, ky), D\<rangle>"] by simp
  from left_rotate_focus [OF this] obtain t' where t': "ngx_rbtree_left_rotate y (mir t) = Some t'"
    "focus t' (map mir_step C) \<langle>\<langle>mirror D, (y, ry, ky), mirror B\<rangle>, (x, rx, kx), mirror A\<rangle>"
    "keeps (set (x # y # adrs B @ cadrs C)) (mir t) t'"
    by (auto simp: insert_commute)
  have "ngx_rbtree_right_rotate y t = Some (mir t')"
    using rotate_mir(1) [of y "mir t"] t'(1) by simp
  moreover have "focus (mir t') C \<langle>A, (x, rx, kx), \<langle>B, (y, ry, ky), D\<rangle>\<rangle>"
    using t'(2) focus_mir [of "mir t'" C "\<langle>A, (x, rx, kx), \<langle>B, (y, ry, ky), D\<rangle>\<rangle>"] by simp
  moreover have "keeps (set (x # y # adrs B @ cadrs C)) t (mir t')"
    using t'(3) keeps_mir [of _ t "mir t'"] by simp
  ultimately show ?thesis by blast
qed

section \<open>Reading and colouring at the focus\<close>

fun red :: "rbtree \<Rightarrow> bool" where
  "red \<langle>\<rangle> \<longleftrightarrow> False"
| "red \<langle>l, (a, c, k), r\<rangle> \<longleftrightarrow> c"

fun plug :: "step list \<Rightarrow> rbtree \<Rightarrow> rbtree" where
  "plug [] T = T"
| "plug (Lf i sib # C) T = plug C \<langle>T, i, sib\<rangle>"
| "plug (Rt sib i # C) T = plug C \<langle>sib, i, T\<rangle>"

lemma focus_plug: "focus t C T \<longleftrightarrow> focus t [] (plug C T)"
  by (induction C T rule: plug.induct) (simp_all add: focus_Lf focus_Rt)

lemma adrs_plug: "set (adrs (plug C T)) = set (adrs T) \<union> set (cadrs C)"
  by (induction C T rule: plug.induct) auto

lemma focus_reads:
  assumes "focus t C \<langle>l, (a, c, k), r\<rangle>"
  shows "rd_left a t = Some (addr (rbt_sentinel t) l)" "rd_right a t = Some (addr (rbt_sentinel t) r)"
    "rd_key a t = Some k" "ngx_rbt_is_red a t = Some c"
  using assms node_reads [of t a] by (auto simp: focus_def)

fun above :: "step \<Rightarrow> nat" where
  "above (Lf i sib) = fst i"
| "above (Rt sib i) = fst i"

lemma focus_parent: "focus t (f # C) \<langle>l, (a, i), r\<rangle> \<Longrightarrow> rd_parent a t = Some (above f)"
  by (cases i; cases f) (auto simp: focus_def dest: node_reads)

lemma focus_grand: "focus t (f # g # C) \<langle>l, (a, i), r\<rangle> \<Longrightarrow> rd_grand a t = Some (above g)"
proof -
  assume F: "focus t (f # g # C) \<langle>l, (a, i), r\<rangle>"
  then have "\<exists>l' j r'. focus t (g # C) \<langle>l', (above f, j), r'\<rangle>"
    by (cases f) (force simp: focus_Lf focus_Rt)+
  then show ?thesis using focus_parent [OF F] by (auto simp: rd_grand_def focus_parent)
qed

lemma focus_is_red: "focus t C T \<Longrightarrow> ngx_rbt_is_red (addr (rbt_sentinel t) T) t = Some (red T)"
  by (cases "(rbt_sentinel t, T)" rule: addr.cases) (auto simp: focus_def ngx_rbt_is_red_def memory_simps node_ok_def)

lemma focus_root: "focus t C \<langle>l, (a, i), r\<rangle> \<Longrightarrow> rbt_root t = a \<longleftrightarrow> C = []"
proof (cases C)
  case (Cons f C')
  assume "focus t C \<langle>l, (a, i), r\<rangle>"
  then obtain par where "ctx (rbt_mem t) (rbt_sentinel t) (rbt_root t) a par C" and a: "a \<notin> set (cadrs C)"
    by (cases i) (auto simp: focus_def)
  with Cons have "rbt_root t \<in> set (cadrs C)"
    by (cases f) (auto dest: ctx_root)
  with a Cons show ?thesis by auto
qed (cases i; auto simp: focus_def)

lemma focus_color:
  assumes "focus t C \<langle>l, (a, c, k), r\<rangle>"
  shows "\<exists>t'. wr_color a v t = Some t' \<and> focus t' C \<langle>l, (a, v \<noteq> 0, k), r\<rangle> \<and> keeps {a} t t' \<and> rbt_root t' = rbt_root t"
proof -
  from assms obtain par where n: "node_ok (rbt_mem t) a par (addr (rbt_sentinel t) l) (addr (rbt_sentinel t) r) c k"
    by (auto simp: focus_def)
  from node_writes(4) [OF this, of v] obtain t' where t': "wr_color a v t = Some t'" "keeps {a} t t'"
    "rbt_root t' = rbt_root t" "node_ok (rbt_mem t') a par (addr (rbt_sentinel t) l) (addr (rbt_sentinel t) r) (v \<noteq> 0) k"
    by blast
  moreover have "focus t' C \<langle>l, (a, v \<noteq> 0, k), r\<rangle>"
    using assms t'(4) n unfolding focus_def
    by (auto simp: part_keeps [OF t'(2)] t'(3) sentinel_keeps [OF t'(2)] node_ok_def)
  ultimately show ?thesis by blast
qed

text \<open>The node above the focus, with the focus below it, and painted trees.\<close>

fun close :: "step \<Rightarrow> rbtree \<Rightarrow> rbtree" where
  "close (Lf i sib) T = \<langle>T, i, sib\<rangle>"
| "close (Rt sib i) T = \<langle>sib, i, T\<rangle>"

fun paint :: "bool \<Rightarrow> rbtree \<Rightarrow> rbtree" where
  "paint c \<langle>\<rangle> = \<langle>\<rangle>"
| "paint c \<langle>l, (a, _, k), r\<rangle> = \<langle>l, (a, c, k), r\<rangle>"

fun paint_step :: "bool \<Rightarrow> step \<Rightarrow> step" where
  "paint_step c (Lf (a, _, k) sib) = Lf (a, c, k) sib"
| "paint_step c (Rt sib (a, _, k)) = Rt sib (a, c, k)"

lemma focus_close: "focus t (f # C) T = focus t C (close f T)"
  by (cases f) (simp_all add: focus_Lf focus_Rt)

lemma close_above: "\<exists>l i r. close f T = \<langle>l, (above f, i), r\<rangle>"
  by (cases f) auto

lemma close_paint_step: "close (paint_step c f) T = paint c (close f T)"
  by (cases "(c, f)" rule: paint_step.cases) auto

lemma above_paint_step [simp]: "above (paint_step c f) = above f"
  by (cases "(c, f)" rule: paint_step.cases) auto

lemma focus_paint:
  assumes "focus t C T" "T = \<langle>l, (a, i), r\<rangle>"
  shows "\<exists>t'. ngx_rbt_red a t = Some t' \<and> focus t' C (paint True T) \<and> keeps {a} t t'"
    "\<exists>t'. ngx_rbt_black a t = Some t' \<and> focus t' C (paint False T) \<and> keeps {a} t t'"
  using focus_color [of t C l a "fst i" "snd i" r 0] focus_color [of t C l a "fst i" "snd i" r 1] assms
  by (cases i; auto simp: ngx_rbt_red_def ngx_rbt_black_def)+

end
