(* ===== verification/Ngx_Rbtree_Insert.thy ===== *)
theory Ngx_Rbtree_Insert
  imports Ngx_Rbtree "HOL-Library.Multiset"
begin

text \<open>
  Insertion into the red-black trees of \<open>src/core/ngx_rbtree.c\<close>, and their traversal. The invariants
  are stated for a tree and for the path above it, so that the loop of \<open>ngx_rbtree_insert\<close>, which
  climbs along the parent pointers, is an induction on the length of the path. The order of the
  keys is the contract \<open>rbt_order\<close> of the function \<open>tree->insert\<close>; both functions of the file
  meet it, the one of the timers for keys in a window of half the range.
\<close>

section \<open>One step of the re-balancing loop\<close>

lemma turn_right_focus:
  assumes "focus t (Lf (p, cp, kp) sib # Lf (g, cg, kg) unc # C) T" "T = \<langle>l, (n, i), r\<rangle>"
  shows "\<exists>t'. insert_turn_right n t = Some (n, t') \<and> focus t' C \<langle>T, (p, False, kp), \<langle>sib, (g, True, kg), unc\<rangle>\<rangle> \<and>
    keeps (set (p # g # adrs sib @ cadrs C)) t t'"
proof -
  have "focus t (Lf (g, cg, kg) unc # C) \<langle>T, (p, cp, kp), sib\<rangle>"
    using assms(1) by (simp add: focus_Lf)
  from focus_paint(2) [OF this refl] obtain t1
    where 1: "ngx_rbt_black p t = Some t1" "focus t1 C \<langle>\<langle>T, (p, False, kp), sib\<rangle>, (g, cg, kg), unc\<rangle>" "keeps {p} t t1"
    by (auto simp: focus_Lf)
  from focus_paint(1) [OF 1(2) refl] obtain t2
    where 2: "ngx_rbt_red g t1 = Some t2" "focus t2 C \<langle>\<langle>T, (p, False, kp), sib\<rangle>, (g, True, kg), unc\<rangle>" "keeps {g} t1 t2"
    by auto
  from right_rotate_focus [OF 2(2)] obtain t3 where 3: "ngx_rbtree_right_rotate g t2 = Some t3"
    "focus t3 C \<langle>T, (p, False, kp), \<langle>sib, (g, True, kg), unc\<rangle>\<rangle>" "keeps (set (p # g # adrs sib @ cadrs C)) t2 t3"
    by auto
  have g: "rd_grand n t1 = Some g" "rd_grand n t2 = Some g"
    using focus_grand [of _ "Lf (p, False, kp) sib" "Lf (g, _, kg) unc" C] 1(2) 2(2) assms(2) by (auto simp: focus_Lf)
  have "insert_turn_right n t = Some (n, t3)"
    using focus_parent [OF assms(1) [unfolded assms(2)]] by (simp add: insert_turn_right_def 1(1) 2(1) 3(1) g)
  moreover have "keeps (set (p # g # adrs sib @ cadrs C)) t t3"
    using 1(3) 2(3) 3(3) by (auto simp: keeps_def)
  ultimately show ?thesis using 3(2) by blast
qed

lemma step_left_uncle:
  assumes F: "focus t (f # Lf (g, cg, kg) unc # C) T" and T: "T = \<langle>l, (n, i), r\<rangle>" and "red unc"
  shows "\<exists>t'. insert_step_left n t = Some (g, t') \<and>
    focus t' C \<langle>paint False (close f T), (g, True, kg), paint False unc\<rangle> \<and>
    keeps {above f, g, addr 0 unc} t t'"
proof -
  obtain ul u cu ku ur where unc: "unc = \<langle>ul, (u, cu, ku), ur\<rangle>" using \<open>red unc\<close> by (cases unc rule: red.cases) auto
  obtain pl pi pr where p: "close f T = \<langle>pl, (above f, pi), pr\<rangle>" using close_above by blast
  from F have F1: "focus t (Lf (g, cg, kg) unc # C) (close f T)" by (simp add: focus_close)
  from focus_paint(2) [OF this p] obtain t1 where 1: "ngx_rbt_black (above f) t = Some t1"
    "focus t1 (Lf (g, cg, kg) unc # C) (paint False (close f T))" "keeps {above f} t t1" by blast
  then have "focus t1 (Rt (paint False (close f T)) (g, cg, kg) # C) unc"
    by (simp add: focus_Lf focus_Rt)
  from focus_paint(2) [OF this unc] obtain t2 where 2: "ngx_rbt_black u t1 = Some t2"
    "focus t2 C \<langle>paint False (close f T), (g, cg, kg), paint False unc\<rangle>" "keeps {u} t1 t2"
    by (auto simp: focus_Rt)
  from focus_paint(1) [OF 2(2) refl] obtain t3 where 3: "ngx_rbt_red g t2 = Some t3"
    "focus t3 C \<langle>paint False (close f T), (g, True, kg), paint False unc\<rangle>" "keeps {g} t2 t3"
    by auto
  have g: "rd_grand n t = Some g" "rd_grand n t2 = Some g" "rd_grand n t3 = Some g"
    using focus_grand [of _ f "Lf (g, cg, kg) unc" C] focus_grand [of _ "paint_step False f" "Lf (g, _, kg) (paint False unc)" C]
      F 2(2) 3(2) T by (auto simp: focus_Lf focus_close close_paint_step)
  have "rd_right g t = Some u" "ngx_rbt_is_red u t = Some True"
    using focus_reads(2) [of t C "close f T" g cg kg unc] F1 focus_is_red [of t "Rt (close f T) (g, cg, kg) # C" unc] \<open>red unc\<close>
    by (auto simp: focus_Lf focus_Rt unc)
  then have "insert_step_left n t = Some (g, t3)"
    using focus_parent [OF F [unfolded T]] by (simp add: insert_step_left_def 1(1) 2(1) 3(1) g)
  moreover have "keeps {above f, g, addr 0 unc} t t3"
    using 1(3) 2(3) 3(3) unc by (auto simp: keeps_def)
  ultimately show ?thesis using 3(2) by blast
qed

lemma focus_sibling:
  assumes "focus t (Lf (a, c, k) sib # C) \<langle>l, (n, i), r\<rangle>"
  shows "rd_right a t = Some (addr (rbt_sentinel t) sib)" "n \<noteq> addr (rbt_sentinel t) sib"
    "rd_left a t = Some n" "ngx_rbt_is_red (addr (rbt_sentinel t) sib) t = Some (red sib)"
  using focus_reads [of t C "\<langle>l, (n, i), r\<rangle>" a c k sib] focus_is_red [of t "Rt \<langle>l, (n, i), r\<rangle> (a, c, k) # C" sib]
    addr_in [of "rbt_sentinel t" sib] assms
  by (cases i; auto simp: focus_Lf focus_Rt focus_def)+

lemma step_left_outer:
  assumes F: "focus t (Lf (p, cp, kp) sib # Lf (g, cg, kg) unc # C) T" and T: "T = \<langle>l, (n, i), r\<rangle>" and "\<not> red unc"
  shows "\<exists>t'. insert_step_left n t = Some (n, t') \<and> focus t' C \<langle>T, (p, False, kp), \<langle>sib, (g, True, kg), unc\<rangle>\<rangle> \<and>
    keeps (set (p # g # adrs sib @ cadrs C)) t t'"
proof -
  have "focus t (Lf (g, cg, kg) unc # C) \<langle>T, (p, cp, kp), sib\<rangle>" using F by (simp add: focus_Lf)
  note U = focus_sibling [OF this] and S = focus_sibling [OF F [unfolded T]]
    and P = focus_parent [OF F [unfolded T]] focus_grand [OF F [unfolded T]]
  from turn_right_focus [OF F T] obtain t' where "insert_turn_right n t = Some (n, t')"
    "focus t' C \<langle>T, (p, False, kp), \<langle>sib, (g, True, kg), unc\<rangle>\<rangle>" "keeps (set (p # g # adrs sib @ cadrs C)) t t'"
    by blast
  with U S P \<open>\<not> red unc\<close> show ?thesis by (simp add: insert_step_left_def)
qed

lemma step_left_inner:
  assumes F: "focus t (Rt sib (p, cp, kp) # Lf (g, cg, kg) unc # C) \<langle>L, (n, cn, kn), R\<rangle>" and "\<not> red unc"
  shows "\<exists>t'. insert_step_left n t = Some (p, t') \<and>
    focus t' C \<langle>\<langle>sib, (p, cp, kp), L\<rangle>, (n, False, kn), \<langle>R, (g, True, kg), unc\<rangle>\<rangle> \<and>
    keeps (set (p # n # g # adrs L @ adrs R @ adrs unc @ cadrs C)) t t'"
proof -
  have F1: "focus t (Lf (g, cg, kg) unc # C) \<langle>sib, (p, cp, kp), \<langle>L, (n, cn, kn), R\<rangle>\<rangle>" using F by (simp add: focus_Rt)
  from left_rotate_focus [OF F1] obtain t1 where 1: "ngx_rbtree_left_rotate p t = Some t1"
    "focus t1 (Lf (n, cn, kn) R # Lf (g, cg, kg) unc # C) \<langle>sib, (p, cp, kp), L\<rangle>"
    "keeps (set (p # n # adrs L @ g # adrs unc @ cadrs C)) t t1" by (auto simp: focus_Lf)
  from turn_right_focus [OF 1(2) refl] obtain t2 where 2: "insert_turn_right p t1 = Some (p, t2)"
    "focus t2 C \<langle>\<langle>sib, (p, cp, kp), L\<rangle>, (n, False, kn), \<langle>R, (g, True, kg), unc\<rangle>\<rangle>"
    "keeps (set (n # g # adrs R @ cadrs C)) t1 t2" by blast
  have "rd_right p t = Some n" using focus_reads(2) [OF F1] by simp
  then have "insert_step_left n t = Some (p, t2)"
    using focus_sibling [OF F1] focus_parent [OF F] focus_grand [OF F] \<open>\<not> red unc\<close> 1(1) 2(1)
    by (simp add: insert_step_left_def)
  moreover have "keeps (set (p # n # g # adrs L @ adrs R @ adrs unc @ cadrs C)) t t2"
    using 1(3) 2(3) by (auto simp: keeps_def)
  ultimately show ?thesis using 2(2) by blast
qed

section \<open>The invariants\<close>

text \<open>Black height, the red-black rules inside a tree, and around a hole for a subtree of black
  height \<open>b\<close>. A context says nothing on the colours of the hole and the node above it.\<close>

fun bh :: "rbtree \<Rightarrow> nat" where
  "bh \<langle>\<rangle> = 0"
| "bh \<langle>l, (a, c, k), r\<rangle> = bh l + (if c then 0 else 1)"

fun rb :: "rbtree \<Rightarrow> bool" where
  "rb \<langle>\<rangle> \<longleftrightarrow> True"
| "rb \<langle>l, (a, c, k), r\<rangle> \<longleftrightarrow> (c \<longrightarrow> \<not> red l \<and> \<not> red r) \<and> bh l = bh r \<and> rb l \<and> rb r"

fun hole_red :: "step list \<Rightarrow> bool" where
  "hole_red [] \<longleftrightarrow> False"
| "hole_red (Lf (a, c, k) sib # C) \<longleftrightarrow> c"
| "hole_red (Rt sib (a, c, k) # C) \<longleftrightarrow> c"

fun hole_ok :: "step list \<Rightarrow> nat \<Rightarrow> bool" where
  "hole_ok [] b \<longleftrightarrow> True"
| "hole_ok (Lf (a, c, k) sib # C) b \<longleftrightarrow>
     rb sib \<and> bh sib = b \<and> (c \<longrightarrow> \<not> red sib \<and> C \<noteq> [] \<and> \<not> hole_red C) \<and> hole_ok C (b + (if c then 0 else 1))"
| "hole_ok (Rt sib (a, c, k) # C) b \<longleftrightarrow>
     rb sib \<and> bh sib = b \<and> (c \<longrightarrow> \<not> red sib \<and> C \<noteq> [] \<and> \<not> hole_red C) \<and> hole_ok C (b + (if c then 0 else 1))"

lemma rb_plug: "rb T \<Longrightarrow> hole_ok C (bh T) \<Longrightarrow> (red T \<longrightarrow> \<not> hole_red C) \<Longrightarrow> rb (plug C T)"
  by (induction C T rule: plug.induct) (auto split: if_splits)

lemma red_plug: "hole_ok C b \<Longrightarrow> C \<noteq> [] \<Longrightarrow> \<not> red (plug C T)"
proof (induction C T arbitrary: b rule: plug.induct)
  case (2 i sib C T)
  then show ?case by (cases i; cases "C = []") auto
next
  case (3 sib i C T)
  then show ?case by (cases i; cases "C = []") auto
qed simp

lemma plug_rb: "rb (plug C T) \<Longrightarrow> \<not> red (plug C T) \<Longrightarrow> rb T \<and> hole_ok C (bh T) \<and> (red T \<longrightarrow> \<not> hole_red C \<and> C \<noteq> [])"
proof (induction C T rule: plug.induct)
  case (2 i sib C T)
  then show ?case by (cases i) auto
next
  case (3 sib i C T)
  then show ?case by (cases i) auto
qed simp

text \<open>What the tree holds: addresses and keys, in order.\<close>

definition entries :: "rbtree \<Rightarrow> (nat \<times> 64 word) list" where
  "entries T = map (\<lambda>(a, c, k). (a, k)) (inorder T)"

lemma entries_simps [simp]: "entries \<langle>\<rangle> = []" "entries \<langle>l, (a, c, k), r\<rangle> = entries l @ (a, k) # entries r"
  by (simp_all add: entries_def)

lemma entries_paint [simp]: "entries (paint c T) = entries T"
  by (cases "(c, T)" rule: paint.cases) auto

lemma entries_plug: "entries S = entries T \<Longrightarrow> entries (plug C S) = entries (plug C T)"
  by (induction C S arbitrary: T rule: plug.induct) (simp_all add: entries_def)

text \<open>The state of the re-balancing loop: only the colours of the node at the focus and of its parent
  may be wrong.\<close>

definition loop_state :: "nat \<Rightarrow> step list \<Rightarrow> rbtree \<Rightarrow> bool" where
  "loop_state n C T \<longleftrightarrow> rb T \<and> red T \<and> hole_ok C (bh T) \<and> (\<exists>l i r. T = \<langle>l, (n, i), r\<rangle>)"

lemma step_left_ok:
  assumes F: "focus t (f # Lf h unc # C) T" and L: "loop_state n (f # Lf h unc # C) T" and r: "hole_red [f]"
  shows "\<exists>t' m D S. insert_step_left n t = Some (m, t') \<and> focus t' D S \<and> loop_state m D S \<and>
    length D < length (f # Lf h unc # C) \<and> entries (plug D S) = entries (plug (f # Lf h unc # C) T) \<and>
    keeps (set (adrs T @ cadrs (f # Lf h unc # C))) t t'"
proof -
  obtain g cg kg where h: "h = (g, cg, kg)" by (cases h)
  obtain L n' i R where T: "T = \<langle>L, (n, i), R\<rangle>" using L by (auto simp: loop_state_def)
  show ?thesis
  proof (cases "red unc")
    case True
    from step_left_uncle [OF F [unfolded h] T True] obtain t' where t': "insert_step_left n t = Some (g, t')"
      "focus t' C \<langle>paint False (close f T), (g, True, kg), paint False unc\<rangle>" "keeps {above f, g, addr 0 unc} t t'" by blast
    have "loop_state g C \<langle>paint False (close f T), (g, True, kg), paint False unc\<rangle>"
      using L r True h T by (cases f rule: above.cases; cases unc rule: red.cases) (auto simp: loop_state_def)
    moreover have "entries (plug C \<langle>paint False (close f T), (g, True, kg), paint False unc\<rangle>) = entries (plug (f # Lf h unc # C) T)"
      using h by (cases f) (auto intro!: entries_plug)
    moreover have "keeps (set (adrs T @ cadrs (f # Lf h unc # C))) t t'"
      using t'(3) by (rule keeps_mono) (cases f; use addr_in [of 0 unc] True h in \<open>cases unc rule: red.cases; auto\<close>)
    ultimately show ?thesis using t'(1,2) by fastforce
  next
    case False
    show ?thesis
    proof (cases f rule: above.cases)
      case (1 j sib)
      obtain p cp kp where j: "j = (p, cp, kp)" by (cases j)
      from step_left_outer [OF F [unfolded h 1 j] T False] obtain t' where t': "insert_step_left n t = Some (n, t')"
        "focus t' (Lf (p, False, kp) \<langle>sib, (g, True, kg), unc\<rangle> # C) T" "keeps (set (p # g # adrs sib @ cadrs C)) t t'"
        by (auto simp: focus_Lf)
      have "loop_state n (Lf (p, False, kp) \<langle>sib, (g, True, kg), unc\<rangle> # C) T"
        using L r False 1 j h by (auto simp: loop_state_def)
      moreover have "keeps (set (adrs T @ cadrs (f # Lf h unc # C))) t t'"
        using t'(3) by (rule keeps_mono) (auto simp: 1 j h)
      moreover have "entries (plug (Lf (p, False, kp) \<langle>sib, (g, True, kg), unc\<rangle> # C) T) = entries (plug (f # Lf h unc # C) T)"
        by (auto simp: 1 j h intro!: entries_plug)
      ultimately show ?thesis using t'(1,2) by fastforce
    next
      case (2 sib j)
      obtain p cp kp where j: "j = (p, cp, kp)" by (cases j)
      obtain cn kn where i: "i = (cn, kn)" by (cases i)
      from step_left_inner [OF F [unfolded h 2 j T i] False] obtain t' where t': "insert_step_left n t = Some (p, t')"
        "focus t' (Lf (n, False, kn) \<langle>R, (g, True, kg), unc\<rangle> # C) \<langle>sib, (p, cp, kp), L\<rangle>"
        "keeps (set (p # n # g # adrs L @ adrs R @ adrs unc @ cadrs C)) t t'"
        by (auto simp: focus_Lf)
      have "loop_state p (Lf (n, False, kn) \<langle>R, (g, True, kg), unc\<rangle> # C) \<langle>sib, (p, cp, kp), L\<rangle>"
        using L r False 2 j h T i by (auto simp: loop_state_def)
      moreover have "keeps (set (adrs T @ cadrs (f # Lf h unc # C))) t t'"
        using t'(3) by (rule keeps_mono) (auto simp: 2 j h T)
      moreover have "entries (plug (Lf (n, False, kn) \<langle>R, (g, True, kg), unc\<rangle> # C) \<langle>sib, (p, cp, kp), L\<rangle>) =
          entries (plug (f # Lf h unc # C) T)"
        by (auto simp: 2 j h T i intro!: entries_plug)
      ultimately show ?thesis using t'(1,2) by fastforce
    qed
  qed
qed

lemma red_mirror [simp]: "red (mirror T) = red T"
  by (cases T rule: red.cases) auto

lemma bh_left: "rb T \<Longrightarrow> bh (mirror T) = bh T"
  by (induction T rule: rb.induct) auto

lemma rb_mirror [simp]: "rb (mirror T) = rb T"
  by (induction T rule: rb.induct) (auto simp: bh_left)

lemma hole_red_mirror [simp]: "hole_red (map mir_step C) = hole_red C"
  by (cases C rule: hole_red.cases) auto

lemma hole_ok_mirror [simp]: "hole_ok (map mir_step C) b = hole_ok C b"
  by (induction C b rule: hole_ok.induct) (auto simp: bh_left)

lemma plug_mirror: "plug (map mir_step C) (mirror T) = mirror (plug C T)"
  by (induction C T rule: plug.induct) (simp_all flip: mirror.simps)

lemma entries_mirror [simp]: "entries (mirror T) = rev (entries T)"
  by (simp add: entries_def rev_map)

lemma loop_state_mirror: "loop_state n (map mir_step C) (mirror T) = loop_state n C T"
  by (cases T) (auto simp: loop_state_def bh_left)

lemma insert_step_mir: "insert_step_right n (mir t) = map_option (map_prod id mir) (insert_step_left n t)"
proof -
  have turn: "insert_turn_left n (mir t) = map_option (map_prod id mir) (insert_turn_right n t)" for n t
    by (simp add: insert_turn_left_def insert_turn_right_def bind_map_mir map_bind_mir rotate_mir)
  have if_mir: "(if b then x \<bind> (\<lambda>t. Some (p, mir t)) else Some (n, mir t)) \<bind> (\<lambda>x. insert_turn_left (fst x) (snd x)) =
      (if b then x \<bind> (\<lambda>t. Some (p, t)) else Some (n, t)) \<bind>
        (\<lambda>x. map_option (map_prod id mir) (insert_turn_right (fst x) (snd x)))" for b x p n t
    by (cases x) (simp_all add: turn)
  show ?thesis
    by (simp add: insert_step_left_def insert_step_right_def bind_map_mir map_bind_mir rotate_mir turn if_mir
        if_distrib [of "map_option (map_prod id mir)"] cong: if_cong)
qed

lemma step_right_ok:
  assumes F: "focus t (f # Rt unc h # C) T" and L: "loop_state n (f # Rt unc h # C) T" and r: "hole_red [f]"
  shows "\<exists>t' m D S. insert_step_right n t = Some (m, t') \<and> focus t' D S \<and> loop_state m D S \<and>
    length D < length (f # Rt unc h # C) \<and> entries (plug D S) = entries (plug (f # Rt unc h # C) T) \<and>
    keeps (set (adrs T @ cadrs (f # Rt unc h # C))) t t'"
proof -
  let ?C = "mir_step f # Lf h (mirror unc) # map mir_step C"
  have C: "map mir_step (f # Rt unc h # C) = ?C" by simp
  have "focus (mir t) ?C (mirror T)" using F unfolding C [symmetric] by (simp only: focus_mir)
  moreover have "loop_state n ?C (mirror T)" using L unfolding C [symmetric] by (simp only: loop_state_mirror)
  moreover have "hole_red [mir_step f]" using r hole_red_mirror [of "[f]"] by simp
  ultimately obtain t' m D S where *: "insert_step_left n (mir t) = Some (m, t')" "focus t' D S" "loop_state m D S"
    "length D < length ?C" "entries (plug D S) = entries (plug ?C (mirror T))" "keeps (set (adrs (mirror T) @ cadrs ?C)) (mir t) t'"
    using step_left_ok [of "mir t" "mir_step f" h "mirror unc" "map mir_step C" "mirror T" n] by blast
  have "insert_step_right n t = Some (m, mir t')"
    using insert_step_mir [of n "mir t"] *(1) by simp
  moreover have "focus (mir t') (map mir_step D) (mirror S)" "loop_state m (map mir_step D) (mirror S)"
    using *(2,3) by (simp_all only: focus_mir loop_state_mirror)
  moreover have "entries (plug (map mir_step D) (mirror S)) = entries (plug (f # Rt unc h # C) T)"
    using *(5) unfolding C [symmetric] by (simp only: plug_mirror entries_mirror rev_rev_ident)
  moreover have "keeps (set (adrs T @ cadrs (f # Rt unc h # C))) t (mir t')"
    using *(6) keeps_mir [of _ t "mir t'"] unfolding C [symmetric] by (simp only: set_append set_cadrs_mir adrs_mirror set_rev mir_mir)
  moreover have "length (map mir_step D) < length (f # Rt unc h # C)" using *(4) by simp
  ultimately show ?thesis by blast
qed

lemma insert_step_ok:
  assumes F: "focus t (f # h # C) T" and L: "loop_state n (f # h # C) T" and r: "hole_red [f]"
  shows "\<exists>t' m D S. insert_step n t = Some (m, t') \<and> focus t' D S \<and> loop_state m D S \<and>
    length D < length (f # h # C) \<and> entries (plug D S) = entries (plug (f # h # C) T) \<and>
    keeps (set (adrs T @ cadrs (f # h # C))) t t'"
proof -
  obtain l i rr where T: "T = \<langle>l, (n, i), rr\<rangle>" using L by (auto simp: loop_state_def)
  note P = focus_parent [OF F [unfolded T]] focus_grand [OF F [unfolded T]]
  obtain pl pi pr where c: "close f T = \<langle>pl, (above f, pi), pr\<rangle>" using close_above by blast
  show ?thesis
  proof (cases h)
    case (Lf j unc)
    have "focus t (Lf (fst j, fst (snd j), snd (snd j)) unc # C) \<langle>pl, (above f, pi), pr\<rangle>"
      using F c Lf by (simp add: focus_close)
    from focus_sibling(3) [OF this] P Lf have "insert_step n t = insert_step_left n t"
      by (simp add: insert_step_def)
    with step_left_ok [OF F [unfolded Lf] L [unfolded Lf] r] Lf show ?thesis by simp
  next
    case (Rt unc j)
    have G: "focus t C \<langle>unc, j, \<langle>pl, (above f, pi), pr\<rangle>\<rangle>"
      using F c Rt by (simp add: focus_close)
    then have "rd_left (fst j) t = Some (addr (rbt_sentinel t) unc)"
      using focus_reads(1) [of t C unc "fst j" "fst (snd j)" "snd (snd j)"] by simp
    moreover have "above f \<noteq> addr (rbt_sentinel t) unc"
      using G addr_in [of "rbt_sentinel t" unc] by (auto simp: focus_def)
    ultimately have "insert_step n t = insert_step_right n t"
      using P Rt by (simp add: insert_step_def)
    with step_right_ok [OF F [unfolded Rt] L [unfolded Rt] r] Rt show ?thesis by simp
  qed
qed

lemma adrs_entries: "adrs T = map fst (entries T)"
  by (simp add: adrs_def entries_def split_def)

lemma focus_above: "focus t (f # C) T \<Longrightarrow> ngx_rbt_is_red (above f) t = Some (hole_red [f])"
  by (cases "[f]" rule: hole_red.cases) (auto simp: focus_Lf focus_Rt dest: focus_reads(4))

lemma insert_loop_ok:
  assumes "focus t C T" "loop_state n C T"
  shows "\<exists>t' T'. insert_loop n t = Some t' \<and> focus t' [] T' \<and> rb T' \<and> entries T' = entries (plug C T) \<and>
    keeps (set (adrs T @ cadrs C)) t t'"
  using assms
proof (induction C arbitrary: t n T rule: length_induct)
  case (1 C)
  note F = 1(2) and L = 1(3)
  obtain l i r where T: "T = \<langle>l, (n, i), r\<rangle>" using L by (auto simp: loop_state_def)
  have root: "n = rbt_root t \<longleftrightarrow> C = []" using focus_root [OF F [unfolded T]] by auto
  show ?case
  proof (cases "hole_red C")
    case False
    have "rb (plug C T)" using L False by (auto simp: loop_state_def intro: rb_plug)
    moreover have "insert_loop n t = Some t"
    proof (cases C)
      case Nil
      with root show ?thesis by (simp add: insert_loop.simps)
    next
      case (Cons f D)
      have "ngx_rbt_is_red (above f) t = Some (hole_red [f])"
        using F unfolding Cons by (rule focus_above)
      moreover have "\<not> hole_red [f]" using False Cons by (cases f rule: above.cases) auto
      ultimately show ?thesis
        using root Cons focus_parent [OF F [unfolded T Cons]] by (simp add: insert_loop.simps)
    qed
    ultimately show ?thesis using F by (auto simp: focus_plug [of t C])
  next
    case True
    then obtain f D where C: "C = f # D" and f: "hole_red [f]" by (cases C rule: hole_red.cases) auto
    have "D \<noteq> []" using L f C by (cases f rule: above.cases) (auto simp: loop_state_def)
    then obtain h D' where D: "D = h # D'" by (cases D) auto
    from insert_step_ok [OF F [unfolded C D] L [unfolded C D] f] obtain t1 m E S where
      S: "insert_step n t = Some (m, t1)" "focus t1 E S" "loop_state m E S" "length E < length C"
        "entries (plug E S) = entries (plug C T)" "keeps (set (adrs T @ cadrs C)) t t1"
      unfolding C D by blast
    from 1(1) S(2,3,4) obtain t2 T2 where R: "insert_loop m t1 = Some t2" "focus t2 [] T2" "rb T2"
      "entries T2 = entries (plug E S)" "keeps (set (adrs S @ cadrs E)) t1 t2" by blast
    have "set (adrs S @ cadrs E) = set (adrs T @ cadrs C)"
      using S(5) adrs_plug [of E S] adrs_plug [of C T] by (simp add: adrs_entries)
    moreover have "ngx_rbt_is_red (above f) t = Some True"
      using focus_above [OF F [unfolded C]] f by simp
    ultimately have "insert_loop n t = Some t2" "keeps (set (adrs T @ cadrs C)) t t2"
      using root C S(1) R(1) focus_parent [OF F [unfolded T C]] R(5) keeps_trans [OF S(6)]
      by (simp_all add: insert_loop.simps [of n])
    then show ?thesis using R S(5) by auto
  qed
qed

section \<open>Descent\<close>

text \<open>The place of a new key, and what is left and right of it.\<close>

fun descend :: "(64 word \<Rightarrow> 64 word \<Rightarrow> bool) \<Rightarrow> 64 word \<Rightarrow> step list \<Rightarrow> rbtree \<Rightarrow> step list" where
  "descend lt k C \<langle>\<rangle> = C"
| "descend lt k C \<langle>l, (a, c, k'), r\<rangle> =
     (if lt k k' then descend lt k (Lf (a, c, k') r # C) l else descend lt k (Rt l (a, c, k') # C) r)"

fun is_Lf :: "step \<Rightarrow> bool" where
  "is_Lf (Lf i sib) \<longleftrightarrow> True"
| "is_Lf (Rt sib i) \<longleftrightarrow> False"

fun before :: "step list \<Rightarrow> (nat \<times> 64 word) list" where
  "before [] = []"
| "before (Lf i sib # C) = before C"
| "before (Rt sib (a, c, k) # C) = before C @ entries sib @ [(a, k)]"

fun behind :: "step list \<Rightarrow> (nat \<times> 64 word) list" where
  "behind [] = []"
| "behind (Lf (a, c, k) sib # C) = (a, k) # entries sib @ behind C"
| "behind (Rt sib i # C) = behind C"

lemma entries_before: "entries (plug C T) = before C @ entries T @ behind C"
  by (induction C T rule: plug.induct) (auto split: prod.splits)

lemma focus_descend: "focus t C T \<Longrightarrow> focus t (descend lt k C T) \<langle>\<rangle>"
  by (induction lt k C T rule: descend.induct) (auto simp: focus_Lf focus_Rt)

lemma cadrs_descend: "set (cadrs (descend lt k C T)) = set (adrs T) \<union> set (cadrs C)"
  by (induction lt k C T rule: descend.induct) auto

lemma plug_descend: "plug (descend lt k C T) \<langle>\<rangle> = plug C T"
  by (induction lt k C T rule: descend.induct) auto

lemma insert_place_ok:
  assumes "focus t C T" "T \<noteq> \<langle>\<rangle>" "rd_key n t = Some k"
  shows "insert_place lt (addr 0 T) n (rbt_sentinel t) t =
    Some (above (hd (descend lt k C T)), is_Lf (hd (descend lt k C T)))"
  using assms
proof (induction lt k C T rule: descend.induct)
  case (2 lt k C l a c k' r)
  note R = focus_reads [OF 2(3)]
  have nil: "addr (rbt_sentinel t) S = rbt_sentinel t \<longleftrightarrow> S = \<langle>\<rangle>" if "S = l \<or> S = r" for S
    using that 2(3) by (auto simp: addr_sentinel focus_def)
  have addr0: "addr (rbt_sentinel t) S = addr 0 S" if "S \<noteq> \<langle>\<rangle>" for S
    using that by (cases S rule: red.cases) auto
  show ?case
  proof (cases "lt k k'")
    case True
    then have "insert_place lt a n (rbt_sentinel t) t = (if l = \<langle>\<rangle> then Some (a, True)
        else insert_place lt (addr (rbt_sentinel t) l) n (rbt_sentinel t) t)"
      using R 2(5) by (subst insert_place.simps) (simp add: nil)
    then show ?thesis using True 2(1) [OF True _ _ 2(5)] 2(3) by (cases "l = \<langle>\<rangle>") (auto simp: addr0 focus_Lf)
  next
    case False
    then have "insert_place lt a n (rbt_sentinel t) t = (if r = \<langle>\<rangle> then Some (a, False)
        else insert_place lt (addr (rbt_sentinel t) r) n (rbt_sentinel t) t)"
      using R 2(5) by (subst insert_place.simps) (simp add: nil)
    then show ?thesis using False 2(2) [OF False _ _ 2(5)] 2(3) by (cases "r = \<langle>\<rangle>") (auto simp: addr0 focus_Rt)
  qed
qed simp

text \<open>Linking the new node.\<close>

lemma insert_link:
  assumes F: "focus t (f # C) \<langle>\<rangle>" and n: "rbt_mem t n = Some nd" "n \<notin> set (cadrs (f # C))" "n \<noteq> rbt_sentinel t"
  shows "\<exists>t1 t2. (if is_Lf f then wr_left (above f) n t else wr_right (above f) n t) = Some t1 \<and>
    rbt_sentinel t1 = rbt_sentinel t \<and> rbt_mem t1 n = Some nd \<and>
    t2 = t1\<lparr>rbt_mem := (rbt_mem t1)(n \<mapsto>
      nd\<lparr>rb_parent := above f, rb_left := rbt_sentinel t, rb_right := rbt_sentinel t, rb_color := 1\<rparr>)\<rparr> \<and>
    focus t2 (f # C) \<langle>\<langle>\<rangle>, (n, True, rb_key nd), \<langle>\<rangle>\<rangle> \<and> keeps (set (n # cadrs (f # C))) t t2"
  (is "\<exists>t1 t2. _ \<and> _ \<and> _ \<and> t2 = t1\<lparr>rbt_mem := (rbt_mem t1)(n \<mapsto> ?n)\<rparr> \<and> _")
proof (cases f)
  case (Lf j sib)
  obtain a c k where j: "j = (a, c, k)" by (cases j)
  from F obtain par where na: "node_ok (rbt_mem t) a par (rbt_sentinel t) (addr (rbt_sentinel t) sib) c k"
    and C: "ctx (rbt_mem t) (rbt_sentinel t) (rbt_root t) a par C" "shape (rbt_mem t) (rbt_sentinel t) a sib"
    by (auto simp: Lf j focus_def)
  have d: "a \<noteq> n" "n \<notin> set (adrs sib)" "n \<notin> set (cadrs C)" "a \<notin> set (adrs sib)" "a \<notin> set (cadrs C)" "a \<noteq> rbt_sentinel t"
    using n(2) F by (auto simp: focus_def Lf j)
  from node_writes(1) [OF na, of n] obtain t1 where W: "wr_left a n t = Some t1" "keeps {a} t t1"
    "rbt_root t1 = rbt_root t" "node_ok (rbt_mem t1) a par n (addr (rbt_sentinel t) sib) c k" by blast
  have t1: "rbt_mem t1 n = Some nd" "rbt_sentinel t1 = rbt_sentinel t" "rbt_mem t1 (rbt_sentinel t) = rbt_mem t (rbt_sentinel t)"
    using W(2) n(1) d by (auto simp: keeps_def)
  have "ctx (rbt_mem t1) (rbt_sentinel t) (rbt_root t) a par C" "shape (rbt_mem t1) (rbt_sentinel t) a sib"
    using C d by (simp_all add: part_keeps [OF W(2)])
  then have "focus (t1\<lparr>rbt_mem := (rbt_mem t1)(n \<mapsto> ?n)\<rparr>) (f # C) \<langle>\<langle>\<rangle>, (n, True, rb_key nd), \<langle>\<rangle>\<rangle>"
    using F n(3) W(3,4) d t1 unfolding focus_def Lf j by (auto simp: node_ok_def)
  moreover have "keeps (set (n # cadrs (f # C))) t (t1\<lparr>rbt_mem := (rbt_mem t1)(n \<mapsto> ?n)\<rparr>)"
    using W(2) n(1) by (auto simp: keeps_def Lf j)
  ultimately show ?thesis using W(1) t1 Lf j by simp
next
  case (Rt sib j)
  obtain a c k where j: "j = (a, c, k)" by (cases j)
  from F obtain par where na: "node_ok (rbt_mem t) a par (addr (rbt_sentinel t) sib) (rbt_sentinel t) c k"
    and C: "ctx (rbt_mem t) (rbt_sentinel t) (rbt_root t) a par C" "shape (rbt_mem t) (rbt_sentinel t) a sib"
    by (auto simp: Rt j focus_def)
  have d: "a \<noteq> n" "n \<notin> set (adrs sib)" "n \<notin> set (cadrs C)" "a \<notin> set (adrs sib)" "a \<notin> set (cadrs C)" "a \<noteq> rbt_sentinel t"
    using n(2) F by (auto simp: focus_def Rt j)
  from node_writes(2) [OF na, of n] obtain t1 where W: "wr_right a n t = Some t1" "keeps {a} t t1"
    "rbt_root t1 = rbt_root t" "node_ok (rbt_mem t1) a par (addr (rbt_sentinel t) sib) n c k" by blast
  have t1: "rbt_mem t1 n = Some nd" "rbt_sentinel t1 = rbt_sentinel t" "rbt_mem t1 (rbt_sentinel t) = rbt_mem t (rbt_sentinel t)"
    using W(2) n(1) d by (auto simp: keeps_def)
  have "ctx (rbt_mem t1) (rbt_sentinel t) (rbt_root t) a par C" "shape (rbt_mem t1) (rbt_sentinel t) a sib"
    using C d by (simp_all add: part_keeps [OF W(2)])
  then have "focus (t1\<lparr>rbt_mem := (rbt_mem t1)(n \<mapsto> ?n)\<rparr>) (f # C) \<langle>\<langle>\<rangle>, (n, True, rb_key nd), \<langle>\<rangle>\<rangle>"
    using F n(3) W(3,4) d t1 unfolding focus_def Rt j by (auto simp: node_ok_def)
  moreover have "keeps (set (n # cadrs (f # C))) t (t1\<lparr>rbt_mem := (rbt_mem t1)(n \<mapsto> ?n)\<rparr>)"
    using W(2) n(1) by (auto simp: keeps_def Rt j)
  ultimately show ?thesis using W(1) t1 Rt j by simp
qed

lemma insert_at_ok:
  assumes F: "focus t [] T" and T: "T \<noteq> \<langle>\<rangle>" and n: "rd_key n t = Some k" "n \<notin> set (adrs T)" "n \<noteq> rbt_sentinel t"
  shows "\<exists>t'. insert_at lt (addr 0 T) n (rbt_sentinel t) t = Some t' \<and>
    focus t' (descend lt k [] T) \<langle>\<langle>\<rangle>, (n, True, k), \<langle>\<rangle>\<rangle> \<and> keeps (set (n # adrs T)) t t'"
proof -
  obtain f C where D: "descend lt k [] T = f # C"
    using T plug_descend [of lt k "[]" T] by (cases "descend lt k [] T") (simp, blast)
  note F1 = focus_descend [OF F, of lt k, unfolded D]
  have A: "set (cadrs (f # C)) = set (adrs T)" using cadrs_descend [of lt k "[]" T] by (simp only: D) simp
  obtain nd where nd: "rbt_mem t n = Some nd" "rb_key nd = k" using n(1) by (auto simp: rd_key_def)
  from insert_link [OF F1 nd(1)] A n(2,3) obtain t1 t2 where W:
    "(if is_Lf f then wr_left (above f) n t else wr_right (above f) n t) = Some t1"
    "rbt_sentinel t1 = rbt_sentinel t" "rbt_mem t1 n = Some nd" 
    "t2 = t1\<lparr>rbt_mem := (rbt_mem t1)(n \<mapsto>
      nd\<lparr>rb_parent := above f, rb_left := rbt_sentinel t, rb_right := rbt_sentinel t, rb_color := 1\<rparr>)\<rparr>"
    "focus t2 (f # C) \<langle>\<langle>\<rangle>, (n, True, rb_key nd), \<langle>\<rangle>\<rangle>" "keeps (set (n # cadrs (f # C))) t t2" by blast
  have "insert_at lt (addr 0 T) n (rbt_sentinel t) t = Some t2"
    unfolding insert_at_def insert_place_ok [OF F T n(1)] D
    by (simp only: Option.bind.simps fst_conv snd_conv list.sel W(1))
      (simp add: memory_simps ngx_rbt_red_def W(3,4))
  moreover have "keeps (set (n # adrs T)) t t2" using W(6) A by simp
  ultimately show ?thesis using W(5) nd(2) D by auto
qed

section \<open>Insertion\<close>

definition rbtree_ok :: "ngx_rbtree \<Rightarrow> rbtree \<Rightarrow> bool" where
  "rbtree_ok t T \<longleftrightarrow> focus t [] T \<and> rb T \<and> \<not> red T"

text \<open>In order of the keys, and the entries with a new one behind those with a key that is not greater.\<close>

definition ordered :: "(64 word \<Rightarrow> 64 word \<Rightarrow> bool) \<Rightarrow> (nat \<times> 64 word) list \<Rightarrow> bool" where
  "ordered lt xs \<longleftrightarrow> sorted_wrt (\<lambda>x y. \<not> lt (snd y) (snd x)) xs"

definition insert_entry ::
  "(64 word \<Rightarrow> 64 word \<Rightarrow> bool) \<Rightarrow> nat \<times> 64 word \<Rightarrow> (nat \<times> 64 word) list \<Rightarrow> (nat \<times> 64 word) list"
where
  "insert_entry lt x xs =
     takeWhile (\<lambda>y. \<not> lt (snd x) (snd y)) xs @ x # dropWhile (\<lambda>y. \<not> lt (snd x) (snd y)) xs"

lemma set_insert_entry [simp]: "set (insert_entry lt x xs) = insert x (set xs)"
  unfolding insert_entry_def
  by (metis (no_types, lifting) Un_insert_right list.set(2) set_append takeWhile_dropWhile_id)

lemma root_addr: "focus t [] T \<Longrightarrow> rbt_root t = addr (rbt_sentinel t) T"
  by (simp add: focus_def)

lemma root_empty: "focus t [] T \<Longrightarrow> rbt_root t = rbt_sentinel t \<longleftrightarrow> T = \<langle>\<rangle>"
  by (auto simp: focus_def addr_sentinel)

lemma bh_paint: "rb T \<Longrightarrow> rb (paint False T)"
  by (cases T rule: rb.cases) auto

lemma red_paint [simp]: "red (paint c T) \<longleftrightarrow> c \<and> T \<noteq> \<langle>\<rangle>"
  by (cases T rule: red.cases) auto

text \<open>What \<open>tree->insert\<close> has to promise: a strict order of the keys.\<close>

locale rbt_order =
  fixes lt :: "64 word \<Rightarrow> 64 word \<Rightarrow> bool" and K :: "64 word set"
  assumes asym: "a \<in> K \<Longrightarrow> b \<in> K \<Longrightarrow> lt a b \<Longrightarrow> \<not> lt b a"
    and negtrans: "a \<in> K \<Longrightarrow> b \<in> K \<Longrightarrow> c \<in> K \<Longrightarrow> \<not> lt a b \<Longrightarrow> \<not> lt b c \<Longrightarrow> \<not> lt a c"
begin

lemma descend_split:
  assumes "ordered lt (entries T)" "snd ` set (entries T) \<subseteq> K" "k \<in> K"
  shows "before (descend lt k C T) = before C @ takeWhile (\<lambda>y. \<not> lt k (snd y)) (entries T) \<and>
    behind (descend lt k C T) = dropWhile (\<lambda>y. \<not> lt k (snd y)) (entries T) @ behind C"
  using assms
proof (induction T arbitrary: C)
  case (Node l i r)
  obtain a c k' where i: "i = (a, c, k')" by (cases i)
  have o: "ordered lt (entries l)" "ordered lt (entries r)" "\<And>x. x \<in> set (entries l) \<Longrightarrow> \<not> lt k' (snd x)"
    using Node(3) by (auto simp: i ordered_def sorted_wrt_append)
  have K: "snd ` set (entries l) \<subseteq> K" "snd ` set (entries r) \<subseteq> K" "k' \<in> K" using Node(4) by (auto simp: i)
  show ?case
  proof (cases "lt k k'")
    case True
    with Node(1) [OF o(1) K(1) Node(5)] show ?thesis
      by (simp add: i takeWhile_append dropWhile_append3 takeWhile_tail)
  next
    case False
    have "\<not> lt k (snd x)" if "x \<in> set (entries l)" for x
      using negtrans [OF Node(5) K(3) _ False] o(3) [OF that] K(1) that by auto
    with Node(2) [OF o(2) K(2) Node(5)] False show ?thesis
      by (simp add: i)
  qed
qed simp

lemma ordered_insert:
  assumes "ordered lt xs" "snd ` set xs \<subseteq> K" "snd x \<in> K"
  shows "ordered lt (insert_entry lt x xs)"
  using assms
proof (induction xs)
  case (Cons y ys)
  show ?case
  proof (cases "lt (snd x) (snd y)")
    case True
    have "\<not> lt (snd z) (snd x)" if "z \<in> set (y # ys)" for z
      using that negtrans [of "snd x" "snd z" "snd y"] asym [of "snd z" "snd x"] asym [of "snd x" "snd y"] True Cons(2-)
      by (auto simp: ordered_def)
    with True Cons(2) show ?thesis by (auto simp: insert_entry_def ordered_def)
  next
    case False
    have "set (takeWhile P ys) \<union> set (dropWhile P ys) \<subseteq> set ys" for P
      by (auto dest: set_takeWhileD set_dropWhileD)
    with False Cons show ?thesis by (auto simp: insert_entry_def ordered_def)
  qed
qed (simp add: insert_entry_def ordered_def)

lemma insert_ok:
  assumes t: "rbtree_ok t T" "ordered lt (entries T)" "snd ` set (entries T) \<subseteq> K"
    and n: "rd_key n t = Some k" "n \<notin> set (adrs T)" "n \<noteq> rbt_sentinel t" and "k \<in> K"
  shows "\<exists>t' T'. ngx_rbtree_insert (insert_at lt) n t = Some t' \<and> rbtree_ok t' T' \<and>
    entries T' = insert_entry lt (n, k) (entries T) \<and> ordered lt (entries T') \<and> keeps (set (n # adrs T)) t t'"
proof (cases "T = \<langle>\<rangle>")
  case True
  obtain nd where nd: "rbt_mem t n = Some nd" "rb_key nd = k" using n(1) by (auto simp: rd_key_def)
  define t' where "t' = t\<lparr>rbt_root := n, rbt_mem := (rbt_mem t)(n \<mapsto> nd\<lparr>rb_parent := 0, rb_left := rbt_sentinel t,
    rb_right := rbt_sentinel t, rb_color := 0\<rparr>)\<rparr>"
  have "ngx_rbtree_insert (insert_at lt) n t = Some t'"
    using root_empty [of t T] t nd True
    by (simp add: ngx_rbtree_insert_def rbtree_ok_def memory_simps ngx_rbt_black_def t'_def)
  moreover have "rbtree_ok t' \<langle>\<langle>\<rangle>, (n, False, k), \<langle>\<rangle>\<rangle>"
    using t n nd by (auto simp: rbtree_ok_def focus_def t'_def True node_ok_def)
  moreover have "keeps (set (n # adrs T)) t t'" using nd by (auto simp: keeps_def t'_def)
  ultimately show ?thesis using True by (force simp: insert_entry_def ordered_def)
next
  case False
  have F: "focus t [] T" using t by (simp add: rbtree_ok_def)
  let ?C = "descend lt k [] T" and ?N = "\<langle>\<langle>\<rangle>, (n, True, k), \<langle>\<rangle>\<rangle>"
  from insert_at_ok [OF F False n] obtain t1 where 1: "insert_at lt (addr 0 T) n (rbt_sentinel t) t = Some t1"
    "focus t1 ?C ?N" "keeps (set (n # adrs T)) t t1" by blast
  have "rb (plug ?C \<langle>\<rangle>)" "\<not> red (plug ?C \<langle>\<rangle>)" using t by (simp_all add: plug_descend rbtree_ok_def)
  from plug_rb [OF this] have "loop_state n ?C ?N" by (auto simp: loop_state_def)
  from insert_loop_ok [OF 1(2) this] obtain t2 T2 where 2: "insert_loop n t1 = Some t2" "focus t2 [] T2" "rb T2"
    "entries T2 = entries (plug ?C ?N)" "keeps (set (adrs ?N @ cadrs ?C)) t1 t2" by blast
  have E: "entries T2 = insert_entry lt (n, k) (entries T)"
    using descend_split [OF t(2,3) \<open>k \<in> K\<close>, of "[]"] by (simp add: 2(4) entries_before insert_entry_def)
  then have "T2 \<noteq> \<langle>\<rangle>" by (auto simp: insert_entry_def)
  then obtain l a i r where T2: "T2 = \<langle>l, (a, i), r\<rangle>" by (cases T2) auto
  from focus_paint(2) [OF 2(2) this] obtain t3 where 3: "ngx_rbt_black a t2 = Some t3" "focus t3 [] (paint False T2)"
    "keeps {a} t2 t3" by blast
  have "rbt_root t = addr 0 T" using root_addr [OF F] False by (cases T rule: red.cases) auto
  moreover have "rbt_root t2 = a" using focus_root [OF 2(2) [unfolded T2]] by simp
  ultimately have "ngx_rbtree_insert (insert_at lt) n t = Some t3"
    using root_empty [OF F] False 1(1) 2(1) 3(1) by (simp add: ngx_rbtree_insert_def)
  moreover have "rbtree_ok t3 (paint False T2)"
    using 3(2) 2(3) by (simp add: rbtree_ok_def bh_paint)
  moreover have "a \<in> set (n # adrs T)"
    using arg_cong [OF E, of "\<lambda>xs. fst ` set xs"] T2 by (cases i) (auto simp: adrs_entries image_iff)
  then have "keeps (set (n # adrs T)) t t3"
    using 1(3) 2(5) 3(3) cadrs_descend [of lt k "[]" T] by (auto simp: keeps_def)
  ultimately show ?thesis
    using E ordered_insert [of "entries T" "(n, k)"] t(2,3) \<open>k \<in> K\<close> by (metis entries_paint snd_conv)
qed

end

lemma bh_height: "rb T \<Longrightarrow> 2 ^ bh T \<le> size1 T \<and> height T \<le> 2 * bh T + (if red T then 1 else 0)"
proof (induction T rule: rb.induct)
  case (2 l a c k r)
  then show ?case by (cases c) (auto split: if_splits)
qed simp

text \<open>The order of the keys as numbers, and the order of \<open>ngx_rbtree_insert_timer_value\<close>, an order
  among the keys of every window of \<open>2 ^ 63\<close> milliseconds.\<close>

interpretation key_order: rbt_order "\<lambda>a b. a < b" UNIV
  by unfold_locales auto

definition timer_window :: "64 word \<Rightarrow> 64 word set" where
  "timer_window b = {k. unat (k - b) < 2 ^ 63}"

lemma timer_diff:
  assumes "x \<in> timer_window b" "y \<in> timer_window b"
  shows "sint (x - y) = int (unat (x - b)) - int (unat (y - b))"
proof -
  define i j where "i = unat (x - b)" "j = unat (y - b)"
  then have ij: "uint (x - b) = int i" "uint (y - b) = int j" "i < 2 ^ 63" "j < 2 ^ 63"
    using assms by (simp_all add: timer_window_def)
  have "x - y = (x - b) - (y - b)" by simp
  also have "\<dots> = word_of_int (int i - int j)" by (simp only: wi_hom_sub [symmetric] ij(1,2) [symmetric] word_of_int_uint)
  finally have "sint (x - y) = sint (word_of_int (int i - int j) :: 64 word)" by (rule arg_cong)
  also have "\<dots> = signed_take_bit 63 (int i - int j)" by (simp only: sint_sbintrunc') simp
  also have "\<dots> = int i - int j"
    using ij(3,4) by (intro signed_take_bit_int_eq_self) auto
  finally show ?thesis by (simp only: i_j_def)
qed

lemma timer_less_window:
  "x \<in> timer_window b \<Longrightarrow> y \<in> timer_window b \<Longrightarrow> timer_less x y \<longleftrightarrow> unat (x - b) < unat (y - b)"
  unfolding timer_less_def by (subst timer_diff [of x b y], assumption, assumption, linarith)

interpretation timer_order: rbt_order timer_less "timer_window b" for b
  by unfold_locales (simp_all add: timer_less_window)

section \<open>Traversal\<close>

lemma rbtree_min_focus:
  assumes "focus t C T" "T \<noteq> \<langle>\<rangle>"
  shows "ngx_rbtree_min (addr 0 T) (rbt_sentinel t) t = Some (fst (hd (entries T)))"
  using assms
proof (induction T arbitrary: C)
  case (Node l i r)
  obtain a c k where i: "i = (a, c, k)" by (cases i)
  note R = focus_reads [OF Node(3) [unfolded i]]
  have "addr (rbt_sentinel t) l = rbt_sentinel t \<longleftrightarrow> l = \<langle>\<rangle>"
    using Node(3) by (auto simp: addr_sentinel focus_def)
  moreover have "addr (rbt_sentinel t) l = addr 0 l" if "l \<noteq> \<langle>\<rangle>" using that by (cases l rule: red.cases) auto
  moreover have "entries l \<noteq> []" if "l \<noteq> \<langle>\<rangle>" using that by (cases l rule: red.cases) auto
  ultimately show ?case
    using R Node(1) [of "Lf i r # C"] Node(3) by (subst i; subst addr.simps; subst ngx_rbtree_min.simps) (auto simp: focus_Lf i)
qed simp

definition first_addr :: "(nat \<times> 64 word) list \<Rightarrow> nat" where
  "first_addr xs = (case xs of [] \<Rightarrow> 0 | x # _ \<Rightarrow> fst x)"

lemma next_up_focus:
  assumes "focus t C \<langle>l, (n, i), r\<rangle>"
  shows "next_up (rbt_root t) n t = Some (first_addr (behind C))"
  using assms
proof (induction C arbitrary: l n i r)
  case Nil
  have "rd_parent n t \<noteq> None" using Nil by (cases i) (auto simp: focus_def node_ok_def rd_parent_def)
  with focus_root [OF Nil] show ?case by (auto simp: next_up.simps first_addr_def)
next
  case (Cons f C)
  have root: "rbt_root t \<noteq> n" using focus_root [OF Cons(2)] by simp
  note P = focus_parent [OF Cons(2)]
  show ?case
  proof (cases f)
    case (Lf j sib)
    obtain a c k where "j = (a, c, k)" by (cases j)
    with Lf P root focus_sibling(3) [of t a c k sib C l n i r] Cons(2) show ?thesis
      by (subst next_up.simps) (auto simp: first_addr_def)
  next
    case (Rt sib j)
    obtain a c k where j: "j = (a, c, k)" by (cases j)
    have F: "focus t C \<langle>sib, (a, c, k), \<langle>l, (n, i), r\<rangle>\<rangle>" using Cons(2) Rt j by (simp add: focus_Rt)
    have "n \<noteq> addr (rbt_sentinel t) sib" using F addr_in [of "rbt_sentinel t" sib] by (auto simp: focus_def)
    with P root focus_reads(1) [OF F] Cons(1) [OF F] Rt j show ?thesis
      by (subst next_up.simps) auto
  qed
qed

lemma entries_focus:
  "entries T = us @ (a, k) # vs \<Longrightarrow>
    \<exists>D l c r. plug C T = plug D \<langle>l, (a, c, k), r\<rangle> \<and> before D @ entries l = before C @ us \<and> entries r @ behind D = vs @ behind C"
proof (induction T arbitrary: C us vs)
  case (Node l i r)
  obtain b c j where i: "i = (b, c, j)" by (cases i)
  from Node(3) i have "entries l @ (b, j) # entries r = us @ (a, k) # vs" by simp
  then consider "us = entries l" "b = a" "j = k" "vs = entries r"
    | ws where "us = entries l @ (b, j) # ws" "entries r = ws @ (a, k) # vs"
    | ws where "entries l = us @ (a, k) # ws" "vs = ws @ (b, j) # entries r"
    by (auto simp: append_eq_append_conv2 Cons_eq_append_conv append_eq_Cons_conv)
  then show ?case
  proof cases
    case 1
    then show ?thesis using i by blast
  next
    case (2 ws)
    from Node(2) [OF 2(2), of "Rt l i # C"] 2 i show ?thesis by auto
  next
    case (3 ws)
    from Node(1) [OF 3(1), of "Lf i r # C"] 3 i show ?thesis by auto
  qed
qed simp

lemma rbtree_next_focus:
  assumes "focus t [] T" "entries T = us @ (a, k) # vs"
  shows "ngx_rbtree_next a t = Some (first_addr vs)"
proof -
  from entries_focus [OF assms(2), of "[]"] obtain D l c r where D: "T = plug D \<langle>l, (a, c, k), r\<rangle>"
    "before D @ entries l = us" "entries r @ behind D = vs" by auto
  have F: "focus t D \<langle>l, (a, c, k), r\<rangle>" using assms(1) D(1) focus_plug by simp
  have nil: "addr (rbt_sentinel t) r = rbt_sentinel t \<longleftrightarrow> r = \<langle>\<rangle>"
    using F by (auto simp: addr_sentinel focus_def)
  show ?thesis
  proof (cases "r = \<langle>\<rangle>")
    case True
    then show ?thesis using next_up_focus [OF F] focus_reads(2) [OF F] D(3) by (simp add: ngx_rbtree_next_def)
  next
    case False
    have "focus t (Rt l (a, c, k) # D) r" using F by (simp add: focus_Rt)
    from rbtree_min_focus [OF this False] have "ngx_rbtree_min (addr 0 r) (rbt_sentinel t) t = Some (fst (hd (entries r)))" .
    moreover have "addr (rbt_sentinel t) r = addr 0 r" "entries r \<noteq> []" using False by (cases r rule: red.cases; auto)+
    ultimately show ?thesis using focus_reads(2) [OF F] D(3) nil False
      by (cases "entries r") (auto simp: ngx_rbtree_next_def first_addr_def split: list.splits)
  qed
qed

lemma height_bound: "rbtree_ok t T \<Longrightarrow> 2 ^ (height T div 2) \<le> length (entries T) + 1"
proof -
  assume "rbtree_ok t T"
  then have "height T div 2 \<le> bh T" "2 ^ bh T \<le> size1 T"
    using bh_height [of T] by (auto simp: rbtree_ok_def)
  then have "2 ^ (height T div 2) \<le> size1 T"
    using power_increasing [of "height T div 2" "bh T" "2::nat"] by linarith
  moreover have "length (entries T) + 1 = size1 T"
    by (simp add: entries_def size1_size)
  ultimately show ?thesis by simp
qed

text \<open>A black root with a red right child, and a node outside the tree; the sentinel is at 9.\<close>

definition sample_rbtree :: "64 word \<Rightarrow> 64 word \<Rightarrow> 64 word \<Rightarrow> ngx_rbtree" where
  "sample_rbtree x y z = \<lparr>rbt_root = 1, rbt_sentinel = 9, rbt_mem =
     [1 \<mapsto> \<lparr>rb_key = x, rb_left = 9, rb_right = 2, rb_parent = 0, rb_color = 0, rb_data = 0\<rparr>,
      2 \<mapsto> \<lparr>rb_key = y, rb_left = 9, rb_right = 9, rb_parent = 1, rb_color = 1, rb_data = 0\<rparr>,
      3 \<mapsto> \<lparr>rb_key = z, rb_left = 0, rb_right = 0, rb_parent = 0, rb_color = 0, rb_data = 0\<rparr>,
      9 \<mapsto> \<lparr>rb_key = 0, rb_left = 0, rb_right = 0, rb_parent = 0, rb_color = 0, rb_data = 0\<rparr>]\<rparr>"

lemma sample_rbtree_ok:
  "rbtree_ok (sample_rbtree x y z) \<langle>\<langle>\<rangle>, (1, False, x), \<langle>\<langle>\<rangle>, (2, True, y), \<langle>\<rangle>\<rangle>\<rangle>"
  "rd_key 3 (sample_rbtree x y z) = Some z"
  by (simp_all add: rbtree_ok_def focus_def sample_rbtree_def node_ok_def rd_key_def)

section \<open>Properties\<close>

text \<open>C22. \<open>ngx_rbtree_insert\<close> with \<open>ngx_rbtree_insert_value\<close> returns on every red-black tree and
  every node that is not in it, the parent pointers included: the result is a red-black tree with
  the old entries and the new one, placed behind the entries with a smaller or equal key; the
  height stays at most twice the logarithm of the size; no memory but the nodes is written.\<close>

theorem rbtree_insert_correct:
  assumes "rbtree_ok t T" "ordered (\<lambda>a b. a < b) (entries T)"
    and "rd_key n t = Some k" "n \<notin> set (adrs T)" "n \<noteq> rbt_sentinel t"
  shows "\<exists>t' T'. ngx_rbtree_insert ngx_rbtree_insert_value n t = Some t' \<and> rbtree_ok t' T' \<and>
    entries T' = filter (\<lambda>e. snd e \<le> k) (entries T) @ (n, k) # filter (\<lambda>e. snd e > k) (entries T) \<and>
    ordered (\<lambda>a b. a < b) (entries T') \<and> 2 ^ (height T' div 2) \<le> length (entries T') + 1 \<and>
    rbt_sentinel t' = rbt_sentinel t \<and> (\<forall>a. a \<notin> set (n # adrs T) \<longrightarrow> rbt_mem t' a = rbt_mem t a)"
proof -
  obtain t' T' where t': "ngx_rbtree_insert (insert_at (\<lambda>a b. a < b)) n t = Some t'" "rbtree_ok t' T'"
    "entries T' = insert_entry (\<lambda>a b. a < b) (n, k) (entries T)" "ordered (\<lambda>a b. a < b) (entries T')"
    "keeps (set (n # adrs T)) t t'"
    using key_order.insert_ok [OF assms(1,2) _ assms(3,4,5)] by auto
  have "insert_entry (\<lambda>a b. a < b) (n, k) xs = filter (\<lambda>e. snd e \<le> k) xs @ (n, k) # filter (\<lambda>e. snd e > k) xs"
    if "ordered (\<lambda>a b. a < b) xs" for xs
    using that
  proof (induction xs)
    case (Cons x xs)
    show ?case
    proof (cases "k < snd x")
      case True
      then have "\<forall>y \<in> set xs. k < snd y" using Cons(2) by (auto simp: ordered_def)
      with True show ?thesis by (auto simp: insert_entry_def not_less filter_empty_conv filter_id_conv)
    next
      case False
      with Cons show ?thesis by (auto simp: ordered_def insert_entry_def not_less)
    qed
  qed (simp add: insert_entry_def)
  with t' assms(2) height_bound [OF t'(2)] show ?thesis
    by (auto simp: ngx_rbtree_insert_value_def keeps_def)
qed

theorem rbtree_insert_correct_witness:
  "\<exists>t' T'. ngx_rbtree_insert ngx_rbtree_insert_value 3 (sample_rbtree 5 7 9) = Some t' \<and> rbtree_ok t' T' \<and>
    entries T' = [(1, 5), (2, 7), (3, 9)]"
  using rbtree_insert_correct [OF sample_rbtree_ok(1) _ sample_rbtree_ok(2) [of 5 7 9]]
  by (auto simp: ordered_def sample_rbtree_def)

text \<open>The order of the timers survives the overflow of the milliseconds: as long as all keys lie in
  one window of \<open>2 ^ 63\<close> milliseconds, wherever it starts, \<open>ngx_rbtree_insert_timer_value\<close> keeps the
  tree red-black and the entries in the order of the distances from the start of the window.\<close>

theorem timer_insert_correct:
  assumes "rbtree_ok t T" "\<forall>e \<in> set (entries T). snd e \<in> timer_window b" "k \<in> timer_window b"
    and "sorted (map (\<lambda>e. unat (snd e - b)) (entries T))"
    and "rd_key n t = Some k" "n \<notin> set (adrs T)" "n \<noteq> rbt_sentinel t"
  shows "\<exists>t' T'. ngx_rbtree_insert ngx_rbtree_insert_timer_value n t = Some t' \<and> rbtree_ok t' T' \<and>
    mset (entries T') = add_mset (n, k) (mset (entries T)) \<and>
    sorted (map (\<lambda>e. unat (snd e - b)) (entries T')) \<and>
    rbt_sentinel t' = rbt_sentinel t \<and> (\<forall>a. a \<notin> set (n # adrs T) \<longrightarrow> rbt_mem t' a = rbt_mem t a)"
proof -
  have sorted: "ordered timer_less xs \<longleftrightarrow> sorted (map (\<lambda>e. unat (snd e - b)) xs)"
    if "\<forall>e \<in> set xs. snd e \<in> timer_window b" for xs
    using that
  proof (induction xs)
    case (Cons x xs)
    have "timer_less (snd y) (snd x) \<longleftrightarrow> unat (snd y - b) < unat (snd x - b)" if "y \<in> set xs" for y
      using that Cons(2) by (simp add: timer_less_window [of _ b])
    with Cons show ?case by (auto simp: ordered_def not_less)
  qed (simp add: ordered_def)
  have K: "snd ` set (entries T) \<subseteq> timer_window b" using assms(2) by auto
  obtain t' T' where t': "ngx_rbtree_insert (insert_at timer_less) n t = Some t'" "rbtree_ok t' T'"
    "entries T' = insert_entry timer_less (n, k) (entries T)" "ordered timer_less (entries T')"
    "keeps (set (n # adrs T)) t t'"
    using timer_order.insert_ok [OF assms(1) iffD2 [OF sorted [OF assms(2)] assms(4)] K assms(5-7,3)] by blast
  have "mset (insert_entry timer_less (n, k) xs) = add_mset (n, k) (mset xs)" for xs
    by (simp add: insert_entry_def) (simp only: mset_append [symmetric] takeWhile_dropWhile_id)
  moreover have "sorted (map (\<lambda>e. unat (snd e - b)) (entries T'))"
    using sorted [of "entries T'"] assms(2,3) t'(3,4) by simp
  ultimately show ?thesis using t' by (auto simp: ngx_rbtree_insert_timer_value_def keeps_def)
qed

theorem timer_insert_correct_witness:
  "\<exists>t' T'. ngx_rbtree_insert ngx_rbtree_insert_timer_value 3 (sample_rbtree (- 10) 4 (- 3)) = Some t' \<and> rbtree_ok t' T' \<and>
    mset (entries T') = {#(1, - 10), (2, 4), (3, - 3)#} \<and> sorted (map (\<lambda>e. unat (snd e + 10)) (entries T'))"
  using timer_insert_correct [OF sample_rbtree_ok(1) _ _ _ sample_rbtree_ok(2) [of "- 10" 4 "- 3"], of "- 10"]
  by (auto simp: timer_window_def sample_rbtree_def add_mset_commute)

text \<open>\<open>ngx_rbtree_min\<close> and \<open>ngx_rbtree_next\<close> visit the entries in order: they return the first
  node, the node behind a given one, and \<open>NULL\<close> behind the last one.\<close>

theorem rbtree_traversal:
  assumes "rbtree_ok t T" "entries T = us @ (a, k) # vs"
  shows "ngx_rbtree_min (rbt_root t) (rbt_sentinel t) t = Some (fst (hd (entries T))) \<and>
    ngx_rbtree_next a t = Some (case vs of [] \<Rightarrow> 0 | v # _ \<Rightarrow> fst v)"
proof -
  have "focus t [] T" "T \<noteq> \<langle>\<rangle>" using assms by (auto simp: rbtree_ok_def)
  moreover from this have "rbt_root t = addr 0 T" using root_addr [of t T] by (cases T rule: red.cases) auto
  ultimately show ?thesis
    using rbtree_min_focus [of t "[]" T] rbtree_next_focus [of t T us a k vs] assms(2) by (simp add: first_addr_def)
qed
theorem rbtree_traversal_witness:
  "ngx_rbtree_min 1 9 (sample_rbtree 5 7 9) = Some 1 \<and> ngx_rbtree_next 1 (sample_rbtree 5 7 9) = Some 2 \<and>
    ngx_rbtree_next 2 (sample_rbtree 5 7 9) = Some 0"
  using rbtree_traversal [OF sample_rbtree_ok(1) [of 5 7 9], of "[]" 1 5 "[(2, 7)]"]
    rbtree_traversal [OF sample_rbtree_ok(1) [of 5 7 9], of "[(1, 5)]" 2 7 "[]"]
  by (simp add: sample_rbtree_def)

end
