(* ===== verification/Ngx_Rbtree_Delete.thy ===== *)
theory Ngx_Rbtree_Delete
  imports Ngx_Rbtree_Insert
begin

text \<open>
  Deletion from the red-black trees of \<open>src/core/ngx_rbtree.c\<close>. While the tree is re-balanced, the
  focus is the subtree whose black height is one too small. It may be empty: then the code follows
  the parent pointer of the sentinel, and \<open>up_ok\<close> says where that leads.
\<close>

section \<open>Parent pointers of leaves\<close>

definition up_ok :: "ngx_rbtree \<Rightarrow> step list \<Rightarrow> rbtree \<Rightarrow> bool" where
  "up_ok t C T \<longleftrightarrow> (T = \<langle>\<rangle> \<longrightarrow> C \<noteq> [] \<longrightarrow> rd_parent (rbt_sentinel t) t = Some (above (hd C)))"

lemma up_parent: "focus t (f # C) T \<Longrightarrow> up_ok t (f # C) T \<Longrightarrow> rd_parent (addr (rbt_sentinel t) T) t = Some (above f)"
  by (cases T) (auto simp: up_ok_def dest: focus_parent)

lemma up_keeps: "up_ok t C T \<Longrightarrow> keeps A t t' \<Longrightarrow> rbt_sentinel t \<notin> A \<Longrightarrow> (C = [] \<longleftrightarrow> D = []) \<Longrightarrow> above (hd D) = above (hd C) \<Longrightarrow>
    up_ok t' D T"
  by (auto simp: up_ok_def keeps_def rd_parent_def)

lemma focus_not_sentinel: "focus t C T \<Longrightarrow> rbt_sentinel t \<notin> set (adrs T @ cadrs C)"
  by (simp add: focus_def)

lemma focus_at_root: "focus t C T \<Longrightarrow> addr (rbt_sentinel t) T = rbt_root t \<longleftrightarrow> C = []"
proof (cases T)
  case Leaf
  assume "focus t C T"
  then have "C \<noteq> [] \<Longrightarrow> rbt_root t \<in> set (cadrs C)" "C = [] \<Longrightarrow> rbt_root t = addr (rbt_sentinel t) T"
    using Leaf by (cases C; cases "hd C"; auto simp: focus_def dest: ctx_root)+
  with focus_not_sentinel [OF \<open>focus t C T\<close>] Leaf show ?thesis by (cases C) auto
next
  case (Node l i r)
  assume "focus t C T"
  with Node focus_root [of t C l "fst i" "snd i" r] show ?thesis by (cases i) auto
qed

section \<open>The left branch\<close>

text \<open>The reads of a step at the focus \<open>T\<close>, the left child of \<open>p\<close> with the sibling \<open>w\<close>.\<close>

lemma sibling_reads:
  assumes F: "focus t (Lf (p, cp, kp) \<langle>A, (w, cw, kw), B\<rangle> # C) T" and U: "up_ok t (Lf (p, cp, kp) \<langle>A, (w, cw, kw), B\<rangle> # C) T"
  defines "x \<equiv> addr (rbt_sentinel t) T"
  shows "rd_parent x t = Some p" "rd_left p t = Some x" "rd_right p t = Some w" "ngx_rbt_is_red w t = Some cw"
    "rd_left w t = Some (addr (rbt_sentinel t) A)" "rd_right w t = Some (addr (rbt_sentinel t) B)"
    "ngx_rbt_is_red (addr (rbt_sentinel t) A) t = Some (red A)" "ngx_rbt_is_red (addr (rbt_sentinel t) B) t = Some (red B)"
proof -
  have F1: "focus t C \<langle>T, (p, cp, kp), \<langle>A, (w, cw, kw), B\<rangle>\<rangle>" using F by (simp add: focus_Lf)
  have F2: "focus t (Rt T (p, cp, kp) # C) \<langle>A, (w, cw, kw), B\<rangle>" using F1 by (simp add: focus_Rt)
  have F3: "focus t (Lf (w, cw, kw) B # Rt T (p, cp, kp) # C) A" "focus t (Rt A (w, cw, kw) # Rt T (p, cp, kp) # C) B"
    using F2 by (simp_all add: focus_Lf focus_Rt)
  show "rd_parent x t = Some p" using up_parent [OF F U] by (simp add: x_def)
  show "rd_left p t = Some x" "rd_right p t = Some w" using focus_reads [OF F1] by (simp_all add: x_def)
  show "ngx_rbt_is_red w t = Some cw" "rd_left w t = Some (addr (rbt_sentinel t) A)" "rd_right w t = Some (addr (rbt_sentinel t) B)"
    using focus_reads [OF F2] by simp_all
  show "ngx_rbt_is_red (addr (rbt_sentinel t) A) t = Some (red A)" "ngx_rbt_is_red (addr (rbt_sentinel t) B) t = Some (red B)"
    using F3 by (auto dest: focus_is_red)
qed

lemma delete_red_focus:
  assumes F: "focus t (Lf (p, cp, kp) \<langle>A, (w, cw, kw), B\<rangle> # C) T" and U: "up_ok t (Lf (p, cp, kp) \<langle>A, (w, cw, kw), B\<rangle> # C) T"
    and A: "A = \<langle>al, (a, i), ar\<rangle>"
  shows "\<exists>t'. delete_red_left (addr (rbt_sentinel t) T) w t = Some (a, t') \<and>
    focus t' (Lf (p, True, kp) A # Lf (w, False, kw) B # C) T \<and> up_ok t' (Lf (p, True, kp) A # Lf (w, False, kw) B # C) T \<and>
    keeps (set (p # w # adrs A @ cadrs C)) t t'"
proof -
  define x where "x = addr (rbt_sentinel t) T"
  have "focus t (Rt T (p, cp, kp) # C) \<langle>A, (w, cw, kw), B\<rangle>" using F by (simp add: focus_Lf focus_Rt)
  from focus_paint(2) [OF this refl] obtain t1 where 1: "ngx_rbt_black w t = Some t1"
    "focus t1 C \<langle>T, (p, cp, kp), \<langle>A, (w, False, kw), B\<rangle>\<rangle>" "keeps {w} t t1" by (auto simp: focus_Rt)
  from focus_paint(1) [OF 1(2) refl] obtain t2 where 2: "ngx_rbt_red p t1 = Some t2"
    "focus t2 C \<langle>T, (p, True, kp), \<langle>A, (w, False, kw), B\<rangle>\<rangle>" "keeps {p} t1 t2" by auto
  from left_rotate_focus [OF 2(2)] obtain t3 where 3: "ngx_rbtree_left_rotate p t2 = Some t3"
    "focus t3 (Lf (p, True, kp) A # Lf (w, False, kw) B # C) T" "keeps (set (p # w # adrs A @ cadrs C)) t2 t3"
    by (auto simp: focus_Lf)
  have s: "rbt_sentinel t \<notin> set (p # w # adrs A @ cadrs C)"
    using focus_not_sentinel [OF F] by auto
  have K: "keeps (set (p # w # adrs A @ cadrs C)) t t1" "keeps (set (p # w # adrs A @ cadrs C)) t t2"
    "keeps (set (p # w # adrs A @ cadrs C)) t t3"
    using 1(3) 2(3) 3(3) by (auto simp: keeps_def)
  note U' = up_keeps [OF U K(1) s] up_keeps [OF U K(2) s] up_keeps [OF U K(3) s]
  have s': "rbt_sentinel t1 = rbt_sentinel t" "rbt_sentinel t2 = rbt_sentinel t" "rbt_sentinel t3 = rbt_sentinel t"
    using K by (simp_all add: keeps_def)
  have "rd_parent x t1 = Some p" "rd_parent x t2 = Some p" "rd_parent x t3 = Some p"
    using up_parent [of t1 "Lf (p, cp, kp) \<langle>A, (w, False, kw), B\<rangle>" C T] up_parent [of t2 "Lf (p, True, kp) \<langle>A, (w, False, kw), B\<rangle>" C T]
      up_parent [OF 3(2)] 1(2) 2(2) U' by (auto simp: x_def s' focus_Lf)
  moreover have "rd_right p t3 = Some a" using focus_reads(2) [of t3 "Lf (w, False, kw) B # C" T p True kp A] 3(2) A by (cases i) (auto simp: focus_Lf)
  ultimately have "delete_red_left x w t = Some (a, t3)"
    by (simp add: delete_red_left_def 1(1) 2(1) 3(1))
  then show ?thesis using 3(2) K(3) U'(3) by (auto simp: x_def)
qed

lemma delete_inner_focus:
  assumes F: "focus t (Lf (p, cp, kp) \<langle>\<langle>al, (a, ca, ka), ar\<rangle>, (w, cw, kw), B\<rangle> # C) T"
    and U: "up_ok t (Lf (p, cp, kp) \<langle>\<langle>al, (a, ca, ka), ar\<rangle>, (w, cw, kw), B\<rangle> # C) T"
  shows "\<exists>t'. delete_inner_left (addr (rbt_sentinel t) T) w t = Some (a, t') \<and>
    focus t' (Lf (p, cp, kp) \<langle>al, (a, False, ka), \<langle>ar, (w, True, kw), B\<rangle>\<rangle> # C) T \<and>
    up_ok t' (Lf (p, cp, kp) \<langle>al, (a, False, ka), \<langle>ar, (w, True, kw), B\<rangle>\<rangle> # C) T \<and>
    keeps (set (a # w # adrs ar @ p # adrs T @ cadrs C)) t t'"
proof -
  define x where "x = addr (rbt_sentinel t) T"
  have W: "focus t (Rt T (p, cp, kp) # C) \<langle>\<langle>al, (a, ca, ka), ar\<rangle>, (w, cw, kw), B\<rangle>" using F by (simp add: focus_Lf focus_Rt)
  then have "focus t (Lf (w, cw, kw) B # Rt T (p, cp, kp) # C) \<langle>al, (a, ca, ka), ar\<rangle>" by (simp add: focus_Lf)
  from focus_paint(2) [OF this refl] obtain t1 where 1: "ngx_rbt_black a t = Some t1"
    "focus t1 (Rt T (p, cp, kp) # C) \<langle>\<langle>al, (a, False, ka), ar\<rangle>, (w, cw, kw), B\<rangle>" "keeps {a} t t1" by (auto simp: focus_Lf)
  from focus_paint(1) [OF 1(2) refl] obtain t2 where 2: "ngx_rbt_red w t1 = Some t2"
    "focus t2 (Rt T (p, cp, kp) # C) \<langle>\<langle>al, (a, False, ka), ar\<rangle>, (w, True, kw), B\<rangle>" "keeps {w} t1 t2" by auto
  from right_rotate_focus [OF 2(2)] obtain t3 where 3: "ngx_rbtree_right_rotate w t2 = Some t3"
    "focus t3 (Lf (p, cp, kp) \<langle>al, (a, False, ka), \<langle>ar, (w, True, kw), B\<rangle>\<rangle> # C) T"
    "keeps (set (a # w # adrs ar @ p # adrs T @ cadrs C)) t2 t3"
    by (auto simp: focus_Lf focus_Rt)
  have s: "rbt_sentinel t \<notin> set (a # w # adrs ar @ p # adrs T @ cadrs C)"
    using focus_not_sentinel [OF F] by auto
  have K: "keeps (set (a # w # adrs ar @ p # adrs T @ cadrs C)) t t3"
    using 1(3) 2(3) 3(3) by (auto simp: keeps_def)
  then have s': "rbt_sentinel t3 = rbt_sentinel t" by (simp add: keeps_def)
  note U' = up_keeps [OF U K s, of "Lf (p, cp, kp) \<langle>al, (a, False, ka), \<langle>ar, (w, True, kw), B\<rangle>\<rangle> # C"]
  have "rd_parent x t3 = Some p" using up_parent [OF 3(2)] U' by (simp add: x_def s')
  moreover have "rd_right p t3 = Some a" using focus_reads(2) [of t3 C T p cp kp] 3(2) by (auto simp: focus_Lf)
  moreover have "rd_left w t = Some a" using focus_reads(1) [OF W] by simp
  ultimately have "delete_inner_left x w t = Some (a, t3)"
    by (simp add: delete_inner_left_def 1(1) 2(1) 3(1))
  then show ?thesis using 3(2) K U' s by (auto simp: x_def)
qed

lemma color_copy:
  assumes F: "focus t C \<langle>l, (a, c, k), r\<rangle>" and "rd_color b t = Some v"
  shows "\<exists>t'. ngx_rbt_copy_color a b t = Some t' \<and> focus t' C \<langle>l, (a, v \<noteq> 0, k), r\<rangle> \<and> keeps {a} t t'"
  using focus_color [OF F, of v] assms(2) by (auto simp: ngx_rbt_copy_color_def)

lemma focus_color_read: "focus t C \<langle>l, (a, c, k), r\<rangle> \<Longrightarrow> \<exists>v. rd_color a t = Some v \<and> (v \<noteq> 0) = c"
  using focus_reads(4) [of t C l a c k r] by (auto simp: ngx_rbt_is_red_def)

lemma delete_turn_focus:
  assumes F: "focus t (Lf (p, cp, kp) \<langle>A, (w, cw, kw), B\<rangle> # C) T" and U: "up_ok t (Lf (p, cp, kp) \<langle>A, (w, cw, kw), B\<rangle> # C) T"
    and B: "B = \<langle>bl, (b, i), br\<rangle>"
  shows "\<exists>t'. delete_turn_left (addr (rbt_sentinel t) T) w t = Some t' \<and>
    focus t' C \<langle>\<langle>T, (p, False, kp), A\<rangle>, (w, cp, kw), paint False B\<rangle> \<and>
    keeps (set (b # p # w # adrs A @ cadrs C)) t t'"
proof -
  define x where "x = addr (rbt_sentinel t) T"
  have P: "focus t C \<langle>T, (p, cp, kp), \<langle>A, (w, cw, kw), B\<rangle>\<rangle>" using F by (simp add: focus_Lf)
  from focus_color_read [OF this] obtain v where v: "rd_color p t = Some v" "(v \<noteq> 0) = cp" by blast
  have "focus t (Rt T (p, cp, kp) # C) \<langle>A, (w, cw, kw), B\<rangle>" using P by (simp add: focus_Rt)
  from color_copy [OF this v(1)] v(2) obtain t1 where 1: "ngx_rbt_copy_color w p t = Some t1"
    "focus t1 C \<langle>T, (p, cp, kp), \<langle>A, (w, cp, kw), B\<rangle>\<rangle>" "keeps {w} t t1" by (auto simp: focus_Rt)
  from focus_paint(2) [OF 1(2) refl] obtain t2 where 2: "ngx_rbt_black p t1 = Some t2"
    "focus t2 C \<langle>T, (p, False, kp), \<langle>A, (w, cp, kw), B\<rangle>\<rangle>" "keeps {p} t1 t2" by auto
  have "focus t2 (Rt A (w, cp, kw) # Rt T (p, False, kp) # C) B" using 2(2) by (simp add: focus_Rt)
  from focus_paint(2) [OF this B] obtain t3 where 3: "ngx_rbt_black b t2 = Some t3"
    "focus t3 C \<langle>T, (p, False, kp), \<langle>A, (w, cp, kw), paint False B\<rangle>\<rangle>" "keeps {b} t2 t3" by (auto simp: focus_Rt)
  from left_rotate_focus [OF 3(2)] obtain t4 where 4: "ngx_rbtree_left_rotate p t3 = Some t4"
    "focus t4 C \<langle>\<langle>T, (p, False, kp), A\<rangle>, (w, cp, kw), paint False B\<rangle>" "keeps (set (p # w # adrs A @ cadrs C)) t3 t4" by blast
  have s: "rbt_sentinel t \<notin> set (b # p # w # adrs A @ cadrs C)"
    using focus_not_sentinel [OF F] B by auto
  have K: "keeps (set (b # p # w # adrs A @ cadrs C)) t t1" "keeps (set (b # p # w # adrs A @ cadrs C)) t t2"
    "keeps (set (b # p # w # adrs A @ cadrs C)) t t3" "keeps (set (b # p # w # adrs A @ cadrs C)) t t4"
    using 1(3) 2(3) 3(3) 4(3) by (auto simp: keeps_def)
  note U' = up_keeps [OF U K(1) s] up_keeps [OF U K(2) s] up_keeps [OF U K(3) s]
  have s': "rbt_sentinel t1 = rbt_sentinel t" "rbt_sentinel t2 = rbt_sentinel t" "rbt_sentinel t3 = rbt_sentinel t"
    using K by (simp_all add: keeps_def)
  have "rd_parent x t = Some p" "rd_parent x t1 = Some p" "rd_parent x t3 = Some p"
    using up_parent [OF F U] up_parent [of t1 "Lf (p, cp, kp) \<langle>A, (w, cp, kw), B\<rangle>" C T]
      up_parent [of t3 "Lf (p, False, kp) \<langle>A, (w, cp, kw), paint False B\<rangle>" C T]
      1(2) 3(2) U' by (auto simp: x_def s' focus_Lf)
  moreover have "rd_right w t2 = Some b"
    using focus_reads(2) [of t2 "Rt T (p, False, kp) # C" A w cp kw B] 2(2) B by (cases i) (auto simp: focus_Rt)
  ultimately have "delete_turn_left x w t = Some t4"
    by (simp add: delete_turn_left_def 1(1) 2(1) 3(1) 4(1))
  then show ?thesis using 4(2) K(4) by (auto simp: x_def)
qed

text \<open>The state of the loop: black heights are right, but for the subtree at the focus, which lacks one.
  Its root may also be red below a red parent; painting it black ends the loop.\<close>

definition lacks_black :: "step list \<Rightarrow> rbtree \<Rightarrow> bool" where
  "lacks_black C T \<longleftrightarrow> rb (paint False T) \<and> hole_ok C (bh T + 1)"

text \<open>After a step the loop goes on higher up, or it ends at once, at a red node or with the whole tree
  in order. \<open>xs\<close> are the entries of the tree and \<open>b\<close> bounds the distance to the end.\<close>

definition distance :: "step list \<Rightarrow> rbtree \<Rightarrow> nat" where
  "distance C T = (if red T then 0 else length C)"

definition delete_progress :: "nat \<Rightarrow> (nat \<times> 64 word) list \<Rightarrow> nat \<Rightarrow> ngx_rbtree \<Rightarrow> bool" where
  "delete_progress b xs m t \<longleftrightarrow>
     (\<exists>D S. focus t D S \<and> m = addr (rbt_sentinel t) S \<and> up_ok t D S \<and> lacks_black D S \<and> distance D S < b \<and>
        entries (plug D S) = xs) \<or>
     (\<exists>S. focus t [] S \<and> m = addr (rbt_sentinel t) S \<and> rb S \<and> entries S = xs)"

lemma not_red_paint: "\<not> red T \<Longrightarrow> paint False T = T"
  by (cases T rule: red.cases) auto

lemma delete_black_sibling:
  assumes F: "focus t (Lf (p, cp, kp) \<langle>A, (w, False, kw), B\<rangle> # C) T" and U: "up_ok t (Lf (p, cp, kp) \<langle>A, (w, False, kw), B\<rangle> # C) T"
    and L: "lacks_black (Lf (p, cp, kp) \<langle>A, (w, False, kw), B\<rangle> # C) T" and T: "\<not> red T"
    and x: "x = addr (rbt_sentinel t) T"
  shows "\<exists>m t'. delete_black_left x w t = Some (m, t') \<and>
    delete_progress (if cp then 1 else length C + 1)
      (entries (plug (Lf (p, cp, kp) \<langle>A, (w, False, kw), B\<rangle> # C) T)) m t' \<and>
    keeps (set (adrs T @ cadrs (Lf (p, cp, kp) \<langle>A, (w, False, kw), B\<rangle> # C))) t t'"
proof -
  let ?C = "Lf (p, cp, kp) \<langle>A, (w, False, kw), B\<rangle> # C"
  note R = sibling_reads [OF F U]
  have step: "delete_black_left x w t = (if \<not> red A \<and> \<not> red B then do { t \<leftarrow> ngx_rbt_red w t; p \<leftarrow> rd_parent x t; Some (p, t) }
      else do {
        y \<leftarrow> (if \<not> red B then delete_inner_left x w t else Some (w, t));
        t \<leftarrow> delete_turn_left x (fst y) (snd y);
        Some (rbt_root t, t)
      })"
    using R by (simp add: delete_black_left_def x)
  let ?K = "set (adrs T @ cadrs ?C)"
  have s: "rbt_sentinel t \<notin> ?K" using focus_not_sentinel [OF F] .
  have inv: "rb T" "rb A" "rb B" "bh A = bh T" "bh B = bh T" "hole_ok C (bh T + 1 + (if cp then 0 else 1))"
    using L not_red_paint [OF T] by (auto simp: lacks_black_def)
  have turned: "\<exists>m t'. delete_turn_left x v t1 \<bind> (\<lambda>t. Some (rbt_root t, t)) = Some (m, t') \<and>
      delete_progress d (entries (plug ?C T)) m t' \<and> keeps ?K t t'"
    if v: "focus t1 (Lf (p, cp, kp) \<langle>A', (v, cv, kv), B'\<rangle> # C) T" "up_ok t1 (Lf (p, cp, kp) \<langle>A', (v, cv, kv), B'\<rangle> # C) T"
      "red B'" "rb A'" "rb (paint False B')" "bh A' = bh T" "bh B' = bh T"
      "entries \<langle>A', (v, cv, kv), B'\<rangle> = entries \<langle>A, (w, False, kw), B\<rangle>" "keeps ?K t t1" for v A' B' cv kv t1 d
  proof -
    obtain bl b i br where B': "B' = \<langle>bl, (b, i), br\<rangle>" using \<open>red B'\<close> by (cases B') auto
    have x1: "x = addr (rbt_sentinel t1) T" using v(9) x by (simp add: keeps_def)
    from delete_turn_focus [OF v(1,2) B'] obtain t2 where t2: "delete_turn_left x v t1 = Some t2"
      "focus t2 C \<langle>\<langle>T, (p, False, kp), A'\<rangle>, (v, cp, kv), paint False B'\<rangle>" "keeps (set (b # p # v # adrs A' @ cadrs C)) t1 t2"
      by (auto simp: x1)
    let ?S = "\<langle>\<langle>T, (p, False, kp), A'\<rangle>, (v, cp, kv), paint False B'\<rangle>"
    have E: "entries (plug C ?S) = entries (plug ?C T)"
      using v(8) by (auto intro!: entries_plug)
    have b: "bh (paint False B') = bh T + 1" using v(3,7) by (cases B' rule: red.cases) auto
    have "hole_ok C (bh ?S)" using inv(6) by simp
    moreover have "rb ?S" using inv v(4-7) T b by auto
    moreover have "red ?S \<longrightarrow> \<not> hole_red C" using L by (auto simp: lacks_black_def)
    ultimately have "rb (plug C ?S)" by (intro rb_plug)
    have f: "focus t2 [] (plug C ?S)" using t2(2) focus_plug by blast
    have a: "set (b # p # v # adrs A' @ cadrs C) \<subseteq> ?K"
      using arg_cong [OF v(8), of "\<lambda>xs. fst ` set xs"] B' by (cases i) (auto simp: adrs_entries image_Un)
    then have K: "keeps ?K t t2" using keeps_trans [OF v(9) keeps_mono [OF t2(3)]] by blast
    then have "delete_progress d (entries (plug ?C T)) (rbt_root t2) t2"
      using f \<open>rb (plug C ?S)\<close> E root_addr [OF f] unfolding delete_progress_def by metis
    with t2(1) K show ?thesis by simp
  qed
  show ?thesis
  proof (cases "red B")
    case True
    from turned [of t A w False kw B] F U True inv show ?thesis
      unfolding step using L x by (auto simp: lacks_black_def bh_paint)
  next
    case False
    show ?thesis
    proof (cases "red A")
      case True
      then obtain al a ka ar where A: "A = \<langle>al, (a, True, ka), ar\<rangle>" by (cases A rule: red.cases) auto
      from delete_inner_focus [OF F [unfolded A] U [unfolded A]] obtain t1 where
        t1: "delete_inner_left x w t = Some (a, t1)" "focus t1 (Lf (p, cp, kp) \<langle>al, (a, False, ka), \<langle>ar, (w, True, kw), B\<rangle>\<rangle> # C) T"
        "up_ok t1 (Lf (p, cp, kp) \<langle>al, (a, False, ka), \<langle>ar, (w, True, kw), B\<rangle>\<rangle> # C) T"
        "keeps (set (a # w # adrs ar @ p # adrs T @ cadrs C)) t t1" by (auto simp: x)
      have "keeps ?K t t1" by (rule keeps_mono [OF t1(4)]) (auto simp: A)
      with turned [OF t1(2,3)] inv True False A t1(1) show ?thesis unfolding step by simp
    next
      case nA: False
      have "focus t (Rt T (p, cp, kp) # C) \<langle>A, (w, False, kw), B\<rangle>" using F by (simp add: focus_Lf focus_Rt)
      from focus_paint(1) [OF this refl] obtain t1 where t1: "ngx_rbt_red w t = Some t1"
        "focus t1 C \<langle>T, (p, cp, kp), \<langle>A, (w, True, kw), B\<rangle>\<rangle>" "keeps {w} t t1" by (auto simp: focus_Rt)
      let ?S = "\<langle>T, (p, cp, kp), \<langle>A, (w, True, kw), B\<rangle>\<rangle>"
      have K: "keeps ?K t t1" by (rule keeps_mono [OF t1(3)]) auto
      have s1: "rbt_sentinel t1 = rbt_sentinel t" using K by (simp add: keeps_def)
      have "up_ok t1 (Lf (p, cp, kp) \<langle>A, (w, True, kw), B\<rangle> # C) T" by (rule up_keeps [OF U K s]) auto
      from up_parent [OF _ this] t1(2) have p: "rd_parent x t1 = Some p" by (simp add: x s1 focus_Lf)
      have "lacks_black C ?S" using L inv T nA False by (auto simp: lacks_black_def)
      moreover have "entries (plug C ?S) = entries (plug ?C T)" by (auto intro!: entries_plug)
      moreover have "up_ok t1 C ?S" by (simp add: up_ok_def)
      moreover have "distance C ?S < (if cp then 1 else length C + 1)" by (simp add: distance_def)
      ultimately have "delete_progress (if cp then 1 else length C + 1) (entries (plug ?C T)) p t1"
        using t1(2) unfolding delete_progress_def by (metis addr.simps(2))
      with K t1(1) p nA False show ?thesis unfolding step by simp
    qed
  qed
qed

lemma progress_mono: "delete_progress b xs m t \<Longrightarrow> b \<le> b' \<Longrightarrow> delete_progress b' xs m t"
  unfolding delete_progress_def by (elim disj_forward ex_forward conj_forward) auto

lemma delete_step_left_ok:
  assumes F: "focus t (Lf j sib # C) T" and U: "up_ok t (Lf j sib # C) T" and L: "lacks_black (Lf j sib # C) T"
    and T: "\<not> red T" and x: "x = addr (rbt_sentinel t) T"
  shows "\<exists>m t'. delete_step_left x t = Some (m, t') \<and>
    delete_progress (length C + 1) (entries (plug (Lf j sib # C) T)) m t' \<and>
    keeps (set (adrs T @ cadrs (Lf j sib # C))) t t'"
proof -
  obtain p cp kp where j: "j = (p, cp, kp)" by (cases j)
  have "bh sib > 0" using L j by (auto simp: lacks_black_def)
  then obtain A w cw kw B where sib: "sib = \<langle>A, (w, cw, kw), B\<rangle>" by (cases sib rule: red.cases) auto
  note R = sibling_reads [OF F [unfolded j sib] U [unfolded j sib]]
  show ?thesis
  proof (cases cw)
    case False
    then have sib': "sib = \<langle>A, (w, False, kw), B\<rangle>" using sib by simp
    from delete_black_sibling [OF F [unfolded j sib'] U [unfolded j sib'] L [unfolded j sib'] T x]
    obtain m t' where m: "delete_black_left x w t = Some (m, t')" "delete_progress (if cp then 1 else length C + 1) (entries (plug (Lf j sib # C) T)) m t'"
      "keeps (set (adrs T @ cadrs (Lf j sib # C))) t t'" unfolding j sib' by blast
    have "delete_step_left x t = Some (m, t')"
      using R m(1) False unfolding delete_step_left_def x by simp
    moreover have "delete_progress (length C + 1) (entries (plug (Lf j sib # C) T)) m t'"
      using m(2) by (rule progress_mono) simp
    ultimately show ?thesis using m(3) by blast
  next
    case True
    then have A: "\<not> red A" "bh A = bh T + 1" and cp: "\<not> cp" and ho: "rb A" "rb B" "bh B = bh A" "hole_ok C (bh T + 2)"
      using L by (auto simp: lacks_black_def j sib)
    then obtain al a ka ar where A': "A = \<langle>al, (a, False, ka), ar\<rangle>" by (cases A rule: red.cases) auto
    from delete_red_focus [OF F [unfolded j sib] U [unfolded j sib] A'] obtain t1 where
      t1: "delete_red_left x w t = Some (a, t1)" "focus t1 (Lf (p, True, kp) A # Lf (w, False, kw) B # C) T"
      "up_ok t1 (Lf (p, True, kp) A # Lf (w, False, kw) B # C) T" "keeps (set (p # w # adrs A @ cadrs C)) t t1"
      by (auto simp: x)
    have K: "keeps (set (adrs T @ cadrs (Lf j sib # C))) t t1"
      by (rule keeps_mono [OF t1(4)]) (auto simp: j sib)
    have x1: "x = addr (rbt_sentinel t1) T" using K x by (simp add: keeps_def)
    have "lacks_black (Lf (p, True, kp) A # Lf (w, False, kw) B # C) T"
      using L A ho by (auto simp: lacks_black_def)
    from delete_black_sibling [OF t1(2,3) [unfolded A'] this [unfolded A'] T x1]
    obtain m t' where m: "delete_black_left x a t1 = Some (m, t')" "delete_progress 1 (entries (plug (Lf (p, True, kp) A # Lf (w, False, kw) B # C) T)) m t'"
      "keeps (set (adrs T @ cadrs (Lf (p, True, kp) A # Lf (w, False, kw) B # C))) t1 t'" unfolding A' by auto
    have "delete_step_left x t = Some (m, t')"
      using R t1(1) m(1) True unfolding delete_step_left_def x [symmetric] by simp
    moreover have "entries (plug (Lf (p, True, kp) A # Lf (w, False, kw) B # C) T) = entries (plug (Lf j sib # C) T)"
      by (auto simp: j sib intro!: entries_plug)
    then have "delete_progress (length C + 1) (entries (plug (Lf j sib # C) T)) m t'"
      using progress_mono [OF m(2), of "length C + 1"] by simp
    moreover have "keeps (set (adrs T @ cadrs (Lf j sib # C))) t t'"
      by (rule keeps_trans [OF K]) (rule keeps_mono [OF m(3)], auto simp: j sib)
    ultimately show ?thesis by blast
  qed
qed

section \<open>The loop\<close>

lemma up_mir: "up_ok (mir t) (map mir_step C) (mirror T) = up_ok t C T"
proof -
  have "above (mir_step f) = above f" for f by (cases f) auto
  then show ?thesis by (cases C) (auto simp: up_ok_def)
qed

lemma mirror_paint: "paint c (mirror T) = mirror (paint c T)"
  by (cases "(c, T)" rule: paint.cases) auto

lemma lacks_mirror: "lacks_black C T \<Longrightarrow> lacks_black (map mir_step C) (mirror T)"
  by (cases T rule: red.cases) (auto simp: lacks_black_def bh_left)

lemma progress_mir: "delete_progress b xs m t \<Longrightarrow> delete_progress b (rev xs) m (mir t)"
  unfolding delete_progress_def
proof (elim disjE exE conjE)
  fix D S
  assume "focus t D S" "m = addr (rbt_sentinel t) S" "up_ok t D S" "lacks_black D S" "distance D S < b" "entries (plug D S) = xs"
  then have "focus (mir t) (map mir_step D) (mirror S)" "m = addr (rbt_sentinel (mir t)) (mirror S)"
    "up_ok (mir t) (map mir_step D) (mirror S)" "lacks_black (map mir_step D) (mirror S)"
    "distance (map mir_step D) (mirror S) < b" "entries (plug (map mir_step D) (mirror S)) = rev xs"
    by (simp_all add: focus_mir up_mir lacks_mirror distance_def plug_mirror split: if_splits)
  then show "(\<exists>D S. focus (mir t) D S \<and> m = addr (rbt_sentinel (mir t)) S \<and> up_ok (mir t) D S \<and> lacks_black D S \<and>
      distance D S < b \<and> entries (plug D S) = rev xs) \<or>
    (\<exists>S. focus (mir t) [] S \<and> m = addr (rbt_sentinel (mir t)) S \<and> rb S \<and> entries S = rev xs)" by blast
next
  fix S
  assume "focus t [] S" "m = addr (rbt_sentinel t) S" "rb S" "entries S = xs"
  then have "focus (mir t) [] (mirror S)" "m = addr (rbt_sentinel (mir t)) (mirror S)" "rb (mirror S)" "entries (mirror S) = rev xs"
    using focus_mir [of t "[]" S] by simp_all
  then show "(\<exists>D S. focus (mir t) D S \<and> m = addr (rbt_sentinel (mir t)) S \<and> up_ok (mir t) D S \<and> lacks_black D S \<and>
      distance D S < b \<and> entries (plug D S) = rev xs) \<or>
    (\<exists>S. focus (mir t) [] S \<and> m = addr (rbt_sentinel (mir t)) S \<and> rb S \<and> entries S = rev xs)" by blast
qed

lemma copy_color_mir: "ngx_rbt_copy_color a b (mir t) = map_option mir (ngx_rbt_copy_color a b t)"
  by (simp add: ngx_rbt_copy_color_def bind_map_mir)

lemma delete_parts_mir:
  "delete_red_right x w (mir t) = map_option (map_prod id mir) (delete_red_left x w t)"
  "delete_inner_right x w (mir t) = map_option (map_prod id mir) (delete_inner_left x w t)"
  "delete_turn_right x w (mir t) = map_option mir (delete_turn_left x w t)"
  by (simp_all add: delete_red_right_def delete_red_left_def delete_inner_right_def delete_inner_left_def
      delete_turn_right_def delete_turn_left_def bind_map_mir map_bind_mir rotate_mir copy_color_mir)

lemma bind_map_prod: "map_option (map_prod id mir) m \<bind> f = m \<bind> (\<lambda>x. f (fst x, mir (snd x)))"
  by (cases m) (simp_all add: map_prod_def split_def)

lemma delete_step_mir: "delete_step_right x (mir t) = map_option (map_prod id mir) (delete_step_left x t)"
proof -
  have part_if: "(if b then map_option (map_prod id mir) y else Some (w, mir t)) =
      map_option (map_prod id mir) (if b then y else Some (w, t))" for b y w t
    by simp
  have recolour: "(ngx_rbt_red w (mir t) \<bind> (\<lambda>t. rd_parent x t \<bind> (\<lambda>p. Some (p, t)))) =
      map_option (map_prod id mir) (ngx_rbt_red w t \<bind> (\<lambda>t. rd_parent x t \<bind> (\<lambda>p. Some (p, t))))" for w t
    by (simp add: bind_map_mir map_bind_mir)
  have rotate: "((if b then delete_inner_right x w (mir t) else Some (w, mir t)) \<bind>
        (\<lambda>y. delete_turn_right x (fst y) (snd y) \<bind> (\<lambda>t. Some (rbt_root t, t)))) =
      map_option (map_prod id mir) ((if b then delete_inner_left x w t else Some (w, t)) \<bind>
        (\<lambda>y. delete_turn_left x (fst y) (snd y) \<bind> (\<lambda>t. Some (rbt_root t, t))))" for b w t
    by (simp add: bind_map_mir map_bind_mir bind_map_prod delete_parts_mir split: if_split)
  have "delete_black_right x w (mir t) = map_option (map_prod id mir) (delete_black_left x w t)" for w t
    unfolding delete_black_left_def delete_black_right_def
    by (simp only: mir_reads recolour rotate if_distrib [of "map_option (map_prod id mir)", symmetric] bind_map_mir [symmetric])
  then show ?thesis
    by (simp add: delete_step_left_def delete_step_right_def bind_map_mir bind_map_prod part_if delete_parts_mir cong: if_cong)
qed

lemma delete_step_right_ok:
  assumes F: "focus t (Rt sib j # C) T" and U: "up_ok t (Rt sib j # C) T" and L: "lacks_black (Rt sib j # C) T"
    and T: "\<not> red T" and x: "x = addr (rbt_sentinel t) T"
  shows "\<exists>m t'. delete_step_right x t = Some (m, t') \<and>
    delete_progress (length C + 1) (entries (plug (Rt sib j # C) T)) m t' \<and>
    keeps (set (adrs T @ cadrs (Rt sib j # C))) t t'"
proof -
  let ?C = "Lf j (mirror sib) # map mir_step C"
  have C: "map mir_step (Rt sib j # C) = ?C" by simp
  have "focus (mir t) ?C (mirror T)" "up_ok (mir t) ?C (mirror T)" "lacks_black ?C (mirror T)"
    using F U lacks_mirror [OF L] unfolding C [symmetric] by (simp_all only: focus_mir up_mir)
  from delete_step_left_ok [OF this, of x] T x obtain m t' where
    *: "delete_step_left x (mir t) = Some (m, t')"
      "delete_progress (length (map mir_step C) + 1) (entries (plug ?C (mirror T))) m t'"
      "keeps (set (adrs (mirror T) @ cadrs ?C)) (mir t) t'" by auto
  have "delete_step_right x t = Some (m, mir t')"
    using delete_step_mir [of x "mir t"] *(1) by simp
  moreover have "delete_progress (length C + 1) (entries (plug (Rt sib j # C) T)) m (mir t')"
    using progress_mir [OF *(2)] unfolding C [symmetric] by (simp only: plug_mirror entries_mirror rev_rev_ident length_map)
  moreover have "keeps (set (adrs T @ cadrs (Rt sib j # C))) t (mir t')"
    using *(3) keeps_mir [of _ t "mir t'"] unfolding C [symmetric]
    by (simp only: set_append set_cadrs_mir adrs_mirror set_rev mir_mir)
  ultimately show ?thesis by blast
qed

lemma sentinel_black: "focus t C T \<Longrightarrow> ngx_rbt_black (rbt_sentinel t) t = Some t"
  by (auto simp: focus_def ngx_rbt_black_def memory_simps fun_upd_idem)

lemma focus_black: "focus t C T \<Longrightarrow>
    \<exists>t'. ngx_rbt_black (addr (rbt_sentinel t) T) t = Some t' \<and> focus t' C (paint False T) \<and> keeps (set (adrs T)) t t'"
  using focus_paint(2) [of t C T] keeps_mono
  by (cases T) (fastforce simp: sentinel_black)+

lemma delete_loop_ok:
  assumes "focus t C T" "up_ok t C T" "lacks_black C T"
  shows "\<exists>m t' t'' T'. delete_loop (addr (rbt_sentinel t) T) t = Some (m, t') \<and> ngx_rbt_black m t' = Some t'' \<and>
    focus t'' [] T' \<and> rb T' \<and> \<not> red T' \<and> entries T' = entries (plug C T) \<and> keeps (set (adrs T @ cadrs C)) t t''"
  using assms
proof (induction "distance C T" arbitrary: t C T rule: less_induct)
  case less
  note F = less(2) and U = less(3) and L = less(4)
  let ?x = "addr (rbt_sentinel t) T"
  show ?case
  proof (cases "red T \<or> C = []")
    case True
    obtain t'' where t'': "ngx_rbt_black ?x t = Some t''" "focus t'' C (paint False T)" "keeps (set (adrs T)) t t''"
      using focus_black [OF F] by blast
    have "delete_loop ?x t = Some (?x, t)"
      using focus_at_root [OF F] focus_is_red [OF F] True by (auto simp: delete_loop.simps)
    moreover have "rb (plug C (paint False T)) \<and> \<not> red (plug C (paint False T))"
    proof (cases "C = []")
      case False
      then have "bh (paint False T) = bh T + 1" using True by (cases T rule: red.cases) auto
      with L False show ?thesis using rb_plug [of "paint False T" C] red_plug [of C "bh T + 1"]
        by (auto simp: lacks_black_def)
    qed (use L in \<open>simp add: lacks_black_def\<close>)
    moreover have "entries (plug C (paint False T)) = entries (plug C T)" by (auto intro: entries_plug)
    moreover have "keeps (set (adrs T @ cadrs C)) t t''" using t''(3) by (rule keeps_mono) simp
    ultimately show ?thesis using t''(1,2) focus_plug by blast
  next
    case False
    then obtain f D where C: "C = f # D" by (cases C) auto
    have dist: "distance C T = length D + 1" using False C by (simp add: distance_def)
    note P = up_parent [OF F [unfolded C] U [unfolded C]]
    define xs where "xs = entries (plug C T)"
    have "\<exists>m t'. (do { p \<leftarrow> rd_parent ?x t; l \<leftarrow> rd_left p t; if ?x = l then delete_step_left ?x t else delete_step_right ?x t })
        = Some (m, t') \<and> delete_progress (distance C T) xs m t' \<and> keeps (set (adrs T @ cadrs C)) t t'"
    proof (cases f)
      case (Lf j sib)
      have "rd_left (above f) t = Some ?x"
        using focus_reads(1) [of t D T "fst j" "fst (snd j)" "snd (snd j)" sib] F C Lf by (simp add: focus_Lf)
      with delete_step_left_ok [OF F [unfolded C Lf] U [unfolded C Lf] L [unfolded C Lf] _ refl] False P Lf
      show ?thesis unfolding dist unfolding xs_def C by simp
    next
      case (Rt sib j)
      have sib: "bh sib > 0" using L C Rt by (cases j) (auto simp: lacks_black_def)
      have "rd_left (above f) t = Some (addr (rbt_sentinel t) sib)"
        using focus_reads(1) [of t D sib "fst j" "fst (snd j)" "snd (snd j)" T] F C Rt by (simp add: focus_Rt)
      moreover have "?x \<noteq> addr (rbt_sentinel t) sib"
        using sib F addr_in [of "rbt_sentinel t" T] C Rt by (cases sib rule: red.cases) (auto simp: focus_def)
      ultimately show ?thesis
        using delete_step_right_ok [OF F [unfolded C Rt] U [unfolded C Rt] L [unfolded C Rt] _ refl] False P Rt
        unfolding dist unfolding xs_def C by simp
    qed
    then obtain m t1 where S: "(do { p \<leftarrow> rd_parent ?x t; l \<leftarrow> rd_left p t;
        if ?x = l then delete_step_left ?x t else delete_step_right ?x t }) = Some (m, t1)"
      "delete_progress (distance C T) xs m t1" "keeps (set (adrs T @ cadrs C)) t t1" by blast
    have loop: "delete_loop ?x t = delete_loop m t1"
      using focus_at_root [OF F] focus_is_red [OF F] False S(1) by (subst delete_loop.simps) (auto simp: bind_eq_Some_conv split: if_splits)
    have s: "rbt_sentinel t1 = rbt_sentinel t" using S(3) by (simp add: keeps_def)
    have adrs: "set (adrs T @ cadrs C) = fst ` set xs"
      unfolding xs_def using adrs_plug [of C T] by (simp add: adrs_entries)
    from S(2) show ?thesis
      unfolding delete_progress_def
    proof (elim disjE exE conjE)
      fix E R
      assume R: "focus t1 E R" "m = addr (rbt_sentinel t1) R" "up_ok t1 E R" "lacks_black E R" "distance E R < distance C T"
        "entries (plug E R) = xs"
      have "set (adrs R @ cadrs E) = fst ` set xs"
        unfolding R(6) [symmetric] using adrs_plug [of E R] by (simp add: adrs_entries)
      then show ?thesis
        using less(1) [OF R(5) R(1,3,4)] R(2,6) loop keeps_trans [OF S(3)] unfolding adrs xs_def [symmetric] by auto
    next
      fix R
      assume R: "focus t1 [] R" "m = addr (rbt_sentinel t1) R" "rb R" "entries R = xs"
      have "set (adrs R) = fst ` set xs" using R(4) by (simp add: adrs_entries)
      moreover have "delete_loop m t1 = Some (m, t1)"
        using focus_at_root [OF R(1)] R(2) by (simp add: delete_loop.simps)
      then have "delete_loop ?x t = Some (m, t1)"
        using loop by simp
      moreover obtain t2 where t2: "ngx_rbt_black m t1 = Some t2" "focus t2 [] (paint False R)" "keeps (set (adrs R)) t1 t2"
        using focus_black [OF R(1)] R(2) by blast
      moreover have "rb (paint False R) \<and> \<not> red (paint False R) \<and> entries (paint False R) = xs"
        using bh_paint [OF R(3)] R(4) by simp
      ultimately show ?thesis using keeps_trans [OF S(3)] unfolding adrs xs_def [symmetric] by metis
    qed
  qed
qed

section \<open>Unlinking\<close>

lemma focus_append: "focus t (D @ C) T \<longleftrightarrow> focus t C (plug D T)"
  by (induction D T rule: plug.induct) (simp_all add: focus_Lf focus_Rt)

lemma cadrs_append [simp]: "cadrs (D @ C) = cadrs D @ cadrs C"
  by (induction D rule: cadrs.induct) simp_all

lemma keeps_focus:
  assumes F: "focus t C T" and K: "keeps A t t'" and r: "rbt_root t' = rbt_root t"
    and A: "A \<inter> set (adrs T @ cadrs C) = {}" "rbt_sentinel t \<notin> A"
  shows "focus t' C T"
proof -
  have "A \<inter> set (adrs T) = {}" "A \<inter> set (cadrs C) = {}" using A(1) by auto
  note k = shape_keeps [OF K this(1)] ctx_keeps [OF K this(2)] sentinel_keeps [OF K A(2)]
  from F show ?thesis unfolding focus_def by (simp add: k r)
qed

text \<open>The child pointer to a node with one empty subtree.\<close>

lemma unlink_child:
  assumes F: "focus t (f # C) \<langle>L, (m, c, k), R\<rangle>" and S: "L = \<langle>\<rangle> \<and> S = R \<or> R = \<langle>\<rangle> \<and> S = L"
  defines "s \<equiv> rbt_sentinel t"
  shows "\<exists>t1. (do { p \<leftarrow> rd_parent m t; l \<leftarrow> rd_left p t; if m = l then wr_left p (addr s S) t else wr_right p (addr s S) t })
      = Some t1 \<and> keeps {above f} t t1 \<and> rbt_root t1 = rbt_root t \<and>
    ctx (rbt_mem t1) s (rbt_root t1) (addr s S) (above f) (f # C) \<and> shape (rbt_mem t1) s m S"
proof -
  have sh: "shape (rbt_mem t) s m S" using F S by (auto simp: focus_def s_def)
  have dS: "above f \<notin> set (adrs S)" using F S by (cases f) (auto simp: focus_def)
  note P = focus_parent [OF F]
  obtain a ca ka sib where "f = Lf (a, ca, ka) sib \<or> f = Rt sib (a, ca, ka)" by (cases f) auto
  then show ?thesis
  proof
    assume f: "f = Lf (a, ca, ka) sib"
    from F obtain par where n: "node_ok (rbt_mem t) a par m (addr s sib) ca ka"
      and c: "ctx (rbt_mem t) s (rbt_root t) a par C" "shape (rbt_mem t) s a sib" by (auto simp: f focus_def s_def)
    have d: "a \<notin> set (adrs sib)" "a \<notin> set (cadrs C)" using F by (auto simp: focus_def f)
    from node_writes(1) [OF n, of "addr s S"] obtain t1 where W: "wr_left a (addr s S) t = Some t1" "keeps {a} t t1"
      "rbt_root t1 = rbt_root t" "node_ok (rbt_mem t1) a par (addr s S) (addr s sib) ca ka" by blast
    have "ctx (rbt_mem t1) s (rbt_root t1) (addr s S) (above f) (f # C)"
      using c d(1,2) W(4) by (auto simp: f part_keeps [OF W(2)] W(3))
    moreover have "shape (rbt_mem t1) s m S" using sh dS by (simp add: f part_keeps [OF W(2)])
    ultimately show ?thesis using P W(1-3) node_reads(1) [OF n] by (simp add: f)
  next
    assume f: "f = Rt sib (a, ca, ka)"
    from F obtain par where n: "node_ok (rbt_mem t) a par (addr s sib) m ca ka"
      and c: "ctx (rbt_mem t) s (rbt_root t) a par C" "shape (rbt_mem t) s a sib" by (auto simp: f focus_def s_def)
    have d: "a \<notin> set (adrs sib)" "a \<notin> set (cadrs C)" "m \<noteq> addr s sib"
      using F addr_in [of s sib] by (auto simp: focus_def f s_def)
    from node_writes(2) [OF n, of "addr s S"] obtain t1 where W: "wr_right a (addr s S) t = Some t1" "keeps {a} t t1"
      "rbt_root t1 = rbt_root t" "node_ok (rbt_mem t1) a par (addr s sib) (addr s S) ca ka" by blast
    have "ctx (rbt_mem t1) s (rbt_root t1) (addr s S) (above f) (f # C)"
      using c d(1,2) W(4) by (auto simp: f part_keeps [OF W(2)] W(3))
    moreover have "shape (rbt_mem t1) s m S" using sh dS by (simp add: f part_keeps [OF W(2)])
    ultimately show ?thesis using P d(3) W(1-3) node_reads(1) [OF n] by (simp add: f)
  qed
qed

text \<open>The parent of the subtree that moves up, the sentinel included.\<close>

lemma set_up:
  assumes "shape (rbt_mem t) s pr S" "s \<notin> set (adrs S)" "distinct (adrs S)" "rbt_mem t s = Some nd" "rb_color nd = 0"
  shows "\<exists>t' nd'. wr_parent (addr s S) v t = Some t' \<and> keeps {addr s S} t t' \<and> rbt_root t' = rbt_root t \<and> shape (rbt_mem t') s v S \<and>
    rd_parent (addr s S) t' = Some v \<and> rbt_mem t' s = Some nd' \<and> rb_color nd' = 0"
proof (cases S rule: red.cases)
  case 1
  with assms show ?thesis by (auto simp: memory_simps keeps_def)
next
  case (2 l a c k r)
  with assms have n: "node_ok (rbt_mem t) a pr (addr s l) (addr s r) c k" by simp
  from node_writes(3) [OF n, of v] obtain t' where W: "wr_parent a v t = Some t'" "keeps {a} t t'" "rbt_root t' = rbt_root t"
    "node_ok (rbt_mem t') a v (addr s l) (addr s r) c k" by blast
  moreover have "rbt_mem t' s = Some nd" using W(2) assms 2 by (simp add: keeps_def)
  ultimately show ?thesis
    using 2 assms node_reads(3) [OF W(4)] by (auto simp: part_keeps [OF W(2)])
qed

lemma unlink_parts:
  "delete_unlink n m q t =
     (do { p \<leftarrow> rd_parent m t; l \<leftarrow> rd_left p t; if m = l then wr_left p q t else wr_right p q t }) \<bind>
     (\<lambda>t. rd_parent m t \<bind> (\<lambda>p. if m = n then wr_parent q p t
        else (if p = n then wr_parent q m t else wr_parent q p t) \<bind> delete_replace n m))"
  by (simp add: delete_unlink_def bind_assoc)

text \<open>What is common to both cases: \<open>S\<close> moves up, and its root gets the parent \<open>v\<close>.\<close>

lemma unlink_up:
  assumes F: "focus t (f # C) \<langle>L, (m, c, k), R\<rangle>" and S: "L = \<langle>\<rangle> \<and> S = R \<or> R = \<langle>\<rangle> \<and> S = L"
    and v: "v = (if m \<noteq> n \<and> above f = n then m else above f)" and s: "s = rbt_sentinel t"
  shows "\<exists>t' nd. delete_unlink n m (addr s S) t = (if m = n then Some t' else delete_replace n m t') \<and>
    ctx (rbt_mem t') s (rbt_root t') (addr s S) (above f) (f # C) \<and> shape (rbt_mem t') s v S \<and>
    rd_parent (addr s S) t' = Some v \<and> rbt_mem t' s = Some nd \<and> rb_color nd = 0 \<and> rbt_mem t' m = rbt_mem t m \<and>
    keeps (set (s # adrs S @ cadrs (f # C))) t t'"
proof -
  from unlink_child [OF F S] obtain t1 where 1: "(do { p \<leftarrow> rd_parent m t; l \<leftarrow> rd_left p t;
      if m = l then wr_left p (addr s S) t else wr_right p (addr s S) t }) = Some t1" "keeps {above f} t t1"
    "rbt_root t1 = rbt_root t" "ctx (rbt_mem t1) s (rbt_root t1) (addr s S) (above f) (f # C)" "shape (rbt_mem t1) s m S"
    unfolding s by blast
  have a: "above f \<in> set (cadrs (f # C))" by (cases f) auto
  have d: "s \<notin> set (adrs S @ cadrs (f # C))" "distinct (adrs S @ cadrs (f # C))" "m \<notin> set (adrs S @ cadrs (f # C))" "m \<noteq> s"
    using F S by (auto simp: focus_def s)
  have ne: "s \<noteq> above f" "m \<noteq> above f" using a d(1,3) by (metis Un_iff set_append)+
  then have "rbt_mem t1 s = rbt_mem t s" "rbt_mem t1 m = rbt_mem t m" using 1(2) by (simp_all add: keeps_def)
  with F obtain nd where nd: "rbt_mem t1 s = Some nd" "rb_color nd = 0" by (auto simp: focus_def s)
  from set_up [OF 1(5) _ _ nd, of v] d obtain t2 nd' where 2: "wr_parent (addr s S) v t1 = Some t2"
    "keeps {addr s S} t1 t2" "rbt_root t2 = rbt_root t1" "shape (rbt_mem t2) s v S"
    "rd_parent (addr s S) t2 = Some v" "rbt_mem t2 s = Some nd'" "rb_color nd' = 0" by auto
  have aS: "addr s S \<notin> set (cadrs (f # C))" "addr s S \<noteq> m" using addr_in [of s S] d by auto
  have "rd_parent m t1 = Some (above f)"
    using \<open>rbt_mem t1 m = rbt_mem t m\<close> focus_parent [OF F] by (simp add: rd_parent_def)
  then have "delete_unlink n m (addr s S) t = (if m = n then Some t2 else delete_replace n m t2)"
    using 1(1) 2(1) v by (cases "m = n"; cases "above f = n") (simp_all add: unlink_parts)
  moreover have "ctx (rbt_mem t2) s (rbt_root t2) (addr s S) (above f) (f # C)"
    using 1(4) aS(1) by (simp add: ctx_keeps [OF 2(2)] 2(3))
  moreover have "rbt_mem t2 m = rbt_mem t m"
    using 2(2) aS(2) \<open>rbt_mem t1 m = rbt_mem t m\<close> by (simp add: keeps_def)
  moreover have "keeps (set (s # adrs S @ cadrs (f # C))) t t2"
    by (rule keeps_trans [OF keeps_mono [OF 1(2)] keeps_mono [OF 2(2)]]) (use a addr_in [of s S] in auto)
  ultimately show ?thesis using 2(4-7) by blast
qed

text \<open>The case \<open>subst == node\<close>.\<close>

lemma unlink_node_ok:
  assumes F: "focus t (f # C) \<langle>L, (n, c, k), R\<rangle>" and S: "L = \<langle>\<rangle> \<and> S = R \<or> R = \<langle>\<rangle> \<and> S = L"
  shows "\<exists>t'. delete_unlink n n (addr (rbt_sentinel t) S) t = Some t' \<and> focus t' (f # C) S \<and> up_ok t' (f # C) S \<and>
    keeps (set (rbt_sentinel t # adrs S @ cadrs (f # C))) t t'"
proof -
  define s where "s = rbt_sentinel t"
  from unlink_up [OF F S refl s_def, of n] obtain t' nd where t': "delete_unlink n n (addr s S) t = Some t'"
    "ctx (rbt_mem t') s (rbt_root t') (addr s S) (above f) (f # C)" "shape (rbt_mem t') s (above f) S"
    "rd_parent (addr s S) t' = Some (above f)" "rbt_mem t' s = Some nd" "rb_color nd = 0"
    "keeps (set (s # adrs S @ cadrs (f # C))) t t'" by auto
  have s': "rbt_sentinel t' = s" using t'(7) by (simp add: keeps_def s_def)
  have "distinct (adrs S @ cadrs (f # C))" "s \<notin> set (adrs S @ cadrs (f # C))" using F S by (auto simp: focus_def s_def)
  with t' have "focus t' (f # C) S" unfolding focus_def s' by blast
  moreover have "up_ok t' (f # C) S" using t'(4) by (auto simp: up_ok_def s')
  ultimately show ?thesis using t'(1,7) by (auto simp: s_def)
qed

text \<open>A node in the place of another one. The subtrees may have any parent before.\<close>

lemma delete_replace_ok:
  assumes n: "node_ok (rbt_mem t) n par (addr s L) (addr s R) c k"
    and sh: "shape (rbt_mem t) s pl L" "shape (rbt_mem t) s pr R" and C: "ctx (rbt_mem t) s (rbt_root t) n par C"
    and m: "rbt_mem t m = Some nm" "rb_key nm = km" and s: "s = rbt_sentinel t"
    and d: "distinct (n # m # adrs L @ adrs R @ cadrs C)" "s \<notin> set (n # m # adrs L @ adrs R @ cadrs C)"
  shows "\<exists>t'. delete_replace n m t = Some t' \<and> node_ok (rbt_mem t') m par (addr s L) (addr s R) c km \<and>
    shape (rbt_mem t') s m L \<and> shape (rbt_mem t') s m R \<and> ctx (rbt_mem t') s (rbt_root t') m par C \<and>
    keeps (set (m # adrs L @ adrs R @ cadrs C)) t t'"
proof -
  obtain v where v: "rd_color n t = Some v" "(v \<noteq> 0) = c" using n by (auto simp: node_ok_def rd_color_def)
  define t1 where "t1 = t\<lparr>rbt_mem := (rbt_mem t)(m \<mapsto>
    nm\<lparr>rb_left := addr s L, rb_right := addr s R, rb_parent := par, rb_color := v\<rparr>)\<rparr>"
  have nm: "n \<noteq> m" using d(1) by simp
  have k1: "keeps {m} t t1" using m(1) by (auto simp: keeps_def t1_def)
  have r1: "rbt_root t1 = rbt_root t" "rbt_sentinel t1 = s" by (simp_all add: t1_def s)
  have m1: "node_ok (rbt_mem t1) m par (addr s L) (addr s R) c km"
    using m(2) v(2) by (simp add: t1_def node_ok_def)
  have n1: "node_ok (rbt_mem t1) n par (addr s L) (addr s R) c k" using n nm by (simp add: t1_def)
  have d1: "m \<notin> set (adrs L)" "m \<notin> set (adrs R)" "m \<notin> set (cadrs C)" "n \<notin> set (cadrs C)" "n \<noteq> s" "distinct (cadrs C)"
    "set (adrs L) \<inter> set (cadrs C) = {}" "set (adrs R) \<inter> set (cadrs C) = {}" "set (adrs L) \<inter> set (adrs R) = {}"
    using d by auto
  have c1: "ctx (rbt_mem t1) s (rbt_root t1) n par C" "shape (rbt_mem t1) s pl L" "shape (rbt_mem t1) s pr R"
    using C sh d1(1-3) by (simp_all add: part_keeps [OF k1] r1)
  from relink_ok [OF c1(1) node_reads(3) [OF n1] d1(5,4,6), of m] obtain t2 where
    2: "relink_left_first n m t1 = Some t2" "keeps (set (cadrs C)) t1 t2" "ctx (rbt_mem t2) s (rbt_root t2) m par C" by blast
  have c2: "shape (rbt_mem t2) s pl L" "shape (rbt_mem t2) s pr R" "node_ok (rbt_mem t2) m par (addr s L) (addr s R) c km"
    "rbt_sentinel t2 = s"
    using c1 m1 d1 2(2) r1 by (simp_all add: part_keeps [OF 2(2)] Int_commute keeps_def)
  from set_parent_ok [OF c2(1), of m] d obtain t3 where
    3: "(if addr s L \<noteq> s then wr_parent (addr s L) m t2 else Some t2) = Some t3" "keeps (set (adrs L)) t2 t3"
    "rbt_root t3 = rbt_root t2" "shape (rbt_mem t3) s m L" by auto
  have c3: "shape (rbt_mem t3) s pr R" "ctx (rbt_mem t3) s (rbt_root t3) m par C"
    "node_ok (rbt_mem t3) m par (addr s L) (addr s R) c km" "rbt_sentinel t3 = s"
    using c2 2(3) d1 3(2) by (simp_all add: part_keeps [OF 3(2)] 3(3) keeps_def)
  from set_parent_ok [OF c3(1), of m] d obtain t4 where
    4: "(if addr s R \<noteq> s then wr_parent (addr s R) m t3 else Some t3) = Some t4" "keeps (set (adrs R)) t3 t4"
    "rbt_root t4 = rbt_root t3" "shape (rbt_mem t4) s m R" by auto
  have "shape (rbt_mem t4) s m L" "ctx (rbt_mem t4) s (rbt_root t4) m par C" "node_ok (rbt_mem t4) m par (addr s L) (addr s R) c km"
    using c3 3(4) d1 by (simp_all add: part_keeps [OF 4(2)] 4(3) Int_commute)
  moreover have "keeps (set (m # adrs L @ adrs R @ cadrs C)) t t4"
    using k1 2(2) 3(2) 4(2) by (auto simp: keeps_def)
  moreover have "delete_replace n m t = relink_left_first n m t1 \<bind> (\<lambda>t. rd_left m t \<bind>
      (\<lambda>l. (if l \<noteq> rbt_sentinel t then wr_parent l m t else Some t) \<bind> (\<lambda>t. rd_right m t \<bind>
      (\<lambda>r. if r \<noteq> rbt_sentinel t then wr_parent r m t else Some t))))"
    using node_reads [OF n] v(1) m(1) nm n
    by (auto simp: delete_replace_def ngx_rbt_copy_color_def memory_simps t1_def node_ok_def)
  then have "delete_replace n m t = Some t4"
    using 2(1) 3(1) 4(1) node_reads [OF c2(3)] node_reads [OF c3(3)] c2(4) c3(4) by simp
  ultimately show ?thesis using 4(4) by blast
qed

lemma replace_focus:
  assumes n: "node_ok (rbt_mem t) n par (addr s L) (addr s R) c k"
    and sh: "shape (rbt_mem t) s pl L" "shape (rbt_mem t) s pr R" and C: "ctx (rbt_mem t) s (rbt_root t) n par C"
    and m: "rbt_mem t m = Some nm" "rb_key nm = km" and s: "s = rbt_sentinel t" "rbt_mem t s = Some nd" "rb_color nd = 0"
    and d: "distinct (n # m # adrs L @ adrs R @ cadrs C)" "s \<notin> set (n # m # adrs L @ adrs R @ cadrs C)"
  shows "\<exists>t'. delete_replace n m t = Some t' \<and> focus t' C \<langle>L, (m, c, km), R\<rangle> \<and>
    keeps (set (m # adrs L @ adrs R @ cadrs C)) t t'"
proof -
  from delete_replace_ok [OF n sh C m s(1) d] obtain t' where t': "delete_replace n m t = Some t'"
    "node_ok (rbt_mem t') m par (addr s L) (addr s R) c km" "shape (rbt_mem t') s m L" "shape (rbt_mem t') s m R"
    "ctx (rbt_mem t') s (rbt_root t') m par C" "keeps (set (m # adrs L @ adrs R @ cadrs C)) t t'" by blast
  have s': "rbt_sentinel t' = s" "rbt_mem t' s = Some nd" using t'(6) s d(2) by (auto simp: keeps_def)
  have "focus t' C \<langle>L, (m, c, km), R\<rangle>"
    unfolding focus_def s' using t'(2-5) d s(3) by auto
  with t'(1,6) show ?thesis by blast
qed

text \<open>The case of two children: \<open>m\<close> is the least node of the right subtree, under the path \<open>D\<close>.\<close>

lemma unlink_subst_ok:
  assumes F: "focus t (D @ Rt L (n, c, k) # C) \<langle>\<langle>\<rangle>, (m, cm, km), S\<rangle>"
  shows "\<exists>t'. delete_unlink n m (addr (rbt_sentinel t) S) t = Some t' \<and>
    focus t' (D @ Rt L (m, c, km) # C) S \<and> up_ok t' (D @ Rt L (m, c, km) # C) S \<and>
    keeps (set (rbt_sentinel t # m # adrs S @ cadrs (D @ Rt L (n, c, k) # C))) t t'"
proof -
  define s where "s = rbt_sentinel t"
  have nR: "n \<noteq> m" "n \<noteq> s" using F by (auto simp: focus_def s_def)
  show ?thesis
  proof (cases D)
    case Nil
    let ?f = "Rt L (n, c, k)"
    from F have F0: "focus t (?f # C) \<langle>\<langle>\<rangle>, (m, cm, km), S\<rangle>" by (simp add: Nil)
    from unlink_up [OF F0 _ refl s_def, of S n] nR obtain t1 nd where 1: "delete_unlink n m (addr s S) t = delete_replace n m t1"
      "ctx (rbt_mem t1) s (rbt_root t1) (addr s S) n (?f # C)" "shape (rbt_mem t1) s m S"
      "rd_parent (addr s S) t1 = Some m" "rbt_mem t1 s = Some nd" "rb_color nd = 0" "rbt_mem t1 m = rbt_mem t m"
      "keeps (set (s # adrs S @ cadrs (?f # C))) t t1" by auto
    have s1: "s = rbt_sentinel t1" using 1(8) by (simp add: keeps_def s_def)
    from F0 obtain nm where nm: "rbt_mem t1 m = Some nm" "rb_key nm = km" using 1(7) by (auto simp: focus_def node_ok_def)
    from 1(2) obtain par where "node_ok (rbt_mem t1) n par (addr s L) (addr s S) c k" "shape (rbt_mem t1) s n L"
      "ctx (rbt_mem t1) s (rbt_root t1) n par C" by auto
    moreover have "distinct (n # m # adrs L @ adrs S @ cadrs C)" "s \<notin> set (n # m # adrs L @ adrs S @ cadrs C)"
      using F0 by (auto simp: focus_def s_def)
    ultimately obtain t2 where 2: "delete_replace n m t1 = Some t2" "focus t2 C \<langle>L, (m, c, km), S\<rangle>"
      "keeps (set (m # adrs L @ adrs S @ cadrs C)) t1 t2"
      using replace_focus [OF _ _ 1(3) _ nm s1 1(5,6)] by blast
    have K: "keeps (set (s # m # adrs S @ cadrs (?f # C))) t t2"
      by (rule keeps_trans [OF keeps_mono [OF 1(8)] keeps_mono [OF 2(3)]]) auto
    have "rbt_mem t2 s = rbt_mem t1 s" "rbt_sentinel t2 = s"
      using 2(3) F0 s1 by (auto simp: keeps_def focus_def s_def)
    then have "up_ok t2 (Rt L (m, c, km) # C) S" using 1(4) by (auto simp: up_ok_def rd_parent_def)
    then show ?thesis using 1(1) 2(1,2) K nR by (auto simp: Nil focus_Rt s_def)
  next
    case (Cons f D')
    define E where "E = D' @ Rt L (n, c, k) # C"
    from F have F0: "focus t (f # E) \<langle>\<langle>\<rangle>, (m, cm, km), S\<rangle>" by (simp add: Cons E_def)
    have d0: "distinct (m # adrs S @ cadrs (f # E))" "s \<notin> set (m # adrs S @ cadrs (f # E))"
      using F0 by (auto simp: focus_def s_def)
    have "above f \<noteq> n" using d0 by (cases f) (auto simp: E_def)
    with unlink_up [OF F0 _ refl s_def, of S n] nR obtain t1 nd where 1: "delete_unlink n m (addr s S) t = delete_replace n m t1"
      "ctx (rbt_mem t1) s (rbt_root t1) (addr s S) (above f) (f # E)" "shape (rbt_mem t1) s (above f) S"
      "rd_parent (addr s S) t1 = Some (above f)" "rbt_mem t1 s = Some nd" "rb_color nd = 0" "rbt_mem t1 m = rbt_mem t m"
      "keeps (set (s # adrs S @ cadrs (f # E))) t t1" by auto
    have s1: "rbt_sentinel t1 = s" using 1(8) by (simp add: keeps_def s_def)
    have "focus t1 (f # E) S" unfolding focus_def s1 using 1(2,3,5,6) d0 by auto
    then have "focus t1 (D @ Rt L (n, c, k) # C) S" by (simp add: E_def Cons)
    then have F1: "focus t1 C \<langle>L, (n, c, k), plug D S\<rangle>"
      unfolding focus_append focus_Rt .
    from F0 obtain nm where nm: "rbt_mem t1 m = Some nm" "rb_key nm = km" using 1(7) by (auto simp: focus_def node_ok_def)
    from F1 obtain par where "node_ok (rbt_mem t1) n par (addr s L) (addr s (plug D S)) c k" "shape (rbt_mem t1) s n L"
      "shape (rbt_mem t1) s n (plug D S)" "ctx (rbt_mem t1) s (rbt_root t1) n par C"
      unfolding focus_def s1 by auto
    moreover have A: "set (adrs (plug D S)) = set (adrs S) \<union> set (cadrs D)" by (rule adrs_plug)
    have fE: "f # E = D @ Rt L (n, c, k) # C" by (simp add: Cons E_def)
    have "m \<notin> set (n # adrs L @ adrs (plug D S) @ cadrs C)" "s \<notin> set (n # m # adrs L @ adrs (plug D S) @ cadrs C)"
      using d0 unfolding fE by (auto simp: A)
    moreover from this F1 have "distinct (n # m # adrs L @ adrs (plug D S) @ cadrs C)"
      unfolding focus_def by auto
    ultimately obtain t2 where 2: "delete_replace n m t1 = Some t2" "focus t2 C \<langle>L, (m, c, km), plug D S\<rangle>"
      "keeps (set (m # adrs L @ adrs (plug D S) @ cadrs C)) t1 t2"
      using replace_focus [OF _ _ _ _ nm s1 [symmetric] 1(5,6)] by blast
    have F2: "focus t2 (D @ Rt L (m, c, km) # C) S" using 2(2) by (simp add: focus_append focus_Rt)
    have K: "keeps (set (s # m # adrs S @ cadrs (D @ Rt L (n, c, k) # C))) t t2"
      by (rule keeps_trans [OF keeps_mono [OF 1(8)] keeps_mono [OF 2(3)]]) (simp only: fE cadrs_append, auto simp: A)
    have "rbt_mem t2 s = rbt_mem t1 s" "rbt_sentinel t2 = s"
      using 2(3) d0 s1 unfolding fE by (auto simp: keeps_def A)
    then have "up_ok t2 (D @ Rt L (m, c, km) # C) S" using 1(4) by (auto simp: up_ok_def rd_parent_def Cons)
    then show ?thesis using 1(1) 2(1) F2 K nR by (auto simp: s_def)
  qed
qed

section \<open>Deletion\<close>

lemma clear_node_ok:
  assumes "rbt_mem t n = Some nd"
  shows "\<exists>t'. clear_node n t = Some t' \<and> keeps {n} t t' \<and> rbt_root t' = rbt_root t \<and> rd_key n t' = Some 0"
  using assms by (auto simp: clear_node_def memory_simps keeps_def)

text \<open>The least node of a tree, and the path to it.\<close>

lemma least_node: "T \<noteq> \<langle>\<rangle> \<Longrightarrow> \<exists>D m c k R. T = plug D \<langle>\<langle>\<rangle>, (m, c, k), R\<rangle> \<and> before D = []"
proof (induction T)
  case (Node l i r)
  show ?case
  proof (cases "l = \<langle>\<rangle>")
    case True
    then have "\<langle>l, i, r\<rangle> = plug [] \<langle>\<langle>\<rangle>, (fst i, fst (snd i), snd (snd i)), r\<rangle> \<and> before [] = []" by simp
    then show ?thesis by blast
  next
    case False
    with Node(1) obtain D m c k R where "l = plug D \<langle>\<langle>\<rangle>, (m, c, k), R\<rangle>" "before D = []" by blast
    moreover have "plug (D @ [Lf i r]) T = \<langle>plug D T, i, r\<rangle>" for T
      by (induction D T rule: plug.induct) simp_all
    moreover have "before (D @ [Lf i r]) = before D" by (induction D rule: before.induct) simp_all
    ultimately show ?thesis by metis
  qed
qed simp

lemma plug_append: "plug (D @ C) T = plug C (plug D T)"
  by (induction D T rule: plug.induct) simp_all

lemma hole_append:
  "hole_red (D @ Rt L (n, c, k) # C) = hole_red (D @ Rt L (m, c, j) # C)"
  "hole_ok (D @ Rt L (n, c, k) # C) b = hole_ok (D @ Rt L (m, c, j) # C) b"
proof -
  have red: "hole_red (D @ Rt L (n, c, k) # C) = hole_red (D @ Rt L (m, c, j) # C)" for D
    by (cases D rule: hole_red.cases) auto
  then show "hole_red (D @ Rt L (n, c, k) # C) = hole_red (D @ Rt L (m, c, j) # C)" .
  show "hole_ok (D @ Rt L (n, c, k) # C) b = hole_ok (D @ Rt L (m, c, j) # C) b"
  proof (induction D arbitrary: b)
    case (Cons f D)
    then show ?case using red by (cases "(f # D, b)" rule: hole_ok.cases) auto
  qed (auto simp: red [of "[]"])
qed

text \<open>The second half of \<open>ngx_rbtree_delete\<close>: a node of the colour \<open>c\<close> is gone and \<open>S\<close> has moved up.\<close>

lemma delete_rest:
  assumes F: "focus t C S" and U: "up_ok t C S" and h: "hole_ok C (bh S + (if c then 0 else 1))" "rb S"
    "c \<longrightarrow> \<not> red S \<or> \<not> hole_red C" and C: "C \<noteq> []" and n: "rbt_mem t n \<noteq> None" "n \<notin> set (adrs S @ cadrs C)" "n \<noteq> rbt_sentinel t"
  shows "\<exists>t' T'. (clear_node n t \<bind> (\<lambda>t1. if c then Some t1
        else do { x \<leftarrow> delete_loop (addr (rbt_sentinel t) S) t1; ngx_rbt_black (fst x) (snd x) })) = Some t' \<and>
    rbtree_ok t' T' \<and> entries T' = entries (plug C S) \<and> keeps (set (n # adrs S @ cadrs C)) t t' \<and> rd_key n t' = Some 0"
proof -
  from clear_node_ok [of t n] n(1) obtain t1 where 1: "clear_node n t = Some t1" "keeps {n} t t1" "rbt_root t1 = rbt_root t"
    "rd_key n t1 = Some 0" by blast
  have F1: "focus t1 C S" using keeps_focus [OF F 1(2,3)] n(2,3) by auto
  have U1: "up_ok t1 C S" using up_keeps [OF U 1(2)] n(3) by auto
  have s1: "rbt_sentinel t1 = rbt_sentinel t" using 1(2) by (simp add: keeps_def)
  show ?thesis
  proof (cases c)
    case True
    with h have "rb (plug C S) \<and> \<not> red (plug C S)"
      using rb_plug [of S C] red_plug [of C "bh S" S] C by auto
    with F1 have "rbtree_ok t1 (plug C S)" by (simp add: rbtree_ok_def flip: focus_plug)
    moreover have "keeps (set (n # adrs S @ cadrs C)) t t1" by (rule keeps_mono [OF 1(2)]) simp
    ultimately show ?thesis using True 1(1,4) by auto
  next
    case False
    have "lacks_black C S" using h False by (simp add: lacks_black_def bh_paint)
    from delete_loop_ok [OF F1 U1 this] obtain m t2 t3 T' where 2: "delete_loop (addr (rbt_sentinel t) S) t1 = Some (m, t2)"
      "ngx_rbt_black m t2 = Some t3" "focus t3 [] T'" "rb T'" "\<not> red T'" "entries T' = entries (plug C S)"
      "keeps (set (adrs S @ cadrs C)) t1 t3" by (auto simp: s1)
    have "rd_key n t3 = Some 0" using 2(7) 1(4) n(2) by (auto simp: keeps_def rd_key_def)
    moreover have "keeps (set (n # adrs S @ cadrs C)) t t3"
      by (rule keeps_trans [OF keeps_mono [OF 1(2)] keeps_mono [OF 2(7)]]) auto
    ultimately show ?thesis using False 1(1) 2(1-6) by (auto simp: rbtree_ok_def)
  qed
qed

text \<open>The choice of \<open>subst\<close> and \<open>temp\<close>.\<close>

lemma subst_one:
  assumes F: "focus t C \<langle>L, (n, c, k), R\<rangle>" and S: "S = (if L = \<langle>\<rangle> then R else L)" "L = \<langle>\<rangle> \<or> R = \<langle>\<rangle>"
  shows "delete_subst n t = Some (n, addr (rbt_sentinel t) S)"
proof -
  have "addr (rbt_sentinel t) L = rbt_sentinel t \<longleftrightarrow> L = \<langle>\<rangle>"
    using F by (auto simp: addr_sentinel focus_def)
  then show ?thesis using focus_reads [OF F] S by (auto simp: delete_subst_def)
qed

lemma subst_two:
  assumes F: "focus t (D @ Rt L (n, c, k) # C) \<langle>\<langle>\<rangle>, (m, cm, km), S\<rangle>" and L: "L \<noteq> \<langle>\<rangle>" and D: "before D = []"
  shows "delete_subst n t = Some (m, addr (rbt_sentinel t) S)"
proof -
  let ?R = "plug D \<langle>\<langle>\<rangle>, (m, cm, km), S\<rangle>"
  have F1: "focus t (Rt L (n, c, k) # C) ?R" using F by (simp add: focus_append)
  have F2: "focus t C \<langle>L, (n, c, k), ?R\<rangle>" using F1 by (simp add: focus_Rt)
  have E: "entries ?R = (m, km) # entries S @ behind D" by (simp add: entries_before D)
  then have R: "?R \<noteq> \<langle>\<rangle>" by auto
  have s: "rbt_sentinel t \<notin> set (adrs L)" "rbt_sentinel t \<notin> set (adrs ?R)" using F2 by (auto simp: focus_def)
  have "addr (rbt_sentinel t) L \<noteq> rbt_sentinel t" "addr (rbt_sentinel t) ?R \<noteq> rbt_sentinel t"
    using addr_sentinel [OF s(1)] addr_sentinel [OF s(2)] L R by auto
  moreover have "addr (rbt_sentinel t) ?R = addr 0 ?R" using R by (cases ?R rule: red.cases) auto
  moreover have "ngx_rbtree_min (addr 0 ?R) (rbt_sentinel t) t = Some m"
    using rbtree_min_focus [OF F1 R] E by simp
  ultimately show ?thesis using focus_reads [OF F2] focus_reads [OF F] by (simp add: delete_subst_def)
qed

lemma delete_ok:
  assumes t: "rbtree_ok t T" and T: "entries T = us @ (n, k) # vs"
  shows "\<exists>t' T'. ngx_rbtree_delete n t = Some t' \<and> rbtree_ok t' T' \<and> entries T' = us @ vs \<and>
    keeps (set (rbt_sentinel t # adrs T)) t t' \<and> rd_key n t' = Some 0"
proof -
  from entries_focus [OF T, of "[]"] obtain C L c R where C: "T = plug C \<langle>L, (n, c, k), R\<rangle>"
    "before C @ entries L = us" "entries R @ behind C = vs" by auto
  have F: "focus t C \<langle>L, (n, c, k), R\<rangle>" using t C(1) focus_plug by (simp add: rbtree_ok_def)
  have "rb (plug C \<langle>L, (n, c, k), R\<rangle>)" "\<not> red (plug C \<langle>L, (n, c, k), R\<rangle>)" using t C(1) by (simp_all add: rbtree_ok_def)
  note inv = plug_rb [OF this]
  have A: "set (adrs T) = set (adrs L) \<union> insert n (set (adrs R)) \<union> set (cadrs C)" using C(1) adrs_plug [of C] by auto
  have dn: "n \<notin> set (adrs L) \<union> set (adrs R) \<union> set (cadrs C)" "n \<noteq> rbt_sentinel t" and mn: "rbt_mem t n \<noteq> None"
    using F by (auto simp: focus_def node_ok_def)
  show ?thesis
  proof (cases "L = \<langle>\<rangle> \<or> R = \<langle>\<rangle>")
    case one: True
    define S where "S = (if L = \<langle>\<rangle> then R else L)"
    have S: "L = \<langle>\<rangle> \<and> S = R \<or> R = \<langle>\<rangle> \<and> S = L" "entries S = entries L @ entries R" "set (adrs S) = set (adrs L) \<union> set (adrs R)"
      "bh S = bh L" "rb S" using one inv by (auto simp: S_def)
    note sub = subst_one [OF F S_def one]
    have E: "entries (plug C S) = us @ vs" using C(2,3) S(2) by (simp add: entries_before)
    show ?thesis
    proof (cases C)
      case Nil
      let ?t = "t\<lparr>rbt_root := addr (rbt_sentinel t) S\<rparr>"
      have "focus ?t [] S" using F S(1) Nil by (auto simp: focus_def)
      from focus_black [OF this] obtain t1 where 1: "ngx_rbt_black (addr (rbt_sentinel t) S) ?t = Some t1"
        "focus t1 [] (paint False S)" "keeps (set (adrs S)) ?t t1" by auto
      have n1: "rbt_mem t1 n = rbt_mem t n" "rbt_sentinel t1 = rbt_sentinel t" using 1(3) dn S(3) by (auto simp: keeps_def)
      with clear_node_ok [of t1 n] mn obtain t2 where 2: "clear_node n t1 = Some t2" "keeps {n} t1 t2" "rbt_root t2 = rbt_root t1"
        "rd_key n t2 = Some 0" by auto
      have "set (adrs (paint False S)) = set (adrs S)" by (simp add: adrs_entries)
      then have "focus t2 [] (paint False S)"
        using keeps_focus [OF 1(2) 2(2,3)] dn n1 S(3) by auto
      then have "rbtree_ok t2 (paint False S)" using S(5) by (simp add: rbtree_ok_def bh_paint)
      moreover have "ngx_rbtree_delete n t = Some t2"
        using sub focus_root [OF F] Nil 1(1) 2(1) by (simp add: ngx_rbtree_delete_def)
      moreover have "keeps (set (rbt_sentinel t # adrs T)) t t2"
        using 1(3) 2(2) A S(3) Nil by (auto simp: keeps_def)
      ultimately show ?thesis using E Nil 2(4) by force
    next
      case (Cons f D)
      from unlink_node_ok [OF F [unfolded Cons] S(1)] obtain t1 where 1: "delete_unlink n n (addr (rbt_sentinel t) S) t = Some t1"
        "focus t1 C S" "up_ok t1 C S" "keeps (set (rbt_sentinel t # adrs S @ cadrs C)) t t1" unfolding Cons by blast
      have n1: "rbt_mem t1 n \<noteq> None" "rbt_sentinel t1 = rbt_sentinel t" using 1(4) mn by (auto simp: keeps_def)
      have "hole_ok C (bh S + (if c then 0 else 1))" "c \<longrightarrow> \<not> red S \<or> \<not> hole_red C" using inv S(4) by auto
      from delete_rest [OF 1(2,3) this(1) S(5) this(2) _ n1(1), unfolded n1(2)] dn S(3) Cons obtain t2 T2 where
        2: "clear_node n t1 \<bind> (\<lambda>t1. if c then Some t1
          else do { x \<leftarrow> delete_loop (addr (rbt_sentinel t) S) t1; ngx_rbt_black (fst x) (snd x) }) = Some t2"
        "rbtree_ok t2 T2" "entries T2 = entries (plug C S)" "keeps (set (n # adrs S @ cadrs C)) t1 t2" "rd_key n t2 = Some 0"
        by auto
      have "ngx_rbtree_delete n t = Some t2"
        using sub focus_root [OF F] focus_reads(4) [OF F] Cons 1(1) 2(1) by (simp add: ngx_rbtree_delete_def)
      moreover have "keeps (set (rbt_sentinel t # adrs T)) t t2"
        by (rule keeps_trans [OF keeps_mono [OF 1(4)] keeps_mono [OF 2(4)]]) (use A S(3) in auto)
      ultimately show ?thesis using 2 E by metis
    qed
  next
    case two: False
    then obtain D m cm km S where R: "R = plug D \<langle>\<langle>\<rangle>, (m, cm, km), S\<rangle>" "before D = []"
      using least_node [of R] by auto
    have F1: "focus t (D @ Rt L (n, c, k) # C) \<langle>\<langle>\<rangle>, (m, cm, km), S\<rangle>"
      using F by (simp add: focus_append focus_Rt R(1))
    let ?C = "D @ Rt L (m, c, km) # C"
    from two have "L \<noteq> \<langle>\<rangle>" by simp
    note sub = subst_two [OF F1 this R(2)]
    from unlink_subst_ok [OF F1] obtain t1 where 1: "delete_unlink n m (addr (rbt_sentinel t) S) t = Some t1"
      "focus t1 ?C S" "up_ok t1 ?C S" "keeps (set (rbt_sentinel t # m # adrs S @ cadrs (D @ Rt L (n, c, k) # C))) t t1" by blast
    have A': "set (adrs R) = insert m (set (adrs S) \<union> set (cadrs D))" using adrs_plug [of D] R(1) by auto
    have n1: "rbt_mem t1 n \<noteq> None" "rbt_sentinel t1 = rbt_sentinel t" using 1(4) mn by (auto simp: keeps_def)
    have "plug (D @ Rt L (n, c, k) # C) \<langle>\<langle>\<rangle>, (m, cm, km), S\<rangle> = T" by (simp add: plug_append C(1) R(1))
    then have "rb \<langle>\<langle>\<rangle>, (m, cm, km), S\<rangle>" "hole_ok (D @ Rt L (n, c, k) # C) (bh \<langle>\<langle>\<rangle>, (m, cm, km), S\<rangle>)"
      using plug_rb [of "D @ Rt L (n, c, k) # C" "\<langle>\<langle>\<rangle>, (m, cm, km), S\<rangle>"] t by (simp_all add: rbtree_ok_def)
    then have inv': "hole_ok ?C (bh S + (if cm then 0 else 1))" "rb S" "cm \<longrightarrow> \<not> red S \<or> \<not> hole_red ?C"
      using hole_append(2) [of D L n c k C _ m km] by auto
    from delete_rest [OF 1(2,3) inv' _ n1(1), unfolded n1(2)] dn A' obtain t2 T2 where
      2: "clear_node n t1 \<bind> (\<lambda>t1. if cm then Some t1
        else do { x \<leftarrow> delete_loop (addr (rbt_sentinel t) S) t1; ngx_rbt_black (fst x) (snd x) }) = Some t2"
      "rbtree_ok t2 T2" "entries T2 = entries (plug ?C S)" "keeps (set (n # adrs S @ cadrs ?C)) t1 t2" "rd_key n t2 = Some 0"
      by auto
    have "entries (plug ?C S) = us @ vs"
      using C(2,3) R by (simp add: plug_append entries_before)
    moreover have "m \<noteq> rbt_root t" using focus_root [OF F1] by auto
    then have "ngx_rbtree_delete n t = Some t2"
      using sub focus_reads(4) [OF F1] 1(1) 2(1) by (simp add: ngx_rbtree_delete_def)
    moreover have "keeps (set (rbt_sentinel t # adrs T)) t t2"
      by (rule keeps_trans [OF keeps_mono [OF 1(4)] keeps_mono [OF 2(4)]]) (use A A' in auto)
    ultimately show ?thesis using 2 by metis
  qed
qed

text \<open>C23. \<open>ngx_rbtree_delete\<close> returns for every node of every red-black tree, and the result is a
  red-black tree with the other entries in the same order. The key of the node is cleared, and no
  memory but the nodes of the tree and the sentinel is written.\<close>

theorem rbtree_delete_correct:
  assumes "rbtree_ok t T" "entries T = us @ (n, k) # vs"
  shows "\<exists>t' T'. ngx_rbtree_delete n t = Some t' \<and> rbtree_ok t' T' \<and> entries T' = us @ vs \<and>
    2 ^ (height T' div 2) \<le> length (entries T') + 1 \<and> rd_key n t' = Some 0 \<and> rbt_sentinel t' = rbt_sentinel t \<and>
    (\<forall>a. a \<notin> set (rbt_sentinel t # adrs T) \<longrightarrow> rbt_mem t' a = rbt_mem t a)"
  using delete_ok [OF assms] height_bound by (force simp: keeps_def)

theorem rbtree_delete_correct_witness:
  "\<exists>t' T'. ngx_rbtree_delete 1 (sample_rbtree 5 7 9) = Some t' \<and> rbtree_ok t' T' \<and> entries T' = [(2, 7)]"
  using rbtree_delete_correct [OF sample_rbtree_ok(1) [of 5 7 9], of "[]" 1 5 "[(2, 7)]"] by auto

end
