(* ===== verification/Ngx_Event_Timer.thy ===== *)
theory Ngx_Event_Timer
  imports Ngx_Rbtree_Delete
begin

text \<open>
  The timers of the event loop: \<open>src/event/ngx_event_timer.c\<close> and \<open>src/event/ngx_event_timer.h\<close>, the
  client of the red-black trees. An event and the tree node \<open>ev->timer\<close> inside it have the same
  address here. The function \<open>ev->handler\<close> is an argument of \<open>ngx_event_expire_timers\<close>; it may do
  anything to the state, and \<open>es_world\<close> is the part of the state that is not about timers.

  The times are 64-bit milliseconds that wrap around. All of them lie in a window of \<open>2 ^ 63\<close>
  milliseconds from a base \<open>b\<close>, and \<open>timers_ok b st xs\<close> says that the timers of \<open>st\<close> are \<open>xs\<close>, pairs of
  an event and its time in the order of the times. The base moves with the clock.
\<close>

section \<open>The state and the operations\<close>

record ngx_event =
  ev_timedout :: bool
  ev_timer_set :: bool
  ev_cancelable :: bool

record 'w event_state =
  es_timers :: ngx_rbtree
  es_events :: "nat \<rightharpoonup> ngx_event"
  es_msec :: "64 word"
  es_world :: 'w

definition NGX_TIMER_INFINITE :: "64 word" where
  "NGX_TIMER_INFINITE = - 1"

definition NGX_TIMER_LAZY_DELAY :: int where
  "NGX_TIMER_LAZY_DELAY = 300"

text \<open>\<open>ngx_abs\<close> of an \<open>ngx_msec_int_t\<close>\<close>

definition ngx_abs :: "64 word \<Rightarrow> int" where
  "ngx_abs d = (if sint d \<ge> 0 then sint d else sint (- d))"

definition upd_event :: "nat \<Rightarrow> (ngx_event \<Rightarrow> ngx_event) \<Rightarrow> 'w event_state \<Rightarrow> 'w event_state option" where
  "upd_event ev f st = map_option (\<lambda>e. st\<lparr>es_events := (es_events st)(ev \<mapsto> f e)\<rparr>) (es_events st ev)"

definition upd_timers :: "(ngx_rbtree \<Rightarrow> ngx_rbtree option) \<Rightarrow> 'w event_state \<Rightarrow> 'w event_state option" where
  "upd_timers f st = map_option (\<lambda>t. st\<lparr>es_timers := t\<rparr>) (f (es_timers st))"

definition ngx_event_timer_init :: "nat \<Rightarrow> 'w event_state \<Rightarrow> 'w event_state option" where
  "ngx_event_timer_init sentinel st = upd_timers (ngx_rbtree_init sentinel) st"

definition ngx_event_find_timer :: "'w event_state \<Rightarrow> 64 word option" where
  "ngx_event_find_timer st =
     (let t = es_timers st in
      if rbt_root t = rbt_sentinel t then Some NGX_TIMER_INFINITE
      else do {
        node \<leftarrow> ngx_rbtree_min (rbt_root t) (rbt_sentinel t) t;
        k \<leftarrow> rd_key node t;
        let timer = k - es_msec st in Some (if sint timer > 0 then timer else 0)
      })"

definition ngx_event_del_timer :: "nat \<Rightarrow> 'w event_state \<Rightarrow> 'w event_state option" where
  "ngx_event_del_timer ev st =
     do {
       st \<leftarrow> upd_timers (ngx_rbtree_delete ev) st;
       upd_event ev (\<lambda>e. e\<lparr>ev_timer_set := False\<rparr>) st
     }"

definition set_timer :: "nat \<Rightarrow> 64 word \<Rightarrow> 'w event_state \<Rightarrow> 'w event_state option" where
  "set_timer ev key st =
     do {
       st \<leftarrow> upd_timers (wr_key ev key) st;
       st \<leftarrow> upd_timers (ngx_rbtree_insert ngx_rbtree_insert_timer_value ev) st;
       upd_event ev (\<lambda>e. e\<lparr>ev_timer_set := True\<rparr>) st
     }"

definition ngx_event_add_timer :: "nat \<Rightarrow> 64 word \<Rightarrow> 'w event_state \<Rightarrow> 'w event_state option" where
  "ngx_event_add_timer ev timer st =
     do {
       let key = es_msec st + timer;
       e \<leftarrow> es_events st ev;
       if ev_timer_set e then do {
         k \<leftarrow> rd_key ev (es_timers st);
         if ngx_abs (key - k) < NGX_TIMER_LAZY_DELAY then Some st
         else do { st \<leftarrow> ngx_event_del_timer ev st; set_timer ev key st }
       }
       else set_timer ev key st
     }"

partial_function (option) ngx_event_expire_timers ::
  "(nat \<Rightarrow> 'w event_state \<Rightarrow> 'w event_state option) \<Rightarrow> 'w event_state \<Rightarrow> 'w event_state option"
where
  "ngx_event_expire_timers handler st =
     (let t = es_timers st in
      if rbt_root t = rbt_sentinel t then Some st
      else do {
        node \<leftarrow> ngx_rbtree_min (rbt_root t) (rbt_sentinel t) t;
        k \<leftarrow> rd_key node t;
        if sint (k - es_msec st) > 0 then Some st
        else do {
          st \<leftarrow> upd_timers (ngx_rbtree_delete node) st;
          st \<leftarrow> upd_event node (\<lambda>e. e\<lparr>ev_timer_set := False, ev_timedout := True\<rparr>) st;
          st \<leftarrow> handler node st;
          ngx_event_expire_timers handler st
        }
      })"

text \<open>The loop of \<open>ngx_event_no_timers_left\<close>; the result is whether it returns \<open>NGX_OK\<close>, else
  \<open>NGX_AGAIN\<close>.\<close>

partial_function (option) no_timers_loop :: "nat \<Rightarrow> 'w event_state \<Rightarrow> bool option" where
  "no_timers_loop node st =
     (if node = 0 then Some True
      else do {
        e \<leftarrow> es_events st node;
        if \<not> ev_cancelable e then Some False
        else do { node \<leftarrow> ngx_rbtree_next node (es_timers st); no_timers_loop node st }
      })"

definition ngx_event_no_timers_left :: "'w event_state \<Rightarrow> bool option" where
  "ngx_event_no_timers_left st =
     (let t = es_timers st in
      if rbt_root t = rbt_sentinel t then Some True
      else do { node \<leftarrow> ngx_rbtree_min (rbt_root t) (rbt_sentinel t) t; no_timers_loop node st })"

section \<open>The timers of a state\<close>

abbreviation later :: "64 word \<Rightarrow> 64 word \<Rightarrow> nat" where
  "later b k \<equiv> unat (k - b)"

definition timers_ok :: "64 word \<Rightarrow> 'w event_state \<Rightarrow> (nat \<times> 64 word) list \<Rightarrow> bool" where
  "timers_ok b st xs \<longleftrightarrow>
     (\<exists>T. rbtree_ok (es_timers st) T \<and> entries T = xs) \<and>
     sorted (map (\<lambda>x. later b (snd x)) xs) \<and> (\<forall>x \<in> set xs. snd x \<in> timer_window b) \<and> es_msec st \<in> timer_window b \<and>
     (\<forall>a. a \<in> fst ` set xs \<longleftrightarrow> (\<exists>e. es_events st a = Some e \<and> ev_timer_set e)) \<and>
     (\<forall>a \<in> dom (es_events st). a \<in> dom (rbt_mem (es_timers st)) \<and> a \<noteq> rbt_sentinel (es_timers st) \<and> a \<noteq> 0)"

definition due :: "64 word \<Rightarrow> 'w event_state \<Rightarrow> nat \<times> 64 word \<Rightarrow> bool" where
  "due b st x \<longleftrightarrow> later b (snd x) \<le> later b (es_msec st)"

lemma timers_distinct: "timers_ok b st xs \<Longrightarrow> distinct (map fst xs)"
  by (auto simp: timers_ok_def rbtree_ok_def focus_def simp flip: adrs_entries)

lemma timers_key:
  assumes "timers_ok b st (us @ (a, k) # vs)"
  shows "rd_key a (es_timers st) = Some k"
proof -
  obtain T where T: "focus (es_timers st) [] T" "entries T = us @ (a, k) # vs"
    using assms by (auto simp: timers_ok_def rbtree_ok_def)
  from entries_focus [OF T(2), of "[]"] obtain C l c r where "T = plug C \<langle>l, (a, c, k), r\<rangle>" by auto
  with T(1) have "focus (es_timers st) C \<langle>l, (a, c, k), r\<rangle>" using focus_plug by simp
  then show ?thesis by (rule focus_reads)
qed

lemma timers_first:
  assumes "timers_ok b st xs"
  shows "rbt_root (es_timers st) = rbt_sentinel (es_timers st) \<longleftrightarrow> xs = []"
    "xs \<noteq> [] \<Longrightarrow> ngx_rbtree_min (rbt_root (es_timers st)) (rbt_sentinel (es_timers st)) (es_timers st) = Some (fst (hd xs))"
proof -
  obtain T where T: "focus (es_timers st) [] T" "entries T = xs"
    using assms by (auto simp: timers_ok_def rbtree_ok_def)
  have nil: "T = \<langle>\<rangle> \<longleftrightarrow> xs = []" using T(2) by (cases T rule: red.cases) auto
  then show "rbt_root (es_timers st) = rbt_sentinel (es_timers st) \<longleftrightarrow> xs = []" using root_empty [OF T(1)] by simp
  assume "xs \<noteq> []"
  with nil have "T \<noteq> \<langle>\<rangle>" by simp
  moreover from this have "rbt_root (es_timers st) = addr 0 T" using root_addr [OF T(1)] by (cases T rule: red.cases) auto
  ultimately show "ngx_rbtree_min (rbt_root (es_timers st)) (rbt_sentinel (es_timers st)) (es_timers st) = Some (fst (hd xs))"
    using rbtree_min_focus [OF T(1)] T(2) by simp
qed

lemma timers_event:
  assumes "timers_ok b st xs" "a \<in> fst ` set xs"
  obtains e where "es_events st a = Some e" "ev_timer_set e"
  using assms by (auto simp: timers_ok_def)

text \<open>Deleting a timer, with any change to the flags of its event.\<close>

lemma delete_timer_ok:
  assumes t: "timers_ok b st (us @ (a, k) # vs)" and f: "\<And>e. \<not> ev_timer_set (f e)"
  shows "\<exists>st' e. upd_timers (ngx_rbtree_delete a) st \<bind> upd_event a f = Some st' \<and> timers_ok b st' (us @ vs) \<and>
    es_events st a = Some e \<and> es_events st' = (es_events st)(a \<mapsto> f e) \<and> es_msec st' = es_msec st \<and> es_world st' = es_world st"
proof -
  obtain T where T: "rbtree_ok (es_timers st) T" "entries T = us @ (a, k) # vs"
    using t by (auto simp: timers_ok_def)
  from delete_ok [OF T] obtain t' T' where d: "ngx_rbtree_delete a (es_timers st) = Some t'" "rbtree_ok t' T'"
    "entries T' = us @ vs" "keeps (set (rbt_sentinel (es_timers st) # adrs T)) (es_timers st) t'" by blast
  obtain e where e: "es_events st a = Some e" using timers_event [OF t, of a] by auto
  let ?st = "st\<lparr>es_timers := t', es_events := (es_events st)(a \<mapsto> f e)\<rparr>"
  have "upd_timers (ngx_rbtree_delete a) st \<bind> upd_event a f = Some ?st"
    using d(1) e by (simp add: upd_timers_def upd_event_def)
  moreover have "a \<notin> fst ` set (us @ vs)" using timers_distinct [OF t] by auto
  then have "\<forall>c. c \<in> fst ` set (us @ vs) \<longleftrightarrow> (\<exists>e'. ((es_events st)(a \<mapsto> f e)) c = Some e' \<and> ev_timer_set e')"
    using t f by (auto simp: timers_ok_def)
  then have "timers_ok b ?st (us @ vs)"
    using t d(2-4) e unfolding timers_ok_def by (auto simp: sorted_append keeps_def)
  ultimately show ?thesis using e by auto
qed

lemma del_timer_ok:
  assumes "timers_ok b st (us @ (a, k) # vs)"
  shows "\<exists>st' e. ngx_event_del_timer a st = Some st' \<and> timers_ok b st' (us @ vs) \<and> es_events st' a = Some e \<and>
    \<not> ev_timer_set e \<and> es_msec st' = es_msec st \<and> es_world st' = es_world st"
  using delete_timer_ok [OF assms, of "\<lambda>e. e\<lparr>ev_timer_set := False\<rparr>"] by (auto simp: ngx_event_del_timer_def)

text \<open>Setting the timer of an event that has none.\<close>

lemma ordered_sorted:
  "\<forall>x \<in> set xs. snd x \<in> timer_window b \<Longrightarrow> ordered timer_less xs \<longleftrightarrow> sorted (map (\<lambda>x. later b (snd x)) xs)"
proof (induction xs)
  case (Cons x xs)
  have "timer_less (snd y) (snd x) \<longleftrightarrow> later b (snd y) < later b (snd x)" if "y \<in> set xs" for y
    using that Cons(2) by (simp add: timer_less_window [of _ b])
  with Cons show ?case by (auto simp: ordered_def not_less)
qed (simp add: ordered_def)

lemma set_timer_ok:
  assumes t: "timers_ok b st xs" and e: "es_events st a = Some e" "\<not> ev_timer_set e" and k: "k \<in> timer_window b"
  shows "\<exists>st'. set_timer a k st = Some st' \<and> timers_ok b st' (insert_entry timer_less (a, k) xs) \<and>
    es_events st' = (es_events st)(a \<mapsto> e\<lparr>ev_timer_set := True\<rparr>) \<and> es_msec st' = es_msec st \<and> es_world st' = es_world st"
proof -
  let ?t = "es_timers st"
  obtain T where T: "rbtree_ok ?t T" "entries T = xs" using t by (auto simp: timers_ok_def)
  have a: "a \<notin> fst ` set xs" "a \<noteq> rbt_sentinel ?t" using t e by (auto simp: timers_ok_def)
  then have aT: "a \<notin> set (adrs T)" using T(2) by (simp add: adrs_entries)
  obtain nd where nd: "rbt_mem ?t a = Some nd" using t e by (auto simp: timers_ok_def dom_def)
  define t1 where "t1 = ?t\<lparr>rbt_mem := (rbt_mem ?t)(a \<mapsto> nd\<lparr>rb_key := k\<rparr>)\<rparr>"
  have k1: "keeps {a} ?t t1" "rbt_root t1 = rbt_root ?t" using nd by (auto simp: keeps_def t1_def)
  have "rbtree_ok t1 T" using T(1) keeps_focus [OF _ k1(1,2)] aT a(2) by (simp add: rbtree_ok_def)
  moreover have "ordered timer_less (entries T)" "snd ` set (entries T) \<subseteq> timer_window b"
    using ordered_sorted [of xs b] t T(2) by (auto simp: timers_ok_def)
  moreover have "rd_key a t1 = Some k" "a \<noteq> rbt_sentinel t1" using a(2) by (simp_all add: t1_def rd_key_def)
  ultimately obtain t2 T2 where 2: "ngx_rbtree_insert (insert_at timer_less) a t1 = Some t2" "rbtree_ok t2 T2"
    "entries T2 = insert_entry timer_less (a, k) xs" "ordered timer_less (entries T2)" "keeps (set (a # adrs T)) t1 t2"
    using timer_order.insert_ok [of t1 T b a k] aT k T(2) by auto
  let ?st = "st\<lparr>es_timers := t2, es_events := (es_events st)(a \<mapsto> e\<lparr>ev_timer_set := True\<rparr>)\<rparr>"
  have "set_timer a k st = Some ?st"
    using nd e(1) 2(1)
    by (simp add: set_timer_def upd_timers_def upd_event_def wr_key_def upd_node_def t1_def ngx_rbtree_insert_timer_value_def)
  moreover have "timers_ok b ?st (insert_entry timer_less (a, k) xs)"
    using t 2 k k1(1) e ordered_sorted [of "entries T2" b] unfolding timers_ok_def
    by (auto simp: keeps_def)
  ultimately show ?thesis by auto
qed

lemma later_mono: "timers_ok b st xs \<Longrightarrow> x \<in> set xs \<Longrightarrow>
    sint (snd x - es_msec st) = int (later b (snd x)) - int (later b (es_msec st))"
  by (rule timer_diff) (auto simp: timers_ok_def)

lemma due_iff:
  "timers_ok b st xs \<Longrightarrow> x \<in> set xs \<Longrightarrow> 0 < sint (snd x - es_msec st) \<longleftrightarrow> \<not> due b st x"
  unfolding due_def by (subst later_mono, assumption, assumption, linarith)

lemma later_add:
  assumes "later b m + unat d < 2 ^ 63"
  shows "later b (m + d) = later b m + unat d" "m + d \<in> timer_window b"
proof -
  have "m + d - b = (m - b) + d" by simp
  then show "later b (m + d) = later b m + unat d"
    using assms by (simp only: unat_plus_if_size) (simp add: word_size)
  with assms show "m + d \<in> timer_window b" by (simp add: timer_window_def)
qed

lemma ngx_abs_diff:
  assumes "x \<in> timer_window b" "y \<in> timer_window b"
  shows "ngx_abs (x - y) = \<bar>int (later b x) - int (later b y)\<bar>"
  using timer_diff [OF assms] timer_diff [OF assms(2,1)] by (simp add: ngx_abs_def)

text \<open>The entry of an event.\<close>

lemma timers_entry:
  assumes t: "timers_ok b st xs" and e: "es_events st a = Some e" "ev_timer_set e"
  obtains us k vs where "xs = us @ (a, k) # vs" "filter (\<lambda>x. fst x \<noteq> a) xs = us @ vs" "\<And>j. (a, j) \<in> set xs \<longleftrightarrow> j = k"
proof -
  have "a \<in> fst ` set xs" using t e by (auto simp: timers_ok_def)
  then obtain k where "(a, k) \<in> set xs" by auto
  then obtain us vs where xs: "xs = us @ (a, k) # vs" by (auto simp: in_set_conv_decomp)
  then have "a \<notin> fst ` set us" "a \<notin> fst ` set vs" using timers_distinct [OF t] by auto
  then have "filter (\<lambda>x. fst x \<noteq> a) us = us" "filter (\<lambda>x. fst x \<noteq> a) vs = vs"
    by (force simp: filter_id_conv)+
  then have "filter (\<lambda>x. fst x \<noteq> a) xs = us @ vs" by (simp add: xs)
  moreover have "(a, j) \<in> set xs \<longleftrightarrow> j = k" for j
    using \<open>a \<notin> fst ` set us\<close> \<open>a \<notin> fst ` set vs\<close> by (force simp: xs)
  ultimately show ?thesis using that xs by blast
qed

text \<open>The base can move up to the clock when no timer is due.\<close>

lemma timers_rebase:
  assumes t: "timers_ok b st xs" and d: "\<forall>x \<in> set xs. \<not> due b st x"
  shows "timers_ok (es_msec st) st xs"
proof -
  let ?m = "es_msec st"
  have l: "later ?m k = later b k - later b ?m" if "later b ?m \<le> later b k" for k
  proof -
    have "k - ?m = (k - b) - (?m - b)" by simp
    then show ?thesis using that by (simp only: unat_sub [of "?m - b" "k - b"] word_le_nat_alt)
  qed
  have x: "later ?m (snd x) = later b (snd x) - later b ?m \<and> later b ?m \<le> later b (snd x)" if "x \<in> set xs" for x
    using d that l [of "snd x"] by (auto simp: due_def)
  have "sorted (map (\<lambda>x. later ?m (snd x)) xs)"
    using t x unfolding timers_ok_def sorted_map by (auto intro: sorted_wrt_mono_rel [rotated] diff_le_mono)
  moreover have "\<forall>x \<in> set xs. snd x \<in> timer_window ?m"
    using t x unfolding timers_ok_def timer_window_def by auto
  ultimately show ?thesis using t by (simp add: timers_ok_def timer_window_def)
qed

section \<open>Expiry\<close>

text \<open>The head of the timers decides what the loop does.\<close>

lemma expire_stop:
  assumes "timers_ok b st xs" "xs = [] \<or> \<not> due b st (hd xs)"
  shows "ngx_event_expire_timers handler st = Some st"
proof (cases xs)
  case Nil
  with assms timers_first(1) [OF assms(1)] show ?thesis by (simp add: ngx_event_expire_timers.simps)
next
  case (Cons x ys)
  have "rd_key (fst x) (es_timers st) = Some (snd x)"
    using timers_key [of b st "[]" "fst x" "snd x" ys] assms(1) Cons by simp
  moreover have "0 < sint (snd x - es_msec st)"
    using due_iff [OF assms(1), of x] assms(2) Cons by simp
  ultimately show ?thesis
    using timers_first [OF assms(1)] Cons by (simp add: ngx_event_expire_timers.simps)
qed

lemma expire_step:
  assumes t: "timers_ok b st ((a, k) # xs)" and d: "due b st (a, k)"
  shows "\<exists>st1 e. timers_ok b st1 xs \<and> es_events st a = Some e \<and>
    es_events st1 = (es_events st)(a \<mapsto> e\<lparr>ev_timer_set := False, ev_timedout := True\<rparr>) \<and>
    es_msec st1 = es_msec st \<and> es_world st1 = es_world st \<and>
    ngx_event_expire_timers handler st = handler a st1 \<bind> ngx_event_expire_timers handler"
proof -
  let ?f = "\<lambda>e. e\<lparr>ev_timer_set := False, ev_timedout := True\<rparr>"
  from delete_timer_ok [of b st "[]" a k xs ?f] t obtain st1 e where
    1: "upd_timers (ngx_rbtree_delete a) st \<bind> upd_event a ?f = Some st1" "timers_ok b st1 xs" "es_events st a = Some e"
      "es_events st1 = (es_events st)(a \<mapsto> ?f e)" "es_msec st1 = es_msec st" "es_world st1 = es_world st" by auto
  have k: "rd_key a (es_timers st) = Some k" using timers_key [of b st "[]"] t by simp
  have "\<not> 0 < sint (k - es_msec st)" using due_iff [OF t, of "(a, k)"] d by simp
  then have "ngx_event_expire_timers handler st =
      upd_timers (ngx_rbtree_delete a) st \<bind> upd_event a ?f \<bind> (\<lambda>st. handler a st \<bind> ngx_event_expire_timers handler)"
    using timers_first [OF t] k by (subst ngx_event_expire_timers.simps) (simp add: Let_def bind_assoc)
  then have "ngx_event_expire_timers handler st = handler a st1 \<bind> ngx_event_expire_timers handler"
    using 1(1) by simp
  with 1(2-) show ?thesis by blast
qed

text \<open>What a handler has to promise for the loop to end: it keeps the timers in order, does not turn
  the clock, and leaves no more due timers than it found.\<close>

locale timer_handler =
  fixes handler :: "nat \<Rightarrow> 'w event_state \<Rightarrow> 'w event_state option"
  assumes handler_ok: "timers_ok b st xs \<Longrightarrow> later b (es_msec st) < 2 ^ 62 \<Longrightarrow> es_events st a = Some e \<Longrightarrow> \<not> ev_timer_set e \<Longrightarrow>
    \<exists>st' ys. handler a st = Some st' \<and> timers_ok b st' ys \<and> es_msec st' = es_msec st \<and>
      length (filter (due b st) ys) \<le> length (filter (due b st) xs)"
begin

lemma expire_returns:
  assumes "timers_ok b st xs" "later b (es_msec st) < 2 ^ 62"
  shows "\<exists>st' ys. ngx_event_expire_timers handler st = Some st' \<and> timers_ok (es_msec st) st' ys \<and> es_msec st' = es_msec st \<and>
    (\<forall>x \<in> set ys. 0 < later (es_msec st) (snd x))"
  using assms
proof (induction "length (filter (due b st) xs)" arbitrary: st xs rule: less_induct)
  case less
  note t = less(2)
  show ?case
  proof (cases "xs = [] \<or> \<not> due b st (hd xs)")
    case True
    have "\<not> due b st x" if "x \<in> set xs" for x
      using True that t by (cases xs) (auto simp: timers_ok_def due_def)
    then have r: "timers_ok (es_msec st) st xs" and "\<forall>x \<in> set xs. snd x \<noteq> es_msec st"
      using timers_rebase [OF t] by (auto, metis due_def order_refl snd_conv)
    then have "\<forall>x \<in> set xs. 0 < later (es_msec st) (snd x)" by (auto simp: unat_gt_0)
    with r expire_stop [OF t True] show ?thesis by blast
  next
    case False
    then obtain a k ys where xs: "xs = (a, k) # ys" "due b st (a, k)" by (cases xs) auto
    from expire_step [OF t [unfolded xs(1)] xs(2), of handler] obtain st1 e where 1: "timers_ok b st1 ys"
      "es_events st1 a = Some (e\<lparr>ev_timer_set := False, ev_timedout := True\<rparr>)" "es_msec st1 = es_msec st"
      "ngx_event_expire_timers handler st = handler a st1 \<bind> ngx_event_expire_timers handler" by auto
    have due: "due b st1 = due b st" using 1(3) by (simp add: due_def fun_eq_iff)
    from handler_ok [OF 1(1) _ 1(2)] less(3) 1(3) obtain st2 zs where 2: "handler a st1 = Some st2" "timers_ok b st2 zs"
      "es_msec st2 = es_msec st" "length (filter (due b st) zs) \<le> length (filter (due b st) ys)" by (auto simp: due)
    have "due b st2 = due b st" using 2(3) by (simp add: due_def fun_eq_iff)
    then have "length (filter (due b st2) zs) < length (filter (due b st) xs)"
      using 2(4) xs by simp
    from less(1) [OF this 2(2)] less(3) show ?thesis using 1(4) 2(1,3) by simp
  qed
qed

end

text \<open>Handlers that leave the timers alone, and handlers that set the timer of their event again.\<close>

interpretation idle: timer_handler "\<lambda>a st. Some (st\<lparr>es_world := f a (es_world st)\<rparr>)" for f
  by unfold_locales (auto simp: timers_ok_def due_def)

lemma filter_insert_entry:
  "\<not> P x \<Longrightarrow> filter P (insert_entry lt x xs) = filter P xs"
  unfolding insert_entry_def by simp (metis filter_append takeWhile_dropWhile_id)

lemma add_timer_new:
  assumes t: "timers_ok b st xs" and e: "es_events st a = Some e" "\<not> ev_timer_set e"
    and d: "later b (es_msec st) + unat d < 2 ^ 63"
  shows "\<exists>st'. ngx_event_add_timer a d st = Some st' \<and> timers_ok b st' (insert_entry timer_less (a, es_msec st + d) xs) \<and>
    es_msec st' = es_msec st \<and> es_world st' = es_world st"
  using set_timer_ok [OF t e later_add(2) [OF d]] e by (auto simp: ngx_event_add_timer_def)

lemma rearming:
  assumes "0 < d" "unat d < 2 ^ 62"
  shows "timer_handler (\<lambda>a. ngx_event_add_timer a d)"
proof
  fix b st xs a e
  assume t: "timers_ok b (st :: 'w event_state) xs" and m: "later b (es_msec st) < 2 ^ 62"
    and e: "es_events st a = Some e" "\<not> ev_timer_set e"
  have d: "later b (es_msec st) + unat d < 2 ^ 63" using m assms(2) by simp
  from add_timer_new [OF t e d] obtain st' where st': "ngx_event_add_timer a d st = Some st'"
    "timers_ok b st' (insert_entry timer_less (a, es_msec st + d) xs)" "es_msec st' = es_msec st" by blast
  have "\<not> due b st (a, es_msec st + d)"
    using later_add(1) [OF d] assms(1) by (simp add: due_def word_less_nat_alt)
  with st' show "\<exists>st' ys. ngx_event_add_timer a d st = Some st' \<and> timers_ok b st' ys \<and> es_msec st' = es_msec st \<and>
      length (filter (due b st) ys) \<le> length (filter (due b st) xs)"
    by (metis filter_insert_entry order_refl)
qed

interpretation rearm_second: timer_handler "\<lambda>a. ngx_event_add_timer a 1000"
  by (rule rearming) simp_all

section \<open>Properties\<close>

text \<open>C24. \<open>ngx_event_add_timer\<close> and \<open>ngx_event_del_timer\<close> refine the operations on the list of timers,
  and keep the tree, the flags \<open>timer_set\<close> and the order in step: adding replaces the timer of the
  event, unless the new time is less than \<open>NGX_TIMER_LAZY_DELAY\<close> away from the old one; deleting
  removes it. The times may wrap around.\<close>

theorem event_timers_refine:
  assumes t: "timers_ok b st xs" and e: "es_events st a \<noteq> None" and d: "later b (es_msec st) + unat d < 2 ^ 63"
  shows "(\<exists>st'. ngx_event_add_timer a d st = Some st' \<and> es_msec st' = es_msec st \<and> es_world st' = es_world st \<and>
      timers_ok b st'
        (if \<exists>k. (a, k) \<in> set xs \<and> \<bar>int (later b (es_msec st + d)) - int (later b k)\<bar> < 300 then xs
         else insert_entry timer_less (a, es_msec st + d) (filter (\<lambda>x. fst x \<noteq> a) xs))) \<and>
    (a \<in> fst ` set xs \<longrightarrow> (\<exists>st'. ngx_event_del_timer a st = Some st' \<and> timers_ok b st' (filter (\<lambda>x. fst x \<noteq> a) xs) \<and>
      es_msec st' = es_msec st \<and> es_world st' = es_world st))"
proof
  obtain e where e: "es_events st a = Some e" using assms(2) by auto
  let ?key = "es_msec st + d"
  note key = later_add [OF d]
  show "\<exists>st'. ngx_event_add_timer a d st = Some st' \<and> es_msec st' = es_msec st \<and> es_world st' = es_world st \<and>
      timers_ok b st'
        (if \<exists>k. (a, k) \<in> set xs \<and> \<bar>int (later b ?key) - int (later b k)\<bar> < 300 then xs
         else insert_entry timer_less (a, ?key) (filter (\<lambda>x. fst x \<noteq> a) xs))"
  proof (cases "ev_timer_set e")
    case True
    from timers_entry [OF t e True] obtain us k vs where xs: "xs = us @ (a, k) # vs" "filter (\<lambda>x. fst x \<noteq> a) xs = us @ vs"
      "\<And>j. (a, j) \<in> set xs \<longleftrightarrow> j = k" by blast
    have "k \<in> timer_window b" using t xs(1) by (auto simp: timers_ok_def)
    note abs = ngx_abs_diff [OF key(2) this]
    have k: "rd_key a (es_timers st) = Some k" using timers_key [OF t [unfolded xs(1)]] .
    from del_timer_ok [OF t [unfolded xs(1)]] obtain st1 e1 where
      1: "ngx_event_del_timer a st = Some st1" "timers_ok b st1 (us @ vs)" "es_events st1 a = Some e1" "\<not> ev_timer_set e1"
        "es_msec st1 = es_msec st" "es_world st1 = es_world st" by blast
    from set_timer_ok [OF 1(2-4) key(2)] obtain st2 where "set_timer a ?key st1 = Some st2"
      "timers_ok b st2 (insert_entry timer_less (a, ?key) (us @ vs))" "es_msec st2 = es_msec st1" "es_world st2 = es_world st1" by blast
    moreover have "ngx_event_add_timer a d st = (if \<bar>int (later b ?key) - int (later b k)\<bar> < 300 then Some st
        else ngx_event_del_timer a st \<bind> set_timer a ?key)"
      using True e k by (simp add: ngx_event_add_timer_def abs NGX_TIMER_LAZY_DELAY_def)
    ultimately show ?thesis using 1(1,5,6) t unfolding xs(2,3) by simp
  next
    case False
    have "a \<notin> fst ` set xs" using t e False by (auto simp: timers_ok_def)
    then have "filter (\<lambda>x. fst x \<noteq> a) xs = xs" "\<And>k. (a, k) \<notin> set xs"
      by (force simp: filter_id_conv)+
    with add_timer_new [OF t e False d] show ?thesis by auto
  qed
  show "a \<in> fst ` set xs \<longrightarrow> (\<exists>st'. ngx_event_del_timer a st = Some st' \<and> timers_ok b st' (filter (\<lambda>x. fst x \<noteq> a) xs) \<and>
      es_msec st' = es_msec st \<and> es_world st' = es_world st)"
  proof
    assume "a \<in> fst ` set xs"
    then have "ev_timer_set e" using t e by (auto simp: timers_ok_def)
    then obtain us k vs where xs: "xs = us @ (a, k) # vs" "filter (\<lambda>x. fst x \<noteq> a) xs = us @ vs"
      using timers_entry [OF t e] by metis
    from del_timer_ok [OF t [unfolded xs(1)]]
    show "\<exists>st'. ngx_event_del_timer a st = Some st' \<and> timers_ok b st' (filter (\<lambda>x. fst x \<noteq> a) xs) \<and>
      es_msec st' = es_msec st \<and> es_world st' = es_world st" unfolding xs(2) by blast
  qed
qed

text \<open>\<open>ngx_event_find_timer\<close> returns the time to the earliest timer: \<open>NGX_TIMER_INFINITE\<close> without
  timers, 0 when one is due, and otherwise the distance, which no other timer falls below.\<close>

theorem event_find_timer:
  assumes t: "timers_ok b st xs"
  shows "ngx_event_find_timer st = Some (if xs = [] then - 1 else
      of_nat (later b (snd (hd xs)) - later b (es_msec st))) \<and>
    (\<forall>x \<in> set xs. later b (snd (hd xs)) \<le> later b (snd x))"
proof
  show "\<forall>x \<in> set xs. later b (snd (hd xs)) \<le> later b (snd x)"
    using t by (cases xs) (auto simp: timers_ok_def)
  show "ngx_event_find_timer st = Some (if xs = [] then - 1 else of_nat (later b (snd (hd xs)) - later b (es_msec st)))"
  proof (cases xs)
    case Nil
    with timers_first(1) [OF t] show ?thesis by (simp add: ngx_event_find_timer_def NGX_TIMER_INFINITE_def)
  next
    case (Cons x ys)
    have k: "rd_key (fst x) (es_timers st) = Some (snd x)"
      using timers_key [of b st "[]" "fst x" "snd x" ys] t Cons by simp
    have "snd x - es_msec st = of_nat (later b (snd x) - later b (es_msec st))" if "\<not> due b st x"
    proof -
      have "snd x - es_msec st = (snd x - b) - (es_msec st - b)" by simp
      also have "\<dots> = of_nat (later b (snd x)) - of_nat (later b (es_msec st))" by simp
      finally show ?thesis using that by (simp add: due_def of_nat_diff)
    qed
    moreover have "later b (snd x) - later b (es_msec st) = 0" if "due b st x" using that by (simp add: due_def)
    ultimately show ?thesis
      using due_iff [OF t, of x] timers_first [OF t] k Cons by (auto simp: ngx_event_find_timer_def Let_def)
  qed
qed

text \<open>What the loop does with handlers that leave the timers alone.\<close>

lemma expire_idle:
  fixes f :: "nat \<Rightarrow> 'w \<Rightarrow> 'w"
  defines "h \<equiv> \<lambda>a st. Some (st\<lparr>es_world := f a (es_world st)\<rparr>)"
  assumes "timers_ok b st xs"
  shows "\<exists>st'. ngx_event_expire_timers h st = Some st' \<and> timers_ok b st' (filter (\<lambda>x. \<not> due b st x) xs) \<and>
    es_msec st' = es_msec st \<and> es_world st' = fold f (map fst (filter (due b st) xs)) (es_world st) \<and>
    (\<forall>x \<in> set xs. due b st x \<longrightarrow> (\<exists>e. es_events st' (fst x) = Some e \<and> ev_timedout e)) \<and>
    (\<forall>a e. es_events st a = Some e \<longrightarrow> ev_timedout e \<longrightarrow> (\<exists>e'. es_events st' a = Some e' \<and> ev_timedout e'))"
  using assms(2)
proof (induction xs arbitrary: st)
  case Nil
  with expire_stop [OF Nil, of h] show ?case by auto
next
  case (Cons x xs)
  obtain a k where x: "x = (a, k)" by (cases x)
  show ?case
  proof (cases "due b st x")
    case False
    have "\<not> due b st y" if "y \<in> set xs" for y
      using False Cons(2) that by (auto simp: timers_ok_def due_def)
    then have "filter (due b st) (x # xs) = []" "filter (\<lambda>x. \<not> due b st x) (x # xs) = x # xs"
      using False by (auto simp: filter_empty_conv filter_id_conv)
    moreover have "\<not> due b st y" if "y \<in> set (x # xs)" for y
      using that calculation(1) by (metis filter_empty_conv)
    ultimately show ?thesis using expire_stop [OF Cons(2), of h] False Cons(2) by auto
  next
    case True
    from expire_step [OF Cons(2) [unfolded x] True [unfolded x], of h] obtain st1 e where 1: "timers_ok b st1 xs"
      "es_events st1 = (es_events st)(a \<mapsto> e\<lparr>ev_timer_set := False, ev_timedout := True\<rparr>)"
      "es_msec st1 = es_msec st" "es_world st1 = es_world st"
      "ngx_event_expire_timers h st = h a st1 \<bind> ngx_event_expire_timers h" by blast
    let ?st = "st1\<lparr>es_world := f a (es_world st1)\<rparr>"
    have t: "timers_ok b ?st xs" using 1(1) by (simp add: timers_ok_def)
    have d: "due b ?st = due b st" using 1(3) by (simp add: due_def fun_eq_iff)
    from Cons(1) [OF t] obtain st' where 2: "ngx_event_expire_timers h ?st = Some st'"
      "timers_ok b st' (filter (\<lambda>x. \<not> due b st x) xs)" "es_msec st' = es_msec st"
      "es_world st' = fold f (map fst (filter (due b st) xs)) (f a (es_world st))"
      "\<forall>x \<in> set xs. due b st x \<longrightarrow> (\<exists>e. es_events st' (fst x) = Some e \<and> ev_timedout e)"
      "\<forall>a e. es_events st1 a = Some e \<longrightarrow> ev_timedout e \<longrightarrow> (\<exists>e'. es_events st' a = Some e' \<and> ev_timedout e')"
      unfolding d using 1(3,4) by auto
    have "\<exists>e'. es_events st' a = Some e' \<and> ev_timedout e'" using 2(6) 1(2) by simp
    moreover have "\<forall>c e. es_events st c = Some e \<longrightarrow> ev_timedout e \<longrightarrow> (\<exists>e'. es_events st' c = Some e' \<and> ev_timedout e')"
      using 2(6) 1(2) calculation by (metis fun_upd_other)
    ultimately show ?thesis using 1(5) 2(1-5) True x by (simp add: h_def)
  qed
qed

text \<open>C25. \<open>ngx_event_expire_timers\<close> calls the handlers of exactly the timers that are due, in the
  order of their times, and sets \<open>timedout\<close> in their events; the other timers stay. Here the handlers
  do anything but change the timers. Afterwards no timer is due, so the window of the times can start
  at the clock again: this is how the invariant lives through the overflow of the milliseconds.\<close>

theorem event_expire_due:
  assumes "timers_ok b st xs"
  shows "\<exists>st'. ngx_event_expire_timers (\<lambda>a st. Some (st\<lparr>es_world := f a (es_world st)\<rparr>)) st = Some st' \<and>
    es_world st' = fold f (map fst (filter (due b st) xs)) (es_world st) \<and>
    timers_ok (es_msec st) st' (filter (\<lambda>x. \<not> due b st x) xs) \<and>
    (\<forall>x \<in> set (filter (due b st) xs). \<exists>e. es_events st' (fst x) = Some e \<and> ev_timedout e)"
proof -
  obtain st' where s: "ngx_event_expire_timers (\<lambda>a st. Some (st\<lparr>es_world := f a (es_world st)\<rparr>)) st = Some st'"
    "timers_ok b st' (filter (\<lambda>x. \<not> due b st x) xs)" "es_msec st' = es_msec st"
    "es_world st' = fold f (map fst (filter (due b st) xs)) (es_world st)"
    "\<forall>x \<in> set xs. due b st x \<longrightarrow> (\<exists>e. es_events st' (fst x) = Some e \<and> ev_timedout e)"
    using expire_idle [OF assms, of f] by blast
  have "timers_ok (es_msec st) st' (filter (\<lambda>x. \<not> due b st x) xs)"
    using timers_rebase [OF s(2)] s(3) by (simp add: due_def)
  with s show ?thesis by auto
qed

text \<open>C26. Timers that are set again in their own handlers do not keep the loop of
  \<open>ngx_event_expire_timers\<close> alive: with a delay of at least a millisecond it returns, and every timer
  lies in the future.\<close>

theorem event_expire_rearm:
  assumes "timers_ok b st xs" "later b (es_msec st) < 2 ^ 62" "0 < d" "unat d < 2 ^ 62"
  shows "\<exists>st' ys. ngx_event_expire_timers (\<lambda>a. ngx_event_add_timer a d) st = Some st' \<and>
    timers_ok (es_msec st) st' ys \<and> es_msec st' = es_msec st \<and> (\<forall>x \<in> set ys. 0 < sint (snd x - es_msec st))"
proof -
  from timer_handler.expire_returns [OF rearming [OF assms(3,4)] assms(1,2)] obtain st' ys where
    r: "ngx_event_expire_timers (\<lambda>a. ngx_event_add_timer a d) st = Some st'" "timers_ok (es_msec st) st' ys"
      "es_msec st' = es_msec st" "\<forall>x \<in> set ys. 0 < later (es_msec st) (snd x)" by blast
  have "0 < sint (snd x - es_msec st)" if "x \<in> set ys" for x
    using due_iff [OF r(2) that] r(3,4) that by (auto simp: due_def)
  with r show ?thesis by blast
qed

lemma no_timers_loop_ok:
  assumes t: "timers_ok b st (us @ vs)"
  shows "no_timers_loop (first_addr vs) st = Some (\<forall>x \<in> set vs. \<forall>e. es_events st (fst x) = Some e \<longrightarrow> ev_cancelable e)"
  using t
proof (induction vs arbitrary: us)
  case Nil
  then show ?case by (simp add: no_timers_loop.simps first_addr_def)
next
  case (Cons x vs)
  obtain a k where x: "x = (a, k)" by (cases x)
  obtain e where e: "es_events st a = Some e" using timers_event [OF Cons(2), of a] x by auto
  have a: "a \<noteq> 0" using Cons(2) e by (auto simp: timers_ok_def)
  obtain T where T: "focus (es_timers st) [] T" "entries T = us @ (a, k) # vs"
    using Cons(2) x by (auto simp: timers_ok_def rbtree_ok_def)
  have "timers_ok b st ((us @ [x]) @ vs)" using Cons(2) by simp
  from Cons(1) [OF this] rbtree_next_focus [OF T] e a show ?case
    by (subst no_timers_loop.simps) (auto simp: x first_addr_def)
qed

text \<open>\<open>ngx_event_no_timers_left\<close> returns \<open>NGX_OK\<close> exactly when every timer in the tree is
  cancelable.\<close>

theorem event_no_timers_left:
  assumes t: "timers_ok b st xs"
  shows "ngx_event_no_timers_left st = Some (\<forall>a \<in> fst ` set xs. \<forall>e. es_events st a = Some e \<longrightarrow> ev_cancelable e)"
proof (cases xs)
  case Nil
  with timers_first(1) [OF t] show ?thesis by (simp add: ngx_event_no_timers_left_def)
next
  case (Cons x ys)
  then have "first_addr xs = fst (hd xs)" by (simp add: first_addr_def)
  with timers_first [OF t] no_timers_loop_ok [of b st "[]" xs] t Cons show ?thesis
    by (simp add: ngx_event_no_timers_left_def Let_def)
qed

section \<open>Witnesses\<close>

definition sample_timers :: "nat list event_state" where
  "sample_timers = \<lparr>es_timers = sample_rbtree (- 10) 400 0,
     es_events = [1 \<mapsto> \<lparr>ev_timedout = False, ev_timer_set = True, ev_cancelable = True\<rparr>,
       2 \<mapsto> \<lparr>ev_timedout = False, ev_timer_set = True, ev_cancelable = False\<rparr>,
       3 \<mapsto> \<lparr>ev_timedout = False, ev_timer_set = False, ev_cancelable = False\<rparr>],
     es_msec = - 5, es_world = []\<rparr>"

lemma sample_timers_ok: "timers_ok (- 10) sample_timers [(1, - 10), (2, 400)]"
proof -
  have "rbtree_ok (es_timers sample_timers) \<langle>\<langle>\<rangle>, (1, False, - 10), \<langle>\<langle>\<rangle>, (2, True, 400), \<langle>\<rangle>\<rangle>\<rangle>"
    using sample_rbtree_ok(1) [of "- 10" 400 0] by (simp add: sample_timers_def)
  moreover have "entries \<langle>\<langle>\<rangle>, (1, False, - 10), \<langle>\<langle>\<rangle>, (2, True, 400), \<langle>\<rangle>\<rangle>\<rangle> = [(1, - 10), (2, 400)]" by simp
  ultimately show ?thesis
    unfolding timers_ok_def by (force simp: sample_timers_def timer_window_def sample_rbtree_def)
qed

lemma sample_timers_simps [simp]:
  "es_msec sample_timers = - 5" "es_world sample_timers = []"
  "es_events sample_timers a \<noteq> None \<longleftrightarrow> a \<in> {1, 2, 3}"
  "later (- 10) (es_msec sample_timers) = 5" "due (- 10) sample_timers (Suc 0, - 10)" "\<not> due (- 10) sample_timers (2, 400)"
  by (auto simp: sample_timers_def due_def)

lemma sample_timers_2: "es_events sample_timers 2 \<noteq> None"
  by (simp add: sample_timers_def)

theorem event_timers_refine_witness:
  "\<exists>st'. ngx_event_add_timer 2 1000 sample_timers = Some st' \<and>
     timers_ok (- 10) st' [(1, - 10), (2, 995)]"
proof -
  have "later (- 10) (es_msec sample_timers) + unat (1000 :: 64 word) < 2 ^ 63" by (simp add: sample_timers_def)
  from event_timers_refine [OF sample_timers_ok sample_timers_2 this] show ?thesis
    by (auto simp: insert_entry_def timer_less_def)
qed

theorem event_find_timer_witness: "ngx_event_find_timer sample_timers = Some 0"
  using event_find_timer [OF sample_timers_ok] by (simp add: sample_timers_def)

theorem event_expire_due_witness:
  "\<exists>st'. ngx_event_expire_timers (\<lambda>a st. Some (st\<lparr>es_world := es_world st @ [a]\<rparr>)) sample_timers = Some st' \<and>
     es_world st' = [1] \<and> timers_ok (- 5) st' [(2, 400)]"
  using event_expire_due [OF sample_timers_ok, of "\<lambda>a w. w @ [a]"] by auto

theorem event_expire_rearm_witness:
  "\<exists>st'. ngx_event_expire_timers (\<lambda>a. ngx_event_add_timer a 1000) sample_timers = Some st'"
  using event_expire_rearm [OF sample_timers_ok, of 1000] by (auto simp: word_less_nat_alt)

theorem event_no_timers_left_witness: "ngx_event_no_timers_left sample_timers = Some False"
  using event_no_timers_left [OF sample_timers_ok] by (simp add: sample_timers_def)

end
