(* ===== verification/Spec2Isabelle.thy ===== *)
theory Spec2Isabelle
  imports Ngx_Number Ngx_Http_Time Ngx_Base64 Ngx_Utf8 Ngx_Escape Ngx_Strings Http_Header_Spec Http_Uri Http_Process_Uri
    Http_Status_Line Http_Args Http_Chunked_Body Http2_Field Http2_Table Ngx_Queue Ngx_Event_Timer
begin

text \<open>
  A verification development for nginx 1.12.0. All paths below are relative to
  \<open>nginx-release-1.12.0\<close> in the repository; the other program there, PHP 7.1.3, is not modelled.

  \<^bold>\<open>The program.\<close> A worker of nginx reads bytes from connections, parses them into requests, hands
  the requests to modules and sends what they answer. Everything runs in one thread around an event
  loop, so the parsers are state machines that stop when a buffer is used up (\<open>NGX_AGAIN\<close>) and go on
  with the next one; the header blocks of HTTP/2 are read the same way, through the decompression of
  HPACK. Below them lie strings and numbers (\<open>src/core/ngx_string.c\<close>), dates
  (\<open>src/core/ngx_times.c\<close>, \<open>src/core/ngx_parse_time.c\<close>) and the intrusive containers
  (\<open>src/core/ngx_queue.c\<close>, \<open>src/core/ngx_rbtree.c\<close>); the event loop keeps its timers in a red-black
  tree. This is the part that is modelled. Allocation, files, sockets and configuration around it
  are not.

  \<^bold>\<open>The theories.\<close> \<open>Ngx_Prelude\<close> holds what all share: bytes as 8-bit words, checked reads, the
  character tables, lemmas on words.

  \<^item> \<open>Ngx_Number\<close>: \<open>ngx_atoi\<close> and its variants, \<open>ngx_atofp\<close>, \<open>ngx_hextoi\<close>, \<open>ngx_hex_dump\<close>,
    \<open>ngx_sprintf_num\<close>. The readers return the value of the digits, or \<open>NGX_ERROR\<close> exactly when there
    is none that fits; printing and reading are inverse.
  \<^item> \<open>Ngx_Sprintf\<close>: \<open>ngx_vslprintf\<close> and its callers. Nothing is written past \<open>last\<close>, and a limit only
    cuts the text off.
  \<^item> \<open>Ngx_Base64\<close>, \<open>Ngx_Utf8\<close>, \<open>Ngx_Escape\<close>, \<open>Ngx_Strings\<close>: codecs, escaping, comparison and search.
    Round trips, exact lengths, and for every function the reads it makes.
  \<^item> \<open>Ngx_Times\<close>, \<open>Ngx_Http_Time\<close>: \<open>ngx_gmtime\<close> against a calendar defined by the lengths of its
    years and months, and the parser of HTTP dates against the printer.
  \<^item> \<open>Http_Base\<close>, \<open>Http_Request_Line\<close>, \<open>Http_Request_Spec\<close>: the request line parser
    (\<open>src/http/ngx_http_parse.c\<close>), a step function over the states of the source. Cutting the input
    into buffers does not change the result; what an accepted line guarantees; printed lines are
    read back.
  \<^item> \<open>Http_Header_Line\<close>, \<open>Http_Header_Spec\<close>, \<open>Http_Status_Line\<close>: the same for header lines and status
    lines.
  \<^item> \<open>Http_Uri\<close>, \<open>Http_Complex_Uri\<close>, \<open>Http_Complex_Spec\<close>, \<open>Http_Process_Uri\<close>: the normalisation of a
    URI and \<open>ngx_http_process_request_uri\<close> of \<open>src/http/ngx_http_request.c\<close>, which composes it with the
    request line parser. The path a request is served from is normal, however it was written, and a
    path that skips the normalisation is the one it would have produced.
  \<^item> \<open>Http_Args\<close>: arguments, cookies, \<open>ngx_http_parse_unsafe_uri\<close>.
  \<^item> \<open>Http_Chunked\<close>, \<open>Http_Chunked_Body\<close>: the parser of chunked bodies and the body filter of
    \<open>src/http/ngx_http_request_body.c\<close>, which refines a byte-wise decoder.
  \<^item> \<open>Http2_Huff_Table\<close>, \<open>Http2_Huff_States\<close>, \<open>Http2_Huff\<close>: the Huffman coding of HPACK
    (\<open>src/http/v2/ngx_http_v2_huff_decode.c\<close>, \<open>src/http/v2/ngx_http_v2_huff_encode.c\<close>) with its tables as
    the source has them. The states of the decoder are the inner nodes of the code tree, which is shown
    entry by entry; encoder and decoder are specified by the bits they write and read.
  \<^item> \<open>Http2_Int\<close>, \<open>Http2_Field\<close>: the integers and strings of HPACK, written in
    \<open>src/http/v2/ngx_http_v2_filter_module.c\<close> and read by the states of \<open>src/http/v2/ngx_http_v2.c\<close>. A
    string is read back from any number of CONTINUATION frames and pieces of input. The states for
    compressed, raw and skipped strings interpret one locale.
  \<^item> \<open>Http2_Table\<close>: the tables of header fields, \<open>src/http/v2/ngx_http_v2_table.c\<close>. A ring of bytes and
    a ring of pointers refine a list of headers that is bounded by the sum of their sizes.
  \<^item> \<open>Ngx_Queue\<close>: the macros of \<open>src/core/ngx_queue.h\<close> and \<open>src/core/ngx_queue.c\<close> on a store of cells;
    they refine lists, and \<open>ngx_queue_sort\<close> is a stable sort.
  \<^item> \<open>Ngx_Rbtree\<close>, \<open>Ngx_Rbtree_Insert\<close>, \<open>Ngx_Rbtree_Delete\<close>: the operations of
    \<open>src/core/ngx_rbtree.c\<close> on a memory of nodes with parent pointers and a shared sentinel; the
    rotations, insertion, deletion and traversal. A locale states the order that \<open>tree->insert\<close> has to
    follow and is interpreted for both functions of the file.
  \<^item> \<open>Ngx_Event_Timer\<close>: \<open>src/event/ngx_event_timer.c\<close>, a client of these trees. The timers refine a list
    sorted by time, within a window of half the range of the milliseconds, which wrap around. The locale
    \<open>timer_handler\<close> is the contract of \<open>ev->handler\<close>.

  \<^bold>\<open>How the code is modelled.\<close> A structure is a record, an enumeration a datatype. A pair of a
  pointer and a length that is only read is a list of bytes, a pointer into it an offset; the parsers
  keep offsets from the start of the buffer, so the offsets survive a second buffer as the pointers
  do. Where a function may read outside its argument the read is checked and \<open>None\<close> is a read outside.
  Objects that are linked and updated in place (queues, trees) live in a partial map from addresses;
  following a pointer to no object is \<open>None\<close>, so a theorem that says \<open>Some\<close> says that there is none.
  Machine integers are words of their width wherever they can wrap, otherwise naturals with the
  bound proved. The target is LP64, with \<open>NGX_WIN32\<close> and \<open>NGX_DEBUG\<close> undefined; logging is left out.

  \<^bold>\<open>Loops.\<close> Loops over a buffer are structural recursion or \<open>function\<close> with a measure. Loops that
  follow pointers, and those of the body filter, which may go on without reading a byte, are
  \<open>partial_function (option)\<close>, and the theorems about them prove that they return; there is no fuel. No
  bound is put on the length of an input but those the types of the source give; a theorem that needs
  such a bound states it.

  \<^bold>\<open>What the proof of a parser looks like.\<close> Each state is a definition of its own, collected in
  \<open>parser_step\<close>; the loop is shared through the locales of \<open>Http_Base\<close>, which give the lemmas on
  pieces of input once, and the parsers of request lines, header lines and status lines interpret
  them. The strings of HPACK have a locale of their own, \<open>field_reader\<close>, as their states share the
  handling of frames.

  \<^bold>\<open>Not modelled.\<close> Memory pools and buffers: allocation is success or failure, an oracle where the code
  goes on after a failure. Everything that talks to the operating system: sockets, files, processes,
  shared memory, the event loop and its modules, the clock behind \<open>ngx_time_update\<close>. The conversion
  \<open>%f\<close>, whose argument is a double. Of \<open>src/http/ngx_http_request_body.c\<close> the filter for bodies with a length and the buffering to files.
  The phases, variables and modules of HTTP, the upstream and cache machinery, the frames, streams and
  output of HTTP/2, mail, stream, the resolver and the configuration parser call the modelled functions,
  but they work on live connections. The counters of the HPACK table are naturals: their words would
  overflow after 2^64 headers. Digests are published algorithms without a specification in the repository.
\<close>

end
